(* ===== verification/Prelude.thy ===== *)
theory Prelude
  imports Main "HOL-Library.Sublist"
begin

text \<open>
  Shared material of the SelfSync development: the parts of the JavaScript string and array
  library that the client uses, and the generic list lemmas that the components share.

  Paths, hashes and messages are \<^typ>\<open>string\<close>s, one \<^typ>\<open>char\<close> per UTF-16 code unit, exact on
  code units up to U+00FF. The text of a note is a \<open>utext\<close>, the list of its UTF-16 code units as
  natural numbers, and the content of a file a \<open>bytes\<close>. Where the client asks the host for Unicode
  knowledge (normalisation to NFC, the UTF-8 codec) the function is an explicit parameter of the
  definitions that use it.

  The collections: \<open>js_simps\<close> gathers the rewrite rules of the string library,
  \<open>machine_simps\<close> the definitions that unfold a state machine's one-step function.
\<close>

named_theorems js_simps \<open>rewrite rules of the JavaScript string library\<close>
named_theorems machine_simps \<open>definitions that unfold one step of a state machine\<close>

type_synonym path = string
type_synonym hash = string
type_synonym utext = "nat list"
type_synonym bytes = "nat list"

subsection \<open>Strings\<close>

definition startsWith :: "'a list \<Rightarrow> 'a list \<Rightarrow> bool" where
  "startsWith s p \<longleftrightarrow> take (length p) s = p"

definition endsWith :: "'a list \<Rightarrow> 'a list \<Rightarrow> bool" where
  "endsWith s p \<longleftrightarrow> length p \<le> length s \<and> drop (length s - length p) s = p"

text \<open>\<open>String.prototype.toLowerCase\<close> on the code units U+0000 to U+00FF.\<close>

definition lowerChar :: "char \<Rightarrow> char" where
  "lowerChar c =
     (let n = of_char c :: nat in
      if (65 \<le> n \<and> n \<le> 90) \<or> (192 \<le> n \<and> n \<le> 222 \<and> n \<noteq> 215) then char_of (n + 32) else c)"

definition toLowerCase :: "string \<Rightarrow> string" where
  "toLowerCase s = map lowerChar s"

text \<open>The white space that \<open>String.prototype.trim\<close> removes, up to U+00FF.\<close>

definition isJsSpace :: "char \<Rightarrow> bool" where
  "isJsSpace c \<longleftrightarrow> (of_char c :: nat) \<in> {9, 10, 11, 12, 13, 32, 160}"

definition trimEndBy :: "('a \<Rightarrow> bool) \<Rightarrow> 'a list \<Rightarrow> 'a list" where
  "trimEndBy p s = rev (dropWhile p (rev s))"

definition trim :: "string \<Rightarrow> string" where
  "trim s = trimEndBy isJsSpace (dropWhile isJsSpace s)"

text \<open>\<open>s.split(c)\<close> for a one-character separator: never the empty list.\<close>

fun splitOn :: "'a \<Rightarrow> 'a list \<Rightarrow> 'a list list" where
  "splitOn c [] = [[]]"
| "splitOn c (x # xs) =
     (if x = c then [] # splitOn c xs
      else (case splitOn c xs of [] \<Rightarrow> [[x]] | y # ys \<Rightarrow> (x # y) # ys))"

fun joinWith :: "'a list \<Rightarrow> 'a list list \<Rightarrow> 'a list" where
  "joinWith sep [] = []"
| "joinWith sep [x] = x"
| "joinWith sep (x # y # zs) = x @ sep @ joinWith sep (y # zs)"

text \<open>\<open>s.lastIndexOf(c)\<close>; \<^const>\<open>None\<close> stands for -1.\<close>

fun lastIndexOf :: "'a \<Rightarrow> 'a list \<Rightarrow> nat option" where
  "lastIndexOf c [] = None"
| "lastIndexOf c (x # xs) =
     (case lastIndexOf c xs of
        Some i \<Rightarrow> Some (Suc i)
      | None \<Rightarrow> if x = c then Some 0 else None)"

fun indexOf :: "'a \<Rightarrow> 'a list \<Rightarrow> nat option" where
  "indexOf c [] = None"
| "indexOf c (x # xs) = (if x = c then Some 0 else map_option Suc (indexOf c xs))"

text \<open>\<open>s.includes(p)\<close>.\<close>

fun strIncludes :: "'a list \<Rightarrow> 'a list \<Rightarrow> bool" where
  "strIncludes [] p = (p = [])"
| "strIncludes (x # xs) p = (startsWith (x # xs) p \<or> strIncludes xs p)"

text \<open>\<open>[...new Set(xs)]\<close>: the distinct elements in order of first occurrence.\<close>

definition jsDistinct :: "'a list \<Rightarrow> 'a list" where
  "jsDistinct xs = rev (remdups (rev xs))"

subsection \<open>Lemmas of the string library\<close>

lemma startsWith_iff: "startsWith s p \<longleftrightarrow> (\<exists>r. s = p @ r)"
  unfolding startsWith_def by (metis append_eq_conv_conj append_take_drop_id)

lemma startsWith_append [js_simps, simp]: "startsWith (p @ r) p"
  by (auto simp: startsWith_iff)

lemma endsWith_iff: "endsWith s p \<longleftrightarrow> (\<exists>r. s = r @ p)"
proof
  assume "endsWith s p"
  then show "\<exists>r. s = r @ p"
    unfolding endsWith_def by (metis append_take_drop_id)
qed (auto simp: endsWith_def)

lemma length_toLowerCase [simp]: "length (toLowerCase s) = length s"
  by (simp add: toLowerCase_def)

lemma toLowerCase_append [simp]: "toLowerCase (a @ b) = toLowerCase a @ toLowerCase b"
  by (simp add: toLowerCase_def)

lemma lowerChar_idem [simp]: "lowerChar (lowerChar c) = lowerChar c"
proof (cases "(65 \<le> (of_char c :: nat) \<and> (of_char c :: nat) \<le> 90)
      \<or> (192 \<le> (of_char c :: nat) \<and> (of_char c :: nat) \<le> 222 \<and> (of_char c :: nat) \<noteq> 215)")
  case True
  then have "(of_char (char_of ((of_char c :: nat) + 32)) :: nat) = of_char c + 32"
    by (auto simp: of_char_of)
  with True show ?thesis by (auto simp: lowerChar_def Let_def)
next
  case False
  then have "lowerChar c = c" by (auto simp: lowerChar_def Let_def)
  then show ?thesis by simp
qed

lemma of_lowerChar:
  "(of_char (lowerChar c) :: nat) = of_char c \<or> (65 \<le> (of_char c :: nat) \<and> (of_char (lowerChar c) :: nat) = of_char c + 32)"
proof (cases "(65 \<le> (of_char c :: nat) \<and> (of_char c :: nat) \<le> 90)
      \<or> (192 \<le> (of_char c :: nat) \<and> (of_char c :: nat) \<le> 222 \<and> (of_char c :: nat) \<noteq> 215)")
  case True
  then have "(of_char (char_of ((of_char c :: nat) + 32)) :: nat) = of_char c + 32"
    by (auto simp: of_char_of)
  with True show ?thesis by (auto simp: lowerChar_def Let_def)
qed (auto simp: lowerChar_def Let_def)

lemma lowerChar_slash [simp]: "lowerChar c = CHR ''/'' \<longleftrightarrow> c = CHR ''/''"
proof
  assume c: "lowerChar c = CHR ''/''"
  then have "(of_char c :: nat) = of_char (CHR ''/'')" using of_lowerChar [of c] by auto
  then show "c = CHR ''/''" by (simp only: of_char_eq_iff)
qed (simp add: lowerChar_def)

lemma toLowerCase_idem [simp]: "toLowerCase (toLowerCase s) = toLowerCase s"
  by (simp add: toLowerCase_def)

lemma splitOn_not_Nil [simp]: "splitOn c s \<noteq> []"
  by (induction s) (auto split: list.splits)

lemma join_split [simp]: "joinWith [c] (splitOn c s) = s"
proof (induction s)
  case (Cons x xs)
  obtain y ys where split: "splitOn c xs = y # ys"
    by (meson neq_Nil_conv splitOn_not_Nil)
  with Cons.IH show ?case by (cases ys) auto
qed simp

lemma splitOn_free: "\<forall>seg \<in> set (splitOn c s). c \<notin> set seg"
proof (induction s)
  case (Cons x xs)
  then show ?case by (cases "splitOn c xs") auto
qed simp

lemma hd_splitOn_lower:
  "hd (splitOn (CHR ''/'') (toLowerCase s)) = toLowerCase (hd (splitOn (CHR ''/'') s))"
proof (induction s)
  case (Cons x xs)
  obtain a as b bs where "splitOn (CHR ''/'') xs = a # as" "splitOn (CHR ''/'') (toLowerCase xs) = b # bs"
    by (meson neq_Nil_conv splitOn_not_Nil)
  with Cons show ?case by (simp add: toLowerCase_def)
qed (simp add: toLowerCase_def)

lemma splitOn_no_sep: "c \<notin> set s \<Longrightarrow> splitOn c s = [s]"
  by (induction s) auto

lemma splitOn_append_sep: "c \<notin> set x \<Longrightarrow> splitOn c (x @ c # s) = x # splitOn c s"
  by (induction x) auto

lemma split_join:
  "xs \<noteq> [] \<Longrightarrow> \<forall>x \<in> set xs. c \<notin> set x \<Longrightarrow> splitOn c (joinWith [c] xs) = xs"
  by (induction "[c]" xs rule: joinWith.induct) (auto simp: splitOn_no_sep splitOn_append_sep)

lemma joinWith_append:
  "xs \<noteq> [] \<Longrightarrow> ys \<noteq> [] \<Longrightarrow> joinWith sep (xs @ ys) = joinWith sep xs @ sep @ joinWith sep ys"
proof (induction sep xs rule: joinWith.induct)
  case (2 sep x)
  then show ?case by (cases ys) auto
qed auto

lemma lastIndexOf_None: "lastIndexOf c s = None \<longleftrightarrow> c \<notin> set s"
  by (induction s) (auto split: option.splits)

lemma lastIndexOf_Some:
  "lastIndexOf c s = Some i \<Longrightarrow> i < length s \<and> s ! i = c \<and> c \<notin> set (drop (Suc i) s)"
  by (induction s arbitrary: i) (auto simp: lastIndexOf_None split: option.splits if_splits)

lemma lastIndexOf_append:
  "c \<notin> set b \<Longrightarrow> lastIndexOf c (a @ c # b) = Some (length a)"
  by (induction a) (auto simp: lastIndexOf_None split: option.splits)

lemma set_jsDistinct [simp]: "set (jsDistinct xs) = set xs"
  by (simp add: jsDistinct_def)

lemma distinct_jsDistinct [simp]: "distinct (jsDistinct xs)"
  by (simp add: jsDistinct_def)

lemma trimEndBy_last: "trimEndBy p s = [] \<or> \<not> p (last (trimEndBy p s))"
  unfolding trimEndBy_def
  by (metis hd_dropWhile last_rev rev_is_Nil_conv)

lemma map_filter_append: "List.map_filter f (xs @ ys) = List.map_filter f xs @ List.map_filter f ys"
  by (simp add: List.map_filter_def)

end
