(* ===== verification/PathIdentity.thy ===== *)
theory PathIdentity
  imports Prelude "HOL-Library.AList"
begin

text \<open>
  Path identity, \<open>client/src/pathidentity.ts\<close>: when two spellings name one file on this device's
  file system. A JavaScript \<open>Map\<close> is an association list in insertion order: \<^const>\<open>AList.update\<close>
  keeps the position of an existing key and appends a new one, as \<open>Map.set\<close> does. The host's
  \<open>String.prototype.normalize("NFC")\<close> is the parameter \<open>nfc\<close>.
\<close>

record path_fs =
  caseInsensitive :: bool
  normInsensitive :: bool

definition EXACT_FS :: path_fs where
  "EXACT_FS = \<lparr>caseInsensitive = False, normInsensitive = False\<rparr>"

definition identityKey :: "(string \<Rightarrow> string) \<Rightarrow> path \<Rightarrow> path_fs \<Rightarrow> string" where
  "identityKey nfc p fs =
     (let n = (if normInsensitive fs then nfc p else p) in
      if caseInsensitive fs then toLowerCase n else n)"

definition sameFile :: "(string \<Rightarrow> string) \<Rightarrow> path \<Rightarrow> path \<Rightarrow> path_fs \<Rightarrow> bool" where
  "sameFile nfc a b fs \<longleftrightarrow> a = b \<or> identityKey nfc a fs = identityKey nfc b fs"

definition indexAdd :: "(string \<Rightarrow> string) \<Rightarrow> path_fs \<Rightarrow> (string \<times> path) list \<Rightarrow> path \<Rightarrow> (string \<times> path) list" where
  "indexAdd nfc fs m k =
     (let f = identityKey nfc k fs in if map_of m f = None then AList.update f k m else m)"

definition identityIndex :: "(string \<Rightarrow> string) \<Rightarrow> path list \<Rightarrow> path_fs \<Rightarrow> (string \<times> path) list" where
  "identityIndex nfc keys fs = foldl (indexAdd nfc fs) [] keys"

definition groupAdd ::
  "(string \<Rightarrow> string) \<Rightarrow> path_fs \<Rightarrow> (string \<times> path list) list \<Rightarrow> path \<Rightarrow> (string \<times> path list) list" where
  "groupAdd nfc fs by k =
     (let f = identityKey nfc k fs in
      case map_of by f of
        Some g \<Rightarrow> if k \<in> set g then by else AList.update f (g @ [k]) by
      | None \<Rightarrow> AList.update f [k] by)"

definition identityGroups :: "(string \<Rightarrow> string) \<Rightarrow> path list \<Rightarrow> path_fs \<Rightarrow> path list list" where
  "identityGroups nfc keys fs =
     (if \<not> caseInsensitive fs \<and> \<not> normInsensitive fs then []
      else filter (\<lambda>g. length g > 1) (map snd (foldl (groupAdd nfc fs) [] keys)))"

datatype path_violation_kind = DuplicateIdentity | AliasCrossedFiles | ListingTwoSpellings

record path_violation =
  v_kind :: path_violation_kind
  v_site :: string
  v_paths :: "path list"

subsection \<open>The index\<close>

lemma identityKey_exact [simp]: "identityKey nfc p EXACT_FS = p"
  by (simp add: identityKey_def EXACT_FS_def)

lemma indexAdd_map_of:
  "map_of (indexAdd nfc fs m k) f =
     (case map_of m f of Some k' \<Rightarrow> Some k' | None \<Rightarrow> if f = identityKey nfc k fs then Some k else None)"
  by (auto simp: indexAdd_def Let_def update_conv' split: option.splits)

lemma foldl_indexAdd:
  "map_of (foldl (indexAdd nfc fs) m keys) f =
     (case map_of m f of Some k' \<Rightarrow> Some k' | None \<Rightarrow> List.find (\<lambda>k. identityKey nfc k fs = f) keys)"
  by (induction keys arbitrary: m) (auto simp: indexAdd_map_of split: option.splits)

lemma identityIndex_find:
  "map_of (identityIndex nfc keys fs) f = List.find (\<lambda>k. identityKey nfc k fs = f) keys"
  by (simp add: identityIndex_def foldl_indexAdd)

lemma identityIndex_Some:
  "map_of (identityIndex nfc keys fs) f = Some k \<Longrightarrow> k \<in> set keys \<and> identityKey nfc k fs = f"
  by (auto simp: identityIndex_find find_Some_iff)

subsection \<open>The groups\<close>

lemma foldl_groupAdd:
  "map_of (foldl (groupAdd nfc fs) by keys) f =
     (case map_of by f of
        Some g \<Rightarrow> Some (foldl (\<lambda>g k. if k \<in> set g then g else g @ [k]) g (filter (\<lambda>k. identityKey nfc k fs = f) keys))
      | None \<Rightarrow> (case filter (\<lambda>k. identityKey nfc k fs = f) keys of
            [] \<Rightarrow> None
          | k # ks \<Rightarrow> Some (foldl (\<lambda>g k. if k \<in> set g then g else g @ [k]) [k] ks)))"
  by (induction keys arbitrary: "by")
    (auto simp: groupAdd_def Let_def update_conv' split: option.splits list.splits)

lemma foldl_new:
  "distinct g \<Longrightarrow> distinct (foldl (\<lambda>g k. if k \<in> set g then g else g @ [k]) g ks)
     \<and> set (foldl (\<lambda>g k. if k \<in> set g then g else g @ [k]) g ks) = set g \<union> set ks"
  by (induction ks arbitrary: g) auto

lemma distinct_groupAdd: "distinct (map fst by) \<Longrightarrow> distinct (map fst (groupAdd nfc fs by k))"
  by (auto simp: groupAdd_def Let_def distinct_update split: option.splits)

lemma distinct_groups: "distinct (map fst by) \<Longrightarrow> distinct (map fst (foldl (groupAdd nfc fs) by keys))"
  by (induction keys arbitrary: "by") (auto simp: distinct_groupAdd)

lemma group_of:
  "map_of (foldl (groupAdd nfc fs) [] keys) f = Some g \<Longrightarrow>
   distinct g \<and> set g = {k \<in> set keys. identityKey nfc k fs = f} \<and> g \<noteq> []"
  by (auto simp: foldl_groupAdd foldl_new filter_eq_Cons_iff split: list.splits
      dest: arg_cong [where f = set])

lemma group_exists:
  "k \<in> set keys \<Longrightarrow> \<exists>g. map_of (foldl (groupAdd nfc fs) [] keys) (identityKey nfc k fs) = Some g"
  by (auto simp: foldl_groupAdd filter_empty_conv split: list.splits)

lemma identityGroups_iff:
  assumes "caseInsensitive fs \<or> normInsensitive fs"
  shows "g \<in> set (identityGroups nfc keys fs) \<longleftrightarrow>
    1 < length g \<and> (\<exists>f. map_of (foldl (groupAdd nfc fs) [] keys) f = Some g)"
  using assms distinct_groups [of "[]" nfc fs keys]
  by (force simp: identityGroups_def map_of_eq_Some_iff)

lemma groups_shape:
  assumes "caseInsensitive fs \<or> normInsensitive fs"
  shows "\<forall>g \<in> set (identityGroups nfc keys fs).
    distinct g \<and> (\<exists>f. set g = {k \<in> set keys. identityKey nfc k fs = f})"
proof
  fix g assume "g \<in> set (identityGroups nfc keys fs)"
  then obtain f where "map_of (foldl (groupAdd nfc fs) [] keys) f = Some g"
    using identityGroups_iff [OF assms] by auto
  from group_of [OF this] show "distinct g \<and> (\<exists>f. set g = {k \<in> set keys. identityKey nfc k fs = f})"
    by auto
qed

lemma length_gt_1_iff: "distinct g \<Longrightarrow> a \<in> set g \<Longrightarrow> 1 < length g \<longleftrightarrow> (\<exists>b \<in> set g. b \<noteq> a)"
proof -
  assume g: "distinct g" "a \<in> set g"
  then have "length g = Suc (card (set g - {a}))"
    by (metis List.finite_set card_Suc_Diff1 distinct_card)
  moreover have "(\<exists>b \<in> set g. b \<noteq> a) \<longleftrightarrow> card (set g - {a}) \<noteq> 0"
    by (simp add: card_eq_0_iff) blast
  ultimately show ?thesis by (simp only: One_nat_def) linarith
qed

lemma identityGroups_mem:
  assumes "caseInsensitive fs \<or> normInsensitive fs"
  shows "(\<exists>g \<in> set (identityGroups nfc keys fs). a \<in> set g) \<longleftrightarrow>
    (a \<in> set keys \<and> (\<exists>b \<in> set keys. b \<noteq> a \<and> sameFile nfc a b fs))" (is "?L = ?R")
proof
  assume ?L
  then obtain g f where g: "1 < length g" "map_of (foldl (groupAdd nfc fs) [] keys) f = Some g" "a \<in> set g"
    using identityGroups_iff [OF assms] by auto
  then obtain b where "b \<in> set g" "b \<noteq> a"
    using length_gt_1_iff [of g a] group_of [OF g(2)] by auto
  then show ?R using group_of [OF g(2)] g(3) by (auto simp: sameFile_def)
next
  assume R: ?R
  then obtain b where b: "b \<in> set keys" "b \<noteq> a" "identityKey nfc b fs = identityKey nfc a fs"
    by (auto simp: sameFile_def)
  obtain g where g: "map_of (foldl (groupAdd nfc fs) [] keys) (identityKey nfc a fs) = Some g"
    using R group_exists by blast
  have "a \<in> set g" "b \<in> set g" using group_of [OF g] R b by auto
  then have "1 < length g" using length_gt_1_iff [of g a] group_of [OF g] b by auto
  then have "g \<in> set (identityGroups nfc keys fs)" using identityGroups_iff [OF assms, of g nfc keys] g by auto
  then show ?L using \<open>a \<in> set g\<close> by blast
qed

text \<open>
  \<open>identityGroups\<close> finds exactly the ambiguous files: on a file system that folds case or
  normal forms, a path of the input lies in a reported group if and only if the input holds a
  different spelling of the same file, and a reported group is duplicate free and holds all the
  spellings of one file.
\<close>
theorem identityGroups_exact:
  assumes "caseInsensitive fs \<or> normInsensitive fs"
  shows "((\<exists>g \<in> set (identityGroups nfc keys fs). a \<in> set g) \<longleftrightarrow>
           (a \<in> set keys \<and> (\<exists>b \<in> set keys. b \<noteq> a \<and> sameFile nfc a b fs)))
         \<and> (\<forall>g \<in> set (identityGroups nfc keys fs).
              distinct g \<and> (\<exists>f. set g = {k \<in> set keys. identityKey nfc k fs = f}))"
  using identityGroups_mem [OF assms] groups_shape [OF assms] by blast

theorem identityGroups_exact_witness:
  "let fs = \<lparr>caseInsensitive = True, normInsensitive = False\<rparr>; ks = [''A.md'', ''b.md'', ''a.md''] in
   (\<exists>g \<in> set (identityGroups id ks fs). ''A.md'' \<in> set g) \<and> \<not> (\<exists>g \<in> set (identityGroups id ks fs). ''b.md'' \<in> set g)"
proof -
  let ?fs = "\<lparr>caseInsensitive = True, normInsensitive = False\<rparr>" and ?ks = "[''A.md'', ''b.md'', ''a.md'']"
  have keys: "identityKey id ''A.md'' ?fs = ''a.md''" "identityKey id ''a.md'' ?fs = ''a.md''"
    "identityKey id ''b.md'' ?fs = ''b.md''"
    by (code_simp, code_simp, code_simp)
  show ?thesis
    using identityGroups_exact [of ?fs id ?ks "''A.md''"] identityGroups_exact [of ?fs id ?ks "''b.md''"]
    by (simp add: sameFile_def keys Let_def)
qed

end
