(* ===== verification/Base.thy ===== *)
theory Base
  imports PathIdentity
begin

text \<open>
  The last-synced ancestors and the conflict-copy naming scheme, \<open>client/src/base.ts\<close>. The
  \<open>Map\<close> of the store is an association list in insertion order; the memo of the same-file
  lookup is part of the state. Sizes and mtimes are natural numbers.
\<close>

record base_entry =
  be_hash :: hash
  be_text :: "utext option"
  be_size :: "nat option"
  be_mtime :: "nat option"

record base_store =
  bm :: "(path \<times> base_entry) list"
  bfold :: "(string \<times> path) list option"
  foldFs :: path_fs

definition hashOnly :: "hash \<Rightarrow> base_entry" where
  "hashOnly h = \<lparr>be_hash = h, be_text = None, be_size = None, be_mtime = None\<rparr>"

text \<open>
  The constructor keeps the four known fields of each persisted entry; a persisted entry may carry
  more, here the legacy \<open>normHash\<close>.
\<close>

record legacy_entry = base_entry +
  le_normHash :: "string option"

definition baseStore :: "(path \<times> legacy_entry) list \<Rightarrow> base_store" where
  "baseStore initial = \<lparr>bm = map (\<lambda>(p, e). (p, base_entry.truncate e)) initial, bfold = None, foldFs = EXACT_FS\<rparr>"

definition base_get :: "base_store \<Rightarrow> path \<Rightarrow> base_entry option" where
  "base_get b p = map_of (bm b) p"

definition base_set :: "path \<Rightarrow> base_entry \<Rightarrow> base_store \<Rightarrow> base_store" where
  "base_set p e b =
     (let b' = (if map_of (bm b) p = None then b\<lparr>bfold := None\<rparr> else b) in
      b'\<lparr>bm := AList.update p e (bm b')\<rparr>)"

definition base_delete :: "path \<Rightarrow> base_store \<Rightarrow> base_store" where
  "base_delete p b =
     (if map_of (bm b) p = None then b else b\<lparr>bm := AList.delete p (bm b), bfold := None\<rparr>)"

definition base_paths :: "base_store \<Rightarrow> path list" where
  "base_paths b = map fst (bm b)"

definition foldSibling :: "(string \<Rightarrow> string) \<Rightarrow> path \<Rightarrow> path_fs \<Rightarrow> base_store \<Rightarrow> path option \<times> base_store" where
  "foldSibling nfc p fs b =
     (let b' = (if bfold b = None \<or> foldFs b \<noteq> fs
                then b\<lparr>bfold := Some (identityIndex nfc (base_paths b) fs), foldFs := fs\<rparr> else b) in
      (map_of (the (bfold b')) (identityKey nfc p fs), b'))"

definition stampStat :: "path \<Rightarrow> nat \<Rightarrow> nat \<Rightarrow> base_store \<Rightarrow> base_store" where
  "stampStat p sz mt b =
     (case map_of (bm b) p of
        Some e \<Rightarrow> b\<lparr>bm := AList.update p (e\<lparr>be_size := Some sz, be_mtime := Some mt\<rparr>) (bm b)\<rparr>
      | None \<Rightarrow> b)"

definition toJSON :: "base_store \<Rightarrow> (path \<times> base_entry) list" where
  "toJSON b = map (\<lambda>(p, e). (p, \<lparr>be_hash = be_hash e, be_text = be_text e, be_size = be_size e, be_mtime = be_mtime e\<rparr>)) (bm b)"

subsection \<open>Conflict-copy names\<close>

record utc =
  u_year :: nat
  u_month :: nat
  u_day :: nat
  u_hour :: nat
  u_minute :: nat
  u_second :: nat

definition digitChar :: "nat \<Rightarrow> char" where
  "digitChar d = char_of (48 + d)"

fun natStr :: "nat \<Rightarrow> string" where
  "natStr n = (if n < 10 then [digitChar n] else natStr (n div 10) @ [digitChar (n mod 10)])"

declare natStr.simps [simp del]

definition padStart2 :: "nat \<Rightarrow> string" where
  "padStart2 n = replicate (2 - length (natStr n)) (CHR ''0'') @ natStr n"

text \<open>\<open>u_month\<close> counts from 1, as \<open>getUTCMonth() + 1\<close> does.\<close>

definition timestamp14 :: "utc \<Rightarrow> string" where
  "timestamp14 w = natStr (u_year w) @ padStart2 (u_month w) @ padStart2 (u_day w)
     @ padStart2 (u_hour w) @ padStart2 (u_minute w) @ padStart2 (u_second w)"

text \<open>The split of a path into directory, stem and extension that all three name functions make.\<close>

definition dirOf :: "path \<Rightarrow> string" where
  "dirOf p = (case lastIndexOf (CHR ''/'') p of Some i \<Rightarrow> take (Suc i) p | None \<Rightarrow> [])"

definition nameOf :: "path \<Rightarrow> string" where
  "nameOf p = (case lastIndexOf (CHR ''/'') p of Some i \<Rightarrow> drop (Suc i) p | None \<Rightarrow> p)"

definition stemOf :: "string \<Rightarrow> string" where
  "stemOf name = (case lastIndexOf (CHR ''.'') name of Some (Suc i) \<Rightarrow> take (Suc i) name | _ \<Rightarrow> name)"

definition extOf :: "string \<Rightarrow> string" where
  "extOf name = (case lastIndexOf (CHR ''.'') name of Some (Suc i) \<Rightarrow> drop (Suc i) name | _ \<Rightarrow> [])"

definition conflictCopyName :: "path \<Rightarrow> string \<Rightarrow> utc \<Rightarrow> string \<Rightarrow> path" where
  "conflictCopyName p device w tag =
     (let suffix = (if tag = [] then [] else CHR ''-'' # tag); name = nameOf p in
      dirOf p @ stemOf name @ '' (conflict '' @ device @ '' '' @ timestamp14 w @ suffix @ '')'' @ extOf name)"

definition keptBothName :: "path \<Rightarrow> utc \<Rightarrow> nat \<Rightarrow> path" where
  "keptBothName original w n =
     (let name = nameOf original;
          day = natStr (u_year w) @ ''-'' @ padStart2 (u_month w) @ ''-'' @ padStart2 (u_day w) in
      dirOf original @ stemOf name @ '' (this device'' @ [CHR 0x27] @ ''s version '' @ day
        @ (if n \<noteq> 0 then '' '' @ natStr (n + 1) else []) @ '')'' @ extOf name)"

definition isDigit :: "char \<Rightarrow> bool" where
  "isDigit c \<longleftrightarrow> 48 \<le> (of_char c :: nat) \<and> (of_char c :: nat) \<le> 57"

definition isTagChar :: "char \<Rightarrow> bool" where
  "isTagChar c \<longleftrightarrow> isDigit c \<or> (97 \<le> (of_char (lowerChar c) :: nat) \<and> (of_char (lowerChar c) :: nat) \<le> 122)"

definition isLineEnd :: "char \<Rightarrow> bool" where
  "isLineEnd c \<longleftrightarrow> (of_char c :: nat) = 10 \<or> (of_char c :: nat) = 13"

text \<open>
  The regular expression \<open>/^(.*) \(conflict .+ \d{14}(?:-[0-9a-z]+)?\)$/i\<close>: \<open>endsWithStamp\<close> is
  \<open>.+ \d{14}\<close>, \<open>conflictTail\<close> the part after the group, and the greedy group takes the
  longest prefix that leaves a tail.
\<close>

definition endsWithStamp :: "string \<Rightarrow> bool" where
  "endsWithStamp c \<longleftrightarrow> 16 \<le> length c \<and> c ! (length c - 15) = CHR '' ''
     \<and> list_all isDigit (drop (length c - 14) c) \<and> \<not> list_ex isLineEnd (take (length c - 15) c)"

definition conflictTail :: "string \<Rightarrow> bool" where
  "conflictTail t \<longleftrightarrow>
     toLowerCase (take 11 t) = '' (conflict '' \<and> drop 11 t \<noteq> [] \<and> last (drop 11 t) = CHR '')''
     \<and> (let b = butlast (drop 11 t) in
        endsWithStamp b
        \<or> (case lastIndexOf (CHR ''-'') b of
             Some i \<Rightarrow> drop (Suc i) b \<noteq> [] \<and> list_all isTagChar (drop (Suc i) b) \<and> endsWithStamp (take i b)
           | None \<Rightarrow> False))"

definition conflictSplit :: "string \<Rightarrow> nat option" where
  "conflictSplit stem =
     List.find (\<lambda>i. \<not> list_ex isLineEnd (take i stem) \<and> conflictTail (drop i stem)) (rev [0..<Suc (length stem)])"

definition originalOfConflictCopy :: "path \<Rightarrow> path option" where
  "originalOfConflictCopy p =
     (let name = nameOf p; stem = stemOf name in
      map_option (\<lambda>i. dirOf p @ take i stem @ extOf name) (conflictSplit stem))"

definition isConflictCopy :: "path \<Rightarrow> bool" where
  "isConflictCopy p \<longleftrightarrow> originalOfConflictCopy p \<noteq> None"

text \<open>An empty original is falsy in the source's test, and yields no entry.\<close>

definition deriveNoteConflicts :: "path list \<Rightarrow> (path \<times> path) list" where
  "deriveNoteConflicts ps =
     List.map_filter (\<lambda>p. case originalOfConflictCopy p of
        Some orig \<Rightarrow> if orig = [] then None else Some (p, orig) | None \<Rightarrow> None) ps"

subsection \<open>The store\<close>

lemma base_get_set [simp]: "base_get (base_set p e b) q = (if q = p then Some e else base_get b q)"
  by (simp add: base_get_def base_set_def Let_def update_conv')

lemma base_get_delete [simp]: "base_get (base_delete p b) q = (if q = p then None else base_get b q)"
  by (auto simp: base_get_def base_delete_def delete_conv')

lemma base_get_stampStat:
  "base_get (stampStat p sz mt b) q =
     (if q = p then map_option (\<lambda>e. e\<lparr>be_size := Some sz, be_mtime := Some mt\<rparr>) (base_get b p) else base_get b q)"
  by (auto simp: base_get_def stampStat_def update_conv' split: option.splits)

lemma base_paths_get: "p \<in> set (base_paths b) \<longleftrightarrow> base_get b p \<noteq> None"
  by (simp add: base_paths_def base_get_def map_of_eq_None_iff)

text \<open>The client's calls on the store, and a run of them from a freshly loaded store.\<close>

datatype base_op = OpSet path base_entry | OpDelete path | OpStamp path nat nat | OpFold path path_fs

fun base_apply :: "(string \<Rightarrow> string) \<Rightarrow> base_op \<Rightarrow> base_store \<Rightarrow> base_store" where
  "base_apply nfc (OpSet p e) b = base_set p e b"
| "base_apply nfc (OpDelete p) b = base_delete p b"
| "base_apply nfc (OpStamp p sz mt) b = stampStat p sz mt b"
| "base_apply nfc (OpFold p fs) b = snd (foldSibling nfc p fs b)"

definition memo_ok :: "(string \<Rightarrow> string) \<Rightarrow> base_store \<Rightarrow> bool" where
  "memo_ok nfc b \<longleftrightarrow> (case bfold b of None \<Rightarrow> True | Some f \<Rightarrow> f = identityIndex nfc (base_paths b) (foldFs b))"

lemma update_keys_present: "map_of m p = Some y \<Longrightarrow> map fst (AList.update p e m) = map fst m"
  by (simp add: update_keys) (metis map_of_SomeD fst_conv image_eqI)

lemma memo_ok_apply: "memo_ok nfc b \<Longrightarrow> memo_ok nfc (base_apply nfc opn b)"
  by (cases opn)
    (auto simp: memo_ok_def base_set_def base_delete_def stampStat_def foldSibling_def base_paths_def
      Let_def update_keys_present split: option.splits)

lemma memo_ok_run: "memo_ok nfc b \<Longrightarrow> memo_ok nfc (fold (base_apply nfc) ops b)"
  by (induction ops arbitrary: b) (auto simp: memo_ok_apply)

text \<open>
  The memoised same-file lookup is never stale: after any sequence of sets, deletes, stat
  stamps and earlier lookups (under whatever file-system rules) on a freshly loaded store,
  \<open>foldSibling\<close> returns the first key of the store that names the same file.
\<close>
theorem foldSibling_fresh:
  "fst (foldSibling nfc p fs (fold (base_apply nfc) ops (baseStore initial)))
     = List.find (\<lambda>k. identityKey nfc k fs = identityKey nfc p fs)
         (base_paths (fold (base_apply nfc) ops (baseStore initial)))"
proof -
  have "memo_ok nfc (fold (base_apply nfc) ops (baseStore initial))"
    by (rule memo_ok_run) (simp add: memo_ok_def baseStore_def)
  then show ?thesis
    by (auto simp: memo_ok_def foldSibling_def Let_def identityIndex_find base_paths_def split: option.splits)
qed

text \<open>
  Persisting the store and loading it again (with or without a legacy \<open>normHash\<close> beside each
  entry) restores every entry, its merge ancestor text and its scan-skip stamp included.
\<close>
theorem base_json_roundtrip:
  "bm (baseStore (map (\<lambda>(p, e). (p, base_entry.extend e \<lparr>le_normHash = nh p\<rparr>)) (toJSON b))) = bm b"
proof -
  have "(fst x, \<lparr>be_hash = be_hash (snd x), be_text = be_text (snd x), be_size = be_size (snd x), be_mtime = be_mtime (snd x)\<rparr>) = x"
    for x :: "path \<times> base_entry"
    by (cases x) simp
  then show ?thesis
    by (simp add: baseStore_def toJSON_def base_entry.defs legacy_entry.defs case_prod_beta' comp_def)
qed

subsection \<open>Conflict-copy names round trip\<close>

lemma natStr_digits: "list_all isDigit (natStr n)"
proof (induction n rule: natStr.induct)
  case (1 n)
  have "isDigit (digitChar d)" if "d < 10" for d
    using that by (simp add: isDigit_def digitChar_def of_char_of)
  with 1 show ?case by (subst natStr.simps) auto
qed

lemma natStr_length1: "n < 10 \<Longrightarrow> length (natStr n) = 1"
  by (subst natStr.simps) simp

lemma natStr_length_Suc: "10 \<le> n \<Longrightarrow> length (natStr n) = Suc (length (natStr (n div 10)))"
  by (subst natStr.simps) simp

lemma natStr_year: "1000 \<le> y \<Longrightarrow> y < 10000 \<Longrightarrow> length (natStr y) = 4"
  by (simp add: natStr_length_Suc natStr_length1)

lemma padStart2_length: "n < 100 \<Longrightarrow> length (padStart2 n) = 2"
  by (cases "n < 10") (simp_all add: padStart2_def natStr_length1 natStr_length_Suc)

lemma padStart2_digits: "list_all isDigit (padStart2 n)"
  using natStr_digits [of n] by (auto simp: padStart2_def list_all_iff isDigit_def)

definition utc_ok :: "utc \<Rightarrow> bool" where
  "utc_ok w \<longleftrightarrow> 1000 \<le> u_year w \<and> u_year w < 10000 \<and> u_month w < 100 \<and> u_day w < 100
     \<and> u_hour w < 100 \<and> u_minute w < 100 \<and> u_second w < 100"

lemma timestamp14_shape: "utc_ok w \<Longrightarrow> length (timestamp14 w) = 14 \<and> list_all isDigit (timestamp14 w)"
  using natStr_digits padStart2_digits
  by (simp add: timestamp14_def utc_ok_def padStart2_length natStr_year)

definition isNameChar :: "char \<Rightarrow> bool" where
  "isNameChar c \<longleftrightarrow> isTagChar c \<or> c = CHR '' ''"

lemma isNameChar_not:
  "isNameChar c \<Longrightarrow> c \<noteq> CHR ''('' \<and> lowerChar c \<noteq> CHR ''('' \<and> c \<noteq> CHR ''/'' \<and> c \<noteq> CHR ''.'' \<and> c \<noteq> CHR ''-''
     \<and> \<not> isLineEnd c"
proof -
  assume c: "isNameChar c"
  consider "isDigit c" | "97 \<le> (of_char (lowerChar c) :: nat)" | "c = CHR '' ''"
    using c by (auto simp: isNameChar_def isTagChar_def)
  then show ?thesis
  proof cases
    case 2
    have "c \<noteq> d" if "(of_char (lowerChar d) :: nat) < 97" for d using 2 that by auto
    moreover have "\<not> isLineEnd c" using 2 by (auto simp: isLineEnd_def lowerChar_def Let_def)
    ultimately show ?thesis using 2 by (auto simp: lowerChar_def)
  qed (auto simp: isDigit_def isLineEnd_def lowerChar_def Let_def)
qed

lemma isDigit_isNameChar: "isDigit c \<Longrightarrow> isNameChar c"
  by (simp add: isNameChar_def isTagChar_def)

definition copyTail :: "string \<Rightarrow> string \<Rightarrow> string \<Rightarrow> string" where
  "copyTail device ts tag = '' (conflict '' @ device @ '' '' @ ts @ (if tag = [] then [] else CHR ''-'' # tag) @ '')''"

lemma copyTail_free:
  assumes "list_all isNameChar device" "list_all isDigit ts" "list_all isTagChar tag"
  shows "CHR ''/'' \<notin> set (copyTail device ts tag) \<and> CHR ''.'' \<notin> set (copyTail device ts tag)"
proof -
  have "c \<noteq> CHR ''/'' \<and> c \<noteq> CHR ''.''" if "c \<in> set device \<union> set ts \<union> set tag" for c
  proof -
    have "isNameChar c"
      using that assms by (auto simp: list_all_iff isDigit_isNameChar) (simp add: isNameChar_def)
    then show ?thesis using isNameChar_not by blast
  qed
  then show ?thesis by (auto simp: copyTail_def)
qed

lemma endsWithStamp_append:
  "device \<noteq> [] \<Longrightarrow> list_all isNameChar device \<Longrightarrow> length ts = 14 \<Longrightarrow> list_all isDigit ts \<Longrightarrow>
   endsWithStamp (device @ CHR '' '' # ts)"
  by (cases device) (auto simp: endsWithStamp_def list_all_iff list_ex_iff nth_append dest: isNameChar_not)

lemma conflictTail_copyTail:
  assumes "device \<noteq> []" "list_all isNameChar device" "length ts = 14" "list_all isDigit ts" "list_all isTagChar tag"
  shows "conflictTail (copyTail device ts tag)"
proof -
  have "toLowerCase '' (conflict '' = '' (conflict ''" by code_simp
  moreover have "CHR ''-'' \<notin> set tag"
    using assms(5) isNameChar_not by (auto simp: list_all_iff isNameChar_def)
  then have "tag \<noteq> [] \<Longrightarrow> lastIndexOf (CHR ''-'') (device @ CHR '' '' # ts @ CHR ''-'' # tag) = Some (length device + 15)"
    using lastIndexOf_append [of "CHR ''-''" tag "device @ CHR '' '' # ts"] assms(3) by simp
  ultimately show ?thesis
    using endsWithStamp_append [OF assms(1-4)] assms(3,5)
    by (auto simp: conflictTail_def copyTail_def Let_def butlast_append)
qed

lemma no_inner_tail:
  assumes "list_all isNameChar device" "list_all isDigit ts" "list_all isTagChar tag" "0 < k"
  shows "\<not> conflictTail (drop k (copyTail device ts tag))"
proof
  let ?t = "copyTail device ts tag"
  assume "conflictTail (drop k ?t)"
  then have low: "toLowerCase (take 11 (drop k ?t)) = '' (conflict ''" by (simp add: conflictTail_def)
  have "list_all (\<lambda>c. lowerChar c \<noteq> CHR ''('') (drop 2 ?t)"
    using assms isNameChar_not isDigit_isNameChar
    by (auto simp: copyTail_def list_all_iff isNameChar_def lowerChar_def)
  moreover have "drop (Suc k) ?t = drop (k - 1) (drop 2 ?t)" using assms(4) by (simp add: drop_drop)
  ultimately have none: "list_all (\<lambda>c. lowerChar c \<noteq> CHR ''('') (drop (Suc k) ?t)"
    by (metis in_set_dropD list_all_iff)
  have len: "11 = length (take 11 (drop k ?t))" using arg_cong [OF low, of length] by simp
  have "toLowerCase (take 11 (drop k ?t)) ! 1 = CHR ''(''" using low by simp
  then have "lowerChar (drop (Suc k) ?t ! 0) = CHR ''(''" using len by (simp add: toLowerCase_def)
  moreover have "drop (Suc k) ?t \<noteq> []" using len by auto
  ultimately show False using none by (cases "drop (Suc k) ?t") auto
qed

lemma find_rev_upt:
  "P m \<Longrightarrow> m \<le> n \<Longrightarrow> (\<And>i. m < i \<Longrightarrow> i \<le> n \<Longrightarrow> \<not> P i) \<Longrightarrow> List.find P (rev [0..<Suc n]) = Some m"
proof (induction n)
  case (Suc n)
  then show ?case by (cases "m = Suc n") auto
qed simp

lemma conflictSplit_copy:
  assumes "device \<noteq> []" "list_all isNameChar device" "length ts = 14" "list_all isDigit ts" "list_all isTagChar tag"
    and "\<not> list_ex isLineEnd stem"
  shows "conflictSplit (stem @ copyTail device ts tag) = Some (length stem)"
  unfolding conflictSplit_def
proof (rule find_rev_upt)
  show "\<not> list_ex isLineEnd (take (length stem) (stem @ copyTail device ts tag))
      \<and> conflictTail (drop (length stem) (stem @ copyTail device ts tag))"
    using conflictTail_copyTail [OF assms(1-5)] assms(6) by simp
  show "\<not> (\<not> list_ex isLineEnd (take i (stem @ copyTail device ts tag))
      \<and> conflictTail (drop i (stem @ copyTail device ts tag)))" if "length stem < i" for i
    using no_inner_tail [OF assms(2,4,5), of "i - length stem"] that by simp
qed simp

lemma conflictSplit_None:
  assumes "last stem \<noteq> CHR '')'' \<or> CHR ''('' \<notin> lowerChar ` set stem"
  shows "conflictSplit stem = None"
proof -
  have "\<not> conflictTail (drop i stem)" for i
  proof
    assume t: "conflictTail (drop i stem)"
    then have "last stem = CHR '')''"
      by (cases "i + 11 < length stem") (simp_all add: conflictTail_def last_drop)
    moreover have "CHR ''('' \<in> set (toLowerCase (take 11 (drop i stem)))"
      using t by (simp add: conflictTail_def)
    then have "CHR ''('' \<in> lowerChar ` set stem"
      by (auto simp: toLowerCase_def dest!: in_set_takeD in_set_dropD)
    ultimately show False using assms by blast
  qed
  then show ?thesis by (simp add: conflictSplit_def find_None_iff)
qed

lemma dir_name: "dirOf p @ nameOf p = p"
  by (simp add: dirOf_def nameOf_def split: option.splits)

lemma nameOf_no_slash: "CHR ''/'' \<notin> set (nameOf p)"
  using lastIndexOf_Some [of "CHR ''/''" p] lastIndexOf_None [of "CHR ''/''" p]
  by (auto simp: nameOf_def split: option.splits)

lemma dirOf_cases: "dirOf p = [] \<or> (\<exists>d. dirOf p = d @ ''/'')"
  using lastIndexOf_Some [of "CHR ''/''" p]
  by (auto simp: dirOf_def take_Suc_conv_app_nth split: option.splits)

lemma dir_name_append: "CHR ''/'' \<notin> set n \<Longrightarrow> dirOf (dirOf p @ n) = dirOf p \<and> nameOf (dirOf p @ n) = n"
proof -
  assume n: "CHR ''/'' \<notin> set n"
  from dirOf_cases [of p] show ?thesis
  proof
    assume "dirOf p = []"
    moreover have "lastIndexOf (CHR ''/'') n = None" using n by (simp add: lastIndexOf_None)
    ultimately show ?thesis by (simp add: dirOf_def nameOf_def)
  next
    assume "\<exists>d. dirOf p = d @ ''/''"
    then obtain d where d: "dirOf p = d @ ''/''" by blast
    have "lastIndexOf (CHR ''/'') (d @ CHR ''/'' # n) = Some (length d)" using lastIndexOf_append [OF n] .
    then have "dirOf (d @ ''/'' @ n) = d @ ''/'' \<and> nameOf (d @ ''/'' @ n) = n"
      by (simp add: dirOf_def nameOf_def)
    with d show ?thesis by simp
  qed
qed

lemma stem_ext: "stemOf n @ extOf n = n"
  by (simp add: stemOf_def extOf_def split: option.splits nat.splits)

lemma stem_ext_append:
  assumes "CHR ''.'' \<notin> set t" "t \<noteq> []"
  shows "stemOf (stemOf n @ t @ extOf n) = stemOf n @ t \<and> extOf (stemOf n @ t @ extOf n) = extOf n"
proof (cases "extOf n = []")
  case True
  then have stem: "stemOf n = n" using stem_ext [of n] by simp
  have "lastIndexOf (CHR ''.'') n \<in> {None, Some 0}"
  proof (cases "lastIndexOf (CHR ''.'') n")
    case (Some i)
    then have "i < length n" using lastIndexOf_Some [OF Some] by simp
    then show ?thesis using True Some by (auto simp: extOf_def split: nat.splits)
  qed simp
  moreover have "lastIndexOf (CHR ''.'') (n @ t) = lastIndexOf (CHR ''.'') n"
    using assms(1) by (induction n) (auto simp: lastIndexOf_None split: option.splits)
  ultimately show ?thesis using True stem by (auto simp: stemOf_def extOf_def)
next
  case False
  then obtain i where i: "lastIndexOf (CHR ''.'') n = Some (Suc i)" and ext: "extOf n = drop (Suc i) n"
    by (auto simp: extOf_def split: option.splits nat.splits)
  have last: "Suc i < length n" "n ! Suc i = CHR ''.''" "CHR ''.'' \<notin> set (drop (Suc (Suc i)) n)"
    using lastIndexOf_Some [OF i] by auto
  then have "drop (Suc i) n = CHR ''.'' # drop (Suc (Suc i)) n" by (metis Cons_nth_drop_Suc)
  with last(3) have "lastIndexOf (CHR ''.'') ((stemOf n @ t) @ extOf n) = Some (length (stemOf n @ t))"
    using ext lastIndexOf_append by metis
  moreover obtain k where "length (stemOf n @ t) = Suc k" using assms(2) by (cases t) auto
  ultimately show ?thesis by (simp add: stemOf_def extOf_def)
qed

text \<open>
  \<open>originalOfConflictCopy\<close> inverts \<open>conflictCopyName\<close>: for a device label of letters, digits
  and blanks (what \<open>cleanDeviceName\<close> produces), a four-digit year and a content tag of letters and
  digits, the copy of any path (dotted, extensionless, nested, itself already a conflict copy) is
  recognised and traced back to that path.
\<close>
theorem conflict_copy_roundtrip:
  assumes "device \<noteq> []" and "list_all isNameChar device" and "utc_ok w" and "list_all isTagChar tag"
    and "\<not> list_ex isLineEnd (nameOf p)"
  shows "originalOfConflictCopy (conflictCopyName p device w tag) = Some p"
proof -
  let ?t = "copyTail device (timestamp14 w) tag" and ?n = "nameOf p"
  note ts = timestamp14_shape [OF assms(3)]
  have name: "conflictCopyName p device w tag = dirOf p @ (stemOf ?n @ ?t @ extOf ?n)"
    by (simp add: conflictCopyName_def copyTail_def Let_def)
  have free: "CHR ''/'' \<notin> set ?t" "CHR ''.'' \<notin> set ?t"
    using copyTail_free [OF assms(2) _ assms(4)] ts by auto
  have "CHR ''/'' \<notin> set (stemOf ?n @ ?t @ extOf ?n)"
    using free(1) nameOf_no_slash [of p] stem_ext [of ?n] by (metis Un_iff set_append)
  note dn = dir_name_append [OF this, of p]
  have se: "stemOf (stemOf ?n @ ?t @ extOf ?n) = stemOf ?n @ ?t" "extOf (stemOf ?n @ ?t @ extOf ?n) = extOf ?n"
    using stem_ext_append [OF free(2), of ?n] by (auto simp: copyTail_def)
  have "\<not> list_ex isLineEnd (stemOf ?n)" using assms(5) stem_ext [of ?n] by (metis list_ex_append)
  then have "conflictSplit (stemOf ?n @ ?t) = Some (length (stemOf ?n))"
    using conflictSplit_copy assms(1,2,4) ts by blast
  then show ?thesis
    using dn se by (simp add: name originalOfConflictCopy_def Let_def stem_ext dir_name)
qed

theorem conflict_copy_roundtrip_witness:
  "originalOfConflictCopy (conflictCopyName ''dir/my.note.md'' ''Pixel 9''
     \<lparr>u_year = 2026, u_month = 9, u_day = 11, u_hour = 7, u_minute = 5, u_second = 3\<rparr> ''ab12cd'')
   = Some ''dir/my.note.md''"
proof (rule conflict_copy_roundtrip)
  show "list_all isNameChar ''Pixel 9''" by code_simp
  show "list_all isTagChar ''ab12cd''" by code_simp
  show "\<not> list_ex isLineEnd (nameOf ''dir/my.note.md'')" by code_simp
qed (simp_all add: utc_ok_def)

text \<open>
  A device label is used as typed in the settings, and one with a slash or, on an extensionless
  note, a dot defeats the scheme: the copy the client writes is not recognised as a conflict copy, so
  it never reaches the list of conflicts.
\<close>
theorem conflict_copy_label_gap:
  "let w = \<lparr>u_year = 2026, u_month = 9, u_day = 11, u_hour = 7, u_minute = 5, u_second = 3\<rparr> in
   deriveNoteConflicts [conflictCopyName ''note.md'' ''home/laptop'' w ''ab12cd'',
                        conflictCopyName ''README'' ''mac.local'' w ''ab12cd''] = []"
proof -
  have ts: "timestamp14 \<lparr>u_year = 2026, u_month = 9, u_day = 11, u_hour = 7, u_minute = 5, u_second = 3\<rparr>
      = ''20260911070503''"
    by (simp add: timestamp14_def padStart2_def natStr.simps digitChar_def char_of_def bit_Suc_0_iff)
  have "originalOfConflictCopy ''note (conflict home/laptop 20260911070503-ab12cd).md'' = None"
    "originalOfConflictCopy ''README (conflict mac.local 20260911070503-ab12cd)'' = None"
    by (simp_all add: originalOfConflictCopy_def nameOf_def stemOf_def conflictSplit_None lowerChar_def)
  then show ?thesis
    by (simp add: conflictCopyName_def dirOf_def nameOf_def stemOf_def extOf_def ts deriveNoteConflicts_def
        map_filter_simps)
qed

end
