(* ===== verification/JsonValue.thy ===== *)
theory JsonValue
  imports Complex_Main Base
begin

text \<open>
  The values that \<open>JSON.parse\<close> returns, as the client inspects them at its trust boundaries (the
  persisted settings and the answers of the server), and the strings that \<open>JSON.stringify\<close> writes.

  A number of a parsed text is finite, or infinite when its literal overflows; an object is the list of
  its entries in the order of \<open>Object.entries\<close>; a string is the list of its code units, read as a
  \<^typ>\<open>string\<close> where the client takes it for a path, a name or a hash. The absent property is \<open>VUndef\<close>. A property that is
  read from an array by name is absent.
\<close>

datatype jnum = Finite rat | PosInf | NegInf

datatype jval =
    VUndef | VNull | VBool bool | VNum jnum | VStr utext | VArr "jval list" | VObj "(string \<times> jval) list"

text \<open>\<open>v && typeof v === "object"\<close>.\<close>

fun isObject :: "jval \<Rightarrow> bool" where
  "isObject (VArr _) = True"
| "isObject (VObj _) = True"
| "isObject _ = False"

fun fieldOf :: "jval \<Rightarrow> string \<Rightarrow> jval" where
  "fieldOf (VObj fs) k = (case map_of fs k of None \<Rightarrow> VUndef | Some v \<Rightarrow> v)"
| "fieldOf _ k = VUndef"

definition units :: "string \<Rightarrow> utext" where
  "units s = map of_char s"

definition ofUnits :: "utext \<Rightarrow> string" where
  "ofUnits u = map char_of u"

lemma ofUnits_units [simp]: "ofUnits (units s) = s"
  by (simp add: ofUnits_def units_def comp_def)

lemma units_inj [simp]: "units a = units b \<longleftrightarrow> a = b"
  by (metis ofUnits_units)

text \<open>\<open>typeof v === "string" ? v : dflt\<close>.\<close>

fun strOr :: "string \<Rightarrow> jval \<Rightarrow> string" where
  "strOr dflt (VStr u) = ofUnits u"
| "strOr dflt _ = dflt"

fun numOf :: "jval \<Rightarrow> rat option" where
  "numOf (VNum (Finite q)) = Some q"
| "numOf _ = None"

text \<open>\<open>Number.isInteger(v)\<close>, with the integer.\<close>

definition intOf :: "jval \<Rightarrow> int option" where
  "intOf v = (case numOf v of None \<Rightarrow> None | Some q \<Rightarrow> if of_int \<lfloor>q\<rfloor> = q then Some \<lfloor>q\<rfloor> else None)"

fun entriesOf :: "jval \<Rightarrow> (string \<times> jval) list" where
  "entriesOf (VObj fs) = fs"
| "entriesOf (VArr xs) = map (\<lambda>(i, v). (natStr i, v)) (enumerate 0 xs)"
| "entriesOf _ = []"

text \<open>
  \<open>out[k] = v\<close> on a plain object: an assignment to the property \<open>__proto__\<close> replaces the prototype
  and makes no entry.
\<close>

definition recordSet :: "string \<Rightarrow> 'v \<Rightarrow> (string \<times> 'v) list \<Rightarrow> (string \<times> 'v) list" where
  "recordSet k v r = (if k = ''__proto__'' then r else AList.update k v r)"

lemma intOf_of_int [simp]: "intOf (VNum (Finite (of_int n))) = Some n"
  by (simp add: intOf_def)

lemma intOf_Some: "intOf v = Some n \<longleftrightarrow> v = VNum (Finite (of_int n))"
proof
  assume "intOf v = Some n"
  then show "v = VNum (Finite (of_int n))"
    unfolding intOf_def by (cases v rule: numOf.cases) (auto split: if_splits)
qed simp

lemma recordSet_distinct: "distinct (map fst r) \<Longrightarrow> distinct (map fst (recordSet k v r))"
  by (simp add: recordSet_def distinct_update)

lemma recordSet_set: "x \<in> set (recordSet k v r) \<Longrightarrow> x = (k, v) \<or> x \<in> set r"
proof -
  have "set (AList.update k v r) \<subseteq> insert (k, v) (set r)" by (induction r) auto
  then show "x \<in> set (recordSet k v r) \<Longrightarrow> x = (k, v) \<or> x \<in> set r"
    by (auto simp: recordSet_def split: if_splits)
qed

subsection \<open>Quoted strings\<close>

definition hexDigitChar :: "nat \<Rightarrow> char" where
  "hexDigitChar n = (if n < 10 then char_of (48 + n) else char_of (87 + n))"

text \<open>The escape of one code unit by \<open>JSON.stringify\<close>.\<close>

definition escapeChar :: "char \<Rightarrow> string" where
  "escapeChar c =
     (let n = of_char c :: nat in
      if n = 34 \<or> n = 92 then [CHR 0x5C, c]
      else if n = 8 then [CHR 0x5C, CHR ''b'']
      else if n = 9 then [CHR 0x5C, CHR ''t'']
      else if n = 10 then [CHR 0x5C, CHR ''n'']
      else if n = 12 then [CHR 0x5C, CHR ''f'']
      else if n = 13 then [CHR 0x5C, CHR ''r'']
      else if n < 32 then [CHR 0x5C, CHR ''u'', CHR ''0'', CHR ''0'', hexDigitChar (n div 16), hexDigitChar (n mod 16)]
      else [c])"

definition jsonQuote :: "string \<Rightarrow> string" where
  "jsonQuote s = CHR 0x22 # concat (map escapeChar s) @ [CHR 0x22]"

text \<open>\<open>JSON.stringify\<close> of an array of strings.\<close>

definition jsonStrArray :: "string list \<Rightarrow> string" where
  "jsonStrArray xs = ''['' @ joinWith '','' (map jsonQuote xs) @ '']''"


lemma of_hexDigitChar: "k < 16 \<Longrightarrow> (of_char (hexDigitChar k) :: nat) = (if k < 10 then 48 + k else 87 + k)"
  by (simp add: hexDigitChar_def of_char_of)

lemma hexDigitChar_inj:
  assumes "m < 16" "n < 16" "hexDigitChar m = hexDigitChar n"
  shows "m = n"
proof -
  have "(if m < 10 then 48 + m else 87 + m) = (if n < 10 then 48 + n else 87 + n)"
    using of_hexDigitChar [OF assms(1)] of_hexDigitChar [OF assms(2)] assms(3) by simp
  then show ?thesis using assms(1,2) by (simp split: if_splits)
qed

text \<open>The escapes are a prefix code, so a quoted string ends where its text does.\<close>

lemma escape_control:
  assumes "m < 32" "n < 32" "hexDigitChar (m div 16) = hexDigitChar (n div 16)"
    and "hexDigitChar (m mod 16) = hexDigitChar (n mod 16)"
  shows "m = n"
proof -
  have "m div 16 = n div 16" "m mod 16 = n mod 16"
    using assms hexDigitChar_inj [of "m div 16" "n div 16"] hexDigitChar_inj [of "m mod 16" "n mod 16"] by simp_all
  then show ?thesis by (metis mult_div_mod_eq)
qed

lemma escape_cases:
  obtains (plain) "escapeChar c = [c]" "c \<noteq> CHR 0x5C" "c \<noteq> CHR 0x22"
  | (short) e where "escapeChar c = [CHR 0x5C, e]" "e \<noteq> CHR ''u''"
      "e = CHR 0x22 \<and> c = CHR 0x22 \<or> e = CHR 0x5C \<and> c = CHR 0x5C \<or> e = CHR ''b'' \<and> c = CHR 0x08
       \<or> e = CHR ''t'' \<and> c = CHR 0x09 \<or> e = CHR ''n'' \<and> c = CHR 0x0A \<or> e = CHR ''f'' \<and> c = CHR 0x0C
       \<or> e = CHR ''r'' \<and> c = CHR 0x0D"
  | (long) "escapeChar c = [CHR 0x5C, CHR ''u'', CHR ''0'', CHR ''0'', hexDigitChar (of_char c div 16), hexDigitChar (of_char c mod 16)]"
      "(of_char c :: nat) < 32"
proof -
  show ?thesis
  proof (cases "(of_char c :: nat) \<in> {34, 92, 8, 9, 10, 12, 13}")
    case True
    then have "(of_char c :: nat) \<in> of_char ` {CHR 0x22, CHR 0x5C, CHR 0x08, CHR 0x09, CHR 0x0A, CHR 0x0C, CHR 0x0D}"
      by simp
    then have "c \<in> {CHR 0x22, CHR 0x5C, CHR 0x08, CHR 0x09, CHR 0x0A, CHR 0x0C, CHR 0x0D}"
      by (simp only: image_iff of_char_eq_iff) blast
    then consider "c = CHR 0x22" | "c = CHR 0x5C" | "c = CHR 0x08" | "c = CHR 0x09" | "c = CHR 0x0A" | "c = CHR 0x0C" | "c = CHR 0x0D"
      by blast
    then show ?thesis
      by cases (rule short; simp add: escapeChar_def; fail)+
  next
    case False
    then have "c \<noteq> CHR 0x5C" "c \<noteq> CHR 0x22" by auto
    with False show ?thesis using plain long by (cases "(of_char c :: nat) < 32") (auto simp: escapeChar_def Let_def)
  qed
qed

lemma escape_prefix_code: "escapeChar c @ x = escapeChar d @ y \<longleftrightarrow> c = d \<and> x = y"
proof
  assume eq: "escapeChar c @ x = escapeChar d @ y"
  show "c = d \<and> x = y"
  proof (cases c rule: escape_cases)
    case plain
    then show ?thesis using eq by (cases d rule: escape_cases) auto
  next
    case (short e)
    then show ?thesis using eq by (cases d rule: escape_cases) auto
  next
    case long
    then show ?thesis using eq
      by (cases d rule: escape_cases) (auto dest: escape_control)
  qed
qed simp

lemma escape_not_quote: "escapeChar c @ x \<noteq> CHR 0x22 # y"
  by (cases c rule: escape_cases) auto

lemma escaped_inj:
  "concat (map escapeChar s) @ CHR 0x22 # x = concat (map escapeChar t) @ CHR 0x22 # y \<longleftrightarrow> s = t \<and> x = y"
proof (induction s arbitrary: t)
  case Nil
  show ?case by (cases t) (use escape_not_quote in \<open>auto dest: sym\<close>)
next
  case (Cons c s)
  show ?case
    by (cases t) (use escape_not_quote Cons.IH in \<open>auto simp: escape_prefix_code\<close>)
qed

lemma jsonQuote_inj [simp]: "jsonQuote s @ x = jsonQuote t @ y \<longleftrightarrow> s = t \<and> x = y"
  by (simp add: jsonQuote_def escaped_inj)

lemma jsonStrArray_inj: "jsonStrArray xs = jsonStrArray ys \<longleftrightarrow> xs = ys"
proof -
  have "joinWith '','' (map jsonQuote xs) @ '']'' = joinWith '','' (map jsonQuote ys) @ '']'' \<Longrightarrow> xs = ys"
  proof (induction xs arbitrary: ys)
    case Nil
    then show ?case by (cases ys; cases "tl ys") (auto simp: jsonQuote_def)
  next
    case (Cons x xs)
    obtain y ys' where ys: "ys = y # ys'"
      using Cons.prems by (cases ys; cases xs) (auto simp: jsonQuote_def)
    have step: "joinWith '','' (map jsonQuote (z # zs)) @ '']''
        = jsonQuote z @ (if zs = [] then '']'' else '','' @ joinWith '','' (map jsonQuote zs) @ '']'')" for z zs
      by (cases zs) auto
    show ?case
      using Cons.prems Cons.IH [of ys'] unfolding ys step by (auto split: if_splits)
  qed
  then show ?thesis by (auto simp: jsonStrArray_def)
qed

end
