(* ===== verification/ExcludedFolders.thy ===== *)
theory ExcludedFolders
  imports Prelude "HOL-Library.Char_ord" "HOL-Library.List_Lexorder"
begin

text \<open>
  The folders left out of timestamp management, \<open>client/src/excludedFolders.ts\<close>. The default order
  of \<open>Array.prototype.sort\<close> on strings is the lexicographic order of their code units.
\<close>

definition slashes :: "string \<Rightarrow> string" where
  "slashes s = map (\<lambda>c. if c = CHR 0x5C then CHR ''/'' else c) s"

fun collapseSlashes :: "string \<Rightarrow> string" where
  "collapseSlashes (x # y # xs) =
     (if x = CHR ''/'' \<and> y = CHR ''/'' then collapseSlashes (y # xs) else x # collapseSlashes (y # xs))"
| "collapseSlashes xs = xs"

definition stripSlashes :: "string \<Rightarrow> string" where
  "stripSlashes s =
     (let s1 = (if startsWith s ''/'' then drop 1 s else s) in
      if endsWith s1 ''/'' then butlast s1 else s1)"

definition normalizeFolder :: "string \<Rightarrow> string" where
  "normalizeFolder raw = stripSlashes (collapseSlashes (slashes (trim raw)))"

definition addExcluded :: "string list \<Rightarrow> string \<Rightarrow> string list" where
  "addExcluded xs raw =
     (let f = normalizeFolder raw in if f = [] then sort xs else sort (jsDistinct (xs @ [f])))"

definition removeExcluded :: "string list \<Rightarrow> string \<Rightarrow> string list" where
  "removeExcluded xs raw = (let f = normalizeFolder raw in sort (filter (\<lambda>x. x \<noteq> f) xs))"

definition isExcluded :: "path \<Rightarrow> string list \<Rightarrow> bool" where
  "isExcluded p xs =
     (let q = toLowerCase (normalizeFolder p) in
      list_ex (\<lambda>raw. let f = toLowerCase (normalizeFolder raw) in f \<noteq> [] \<and> (q = f \<or> startsWith q (f @ ''/''))) xs)"

definition matchFolders :: "string \<Rightarrow> string list \<Rightarrow> string list" where
  "matchFolders query all =
     (let q = toLowerCase (trim query) in
      if q = [] then all
      else filter (\<lambda>f. startsWith (toLowerCase f) q) all
        @ filter (\<lambda>f. \<not> startsWith (toLowerCase f) q \<and> strIncludes (toLowerCase f) q) all)"

lemma matchFolders_sound: "set (matchFolders q all) \<subseteq> set all"
  by (auto simp: matchFolders_def Let_def)

text \<open>
  An entry typed with blanks inside its slashes cannot be taken off the list again: the stored
  entry keeps the blanks, while removing normalises them away, so the list is unchanged.
\<close>
theorem excluded_entry_sticks:
  "addExcluded [] ''/ Work /'' = ['' Work ''] \<and> removeExcluded (addExcluded [] ''/ Work /'') '' Work '' = ['' Work '']"
  by (simp add: addExcluded_def removeExcluded_def normalizeFolder_def slashes_def trim_def trimEndBy_def
      isJsSpace_def stripSlashes_def startsWith_def endsWith_def jsDistinct_def)

end
