(* ===== verification/Mounts.thy ===== *)
theory Mounts
  imports JsonValue ExcludedFolders Base
begin

text \<open>
  Shared folders mounted into the vault, the pure part: \<open>client/src/mounts.ts\<close>. A mount maps a folder
  of a source vault on the server to a local folder. Here are the translation of paths between the two
  sides, the rule that a mount claims its folder in every spelling, the parsing of the persisted list of
  mounts and the two checks of a set of mounts. The host's \<open>String.prototype.normalize("NFC")\<close> is the
  parameter \<open>nfc\<close>; nothing is assumed of it.
\<close>

datatype mount_direction = DirPull | DirSync

record mount_source =
  ms_owner :: string
  ms_vaultId :: string
  ms_sourcePath :: path

record mount =
  mt_source :: mount_source
  mt_mountPoint :: path
  mt_direction :: mount_direction

definition goodSeg :: "string \<Rightarrow> bool" where
  "goodSeg s \<longleftrightarrow> s \<noteq> '''' \<and> s \<noteq> ''.'' \<and> s \<noteq> ''..''"

definition normFolder :: "path \<Rightarrow> path" where
  "normFolder p = joinWith ''/'' (filter goodSeg (splitOn (CHR ''/'') p))"

definition normMountFolder :: "string \<Rightarrow> path" where
  "normMountFolder p =
     joinWith ''/'' (filter goodSeg (map (\<lambda>s. trimEndBy (\<lambda>c. c = CHR ''.'') (trim s)) (splitOn (CHR ''/'') (slashes p))))"

definition segsOf :: "path \<Rightarrow> string list" where
  "segsOf folder = filter (\<lambda>s. s \<noteq> '''') (splitOn (CHR ''/'') (normFolder folder))"

definition canonSeg :: "(string \<Rightarrow> string) \<Rightarrow> string \<Rightarrow> string" where
  "canonSeg nfc s = toLowerCase (nfc s)"

definition underOrEqual :: "(string \<Rightarrow> string) \<Rightarrow> string list \<Rightarrow> string list \<Rightarrow> bool" where
  "underOrEqual nfc pathSegs prefixSegs =
     (if prefixSegs = [] then True
      else if length pathSegs < length prefixSegs then False
      else list_all (\<lambda>(s, q). canonSeg nfc q = canonSeg nfc s) (zip prefixSegs pathSegs))"

definition segsEqual :: "(string \<Rightarrow> string) \<Rightarrow> string list \<Rightarrow> string list \<Rightarrow> bool" where
  "segsEqual nfc a b \<longleftrightarrow> length a = length b \<and> underOrEqual nfc a b"

definition canonFolder :: "(string \<Rightarrow> string) \<Rightarrow> path \<Rightarrow> string" where
  "canonFolder nfc p = joinWith ''/'' (map (canonSeg nfc) (segsOf p))"

definition claimsLocal :: "(string \<Rightarrow> string) \<Rightarrow> mount \<Rightarrow> path \<Rightarrow> bool" where
  "claimsLocal nfc m localPath =
     (let mp = segsOf (mt_mountPoint m) in length mp > 0 \<and> underOrEqual nfc (segsOf localPath) mp)"

definition primaryExcludes :: "(string \<Rightarrow> string) \<Rightarrow> mount list \<Rightarrow> path \<Rightarrow> bool" where
  "primaryExcludes nfc mounts localPath = list_ex (\<lambda>m. claimsLocal nfc m localPath) mounts"

definition nudgeTarget :: "(string \<Rightarrow> string) \<Rightarrow> mount list \<Rightarrow> path \<Rightarrow> (path \<Rightarrow> bool) \<Rightarrow> mount option" where
  "nudgeTarget nfc mounts localPath isSelfEcho =
     (case List.find (\<lambda>m. claimsLocal nfc m localPath) mounts of
        None \<Rightarrow> None
      | Some claimed \<Rightarrow> if isSelfEcho localPath then None else Some claimed)"

definition mountRelFromLocal :: "(string \<Rightarrow> string) \<Rightarrow> mount \<Rightarrow> path \<Rightarrow> path option" where
  "mountRelFromLocal nfc m localPath =
     (let mp = segsOf (mt_mountPoint m) in
      if length mp = 0 then None
      else let p = segsOf localPath in
        if underOrEqual nfc p mp then Some (joinWith ''/'' (drop (length mp) p)) else None)"

definition mountRelFromSource :: "(string \<Rightarrow> string) \<Rightarrow> mount \<Rightarrow> path \<Rightarrow> path option" where
  "mountRelFromSource nfc m sPath =
     (let sp = segsOf (ms_sourcePath (mt_source m)); p = segsOf sPath in
      if length sp = 0 then Some (joinWith ''/'' p)
      else if underOrEqual nfc p sp then Some (joinWith ''/'' (drop (length sp) p)) else None)"

definition localFromMountRel :: "mount \<Rightarrow> path \<Rightarrow> path" where
  "localFromMountRel m rel =
     (let mp = normFolder (mt_mountPoint m); r = normFolder rel in
      if r = '''' then mp else if mp = '''' then r else mp @ ''/'' @ r)"

definition sourceFromMountRel :: "mount \<Rightarrow> path \<Rightarrow> path" where
  "sourceFromMountRel m rel =
     (let sp = normFolder (ms_sourcePath (mt_source m)); r = normFolder rel in
      if sp = '''' then r else if r = '''' then sp else sp @ ''/'' @ r)"

subsection \<open>The persisted list\<close>

definition parseMount :: "jval \<Rightarrow> mount option" where
  "parseMount m =
     (if \<not> isObject m then None
      else
        let src = (if isObject (fieldOf m ''source'') then fieldOf m ''source'' else VObj []);
            vaultId = strOr '''' (fieldOf src ''vaultId'');
            mountPoint = normMountFolder (strOr '''' (fieldOf m ''mountPoint''))
        in if vaultId = '''' \<or> mountPoint = '''' then None
           else Some
             \<lparr>mt_source = \<lparr>ms_owner = strOr '''' (fieldOf src ''owner''), ms_vaultId = vaultId,
                ms_sourcePath = normMountFolder (strOr '''' (fieldOf src ''sourcePath''))\<rparr>,
              mt_mountPoint = mountPoint,
              mt_direction = (if fieldOf m ''direction'' = VStr (units ''sync'') then DirSync else DirPull)\<rparr>)"

fun parseMounts :: "jval \<Rightarrow> mount list" where
  "parseMounts (VArr es) = List.map_filter parseMount es"
| "parseMounts _ = []"

subsection \<open>Sets of mounts\<close>

definition emptyPointMsg :: "nat \<Rightarrow> string" where
  "emptyPointMsg i = ''mount #'' @ natStr (i + 1) @ '': the mount point can''
     @ [CHR 0x27] @ ''t be empty or the vault root''"

definition configPointMsg :: "string \<Rightarrow> nat \<Rightarrow> string" where
  "configPointMsg what i = ''mount #'' @ natStr (i + 1) @ '': a '' @ what @ '' can''
     @ [CHR 0x27] @ ''t be inside the .obsidian config folder (mounts sync notes only)''"

definition sharedPointMsg :: "path \<Rightarrow> string" where
  "sharedPointMsg p = ''two mounts share the mount point '' @ [CHR 0x22] @ p @ [CHR 0x22]"

definition nestedPointMsg :: "path \<Rightarrow> path \<Rightarrow> string" where
  "nestedPointMsg p q = ''mount point '' @ [CHR 0x22] @ p @ [CHR 0x22] @ '' is nested inside '' @ [CHR 0x22] @ q
     @ [CHR 0x22] @ '' (nesting is not allowed)''"

definition inConfig :: "(string \<Rightarrow> string) \<Rightarrow> path \<Rightarrow> bool" where
  "inConfig nfc p = list_ex (\<lambda>s. canonSeg nfc s = ''.obsidian'') (segsOf p)"

definition mountErrors :: "(string \<Rightarrow> string) \<Rightarrow> nat \<Rightarrow> mount \<Rightarrow> string list" where
  "mountErrors nfc i m =
     (if length (segsOf (mt_mountPoint m)) = 0 then [emptyPointMsg i]
      else (if inConfig nfc (mt_mountPoint m) then [configPointMsg ''mount point'' i] else [])
        @ (if inConfig nfc (ms_sourcePath (mt_source m)) then [configPointMsg ''source subfolder'' i] else []))"

definition pairErrors :: "(string \<Rightarrow> string) \<Rightarrow> mount \<Rightarrow> mount \<Rightarrow> string list" where
  "pairErrors nfc a b =
     (let x = segsOf (mt_mountPoint a); y = segsOf (mt_mountPoint b) in
      if x = [] \<or> y = [] then []
      else if segsEqual nfc x y then [sharedPointMsg (mt_mountPoint a)]
      else if underOrEqual nfc x y then [nestedPointMsg (mt_mountPoint a) (mt_mountPoint b)]
      else if underOrEqual nfc y x then [nestedPointMsg (mt_mountPoint b) (mt_mountPoint a)]
      else [])"

fun allPairErrors :: "(string \<Rightarrow> string) \<Rightarrow> mount list \<Rightarrow> string list" where
  "allPairErrors nfc [] = []"
| "allPairErrors nfc (a # ms) = concat (map (pairErrors nfc a) ms) @ allPairErrors nfc ms"

definition validateMounts :: "(string \<Rightarrow> string) \<Rightarrow> mount list \<Rightarrow> string list" where
  "validateMounts nfc mounts =
     concat (map (\<lambda>(i, m). mountErrors nfc i m) (enumerate 0 mounts)) @ allPairErrors nfc mounts"

definition overlapping :: "(string \<Rightarrow> string) \<Rightarrow> mount \<Rightarrow> mount \<Rightarrow> bool" where
  "overlapping nfc m o1 =
     (let mp = segsOf (mt_mountPoint m); op = segsOf (mt_mountPoint o1) in
      underOrEqual nfc mp op \<or> underOrEqual nfc op mp)"

definition admit :: "(string \<Rightarrow> string) \<Rightarrow> mount list \<Rightarrow> mount \<Rightarrow> mount list" where
  "admit nfc ok m =
     (if length (segsOf (mt_mountPoint m)) = 0 then ok
      else if inConfig nfc (mt_mountPoint m) then ok
      else if inConfig nfc (ms_sourcePath (mt_source m)) then ok
      else if list_ex (overlapping nfc m) ok then ok
      else ok @ [m])"

definition validMounts :: "(string \<Rightarrow> string) \<Rightarrow> mount list \<Rightarrow> mount list" where
  "validMounts nfc mounts = foldl (admit nfc) [] mounts"

subsection \<open>Segments\<close>

text \<open>A list of segments that is the list of segments of its own path.\<close>

definition plainSegs :: "string list \<Rightarrow> bool" where
  "plainSegs xs \<longleftrightarrow> list_all (\<lambda>s. goodSeg s \<and> CHR ''/'' \<notin> set s) xs"

lemma plainSegs_append [simp]: "plainSegs (xs @ ys) \<longleftrightarrow> plainSegs xs \<and> plainSegs ys"
  by (simp add: plainSegs_def)

lemma plainSegs_drop [simp]: "plainSegs xs \<Longrightarrow> plainSegs (drop n xs)"
  by (auto simp: plainSegs_def list_all_iff dest: in_set_dropD)

lemma split_plain: "plainSegs xs \<Longrightarrow> splitOn (CHR ''/'') (joinWith ''/'' xs) = (if xs = [] then [''''] else xs)"
  by (cases "xs = []") (auto simp: plainSegs_def list_all_iff split_join)

lemma plain_filtered: "plainSegs (filter goodSeg (splitOn (CHR ''/'') p))"
  using splitOn_free [of "CHR ''/''" p] by (auto simp: plainSegs_def list_all_iff)

lemma segsOf_filter: "segsOf p = filter goodSeg (splitOn (CHR ''/'') p)"
proof -
  let ?xs = "filter goodSeg (splitOn (CHR ''/'') p)"
  have "filter (\<lambda>s. s \<noteq> '''') ?xs = ?xs" by (rule filter_True) (auto simp: goodSeg_def)
  then show ?thesis by (simp add: segsOf_def normFolder_def split_plain [OF plain_filtered])
qed

lemma plain_segsOf [simp]: "plainSegs (segsOf p)"
  by (simp add: segsOf_filter plain_filtered)

lemma segsOf_join [simp]: "plainSegs xs \<Longrightarrow> segsOf (joinWith ''/'' xs) = xs"
  by (auto simp: segsOf_filter split_plain goodSeg_def plainSegs_def list_all_iff intro!: filter_True)

lemma normFolder_segs: "normFolder p = joinWith ''/'' (segsOf p)"
  by (simp add: normFolder_def segsOf_filter)

lemma join_plain_Nil [simp]: "plainSegs xs \<Longrightarrow> joinWith ''/'' xs = '''' \<longleftrightarrow> xs = []"
  by (cases "(''/'', xs)" rule: joinWith.cases) (auto simp: plainSegs_def goodSeg_def)

lemma normFolder_empty [simp]: "normFolder p = '''' \<longleftrightarrow> segsOf p = []"
  by (simp add: normFolder_segs)

lemma segsOf_norm [simp]: "segsOf (normFolder p) = segsOf p"
  by (simp add: normFolder_segs)

lemma normFolder_idem [simp]: "normFolder (normFolder p) = normFolder p"
  by (simp add: normFolder_segs)

lemma normFolder_join [simp]: "plainSegs xs \<Longrightarrow> normFolder (joinWith ''/'' xs) = joinWith ''/'' xs"
  by (simp add: normFolder_segs)

lemma localFromMountRel_segs:
  "localFromMountRel m rel = joinWith ''/'' (segsOf (mt_mountPoint m) @ segsOf rel)"
  by (simp add: localFromMountRel_def Let_def) (auto simp: normFolder_segs joinWith_append)

lemma sourceFromMountRel_segs:
  "sourceFromMountRel m rel = joinWith ''/'' (segsOf (ms_sourcePath (mt_source m)) @ segsOf rel)"
  by (simp add: sourceFromMountRel_def Let_def) (auto simp: normFolder_segs joinWith_append)

lemma zip_canon:
  "length q \<le> length p \<Longrightarrow> list_all (\<lambda>(s, x). f x = f s) (zip q p) \<longleftrightarrow> (\<exists>r. map f p = map f q @ r)"
proof (induction q arbitrary: p)
  case (Cons a q)
  then show ?case by (cases p) auto
qed simp

lemma underOrEqual_iff: "underOrEqual nfc p q \<longleftrightarrow> (\<exists>r. map (canonSeg nfc) p = map (canonSeg nfc) q @ r)"
proof (cases "length q \<le> length p")
  case True
  then show ?thesis by (auto simp: underOrEqual_def zip_canon)
next
  case False
  have "length q \<le> length p" if "map (canonSeg nfc) p = map (canonSeg nfc) q @ r" for r
    using arg_cong [OF that, of length] by simp
  with False show ?thesis by (auto simp: underOrEqual_def)
qed

lemma under_both: "underOrEqual nfc p a \<Longrightarrow> underOrEqual nfc p b \<Longrightarrow> underOrEqual nfc a b \<or> underOrEqual nfc b a"
  unfolding underOrEqual_iff by (metis append_eq_append_conv2)


subsection \<open>Translation of paths\<close>

text \<open>
  What the adapters of a mount need of one side: \<open>inside\<close>, a path under the prefix, is mapped to its
  relative path and back, up to the spelling of the prefix.
\<close>

locale prefix_scope =
  fixes nfc :: "string \<Rightarrow> string" and prefix :: path and toRel :: "path \<Rightarrow> path option" and fromRel :: "path \<Rightarrow> path"
  assumes toRel_iff: "toRel p = Some r \<longleftrightarrow>
      underOrEqual nfc (segsOf p) (segsOf prefix) \<and> r = joinWith ''/'' (drop (length (segsOf prefix)) (segsOf p))"
    and fromRel_eq: "fromRel r = joinWith ''/'' (segsOf prefix @ segsOf r)"
begin

lemma rel_normal: "toRel p = Some r \<Longrightarrow> normFolder r = r"
  by (auto simp: toRel_iff)

lemma toRel_fromRel: "toRel (fromRel r) = Some (normFolder r)"
  by (auto simp: toRel_iff fromRel_eq underOrEqual_iff normFolder_segs)

lemma fromRel_toRel:
  assumes "toRel p = Some r"
  shows "canonFolder nfc (fromRel r) = canonFolder nfc p"
    and "take (length (segsOf prefix)) (segsOf p) = segsOf prefix \<Longrightarrow> fromRel r = normFolder p"
proof -
  let ?n = "length (segsOf prefix)"
  obtain t where "map (canonSeg nfc) (segsOf p) = map (canonSeg nfc) (segsOf prefix) @ t"
    using assms by (auto simp: toRel_iff underOrEqual_iff)
  then have "map (canonSeg nfc) (segsOf prefix) @ drop ?n (map (canonSeg nfc) (segsOf p)) = map (canonSeg nfc) (segsOf p)"
    by simp
  then show "canonFolder nfc (fromRel r) = canonFolder nfc p"
    using assms by (auto simp: canonFolder_def fromRel_eq toRel_iff drop_map)
  assume "take ?n (segsOf p) = segsOf prefix"
  then have "segsOf prefix @ drop ?n (segsOf p) = segsOf p" by (metis append_take_drop_id)
  then show "fromRel r = normFolder p"
    using assms by (auto simp: fromRel_eq toRel_iff normFolder_segs)
qed

lemma fromRel_inj: "fromRel r = fromRel r' \<longleftrightarrow> normFolder r = normFolder r'"
  by (metis fromRel_eq normFolder_segs option.inject segsOf_norm toRel_fromRel)

lemma toRel_None: "toRel p = None \<longleftrightarrow> \<not> underOrEqual nfc (segsOf p) (segsOf prefix)"
  by (metis not_None_eq toRel_iff)

end

text \<open>Both sides of a mount are such scopes; the local one when the mount point is not the vault root.\<close>

interpretation source_scope: prefix_scope nfc "ms_sourcePath (mt_source m)" "mountRelFromSource nfc m" "sourceFromMountRel m"
  for nfc m
  by unfold_locales (auto simp: mountRelFromSource_def Let_def underOrEqual_iff sourceFromMountRel_segs)

lemma local_scope: "segsOf (mt_mountPoint m) \<noteq> [] \<Longrightarrow>
  prefix_scope nfc (mt_mountPoint m) (mountRelFromLocal nfc m) (localFromMountRel m)"
  by unfold_locales (auto simp: mountRelFromLocal_def Let_def localFromMountRel_segs)

text \<open>
  Path translation loses nothing: a relative path is mapped to the local side and to the source
  side and back to itself; a local path that has a relative path is claimed by the mount and is
  reached again through it in the spelling of the same folder, exactly when the file's own path
  spells the mount point as configured, and a path the mount does not claim has none.
\<close>
theorem mount_paths_roundtrip:
  assumes "segsOf (mt_mountPoint m) \<noteq> []"
  shows "mountRelFromLocal nfc m (localFromMountRel m r) = Some (normFolder r)
     \<and> mountRelFromSource nfc m (sourceFromMountRel m r) = Some (normFolder r)
     \<and> (case mountRelFromLocal nfc m p of
          None \<Rightarrow> \<not> claimsLocal nfc m p
        | Some rel \<Rightarrow> claimsLocal nfc m p \<and> normFolder rel = rel
            \<and> canonFolder nfc (localFromMountRel m rel) = canonFolder nfc p
            \<and> (take (length (segsOf (mt_mountPoint m))) (segsOf p) = segsOf (mt_mountPoint m)
                \<longrightarrow> localFromMountRel m rel = normFolder p))"
proof -
  note loc = local_scope [OF assms, of nfc]
  show ?thesis
    using prefix_scope.toRel_fromRel [OF loc, of r] source_scope.toRel_fromRel [of nfc m r] assms
      prefix_scope.toRel_None [OF loc, of p] prefix_scope.rel_normal [OF loc, of p]
      prefix_scope.fromRel_toRel [OF loc, of p] prefix_scope.toRel_iff [OF loc, of p]
    by (auto simp: claimsLocal_def Let_def split: option.splits)
qed


definition workMount :: mount where
  "workMount = \<lparr>mt_source = \<lparr>ms_owner = ''alice'', ms_vaultId = ''v1'', ms_sourcePath = ''Team''\<rparr>,
     mt_mountPoint = ''Work/ASI'', mt_direction = DirSync\<rparr>"

theorem mount_paths_roundtrip_witness:
  "mountRelFromLocal (\<lambda>s. s) workMount ''Work/ASI/notes/a.md'' = Some ''notes/a.md''
   \<and> localFromMountRel workMount ''notes/a.md'' = ''Work/ASI/notes/a.md''
   \<and> sourceFromMountRel workMount ''notes/a.md'' = ''Team/notes/a.md''"
proof -
  have nonroot: "segsOf (mt_mountPoint workMount) \<noteq> []"
    and to: "localFromMountRel workMount ''notes/a.md'' = ''Work/ASI/notes/a.md''"
    and src: "sourceFromMountRel workMount ''notes/a.md'' = ''Team/notes/a.md''"
    and nf: "normFolder ''notes/a.md'' = ''notes/a.md''"
    by (simp_all add: segsOf_filter goodSeg_def workMount_def localFromMountRel_segs sourceFromMountRel_segs normFolder_segs)
  show ?thesis
    using mount_paths_roundtrip [OF nonroot, of "\<lambda>s. s" "''notes/a.md''"] unfolding to nf src by blast
qed

subsection \<open>Sets of mounts\<close>

definition wellPlaced :: "(string \<Rightarrow> string) \<Rightarrow> mount \<Rightarrow> bool" where
  "wellPlaced nfc m \<longleftrightarrow> segsOf (mt_mountPoint m) \<noteq> [] \<and> \<not> inConfig nfc (mt_mountPoint m)
     \<and> \<not> inConfig nfc (ms_sourcePath (mt_source m))"

text \<open>The sets that the rules allow: every mount well placed and no two overlapping.\<close>

definition composable :: "(string \<Rightarrow> string) \<Rightarrow> mount list \<Rightarrow> bool" where
  "composable nfc ms \<longleftrightarrow> list_all (wellPlaced nfc) ms \<and> sorted_wrt (\<lambda>a b. \<not> overlapping nfc a b) ms"

lemma overlapping_sym: "overlapping nfc a b \<longleftrightarrow> overlapping nfc b a"
  by (auto simp: overlapping_def Let_def)

lemma admit_cases:
  "admit nfc ok m = (if wellPlaced nfc m \<and> \<not> list_ex (overlapping nfc m) ok then ok @ [m] else ok)"
  by (simp add: admit_def wellPlaced_def)

lemma admit_composable: "composable nfc ok \<Longrightarrow> composable nfc (admit nfc ok m)"
  by (auto simp: admit_cases composable_def sorted_wrt_append list_ex_iff overlapping_sym)

lemma foldl_admit_composable: "composable nfc ok \<Longrightarrow> composable nfc (foldl (admit nfc) ok ms)"
  by (induction ms arbitrary: ok) (auto simp: admit_composable)

lemma foldl_admit_id: "composable nfc (ok @ ms) \<Longrightarrow> foldl (admit nfc) ok ms = ok @ ms"
proof (induction ms arbitrary: ok)
  case (Cons m ms)
  have "\<forall>x \<in> set ok. \<not> overlapping nfc m x"
    using Cons.prems by (auto simp: composable_def sorted_wrt_append overlapping_sym)
  moreover have "wellPlaced nfc m" using Cons.prems by (simp add: composable_def)
  ultimately have "admit nfc ok m = ok @ [m]" by (simp add: admit_cases list_ex_iff)
  with Cons show ?case by simp
qed simp

lemma validMounts_composable: "composable nfc (validMounts nfc ms)"
  unfolding validMounts_def by (rule foldl_admit_composable) (simp add: composable_def)

lemma mountErrors_Nil: "mountErrors nfc i m = [] \<longleftrightarrow> wellPlaced nfc m"
  by (auto simp: mountErrors_def wellPlaced_def)

lemma pairErrors_Nil:
  "wellPlaced nfc a \<Longrightarrow> wellPlaced nfc b \<Longrightarrow> pairErrors nfc a b = [] \<longleftrightarrow> \<not> overlapping nfc a b"
  by (auto simp: pairErrors_def overlapping_def Let_def wellPlaced_def segsEqual_def)

lemma allPairErrors_Nil:
  "list_all (wellPlaced nfc) ms \<Longrightarrow> allPairErrors nfc ms = [] \<longleftrightarrow> sorted_wrt (\<lambda>a b. \<not> overlapping nfc a b) ms"
  by (induction ms) (auto simp: pairErrors_Nil list_all_iff)

lemma validateMounts_composable: "validateMounts nfc ms = [] \<longleftrightarrow> composable nfc ms"
proof -
  have "concat (map (\<lambda>(i, m). mountErrors nfc i m) (enumerate k ms)) = [] \<longleftrightarrow> list_all (wellPlaced nfc) ms" for k
    by (induction ms arbitrary: k) (auto simp: mountErrors_Nil)
  then show ?thesis
    by (auto simp: validateMounts_def composable_def allPairErrors_Nil)
qed

text \<open>
  The check shown to the user and the filter that is applied agree: a set of mounts passes without
  an error exactly when nothing of it is dropped, and what the filter leaves of any set passes.
\<close>
theorem mount_checks_agree:
  "(validateMounts nfc ms = [] \<longleftrightarrow> validMounts nfc ms = ms) \<and> validateMounts nfc (validMounts nfc ms) = []"
  using foldl_admit_id [of nfc "[]" ms] validMounts_composable [of nfc ms]
  by (auto simp: validateMounts_composable validMounts_def)

lemma find_filter: "List.find P xs = (case filter P xs of [] \<Rightarrow> None | x # _ \<Rightarrow> Some x)"
  by (induction xs) (auto split: list.splits)

lemma claims_unique:
  assumes "sorted_wrt (\<lambda>a b. \<not> overlapping nfc a b) ms"
  shows "length (filter (\<lambda>m. claimsLocal nfc m p) ms) \<le> 1"
  using assms
proof (induction ms)
  case (Cons m ms)
  have "filter (\<lambda>m. claimsLocal nfc m p) ms = []" if "claimsLocal nfc m p"
    using that Cons.prems under_both [of nfc "segsOf p"]
    by (auto simp: filter_empty_conv claimsLocal_def Let_def overlapping_def)
  with Cons show ?case by simp
qed simp

text \<open>
  The mounts that are put into effect and the primary vault share out the files: every local path
  belongs to exactly one of them, in whatever spelling, and an edit of it is passed on to the mount that
  owns it (unless it is that mount's own write coming back), never to another one.
\<close>
theorem mounts_partition_vault:
  "length (filter (\<lambda>m. claimsLocal nfc m p) (validMounts nfc ms))
     + (if primaryExcludes nfc (validMounts nfc ms) p then 0 else 1) = 1
   \<and> (nudgeTarget nfc (validMounts nfc ms) p echo = Some m
       \<longleftrightarrow> m \<in> set (validMounts nfc ms) \<and> claimsLocal nfc m p \<and> \<not> echo p)"
proof -
  let ?ms = "validMounts nfc ms" and ?own = "\<lambda>m. claimsLocal nfc m p"
  have le: "length (filter ?own ?ms) \<le> 1"
    using validMounts_composable [of nfc ms] by (intro claims_unique) (simp add: composable_def)
  have ex: "primaryExcludes nfc ?ms p \<longleftrightarrow> filter ?own ?ms \<noteq> []"
    by (auto simp: primaryExcludes_def list_ex_iff filter_empty_conv)
  have find: "List.find ?own ?ms = (case filter ?own ?ms of [] \<Rightarrow> None | x # _ \<Rightarrow> Some x)"
    by (rule find_filter)
  have "m \<in> set ?ms \<and> ?own m \<longleftrightarrow> filter ?own ?ms = [m]"
  proof -
    have "m \<in> set ?ms \<and> ?own m \<longleftrightarrow> m \<in> set (filter ?own ?ms)" by simp
    also have "\<dots> \<longleftrightarrow> filter ?own ?ms = [m]" using le by (cases "filter ?own ?ms") auto
    finally show ?thesis .
  qed
  then have "nudgeTarget nfc ?ms p echo = Some m \<longleftrightarrow> m \<in> set ?ms \<and> ?own m \<and> \<not> echo p"
    unfolding nudgeTarget_def find using le by (cases "filter ?own ?ms") auto
  then show ?thesis using le ex by (cases "filter ?own ?ms") auto
qed

subsection \<open>What the parser lets through\<close>

lemma normMountFolder_plain: "\<exists>xs. plainSegs xs \<and> normMountFolder p = joinWith ''/'' xs"
proof -
  let ?f = "\<lambda>s. trimEndBy (\<lambda>c. c = CHR ''.'') (trim s)"
  have sub: "set (?f s) \<subseteq> set s" for s
    by (auto simp: trimEndBy_def trim_def dest!: set_dropWhileD)
  have "plainSegs (filter goodSeg (map ?f (splitOn (CHR ''/'') (slashes p))))"
    using splitOn_free [of "CHR ''/''" "slashes p"] sub by (fastforce simp: plainSegs_def list_all_iff)
  then show ?thesis unfolding normMountFolder_def by blast
qed

lemma normFolder_normMountFolder [simp]: "normFolder (normMountFolder p) = normMountFolder p"
  using normMountFolder_plain [of p] by force

text \<open>
  Whatever the persisted value is, every mount read from it is well formed: it names a source
  vault, both folders are in normal form, and the mount point has at least one segment, so that the
  mount can never claim the vault root; a mount is writable only when that was asked for.
\<close>
theorem parsed_mounts_wellformed:
  "list_all (\<lambda>m. ms_vaultId (mt_source m) \<noteq> '''' \<and> segsOf (mt_mountPoint m) \<noteq> []
       \<and> normFolder (mt_mountPoint m) = mt_mountPoint m
       \<and> normFolder (ms_sourcePath (mt_source m)) = ms_sourcePath (mt_source m)
       \<and> (mt_direction m = DirSync \<longleftrightarrow> (\<exists>v \<in> (case raw of VArr es \<Rightarrow> set es | _ \<Rightarrow> {}).
            parseMount v = Some m \<and> fieldOf v ''direction'' = VStr (units ''sync''))))
     (parseMounts raw)"
proof (cases raw rule: parseMounts.cases)
  case (1 es)
  have wf: "ms_vaultId (mt_source m) \<noteq> '''' \<and> segsOf (mt_mountPoint m) \<noteq> []
       \<and> normFolder (mt_mountPoint m) = mt_mountPoint m
       \<and> normFolder (ms_sourcePath (mt_source m)) = ms_sourcePath (mt_source m)
       \<and> (mt_direction m = DirSync \<longleftrightarrow> fieldOf v ''direction'' = VStr (units ''sync''))" if "parseMount v = Some m" for v m
    using that normFolder_normMountFolder [of "strOr '''' (fieldOf v ''mountPoint'')"]
    by (auto simp: parseMount_def Let_def simp flip: normFolder_empty split: if_splits)
  show ?thesis
    using 1 by (auto simp: list_all_iff List.map_filter_def dest: wf) (use wf in blast)
qed simp_all

text \<open>
  Trailing dots are stripped after the blanks, so a blank before the dots stays: the result is not in
  the form that a second normalization gives.
\<close>

lemma normMountFolder_leaves_blank:
  "normMountFolder ''Work/ASI .'' = ''Work/ASI '' \<and> normMountFolder (normMountFolder ''Work/ASI .'') = ''Work/ASI''"
  by code_simp

end
