(* ===== verification/Merge.thy ===== *)
theory Merge
  imports Prelude
begin

text \<open>
  The line-level three-way merge of \<open>client/src/merge.ts\<close>: the LCS table and its walk, the
  anchor loop and \<open>merge3\<close>. The strict UTF-8 decoder of the host is the parameter
  \<open>decode\<close> (\<^const>\<open>None\<close> where the decoder throws).
\<close>

definition NL :: nat where "NL = 10"
definition CR :: nat where "CR = 13"

definition TEXT_EXT :: "string list" where
  "TEXT_EXT = [''.md'', ''.markdown'', ''.txt'', ''.canvas'']"

definition isTextExt :: "path \<Rightarrow> bool" where
  "isTextExt p = (let lower = toLowerCase p in list_ex (\<lambda>e. endsWith lower e) TEXT_EXT)"

definition isMergeable :: "(bytes \<Rightarrow> utext option) \<Rightarrow> path \<Rightarrow> bytes \<Rightarrow> bool" where
  "isMergeable decode p b \<longleftrightarrow> isTextExt p \<and> decode b \<noteq> None"

definition splitLines :: "utext \<Rightarrow> utext list" where
  "splitLines s = (if s = [] then [] else splitOn NL s)"

subsection \<open>LCS alignment\<close>

text \<open>
  One row of the table from the row below it: \<open>n0\<close> is \<open>dp[i+1][j]\<close>, the head of
  \<open>nxt\<close> is \<open>dp[i+1][j+1]\<close>.
\<close>

fun lcsRow :: "'a \<Rightarrow> 'a list \<Rightarrow> nat list \<Rightarrow> nat list" where
  "lcsRow b (y # ys) (n0 # nxt) =
     (let r = lcsRow b ys nxt in
      (if b = y then hd nxt + 1 else max n0 (hd r)) # r)"
| "lcsRow b _ _ = [0]"

fun lcsTable :: "'a list \<Rightarrow> 'a list \<Rightarrow> nat list list" where
  "lcsTable [] other = [replicate (length other + 1) 0]"
| "lcsTable (b # bs) other = (let t = lcsTable bs other in lcsRow b other (hd t) # t)"

function lcsWalk :: "nat list list \<Rightarrow> 'a list \<Rightarrow> 'a list \<Rightarrow> nat \<Rightarrow> nat \<Rightarrow> (nat \<times> nat) list" where
  "lcsWalk dp base other i j =
     (if i < length base \<and> j < length other then
        (if base ! i = other ! j then (i, j) # lcsWalk dp base other (Suc i) (Suc j)
         else if dp ! Suc i ! j \<ge> dp ! i ! Suc j then lcsWalk dp base other (Suc i) j
         else lcsWalk dp base other i (Suc j))
      else [])"
  by pat_completeness auto
termination
  by (relation "measure (\<lambda>(dp, base, other, i, j). (length base - i) + (length other - j))") auto

declare lcsWalk.simps [simp del]

definition lcsPairs :: "'a list \<Rightarrow> 'a list \<Rightarrow> (nat \<times> nat) list" where
  "lcsPairs base other = lcsWalk (lcsTable base other) base other 0 0"

text \<open>The reference: the length of a longest common subsequence.\<close>

fun lcsLen :: "'a list \<Rightarrow> 'a list \<Rightarrow> nat" where
  "lcsLen (x # xs) (y # ys) =
     (if x = y then lcsLen xs ys + 1 else max (lcsLen xs (y # ys)) (lcsLen (x # xs) ys))"
| "lcsLen _ _ = 0"

subsection \<open>The merge\<close>

definition MAX_MERGE_LINES :: nat where
  "MAX_MERGE_LINES = 5000"

fun normEol :: "utext \<Rightarrow> utext" where
  "normEol (x # y # xs) = (if x = CR \<and> y = NL then NL # normEol xs else x # normEol (y # xs))"
| "normEol xs = xs"

definition slice :: "'a list \<Rightarrow> nat \<Rightarrow> nat \<Rightarrow> 'a list" where
  "slice xs a b = take (b - a) (drop a xs)"

text \<open>The lines a gap contributes, and whether it is conflict-free.\<close>

definition resolveGap :: "'a list \<Rightarrow> 'a list \<Rightarrow> 'a list \<Rightarrow> 'a list \<times> bool" where
  "resolveGap bs ls rs =
     (if ls = bs then (rs, True)
      else if rs = bs then (ls, True)
      else if ls = rs then (ls, True)
      else (ls, False))"

definition anchors :: "'a list \<Rightarrow> 'a list \<Rightarrow> 'a list \<Rightarrow> (nat \<times> nat \<times> nat) list" where
  "anchors B L R =
     (let lb = map_of (lcsPairs B L); rb = map_of (lcsPairs B R) in
      List.map_filter
        (\<lambda>bi. case (lb bi, rb bi) of (Some li, Some ri) \<Rightarrow> Some (bi, li, ri) | _ \<Rightarrow> None)
        [0..<length B])"

text \<open>The loop over the anchors; the three indices are \<open>pb + 1\<close>, \<open>pl + 1\<close>, \<open>pr + 1\<close>.\<close>

fun mergeLoop ::
  "'a list \<Rightarrow> 'a list \<Rightarrow> 'a list \<Rightarrow> nat \<Rightarrow> nat \<Rightarrow> nat \<Rightarrow> (nat \<times> nat \<times> nat) list \<Rightarrow> 'a list \<times> bool" where
  "mergeLoop B L R nb nl nr [] = resolveGap (drop nb B) (drop nl L) (drop nr R)"
| "mergeLoop B L R nb nl nr ((bi, li, ri) # as) =
     (let (g, c) = resolveGap (slice B nb bi) (slice L nl li) (slice R nr ri);
          (out, clean) = mergeLoop B L R (Suc bi) (Suc li) (Suc ri) as
      in (g @ B ! bi # out, c \<and> clean))"

definition mergeLines :: "'a list \<Rightarrow> 'a list \<Rightarrow> 'a list \<Rightarrow> 'a list \<times> bool" where
  "mergeLines B L R = mergeLoop B L R 0 0 0 (anchors B L R)"

definition merge3 :: "utext \<Rightarrow> utext \<Rightarrow> utext \<Rightarrow> utext \<times> bool" where
  "merge3 base0 local0 remote0 =
     (let base = normEol base0; local = normEol local0; remote = normEol remote0 in
      if local = remote then (local, True)
      else if base = local then (remote, True)
      else if base = remote then (local, True)
      else
        (let B = splitLines base; L = splitLines local; R = splitLines remote in
         if length B > MAX_MERGE_LINES \<or> length L > MAX_MERGE_LINES \<or> length R > MAX_MERGE_LINES
         then (local, False)
         else (let (out, clean) = mergeLines B L R in (joinWith [NL] out, clean))))"

subsection \<open>The table computes the reference\<close>

lemma lcsRow_length: "length nxt = length ys + 1 \<Longrightarrow> length (lcsRow b ys nxt) = length ys + 1"
  by (induction b ys nxt rule: lcsRow.induct) (auto simp: Let_def)

lemma lcsLen_Nil2 [simp]: "lcsLen xs [] = 0"
  by (cases xs) auto

lemma lcsRow_nth:
  "length nxt = length ys + 1 \<Longrightarrow> (\<forall>j \<le> length ys. nxt ! j = lcsLen bs (drop j ys)) \<Longrightarrow>
   j \<le> length ys \<Longrightarrow> lcsRow b ys nxt ! j = lcsLen (b # bs) (drop j ys)"
proof (induction ys arbitrary: nxt j)
  case Nil
  then show ?case by (cases nxt) auto
next
  case (Cons y ys)
  then obtain n0 nxt' where nxt: "nxt = n0 # nxt'" and len: "length nxt' = length ys + 1"
    by (cases nxt) auto
  have tl: "\<forall>j \<le> length ys. nxt' ! j = lcsLen bs (drop j ys)"
    using Cons.prems(2) nxt by (metis Suc_le_mono drop_Suc_Cons length_Cons nth_Cons_Suc)
  note IH = Cons.IH [OF len tl]
  have n0: "n0 = lcsLen bs (y # ys)" using Cons.prems(2) nxt by force
  have hd_nxt: "hd nxt' = lcsLen bs ys" using tl len by (cases nxt') force+
  have hd_r: "hd (lcsRow b ys nxt') = lcsLen (b # bs) ys"
    using IH [of 0] lcsRow_length [OF len, of b] by (cases "lcsRow b ys nxt'") auto
  show ?case
  proof (cases j)
    case 0
    then show ?thesis using n0 hd_nxt hd_r nxt by (simp add: Let_def)
  next
    case (Suc k)
    then show ?thesis using IH [of k] Cons.prems(3) nxt by (simp add: Let_def)
  qed
qed

lemma lcsTable_length: "length (lcsTable bs ys) = length bs + 1"
  by (induction bs) (auto simp: Let_def)

lemma lcsTable_hd:
  "length (hd (lcsTable bs ys)) = length ys + 1
   \<and> (\<forall>j \<le> length ys. hd (lcsTable bs ys) ! j = lcsLen bs (drop j ys))"
proof (induction bs)
  case (Cons b bs)
  then show ?case by (simp add: Let_def lcsRow_length lcsRow_nth)
qed (simp add: nth_append nth_replicate del: replicate_Suc)

lemma lcsTable_nth:
  "i \<le> length bs \<Longrightarrow> j \<le> length ys \<Longrightarrow> lcsTable bs ys ! i ! j = lcsLen (drop i bs) (drop j ys)"
proof (induction bs arbitrary: i)
  case Nil
  then show ?case using lcsTable_hd [of "[]" ys] by simp
next
  case (Cons b bs)
  show ?case
  proof (cases i)
    case 0
    then show ?thesis using lcsTable_hd [of "b # bs" ys] Cons.prems by (simp add: Let_def)
  next
    case (Suc k)
    then show ?thesis using Cons by (simp add: Let_def)
  qed
qed

subsection \<open>The walk is an optimal alignment\<close>

lemma drop_nth_Cons: "i < length xs \<Longrightarrow> drop i xs = xs ! i # drop (Suc i) xs"
  by (rule Cons_nth_drop_Suc [symmetric])

lemma lcsWalk_pairs:
  "(a, b) \<in> set (lcsWalk dp base other i j) \<Longrightarrow>
   i \<le> a \<and> j \<le> b \<and> a < length base \<and> b < length other \<and> base ! a = other ! b"
proof (induction dp base other i j rule: lcsWalk.induct)
  case (1 dp base other i j)
  consider "i < length base" "j < length other" "base ! i = other ! j"
    | "i < length base" "j < length other" "base ! i \<noteq> other ! j"
    using "1.prems" by (subst (asm) lcsWalk.simps) (auto split: if_splits)
  then show ?case
  proof cases
    case 1
    then show ?thesis
      using "1.prems" "1.IH"(1) by (subst (asm) lcsWalk.simps) auto
  next
    case 2
    then show ?thesis
      using "1.prems" "1.IH"(2,3) by (subst (asm) lcsWalk.simps) (auto split: if_splits)
  qed
qed

lemma lcsWalk_increasing:
  "sorted_wrt (\<lambda>(a, b) (c, d). a < c \<and> b < d) (lcsWalk dp base other i j)"
proof (induction dp base other i j rule: lcsWalk.induct)
  case (1 dp base other i j)
  then show ?case
    unfolding lcsWalk.simps [of dp base other i j]
    by (auto dest!: lcsWalk_pairs)
qed

lemma lcsWalk_length:
  "i \<le> length base \<Longrightarrow> j \<le> length other \<Longrightarrow>
   length (lcsWalk (lcsTable base other) base other i j) = lcsLen (drop i base) (drop j other)"
proof (induction "lcsTable base other" base other i j rule: lcsWalk.induct)
  case (1 base other i j)
  show ?case
  proof (cases "i < length base \<and> j < length other")
    case True
    then have "drop i base = base ! i # drop (Suc i) base" "drop j other = other ! j # drop (Suc j) other"
      by (auto simp: drop_nth_Cons)
    then show ?thesis
      using True "1.hyps" lcsTable_nth [of "Suc i" base j other] lcsTable_nth [of i base "Suc j" other]
      by (auto simp: lcsWalk.simps [of _ base other i j] max_def)
  next
    case False
    with "1.prems" show ?thesis
      by (auto simp: lcsWalk.simps [of _ base other i j] not_less)
  qed
qed

lemma lcsWalk_subseq_base:
  "subseq (map (\<lambda>(a, b). base ! a) (lcsWalk dp base other i j)) (drop i base)"
proof (induction dp base other i j rule: lcsWalk.induct)
  case (1 dp base other i j)
  then show ?case
    by (cases "i < length base")
      (auto simp: lcsWalk.simps [of dp base other i j] drop_nth_Cons intro: list_emb_Cons)
qed

lemma lcsWalk_subseq_other:
  "subseq (map (\<lambda>(a, b). base ! a) (lcsWalk dp base other i j)) (drop j other)"
proof (induction dp base other i j rule: lcsWalk.induct)
  case (1 dp base other i j)
  then show ?case
    by (cases "j < length other")
      (auto simp: lcsWalk.simps [of dp base other i j] drop_nth_Cons intro: list_emb_Cons)
qed

lemma lcsLen_upper: "subseq zs xs \<Longrightarrow> subseq zs ys \<Longrightarrow> length zs \<le> lcsLen xs ys"
proof (induction xs ys arbitrary: zs rule: lcsLen.induct)
  case (1 x xs y ys)
  show ?case
  proof (cases zs)
    case (Cons z zs')
    consider "z = x" "z = y" | "z \<noteq> x" | "z = x" "z \<noteq> y" by auto
    then show ?thesis
    proof cases
      case 1
      then show ?thesis using "1.IH"(1) [of zs'] "1.prems" Cons by auto
    next
      case 2
      then have "subseq zs xs" using "1.prems"(1) Cons by auto
      then have "length zs \<le> lcsLen xs (y # ys)" if "x \<noteq> y"
        using "1.IH"(2) [of zs] "1.prems"(2) that by blast
      moreover have "length zs \<le> Suc (lcsLen xs ys)" if "x = y"
      proof -
        have "subseq zs' ys" using "1.prems"(2) Cons by (auto split: if_splits dest: list_emb_ConsD subseq_Cons')
        moreover have "subseq zs' xs" using \<open>subseq zs xs\<close> Cons by (auto dest: subseq_Cons')
        ultimately show ?thesis using "1.IH"(1) [of zs'] that Cons by auto
      qed
      ultimately show ?thesis by (cases "x = y") (auto simp: le_max_iff_disj)
    next
      case 3
      then have "x \<noteq> y" "subseq zs ys" using "1.prems"(2) Cons by auto
      then show ?thesis using "1.IH"(3) [of zs] "1.prems"(1) by auto
    qed
  qed simp
qed (auto dest: list_emb_Nil2)

text \<open>
  The alignment is a longest common subsequence: the lines that \<open>lcsPairs\<close> pairs form a
  subsequence of both inputs, and no common subsequence of the inputs is longer.
\<close>
theorem lcsPairs_longest:
  assumes "subseq zs base" and "subseq zs other"
  shows "subseq (map (\<lambda>(a, b). base ! a) (lcsPairs base other)) base
         \<and> subseq (map (\<lambda>(a, b). base ! a) (lcsPairs base other)) other
         \<and> length zs \<le> length (lcsPairs base other)"
  using lcsWalk_subseq_base [of base _ other 0 0] lcsWalk_subseq_other [of base _ other 0 0]
    lcsLen_upper [OF assms] lcsWalk_length [of 0 base 0 other]
  by (simp add: lcsPairs_def)

theorem lcsPairs_longest_witness:
  "subseq [2, 4] [1, 2, 3, 4 :: nat] \<and> subseq [2, 4] [2, 5, 4 :: nat]
   \<and> length [2, 4 :: nat] \<le> length (lcsPairs [1, 2, 3, 4] [2, 5, 4 :: nat])"
  using lcsPairs_longest [of "[2, 4 :: nat]" "[1, 2, 3, 4]" "[2, 5, 4]"] by simp

subsection \<open>The anchors and the regions between them\<close>

definition inc3 :: "nat \<times> nat \<times> nat \<Rightarrow> nat \<times> nat \<times> nat \<Rightarrow> bool" where
  "inc3 x y \<longleftrightarrow> fst x < fst y \<and> fst (snd x) < fst (snd y) \<and> snd (snd x) < snd (snd y)"

lemma map_of_increasing:
  "sorted_wrt (\<lambda>(a, b) (c, d). a < c \<and> b < d) ps \<Longrightarrow>
   map_of ps i = Some k \<Longrightarrow> map_of ps j = Some l \<Longrightarrow> (i :: nat) < j \<Longrightarrow> k < (l :: nat)"
proof (induction ps)
  case (Cons p ps)
  obtain a b where p: "p = (a, b)" by (cases p)
  have later: "a < c \<and> b < d" if "map_of ps c = Some d" for c d
    using Cons.prems(1) map_of_SomeD [OF that] p by auto
  show ?case
    using Cons p later [of j l] later [of i k] by (force split: if_splits)
qed simp

lemma lcsPairs_facts:
  "sorted_wrt (\<lambda>(a, b) (c, d). a < c \<and> b < d) (lcsPairs base other)"
  "map_of (lcsPairs base other) a = Some b \<Longrightarrow> a < length base \<and> b < length other \<and> base ! a = other ! b"
  by (auto simp: lcsPairs_def lcsWalk_increasing dest!: map_of_SomeD lcsWalk_pairs)

lemma anchors_mem:
  "(bi, li, ri) \<in> set (anchors B L R) \<longleftrightarrow>
   map_of (lcsPairs B L) bi = Some li \<and> map_of (lcsPairs B R) bi = Some ri"
  using lcsPairs_facts(2) [of B L bi li]
  by (auto simp: anchors_def Let_def map_filter_def image_iff split: option.splits)

lemma anchors_increasing: "sorted_wrt inc3 (anchors B L R)"
proof -
  let ?f = "\<lambda>bi. case (map_of (lcsPairs B L) bi, map_of (lcsPairs B R) bi) of
              (Some li, Some ri) \<Rightarrow> Some (bi, li, ri) | _ \<Rightarrow> None"
  have step: "inc3 x y" if "?f i = Some x" "?f j = Some y" "i < j" for i j x y
    using that map_of_increasing [OF lcsPairs_facts(1), of B L i _ j]
      map_of_increasing [OF lcsPairs_facts(1), of B R i _ j]
    by (auto simp: inc3_def split: option.splits)
  have "sorted_wrt inc3 (List.map_filter ?f [m..<n])" for m n
    unfolding map_filter_def sorted_wrt_map
    by (rule sorted_wrt_mono_rel [of _ "(<)"]) (auto intro: step sorted_wrt_filter simp: sorted_wrt_upt)
  then show ?thesis by (simp add: anchors_def Let_def)
qed

text \<open>The regions the loop walks over, an anchor being a region in which the sides agree.\<close>

type_synonym 'a region = "'a list \<times> 'a list \<times> 'a list"

definition regionMerge :: "'a region \<Rightarrow> 'a list \<times> bool" where
  "regionMerge r = (case r of (bs, ls, rs) \<Rightarrow> resolveGap bs ls rs)"

fun loopRegions ::
  "'a list \<Rightarrow> 'a list \<Rightarrow> 'a list \<Rightarrow> nat \<Rightarrow> nat \<Rightarrow> nat \<Rightarrow> (nat \<times> nat \<times> nat) list \<Rightarrow> 'a region list" where
  "loopRegions B L R nb nl nr [] = [(drop nb B, drop nl L, drop nr R)]"
| "loopRegions B L R nb nl nr ((bi, li, ri) # as) =
     (slice B nb bi, slice L nl li, slice R nr ri) # ([B ! bi], [L ! li], [R ! ri])
       # loopRegions B L R (Suc bi) (Suc li) (Suc ri) as"

definition regionsSplit :: "'a region list \<Rightarrow> 'a list \<Rightarrow> 'a list \<Rightarrow> 'a list \<Rightarrow> bool" where
  "regionsSplit regs B L R \<longleftrightarrow>
     concat (map fst regs) = B \<and> concat (map (fst \<circ> snd) regs) = L \<and> concat (map (snd \<circ> snd) regs) = R"

definition regionsMerge :: "'a region list \<Rightarrow> 'a list \<times> bool" where
  "regionsMerge regs = (concat (map (fst \<circ> regionMerge) regs), list_all (snd \<circ> regionMerge) regs)"

lemma resolveGap_same [simp]: "resolveGap xs xs xs = (xs, True)"
  by (simp add: resolveGap_def)

lemma resolveGap_swap:
  "resolveGap bs rs ls = (g', c') \<Longrightarrow> resolveGap bs ls rs = (g, c) \<Longrightarrow> c' = c \<and> (c \<longrightarrow> g' = g)"
  by (auto simp: resolveGap_def split: if_splits)

lemma slice_drop: "n \<le> i \<Longrightarrow> i < length xs \<Longrightarrow> slice xs n i @ xs ! i # drop (Suc i) xs = drop n xs"
  unfolding slice_def drop_nth_Cons [symmetric]
  by (metis add.commute append_take_drop_id drop_drop le_add_diff_inverse2)

definition anchored :: "'a list \<Rightarrow> 'a list \<Rightarrow> 'a list \<Rightarrow> nat \<times> nat \<times> nat \<Rightarrow> bool" where
  "anchored B L R a = (case a of (bi, li, ri) \<Rightarrow>
     bi < length B \<and> li < length L \<and> ri < length R \<and> L ! li = B ! bi \<and> R ! ri = B ! bi)"

lemma loopRegions_split:
  assumes "sorted_wrt inc3 as" "list_all (anchored B L R) as"
    "list_all (\<lambda>(bi, li, ri). nb \<le> bi \<and> nl \<le> li \<and> nr \<le> ri) as"
  shows "regionsSplit (loopRegions B L R nb nl nr as) (drop nb B) (drop nl L) (drop nr R)
         \<and> mergeLoop B L R nb nl nr as = regionsMerge (loopRegions B L R nb nl nr as)"
  using assms
proof (induction B L R nb nl nr as rule: loopRegions.induct)
  case (2 B L R nb nl nr bi li ri as)
  have later: "list_all (\<lambda>(b, l, r). Suc bi \<le> b \<and> Suc li \<le> l \<and> Suc ri \<le> r) as"
    using "2.prems"(1) by (auto simp: list_all_iff inc3_def)
  have here: "anchored B L R (bi, li, ri)" "nb \<le> bi" "nl \<le> li" "nr \<le> ri"
    using "2.prems" by auto
  have IH: "regionsSplit (loopRegions B L R (Suc bi) (Suc li) (Suc ri) as)
              (drop (Suc bi) B) (drop (Suc li) L) (drop (Suc ri) R)"
    "mergeLoop B L R (Suc bi) (Suc li) (Suc ri) as
       = regionsMerge (loopRegions B L R (Suc bi) (Suc li) (Suc ri) as)"
    using "2.IH" "2.prems" later by auto
  then show ?case
    using here slice_drop [of nb bi B] slice_drop [of nl li L] slice_drop [of nr ri R]
    by (simp add: regionsSplit_def regionsMerge_def regionMerge_def anchored_def split: prod.splits)
qed (simp add: regionsSplit_def regionsMerge_def regionMerge_def)

lemma mergeLines_regions: "\<exists>regs. regionsSplit regs B L R \<and> mergeLines B L R = regionsMerge regs"
proof -
  have "list_all (anchored B L R) (anchors B L R)"
    by (auto simp: list_all_iff anchors_mem anchored_def dest!: lcsPairs_facts(2))
  then have "regionsSplit (loopRegions B L R 0 0 0 (anchors B L R)) (drop 0 B) (drop 0 L) (drop 0 R)
     \<and> mergeLoop B L R 0 0 0 (anchors B L R) = regionsMerge (loopRegions B L R 0 0 0 (anchors B L R))"
    by (intro loopRegions_split anchors_increasing) (auto simp: list_all_iff)
  then show ?thesis by (auto simp: mergeLines_def)
qed

lemma join_splitLines [simp]: "joinWith [NL] (splitLines s) = s"
  by (simp add: splitLines_def)

lemma splitLines_eq [simp]: "splitLines s = splitLines t \<longleftrightarrow> s = t"
  by (metis join_splitLines)

text \<open>
  (C14) Nothing is lost by a merge: the lines of base, local and remote split into aligned regions
  such that the merged text is the concatenation of the regions' own resolutions (the changed
  side of a region only one device touched, the common text of a region both changed alike), and
  the merge is clean exactly when no region was changed differently on the two sides. This covers
  the early returns and the refusal of files above the line limit too.
\<close>
theorem merge3_regions:
  "\<exists>regs. regionsSplit regs (splitLines (normEol base)) (splitLines (normEol local)) (splitLines (normEol remote))
    \<and> merge3 base local remote = apfst (joinWith [NL]) (regionsMerge regs)"
proof -
  let ?B = "splitLines (normEol base)" and ?L = "splitLines (normEol local)"
    and ?R = "splitLines (normEol remote)"
  have one: "regionsSplit [(?B, ?L, ?R)] ?B ?L ?R" by (simp add: regionsSplit_def)
  show ?thesis
  proof (cases "normEol local = normEol remote \<or> normEol base = normEol local \<or> normEol base = normEol remote
      \<or> length ?B > MAX_MERGE_LINES \<or> length ?L > MAX_MERGE_LINES \<or> length ?R > MAX_MERGE_LINES")
    case True
    then have "merge3 base local remote = apfst (joinWith [NL]) (regionsMerge [(?B, ?L, ?R)])"
      by (auto simp: merge3_def Let_def regionsMerge_def regionMerge_def resolveGap_def)
    with one show ?thesis by blast
  next
    case False
    then have "merge3 base local remote = apfst (joinWith [NL]) (mergeLines ?B ?L ?R)"
      by (simp add: merge3_def split_beta apfst_def map_prod_def Let_def)
    with mergeLines_regions [of ?B ?L ?R] show ?thesis by metis
  qed
qed

subsection \<open>Two devices merging the same edits\<close>

definition swap3 :: "nat \<times> nat \<times> nat \<Rightarrow> nat \<times> nat \<times> nat" where
  "swap3 a = (case a of (b, l, r) \<Rightarrow> (b, r, l))"

lemma swap3_triple [simp]: "swap3 (b, l, r) = (b, r, l)"
  by (simp add: swap3_def)

lemma map_map_filter: "map g (List.map_filter f xs) = List.map_filter (\<lambda>x. map_option g (f x)) xs"
  by (induction xs) (auto simp: map_filter_simps split: option.splits)

lemma anchors_swap: "anchors B R L = map swap3 (anchors B L R)"
  unfolding anchors_def Let_def map_map_filter
  by (rule arg_cong [where f = "\<lambda>f. List.map_filter f _"]) (auto simp: fun_eq_iff swap3_def split: option.splits)

lemma mergeLoop_swap:
  "snd (mergeLoop B R L nb nr nl (map swap3 as)) = snd (mergeLoop B L R nb nl nr as)
   \<and> (snd (mergeLoop B L R nb nl nr as) \<longrightarrow>
      fst (mergeLoop B R L nb nr nl (map swap3 as)) = fst (mergeLoop B L R nb nl nr as))"
proof (induction B L R nb nl nr as rule: mergeLoop.induct)
  case (1 B L R nb nl nr)
  then show ?case
    using resolveGap_swap [of "drop nb B" "drop nr R" "drop nl L"] by (simp add: prod_eq_iff)
next
  case (2 B L R nb nl nr bi li ri as)
  obtain g c g' c' where gap: "resolveGap (slice B nb bi) (slice L nl li) (slice R nr ri) = (g, c)"
      "resolveGap (slice B nb bi) (slice R nr ri) (slice L nl li) = (g', c')"
    by fastforce
  obtain o1 e1 o2 e2 where rest: "mergeLoop B L R (Suc bi) (Suc li) (Suc ri) as = (o1, e1)"
      "mergeLoop B R L (Suc bi) (Suc ri) (Suc li) (map swap3 as) = (o2, e2)"
    by fastforce
  have "e2 = e1 \<and> (e1 \<longrightarrow> o2 = o1)" using "2.IH" gap rest by simp
  moreover note resolveGap_swap [OF gap(2) gap(1)]
  ultimately show ?case using gap rest by simp
qed

text \<open>
  (C15) Two devices that merge the same pair of edits converge: with local and remote exchanged the
  merge is clean in the same cases, and a clean merge yields the same text.
\<close>
theorem merge3_converges:
  "snd (merge3 base remote local) = snd (merge3 base local remote)
   \<and> (snd (merge3 base local remote) \<longrightarrow> fst (merge3 base remote local) = fst (merge3 base local remote))"
proof -
  have "snd (mergeLines B R L) = snd (mergeLines B L R)
      \<and> (snd (mergeLines B L R) \<longrightarrow> fst (mergeLines B R L) = fst (mergeLines B L R))"
    for B L R :: "utext list"
    using mergeLoop_swap [of B R L 0 0 0 "anchors B L R"]
    by (simp add: mergeLines_def anchors_swap [of B R L])
  then show ?thesis
    by (simp add: merge3_def Let_def split_beta)
qed

theorem merge3_converges_witness:
  "snd (merge3 [97, NL, 98] [120, NL, 98] [97, NL, 98, NL, 99])
   \<and> fst (merge3 [97, NL, 98] [97, NL, 98, NL, 99] [120, NL, 98])
     = [120, NL, 98, NL, 99]"
proof -
  have "merge3 [97, NL, 98] [120, NL, 98] [97, NL, 98, NL, 99]
      = ([120, NL, 98, NL, 99], True)"
    by code_simp
  then show ?thesis
    using merge3_converges [of "[97, NL, 98]" "[97, NL, 98, NL, 99]"
        "[120, NL, 98]"]
    by simp
qed

end
