(* ===== verification/Decide.thy ===== *)
theory Decide
  imports Complex_Main Merge Base
begin

text \<open>
  The functional core of \<open>client/src/reconcile.ts\<close>: the three-way decision, the choice of the
  effect, the merge plan, the bulk-delete confirmations, the scan mode, the bounded retry of a
  failing pull and the poll cursor. A hash is a string, an absent side is \<^const>\<open>None\<close>; versions are
  integers; a threshold that is missing or not a finite number is \<^const>\<open>None\<close>. Ratios and percentages
  are computed in exact rational arithmetic.
\<close>

type_synonym presence = "hash option"

datatype action =
    InSync | Push | Pull | DeleteLocal | DeleteRemote
  | MergeBoth | ConflictCopy | EditWinsKeepLocal | EditWinsPull

definition decide :: "presence \<Rightarrow> presence \<Rightarrow> presence \<Rightarrow> action" where
  "decide L B R =
     (if L = None \<and> R = None then InSync
      else if L \<noteq> None \<and> R \<noteq> None \<and> L = R then InSync
      else if L \<noteq> None \<and> R = None then
        (if B = None then Push else if L = B then DeleteLocal else EditWinsKeepLocal)
      else if L = None \<and> R \<noteq> None then
        (if B = None then Pull else if R = B then DeleteRemote else EditWinsPull)
      else if B = None then ConflictCopy
      else if B = L then Pull
      else if B = R then Push
      else MergeBoth)"

datatype effect =
    Noop | SetBaseInSync | ClearBase | ReportReadOnly | ReportGuard | ReportReadOnlyCopy | ReportPushGuard
  | EffPush int bool
  | EffPull | Restore | KeptAbsentReadOnly | RemoveLocal
  | EffDeleteRemote int
  | MergeOrConflict

fun isTransferEffect :: "effect \<Rightarrow> bool" where
  "isTransferEffect (EffPush v a) = True"
| "isTransferEffect EffPull = True"
| "isTransferEffect Restore = True"
| "isTransferEffect RemoveLocal = True"
| "isTransferEffect (EffDeleteRemote v) = True"
| "isTransferEffect MergeOrConflict = True"
| "isTransferEffect Noop = False"
| "isTransferEffect SetBaseInSync = False"
| "isTransferEffect ClearBase = False"
| "isTransferEffect ReportReadOnly = False"
| "isTransferEffect ReportReadOnlyCopy = False"
| "isTransferEffect ReportGuard = False"
| "isTransferEffect ReportPushGuard = False"
| "isTransferEffect KeptAbsentReadOnly = False"

record finalize_facts =
  f_readOnly :: bool
  f_noResurrect :: bool
  f_hasTombstone :: bool
  f_guardDelete :: bool
  f_guardBulkPush :: bool
  f_isConflictCopy :: bool
  f_hasLocalBytes :: bool
  f_hasRmeta :: bool
  f_hasBaseEntry :: bool
  f_remoteVersion :: int

fun finalize :: "action \<Rightarrow> finalize_facts \<Rightarrow> effect" where
  "finalize InSync f =
     (if f_hasLocalBytes f \<and> f_hasRmeta f then SetBaseInSync
      else if \<not> f_hasLocalBytes f \<and> \<not> f_hasRmeta f \<and> f_hasBaseEntry f then ClearBase
      else Noop)"
| "finalize Push f =
     (if f_readOnly f then (if f_isConflictCopy f then ReportReadOnlyCopy else ReportReadOnly)
      else if f_noResurrect f \<and> \<not> f_hasRmeta f \<and> f_hasTombstone f then KeptAbsentReadOnly
      else if f_noResurrect f \<and> \<not> f_hasRmeta f \<and> f_guardBulkPush f then ReportPushGuard
      else EffPush (f_remoteVersion f) True)"
| "finalize Pull f = EffPull"
| "finalize EditWinsPull f = EffPull"
| "finalize DeleteLocal f =
     (if \<not> f_hasTombstone f then (if f_readOnly f \<or> f_noResurrect f then KeptAbsentReadOnly else Restore)
      else if f_guardDelete f then ReportGuard
      else RemoveLocal)"
| "finalize DeleteRemote f =
     (if f_readOnly f then ReportReadOnly else EffDeleteRemote (f_remoteVersion f))"
| "finalize EditWinsKeepLocal f =
     (if f_readOnly f then ReportReadOnly
      else if f_noResurrect f then KeptAbsentReadOnly
      else EffPush (f_remoteVersion f) False)"
| "finalize MergeBoth f = MergeOrConflict"
| "finalize ConflictCopy f = MergeOrConflict"

datatype merge_plan = AdoptRemote | ReadOnlyKeepCopy | PushMerged | WriteConflictCopy

record plan_facts =
  p_cosmetic :: bool
  p_readOnly :: bool
  p_action :: action
  p_canMerge :: bool
  p_mergeClean :: bool
  p_firstContactKeepCopy :: bool

definition planMerge :: "plan_facts \<Rightarrow> merge_plan" where
  "planMerge f =
     (if p_cosmetic f then AdoptRemote
      else if p_readOnly f then
        (if p_action f = MergeBoth \<or> p_firstContactKeepCopy f then ReadOnlyKeepCopy else AdoptRemote)
      else if p_canMerge f \<and> p_mergeClean f then PushMerged
      else WriteConflictCopy)"

subsection \<open>Cosmetic equality\<close>

text \<open>\<open>replace(/\r\n?/g, "\n").replace(/\n+$/, "")\<close>.\<close>

fun foldEol :: "utext \<Rightarrow> utext" where
  "foldEol (x # y # xs) =
     (if x = CR then NL # (if y = NL then foldEol xs else foldEol (y # xs)) else x # foldEol (y # xs))"
| "foldEol [x] = [if x = CR then NL else x]"
| "foldEol [] = []"

definition normBlob :: "utext \<Rightarrow> utext" where
  "normBlob s = trimEndBy (\<lambda>c. c = NL) (foldEol s)"

definition sameIgnoringEol :: "(bytes \<Rightarrow> utext) \<Rightarrow> bytes \<Rightarrow> bytes \<Rightarrow> bool" where
  "sameIgnoringEol decodeLossy a b \<longleftrightarrow> normBlob (decodeLossy a) = normBlob (decodeLossy b)"

subsection \<open>Connection errors\<close>

definition CONNECTION_ERRORS :: "string list" where
  "CONNECTION_ERRORS =
     [''unknownhostexception'', ''unable to resolve host'', ''no address associated with hostname'',
      ''getaddrinfo'', ''enotfound'', ''eai_again'', ''econnrefused'', ''econnreset'', ''enetunreach'',
      ''network is unreachable'', ''failed to fetch'', ''fetch failed'', ''err_name_not_resolved'',
      ''err_internet_disconnected'', ''err_connection_refused'', ''err_connection_reset'',
      ''err_address_unreachable'']"

definition isConnectionMessage :: "string \<Rightarrow> bool" where
  "isConnectionMessage msg = list_ex (strIncludes (toLowerCase msg)) CONNECTION_ERRORS"

subsection \<open>Sizes and guards\<close>

definition DEFAULT_MAX_SYNC_BYTES :: nat where "DEFAULT_MAX_SYNC_BYTES = 200 * 1024 * 1024"
definition BULK_DELETE_MIN :: nat where "BULK_DELETE_MIN = 6"
definition BULK_DELETE_RATIO :: rat where "BULK_DELETE_RATIO = 1 / 2"
definition SHARED_PUSH_FLOOR :: nat where "SHARED_PUSH_FLOOR = 10"
definition STREAM_MIN_BYTES :: nat where "STREAM_MIN_BYTES = 8 * 1024 * 1024"
definition FILE_CONCURRENCY :: nat where "FILE_CONCURRENCY = 4"
definition MAX_PULL_RETRIES :: nat where "MAX_PULL_RETRIES = 5"
definition MAX_BASE_TEXT_BYTES :: nat where "MAX_BASE_TEXT_BYTES = 1024 * 1024"

datatype bulk_strategy = StratOff | StratCount | StratPercent

definition bulkDeleteHold :: "bulk_strategy option \<Rightarrow> rat option \<Rightarrow> nat \<Rightarrow> nat \<Rightarrow> bool" where
  "bulkDeleteHold strategy threshold deleteCount baseCount =
     (if strategy = None \<or> strategy = Some StratOff \<or> deleteCount = 0 then False
      else case threshold of
        None \<Rightarrow> True
      | Some t \<Rightarrow>
          if t \<le> 0 then True
          else if strategy = Some StratCount then of_nat deleteCount > t
          else baseCount > 0 \<and> (of_nat deleteCount / of_nat baseCount) * 100 > t)"

definition isSuspiciousBulkDelete :: "nat \<Rightarrow> nat \<Rightarrow> bool \<Rightarrow> bool" where
  "isSuspiciousBulkDelete universe deletes emptyManifest \<longleftrightarrow>
     universe > 0 \<and> (emptyManifest
       \<or> (universe \<ge> BULK_DELETE_MIN \<and> of_nat deletes / of_nat universe \<ge> BULK_DELETE_RATIO))"

datatype reconcile_mode = ModeNoop | ModeFull | ModeDelta | ModeDeltaConfig

definition decideReconcileMode :: "bool \<Rightarrow> bool \<Rightarrow> bool \<Rightarrow> bool \<Rightarrow> reconcile_mode" where
  "decideReconcileMode forceConfigScan forceFullScan reset noChange =
     (if \<not> forceConfigScan \<and> \<not> forceFullScan \<and> \<not> reset \<and> noChange then ModeNoop
      else if forceFullScan \<or> reset then ModeFull
      else if forceConfigScan then ModeDeltaConfig else ModeDelta)"

definition baseStatUnchanged :: "base_entry option \<Rightarrow> (nat \<times> nat) option \<Rightarrow> bool" where
  "baseStatUnchanged be st =
     (case (be, st) of
        (Some e, Some (sz, mt)) \<Rightarrow> be_size e = Some sz \<and> be_mtime e = Some mt
      | _ \<Rightarrow> False)"

subsection \<open>The retry budget and the poll cursor\<close>

type_synonym retry_budget = "path \<Rightarrow> (int \<times> nat) option"

text \<open>The result: hold the cursor?, the budget afterwards, and whether \<open>onPullExhausted\<close> fired.\<close>

definition holdForRetry :: "retry_budget option \<Rightarrow> path \<Rightarrow> int \<Rightarrow> bool \<times> retry_budget option \<times> bool" where
  "holdForRetry budget p v =
     (case budget of
        None \<Rightarrow> (True, None, False)
      | Some m \<Rightarrow>
          (let count = (case m p of Some (v', c) \<Rightarrow> if v' = v then c + 1 else 1 | None \<Rightarrow> 1);
               m' = m(p \<mapsto> (v, count)) in
           if count \<ge> MAX_PULL_RETRIES then (False, Some m', True) else (True, Some m', False)))"

definition advanceCursor :: "int \<Rightarrow> int list \<Rightarrow> int" where
  "advanceCursor authoritativeVersion failedVersions =
     (if failedVersions = [] then authoritativeVersion
      else min authoritativeVersion (Min (set failedVersions) - 1))"

subsection \<open>The decision table\<close>

text \<open>
  (C13) The decision never clobbers: a pull or a local delete is chosen exactly when the local side is
  still the common ancestor, a push or a remote delete exactly when the remote side is, an edit beats
  a deletion on either side, and two sides that moved apart are merged when there is an ancestor and
  conflict-copied when there is none.
\<close>
theorem decide_table:
  "(decide L B R = InSync) = (L = R)
   \<and> (decide L B R = Pull) = (R \<noteq> None \<and> L \<noteq> R \<and> L = B)
   \<and> (decide L B R = Push) = (L \<noteq> None \<and> L \<noteq> R \<and> R = B)
   \<and> (decide L B R = DeleteLocal) = (L \<noteq> None \<and> R = None \<and> L = B)
   \<and> (decide L B R = DeleteRemote) = (L = None \<and> R \<noteq> None \<and> R = B)
   \<and> (decide L B R = EditWinsKeepLocal) = (L \<noteq> None \<and> R = None \<and> B \<noteq> None \<and> L \<noteq> B)
   \<and> (decide L B R = EditWinsPull) = (L = None \<and> R \<noteq> None \<and> B \<noteq> None \<and> R \<noteq> B)
   \<and> (decide L B R = MergeBoth) = (L \<noteq> None \<and> R \<noteq> None \<and> L \<noteq> R \<and> B \<noteq> None \<and> L \<noteq> B \<and> R \<noteq> B)
   \<and> (decide L B R = ConflictCopy) = (L \<noteq> None \<and> R \<noteq> None \<and> L \<noteq> R \<and> B = None)"
  by (auto simp: decide_def)

fun mirror :: "action \<Rightarrow> action" where
  "mirror Push = Pull"
| "mirror Pull = Push"
| "mirror DeleteLocal = DeleteRemote"
| "mirror DeleteRemote = DeleteLocal"
| "mirror EditWinsKeepLocal = EditWinsPull"
| "mirror EditWinsPull = EditWinsKeepLocal"
| "mirror InSync = InSync"
| "mirror MergeBoth = MergeBoth"
| "mirror ConflictCopy = ConflictCopy"

lemma decide_mirror: "decide R B L = mirror (decide L B R)"
  by (auto simp: decide_def)

subsection \<open>The effect table\<close>

text \<open>The facts that \<open>reconcileOne\<close> passes agree with the presences it decided on.\<close>

definition facts_agree :: "presence \<Rightarrow> finalize_facts \<Rightarrow> bool" where
  "facts_agree R f \<longleftrightarrow> f_hasRmeta f = (R \<noteq> None)"

text \<open>
  The safety of the effect chosen for a decision: a local file is removed only on a real
  tombstone, outside a held batch and when it is unchanged since the last sync; a remote file is
  deleted only from a writable scope, when it is unchanged since the last sync and gone locally;
  bytes go to the server only from a writable scope, and on a shared source never to a path the
  server no longer has unless this is a new file with neither tombstone nor a held batch.
\<close>
theorem finalize_safe:
  assumes "facts_agree R f"
  shows "(finalize (decide L B R) f = RemoveLocal)
           = (f_hasTombstone f \<and> \<not> f_guardDelete f \<and> L \<noteq> None \<and> R = None \<and> L = B)
     \<and> (\<forall>v. finalize (decide L B R) f = EffDeleteRemote v \<longrightarrow>
           \<not> f_readOnly f \<and> L = None \<and> R \<noteq> None \<and> R = B \<and> v = f_remoteVersion f)
     \<and> (\<forall>v a. finalize (decide L B R) f = EffPush v a \<longrightarrow>
           \<not> f_readOnly f \<and> L \<noteq> None \<and> L \<noteq> B \<and> v = f_remoteVersion f
           \<and> (f_noResurrect f \<longrightarrow> R \<noteq> None \<or> (B = None \<and> \<not> f_hasTombstone f \<and> \<not> f_guardBulkPush f)))
     \<and> (finalize (decide L B R) f = Restore \<longrightarrow> \<not> f_readOnly f \<and> \<not> f_noResurrect f \<and> \<not> f_hasTombstone f \<and> L = B)"
proof (cases "decide L B R")
qed (use assms in \<open>auto simp: facts_agree_def decide_def split: if_splits\<close>)

theorem finalize_safe_witness:
  "finalize (decide (Some ''h'') (Some ''h'') None)
     \<lparr>f_readOnly = False, f_noResurrect = False, f_hasTombstone = True, f_guardDelete = False,
      f_guardBulkPush = False, f_isConflictCopy = False, f_hasLocalBytes = True, f_hasRmeta = False,
      f_hasBaseEntry = True, f_remoteVersion = 0\<rparr> = RemoveLocal"
  using finalize_safe [of None "\<lparr>f_readOnly = False, f_noResurrect = False, f_hasTombstone = True,
      f_guardDelete = False, f_guardBulkPush = False, f_isConflictCopy = False, f_hasLocalBytes = True,
      f_hasRmeta = False, f_hasBaseEntry = True, f_remoteVersion = 0\<rparr>" "Some ''h''" "Some ''h''"]
  by (simp add: facts_agree_def)

lemma planMerge_readOnly: "p_readOnly f \<Longrightarrow> planMerge f \<in> {AdoptRemote, ReadOnlyKeepCopy}"
  by (simp add: planMerge_def)

subsection \<open>Guards\<close>

text \<open>
  The incoming-delete confirmation is monotone in the batch: if a batch of deletions is held
  then every larger batch over the same base is held too, and an active strategy with a broken
  threshold holds every non-empty batch.
\<close>
theorem bulkDeleteHold_mono:
  assumes "bulkDeleteHold st t d b" and "d \<le> d'"
  shows "bulkDeleteHold st t d' b \<and> bulkDeleteHold st None d' b"
proof -
  have pos: "0 < d'" and act: "st \<noteq> None" "st \<noteq> Some StratOff"
    using assms by (auto simp: bulkDeleteHold_def split: if_splits)
  have le: "of_nat d \<le> (of_nat d' :: rat)" using assms(2) by simp
  have "bulkDeleteHold st t d' b"
  proof (cases t)
    case (Some x)
    have "of_nat d / of_nat b * 100 \<le> (of_nat d' / of_nat b * 100 :: rat)"
      using le by (intro mult_right_mono divide_right_mono) auto
    then show ?thesis
      using assms(1) le pos act Some by (auto simp: bulkDeleteHold_def split: if_splits)
  qed (use pos act in \<open>simp add: bulkDeleteHold_def\<close>)
  moreover have "bulkDeleteHold st None d' b" using pos act by (simp add: bulkDeleteHold_def)
  ultimately show ?thesis ..
qed

theorem bulkDeleteHold_mono_witness:
  "bulkDeleteHold (Some StratPercent) (Some 25) 3 10 \<and> bulkDeleteHold (Some StratPercent) (Some 25) 7 10"
  using bulkDeleteHold_mono [of "Some StratPercent" "Some 25" 3 10 7] by (simp add: bulkDeleteHold_def)

subsection \<open>Retries and the cursor\<close>

text \<open>\<open>n\<close> failures of one path in a row, at server version \<open>v\<close>; the answers of the successive calls.\<close>

fun holdRun :: "nat \<Rightarrow> retry_budget option \<Rightarrow> path \<Rightarrow> int \<Rightarrow> bool list \<times> retry_budget option" where
  "holdRun 0 m p v = ([], m)"
| "holdRun (Suc n) m p v =
     (let (h, m', _) = holdForRetry m p v; (hs, m'') = holdRun n m' p v in (h # hs, m''))"

lemma holdRun_from:
  "m p = Some (v, c) \<Longrightarrow> fst (holdRun n (Some m) p v) = map (\<lambda>i. c + i + 1 < MAX_PULL_RETRIES) [0..<n]"
proof (induction n arbitrary: m c)
  case (Suc n)
  have "fst (holdRun n (Some (m(p \<mapsto> (v, c + 1)))) p v) = map (\<lambda>i. c + 1 + i + 1 < MAX_PULL_RETRIES) [0..<n]"
    by (rule Suc.IH) simp
  moreover have "[0..<Suc n] = 0 # map Suc [0..<n]" by (simp add: map_Suc_upt upt_conv_Cons)
  ultimately show ?case
    using Suc.prems by (simp add: holdForRetry_def Let_def split_beta not_le comp_def)
qed simp

text \<open>
  A remote file that fails to download is retried a bounded number of times: counting from its
  first failure at a server version, the cursor is held for the first four failures and released at
  the fifth and every later one, so one corrupt server copy cannot be downloaded on every poll forever.
\<close>
theorem retry_bounded:
  assumes "case m p of None \<Rightarrow> True | Some (v', c) \<Rightarrow> v' \<noteq> v"
  shows "fst (holdRun n (Some m) p v) = map (\<lambda>i. i < 4) [0..<n]"
proof (cases n)
  case (Suc k)
  have "fst (holdRun k (Some (m(p \<mapsto> (v, 1)))) p v) = map (\<lambda>i. 1 + i + 1 < MAX_PULL_RETRIES) [0..<k]"
    by (rule holdRun_from) simp
  moreover have "[0..<Suc k] = 0 # map Suc [0..<k]" by (simp add: map_Suc_upt upt_conv_Cons)
  ultimately show ?thesis
    using Suc assms
    by (auto simp: holdForRetry_def Let_def split_beta MAX_PULL_RETRIES_def comp_def split: option.splits)
qed simp

theorem retry_bounded_witness:
  "fst (holdRun 6 (Some (Map.empty(''a.md'' \<mapsto> (7, 5)))) ''a.md'' 9) = [True, True, True, True, False, False]"
  using retry_bounded [where m = "Map.empty(''a.md'' \<mapsto> (7, 5))" and p = "''a.md''" and v = 9 and n = 6] by (simp add: upt_rec)

text \<open>
  The poll cursor never passes a change that failed to apply: it stays below every failed
  version and never runs ahead of the server, and without failures it is exactly the server's
  version, also when that is a rewind.
\<close>
theorem cursor_below_failures:
  "list_all (\<lambda>v. advanceCursor auth failed < v) failed \<and> advanceCursor auth failed \<le> auth
   \<and> advanceCursor auth [] = auth"
proof -
  have "advanceCursor auth failed < v" if "v \<in> set failed" for v
  proof -
    have "Min (set failed) \<le> v" using that by (intro Min_le) auto
    moreover have "min auth (Min (set failed) - 1) \<le> Min (set failed) - 1" by (rule min.cobounded2)
    ultimately have "min auth (Min (set failed) - 1) < v" by linarith
    then show ?thesis using that by (cases failed) (auto simp: advanceCursor_def)
  qed
  then show ?thesis by (auto simp: list_all_iff advanceCursor_def)
qed

end
