(* ===== verification/Frontmatter.thy ===== *)
theory Frontmatter
  imports Decide "HOL-Library.List_Lexorder"
begin

text \<open>
  The content identity of notes, \<open>client/src/frontmatter.ts\<close>: a line-based reading of the YAML
  frontmatter, the recognition of timestamp values, the masking of ignored timestamp keys and the
  normalised content whose hash decides whether a change is genuine. Regular expressions are
  written out as list functions. The parameters \<open>nfc\<close>, \<open>decode\<close>, \<open>encode\<close> and \<open>sha\<close> are the
  host's \<open>normalize("NFC")\<close>, its strict UTF-8 decoder, its encoder and SHA-256.
\<close>

definition BOM :: nat where "BOM = 0xFEFF"

text \<open>White space of \<open>trim\<close> and of \<open>\s\<close>, and the line terminators that \<open>.\<close> does not match.\<close>

definition isTextSpace :: "nat \<Rightarrow> bool" where
  "isTextSpace c \<longleftrightarrow> (9 \<le> c \<and> c \<le> 13) \<or> c = 32 \<or> c = 160 \<or> c = 0x1680 \<or> (0x2000 \<le> c \<and> c \<le> 0x200A)
     \<or> c = 0x2028 \<or> c = 0x2029 \<or> c = 0x202F \<or> c = 0x205F \<or> c = 0x3000 \<or> c = BOM"

definition isTextLineEnd :: "nat \<Rightarrow> bool" where
  "isTextLineEnd c \<longleftrightarrow> c = 10 \<or> c = 13 \<or> c = 0x2028 \<or> c = 0x2029"

definition trimText :: "utext \<Rightarrow> utext" where
  "trimText t = trimEndBy isTextSpace (dropWhile isTextSpace t)"

definition isBlank :: "nat \<Rightarrow> bool" where
  "isBlank c \<longleftrightarrow> c = 32 \<or> c = 9"

definition isTextDigit :: "nat \<Rightarrow> bool" where
  "isTextDigit c \<longleftrightarrow> 48 \<le> c \<and> c \<le> 57"

definition isKeyUnit :: "nat \<Rightarrow> bool" where
  "isKeyUnit c \<longleftrightarrow> isTextDigit c \<or> (65 \<le> c \<and> c \<le> 90) \<or> (97 \<le> c \<and> c \<le> 122) \<or> c = 95 \<or> c = 46 \<or> c = 45"

text \<open>\<open>toLowerCase\<close> on code units; the identity above U+00FF.\<close>

definition lowerUnit :: "nat \<Rightarrow> nat" where
  "lowerUnit n = (if (65 \<le> n \<and> n \<le> 90) \<or> (192 \<le> n \<and> n \<le> 222 \<and> n \<noteq> 215) then n + 32 else n)"

definition lowerText :: "utext \<Rightarrow> utext" where
  "lowerText t = map lowerUnit t"

definition utextOf :: "string \<Rightarrow> utext" where
  "utextOf s = map of_char s"

definition DEFAULT_IGNORED_TIMESTAMP_KEYS :: "utext list" where
  "DEFAULT_IGNORED_TIMESTAMP_KEYS = map utextOf
     [''created'', ''updated'', ''modified'', ''created-*'', ''updated-*'', ''modified-*'', ''date created'', ''date modified'']"

definition tsKeyShape :: "utext \<Rightarrow> bool" where
  "tsKeyShape k =
     (let k' = (if k \<noteq> [] \<and> last k = 42 then butlast k else k) in
      list_all (\<lambda>w. w \<noteq> [] \<and> list_all isKeyUnit w) (splitOn 32 k'))"

datatype ts_key_error = EnterAName | NoColon | BadShape | AlreadyListed utext

definition validateTimestampKey :: "utext \<Rightarrow> utext list \<Rightarrow> ts_key_error + utext" where
  "validateTimestampKey raw existing =
     (let key = trimText raw in
      if key = [] then Inl EnterAName
      else if 58 \<in> set key then Inl NoColon
      else if \<not> tsKeyShape key then Inl BadShape
      else if list_ex (\<lambda>k. lowerText k = lowerText key) existing then Inl (AlreadyListed key)
      else Inr key)"

subsection \<open>Parsing\<close>

text \<open>
  \<open>pr_close\<close> is the index of the closing fence; it is \<^const>\<open>None\<close> when there is no frontmatter
  (\<open>hasFm\<close> false, \<open>open\<close> and \<open>close\<close> -1), and with frontmatter \<open>open\<close> is 0.
\<close>

record parsed =
  pr_bom :: bool
  pr_crlf :: bool
  pr_lines :: "utext list"
  pr_close :: "nat option"

definition isFence :: "utext \<Rightarrow> bool" where
  "isFence l \<longleftrightarrow> take 3 l = [45, 45, 45] \<and> list_all isBlank (drop 3 l)"

definition detectEol :: "utext \<Rightarrow> bool" where
  "detectEol t = (case indexOf NL t of Some (Suc i) \<Rightarrow> t ! i = CR | _ \<Rightarrow> False)"

definition stripCr :: "utext \<Rightarrow> utext" where
  "stripCr l = (if l \<noteq> [] \<and> last l = CR then butlast l else l)"

definition splitCrLf :: "utext \<Rightarrow> utext list" where
  "splitCrLf t = (let ls = splitOn NL t in map stripCr (butlast ls) @ [last ls])"

fun findFence :: "nat \<Rightarrow> utext list \<Rightarrow> nat option" where
  "findFence i [] = None"
| "findFence i (l # ls) = (if isFence l then Some i else findFence (Suc i) ls)"

definition parse :: "utext \<Rightarrow> parsed" where
  "parse raw =
     (let bom = startsWith raw [BOM]; t = (if bom then drop 1 raw else raw); ls = splitCrLf t in
      \<lparr>pr_bom = bom, pr_crlf = detectEol t, pr_lines = ls,
       pr_close = (if \<not> isFence (hd ls) then None else findFence 1 (tl ls))\<rparr>)"

definition inside :: "parsed \<Rightarrow> nat \<Rightarrow> bool" where
  "inside p i = (case pr_close p of Some c \<Rightarrow> 0 < i \<and> i < c | None \<Rightarrow> False)"

definition keyOf :: "utext \<Rightarrow> utext option" where
  "keyOf line =
     (let q = takeWhile (\<lambda>c. c \<noteq> 58) line; g = trimEndBy isBlank q in
      if 58 \<in> set line \<and> g \<noteq> [] \<and> isKeyUnit (hd g) \<and> list_all (\<lambda>c. isKeyUnit c \<or> c = 32) (tl g)
         \<and> \<not> list_ex isTextLineEnd (drop (Suc (length q)) line)
      then Some g else None)"

definition hasFrontmatter :: "utext \<Rightarrow> bool" where
  "hasFrontmatter t \<longleftrightarrow> pr_close (parse t) \<noteq> None"

text \<open>\<open>line.slice(line.indexOf(":") + 1).trim()\<close>, and the part before the colon.\<close>

definition valueOf :: "utext \<Rightarrow> utext" where
  "valueOf line = trimText (case indexOf 58 line of Some i \<Rightarrow> drop (Suc i) line | None \<Rightarrow> line)"

definition beforeColon :: "utext \<Rightarrow> utext" where
  "beforeColon line = takeWhile (\<lambda>c. c \<noteq> 58) line"

definition fmLines :: "parsed \<Rightarrow> utext list" where
  "fmLines p = (case pr_close p of Some c \<Rightarrow> take (c - 1) (drop 1 (pr_lines p)) | None \<Rightarrow> [])"

definition getManagedValue :: "utext \<Rightarrow> utext \<Rightarrow> utext option" where
  "getManagedValue t key =
     (case List.find (\<lambda>l. keyOf l = Some key) (fmLines (parse t)) of
        Some l \<Rightarrow> (if valueOf l = [] then None else Some (valueOf l))
      | None \<Rightarrow> None)"

definition reassemble :: "parsed \<Rightarrow> utext list \<Rightarrow> utext" where
  "reassemble p ls = (if pr_bom p then [BOM] else []) @ joinWith (if pr_crlf p then [CR, NL] else [NL]) ls"

subsection \<open>Timestamp values\<close>

text \<open>Consume a prefix of fixed shape, one predicate per code unit.\<close>

fun eat :: "(nat \<Rightarrow> bool) list \<Rightarrow> utext \<Rightarrow> utext option" where
  "eat [] t = Some t"
| "eat (f # fs) (c # t) = (if f c then eat fs t else None)"
| "eat (f # fs) [] = None"

abbreviation (input) dg :: "nat \<Rightarrow> bool" where "dg \<equiv> isTextDigit"
abbreviation (input) unitIs :: "nat \<Rightarrow> nat \<Rightarrow> bool" where "unitIs x \<equiv> (\<lambda>c. c = x)"

definition isoDate :: "utext \<Rightarrow> utext option" where
  "isoDate = eat [dg, dg, dg, dg, unitIs 45, dg, dg, unitIs 45, dg, dg]"

definition unquote :: "utext \<Rightarrow> utext" where
  "unquote s =
     (let t = trimText s in
      if 2 \<le> length t \<and> ((hd t = 34 \<and> last t = 34) \<or> (hd t = 39 \<and> last t = 39))
      then trimText (butlast (tl t)) else t)"

definition isoZone :: "utext \<Rightarrow> bool" where
  "isoZone t \<longleftrightarrow> t = [] \<or> t = [90]
     \<or> eat [\<lambda>c. c = 43 \<or> c = 45, dg, dg, unitIs 58, dg, dg] t = Some []
     \<or> eat [\<lambda>c. c = 43 \<or> c = 45, dg, dg, dg, dg] t = Some []"

definition isoSeconds :: "utext \<Rightarrow> utext" where
  "isoSeconds t = (case eat [unitIs 58, dg, dg] t of Some r \<Rightarrow> r | None \<Rightarrow> t)"

definition isoFraction :: "utext \<Rightarrow> utext" where
  "isoFraction t =
     (case eat [unitIs 46, dg] t of
        Some _ \<Rightarrow> (let n = length (takeWhile isTextDigit (drop 1 t)) in if n \<le> 9 then drop (1 + n) t else t)
      | None \<Rightarrow> t)"

definition isTimestampValue :: "utext \<Rightarrow> bool" where
  "isTimestampValue v =
     (let t = unquote v in
      isoDate t = Some []
      \<or> (case isoDate t of
           None \<Rightarrow> False
         | Some r \<Rightarrow>
             (case eat [\<lambda>c. c = 32 \<or> c = 84, dg, dg, unitIs 58, dg, dg] r of
                None \<Rightarrow> False
              | Some r' \<Rightarrow> isoZone (dropWhile isTextSpace (isoFraction (isoSeconds r'))))))"

definition isCanonicalTimestamp :: "utext \<Rightarrow> bool" where
  "isCanonicalTimestamp v =
     (case isoDate (trimText v) of
        None \<Rightarrow> False
      | Some r \<Rightarrow> eat [unitIs 84, dg, dg, unitIs 58, dg, dg, unitIs 58, dg, dg, \<lambda>c. c = 43 \<or> c = 45, dg, dg, unitIs 58, dg, dg] r = Some [])"

definition keyMatchesPattern :: "utext \<Rightarrow> utext \<Rightarrow> bool" where
  "keyMatchesPattern key pattern =
     (let k = lowerText key; p = lowerText pattern in
      if endsWith p [42] then startsWith k (butlast p) else k = p)"

definition isIgnoredKey :: "utext \<Rightarrow> utext list \<Rightarrow> bool" where
  "isIgnoredKey key patterns = list_ex (keyMatchesPattern key) patterns"

text \<open>A line that content identity masks: an ignored key with a timestamp value.\<close>

definition maskedLine :: "utext list \<Rightarrow> utext \<Rightarrow> bool" where
  "maskedLine patterns line =
     (case keyOf line of
        Some k \<Rightarrow> isIgnoredKey k patterns \<and> isTimestampValue (valueOf line)
      | None \<Rightarrow> False)"

subsection \<open>Merging around timestamps\<close>

definition TS_SENTINEL :: utext where
  "TS_SENTINEL = [0, 116, 115, 0]"

definition neutralizeTimestamps :: "utext \<Rightarrow> utext list \<Rightarrow> utext" where
  "neutralizeTimestamps t patterns =
     (if patterns = [] then t
      else let p = parse t in
        if pr_close p = None then t
        else reassemble p (map (\<lambda>(i, line).
               if inside p i \<and> maskedLine patterns line then beforeColon line @ [58, 32] @ TS_SENTINEL else line)
             (enumerate 0 (pr_lines p))))"

definition restoreTimestamps :: "utext \<Rightarrow> utext \<Rightarrow> utext list \<Rightarrow> utext" where
  "restoreTimestamps merged local patterns =
     (if patterns = [] then merged
      else let pm = parse merged in
        if pr_close pm = None then merged
        else reassemble pm (List.map_filter (\<lambda>(i, line).
               case keyOf line of
                 Some k \<Rightarrow>
                   (if inside pm i \<and> valueOf line = TS_SENTINEL then
                      map_option (\<lambda>lv. beforeColon line @ [58, 32] @ lv) (getManagedValue local k)
                    else Some line)
               | None \<Rightarrow> Some line)
             (enumerate 0 (pr_lines pm))))"

subsection \<open>Content identity\<close>

definition trimTrailing :: "utext \<Rightarrow> utext" where
  "trimTrailing t = trimEndBy (\<lambda>c. c = NL) t"

definition ignoredTimestampKeysPresent :: "utext \<Rightarrow> utext list \<Rightarrow> utext" where
  "ignoredTimestampKeysPresent t patterns =
     (if patterns = [] then []
      else joinWith [44] (sort (map (\<lambda>l. lowerText (the (keyOf l))) (filter (maskedLine patterns) (fmLines (parse (foldEol t)))))))"

definition stripBom :: "utext \<Rightarrow> utext" where
  "stripBom t = (if startsWith t [BOM] then drop 1 t else t)"

text \<open>Trailing blanks go on the lines from fence to fence that are not indented.\<close>

definition foldLine :: "parsed \<Rightarrow> nat \<Rightarrow> utext \<Rightarrow> utext" where
  "foldLine p i line =
     (case pr_close p of
        Some c \<Rightarrow> if i \<le> c \<and> \<not> (line \<noteq> [] \<and> isBlank (hd line)) then trimEndBy isBlank line else line
      | None \<Rightarrow> line)"

definition IGNORED_TS_PLACEHOLDER :: utext where
  "IGNORED_TS_PLACEHOLDER = [0x27E8] @ utextOf ''ignored timestamp'' @ [0x27E9]"

definition maskedForDisplay :: "(utext \<Rightarrow> utext) \<Rightarrow> utext \<Rightarrow> utext list \<Rightarrow> utext" where
  "maskedForDisplay nfc t patterns =
     (let lf = stripBom (foldEol (nfc t)); p = parse lf in
      if pr_close p = None then lf
      else let out = map (\<lambda>(i, l). foldLine p i l) (enumerate 0 (pr_lines p)) in
        if patterns = [] then joinWith [NL] out
        else joinWith [NL] (map (\<lambda>(i, l).
               if inside p i \<and> maskedLine patterns l then beforeColon l @ [58, 32] @ IGNORED_TS_PLACEHOLDER else l)
             (enumerate 0 out)))"

definition normalizedContent :: "(utext \<Rightarrow> utext) \<Rightarrow> utext \<Rightarrow> utext list \<Rightarrow> utext" where
  "normalizedContent nfc t patterns =
     (let lf = nfc (stripBom (foldEol t)); p = parse lf in
      if pr_close p = None then trimTrailing lf
      else trimTrailing (joinWith [NL] (List.map_filter (\<lambda>(i, l).
             let line = foldLine p i l in
             if inside p i \<and> patterns \<noteq> [] \<and> maskedLine patterns line then None else Some line)
           (enumerate 0 (pr_lines p)))))"

definition normalizedHash ::
  "(utext \<Rightarrow> utext) \<Rightarrow> (bytes \<Rightarrow> utext option) \<Rightarrow> (utext \<Rightarrow> bytes) \<Rightarrow> (bytes \<Rightarrow> hash) \<Rightarrow> bytes \<Rightarrow> utext list \<Rightarrow> hash" where
  "normalizedHash nfc decode encode sha b patterns =
     (case decode b of
        None \<Rightarrow> sha b
      | Some t \<Rightarrow> sha (encode (normalizedContent nfc t patterns)))"

subsection \<open>Line endings and byte-order marks are not content\<close>

definition saveCrLf :: "utext \<Rightarrow> utext" where
  "saveCrLf t = concat (map (\<lambda>c. if c = NL then [CR, NL] else [c]) t)"

definition saveCr :: "utext \<Rightarrow> utext" where
  "saveCr t = map (\<lambda>c. if c = NL then CR else c) t"

lemma NL_CR [simp]: "NL \<noteq> CR" "CR \<noteq> NL"
  by (simp_all add: NL_def CR_def)

lemma foldEol_Cons: "c \<noteq> CR \<Longrightarrow> foldEol (c # t) = c # foldEol t"
  by (cases t) auto

lemma foldEol_saveCrLf: "CR \<notin> set t \<Longrightarrow> foldEol (saveCrLf t) = t"
  by (induction t) (auto simp: saveCrLf_def foldEol_Cons)

lemma foldEol_CR: "NL \<notin> set t \<Longrightarrow> foldEol (CR # t) = NL # foldEol t"
  by (cases t) auto

lemma foldEol_saveCr: "CR \<notin> set t \<Longrightarrow> foldEol (saveCr t) = t"
proof (induction t)
  case (Cons c t)
  have "NL \<notin> set (saveCr t)" by (auto simp: saveCr_def split: if_splits)
  with Cons show ?case by (auto simp: saveCr_def foldEol_Cons foldEol_CR)
qed (simp add: saveCr_def)

lemma foldEol_id: "CR \<notin> set t \<Longrightarrow> foldEol t = t"
  by (induction t) (auto simp: foldEol_Cons)

text \<open>
  Re-saving a note with other line endings or with a byte-order mark is not a content change:
  the CRLF form, the CR form and the BOM-prefixed CRLF form of a note all have the content identity
  of its LF form, whatever timestamp keys are ignored.
\<close>
theorem identity_ignores_eol_bom:
  assumes "CR \<notin> set t" and "\<not> startsWith t [BOM]"
  shows "normalizedContent nfc (saveCrLf t) ps = normalizedContent nfc t ps
       \<and> normalizedContent nfc (saveCr t) ps = normalizedContent nfc t ps
       \<and> normalizedContent nfc (BOM # saveCrLf t) ps = normalizedContent nfc t ps"
proof -
  have "BOM \<noteq> CR" by (simp add: BOM_def CR_def)
  then have "stripBom (foldEol (BOM # saveCrLf t)) = t"
    using assms by (simp add: foldEol_Cons foldEol_saveCrLf stripBom_def startsWith_def)
  moreover have "stripBom t = t" using assms by (simp add: stripBom_def)
  ultimately show ?thesis
    using assms by (simp add: normalizedContent_def foldEol_saveCrLf foldEol_saveCr foldEol_id)
qed

theorem identity_ignores_eol_bom_witness:
  "normalizedContent id (BOM # saveCrLf (utextOf ''ab'' @ [NL] @ utextOf ''c'')) []
     = normalizedContent id (utextOf ''ab'' @ [NL] @ utextOf ''c'') []"
  using identity_ignores_eol_bom [of "utextOf ''ab'' @ [NL] @ utextOf ''c''" id "[]"]
  by (simp add: utextOf_def NL_def CR_def BOM_def startsWith_def)

subsection \<open>Ignored timestamps are not content\<close>

definition plainLine :: "utext \<Rightarrow> bool" where
  "plainLine l \<longleftrightarrow> NL \<notin> set l \<and> CR \<notin> set l"

text \<open>A note given by its lines: frontmatter closed by the fence at index \<open>c\<close>.\<close>

definition noteLines :: "utext list \<Rightarrow> nat \<Rightarrow> bool" where
  "noteLines ls c \<longleftrightarrow> list_all plainLine ls \<and> ls \<noteq> [] \<and> isFence (hd ls) \<and> findFence 1 (tl ls) = Some c"

lemma isFence_no_BOM: "isFence l \<Longrightarrow> \<not> startsWith (l @ r) [BOM]"
  by (cases l) (auto simp: isFence_def startsWith_def BOM_def)

lemma join_head: "ls \<noteq> [] \<Longrightarrow> \<exists>r. joinWith sep ls = hd ls @ r"
  by (induction sep ls rule: joinWith.induct) auto

lemma join_plain: "list_all plainLine ls \<Longrightarrow> CR \<notin> set (joinWith [NL] ls)"
  by (induction "[NL]" ls rule: joinWith.induct) (auto simp: plainLine_def)

lemma map_stripCr_plain: "list_all plainLine ls \<Longrightarrow> map stripCr ls = ls"
  by (induction ls) (auto simp: plainLine_def stripCr_def dest: last_in_set)

lemma parse_noteLines:
  assumes "noteLines ls c"
  shows "pr_lines (parse (joinWith [NL] ls)) = ls \<and> pr_close (parse (joinWith [NL] ls)) = Some c"
proof -
  have ls: "ls \<noteq> []" "list_all plainLine ls" "isFence (hd ls)" using assms by (auto simp: noteLines_def)
  then have nobom: "\<not> startsWith (joinWith [NL] ls) [BOM]"
    using join_head [of ls "[NL]"] isFence_no_BOM by metis
  have split: "splitOn NL (joinWith [NL] ls) = ls"
    using ls by (intro split_join) (auto simp: plainLine_def list_all_iff)
  have "list_all plainLine (butlast ls)" using ls(2) by (auto simp: list_all_iff dest: in_set_butlastD)
  then have "splitCrLf (joinWith [NL] ls) = ls"
    using ls(1) by (simp add: splitCrLf_def split map_stripCr_plain)
  then show ?thesis using nobom assms by (simp add: parse_def Let_def noteLines_def)
qed

lemma maskedLine_no_fence: "maskedLine ps (trimEndBy isBlank l) \<or> maskedLine ps l \<Longrightarrow> \<not> isFence l"
proof
  assume m: "maskedLine ps (trimEndBy isBlank l) \<or> maskedLine ps l" and "isFence l"
  then have "set (take 3 l) = {45}" "\<forall>c \<in> set (drop 3 l). isBlank c"
    by (auto simp: isFence_def list_all_iff)
  moreover have "set l = set (take 3 l) \<union> set (drop 3 l)" by (metis append_take_drop_id set_append)
  ultimately have "58 \<notin> set l" by (auto simp: isBlank_def)
  moreover have "set (trimEndBy isBlank l) \<subseteq> set l"
    by (auto simp: trimEndBy_def dest: set_dropWhileD)
  ultimately show False using m by (auto simp: maskedLine_def keyOf_def Let_def split: option.splits if_splits)
qed

lemma findFence_update:
  "\<not> isFence (ls ! k) \<Longrightarrow> \<not> isFence l' \<Longrightarrow> findFence n (ls[k := l']) = findFence n ls"
  by (induction ls arbitrary: n k) (auto split: nat.splits)

lemma findFence_bound: "findFence n ls = Some c \<Longrightarrow> n \<le> c \<and> c < n + length ls"
  by (induction ls arbitrary: n) (auto split: if_splits, force+)

lemma map_filter_update:
  "i < length ls \<Longrightarrow> f (n + i, ls ! i) = None \<Longrightarrow> f (n + i, l') = None \<Longrightarrow>
   List.map_filter f (enumerate n (ls[i := l'])) = List.map_filter f (enumerate n ls)"
proof (induction ls arbitrary: n i)
  case (Cons l ls)
  show ?case
  proof (cases i)
    case (Suc k)
    then show ?thesis
      using Cons.IH [of k "Suc n"] Cons.prems by (cases "f (n, l)") (simp_all add: map_filter_simps)
  qed (use Cons.prems in \<open>simp add: map_filter_simps\<close>)
qed simp

text \<open>
  A timestamp-only difference is not a content change: replacing, inside the frontmatter, a line
  of an ignored key with a timestamp value by any other such line leaves the content identity as it
  was (for texts that are already in the normal form of the host).
\<close>
theorem identity_masks_timestamps:
  assumes "noteLines ls c" and "0 < i" and "i < c" and "plainLine l'"
    and "maskedLine ps (trimEndBy isBlank (ls ! i))" and "maskedLine ps (trimEndBy isBlank l')"
    and "\<not> isBlank (hd (ls ! i @ [0]))" and "\<not> isBlank (hd (l' @ [0]))"
    and "nfc (joinWith [NL] ls) = joinWith [NL] ls" and "nfc (joinWith [NL] (ls[i := l'])) = joinWith [NL] (ls[i := l'])"
  shows "normalizedContent nfc (joinWith [NL] (ls[i := l'])) ps = normalizedContent nfc (joinWith [NL] ls) ps"
proof -
  let ?ls' = "ls[i := l']"
  have nof: "\<not> isFence (ls ! i)" "\<not> isFence l'" using assms(5,6) maskedLine_no_fence by blast+
  have c: "c \<le> length ls - 1"
    using assms(1) findFence_bound [of 1 "tl ls" c] by (auto simp: noteLines_def)
  have up: "noteLines ?ls' c"
    using assms(1,2,4) nof findFence_update [of "tl ls" "i - 1" l' 1]
    by (cases ls; cases i) (auto simp: noteLines_def list_all_iff dest!: subsetD [OF set_update_subset_insert])
  note P = parse_noteLines [OF assms(1)] parse_noteLines [OF up]
  have strip: "stripBom (foldEol (joinWith [NL] xs)) = joinWith [NL] xs" if "noteLines xs c" for xs
    using that join_plain [of xs] join_head [of xs "[NL]"] isFence_no_BOM
    by (auto simp: noteLines_def foldEol_id stripBom_def)
  let ?f = "\<lambda>p (n, l). let line = foldLine p n l in
      if inside p n \<and> ps \<noteq> [] \<and> maskedLine ps line then None else Some line"
  have same: "?f (parse (joinWith [NL] ?ls')) = ?f (parse (joinWith [NL] ls))"
    using P by (simp add: fun_eq_iff foldLine_def inside_def)
  have ps: "ps \<noteq> []" using assms(6) by (auto simp: maskedLine_def isIgnoredKey_def split: option.splits)
  have "List.map_filter (?f (parse (joinWith [NL] ls))) (enumerate 0 ?ls')
      = List.map_filter (?f (parse (joinWith [NL] ls))) (enumerate 0 ls)"
    using P assms(2,3,5-8) c ps
    by (intro map_filter_update) (auto simp: foldLine_def inside_def Let_def hd_append split: if_splits)
  then show ?thesis
    using P same strip [OF assms(1)] strip [OF up] assms(9,10)
    by (simp add: normalizedContent_def Let_def)
qed

definition sampleNote :: "utext list" where
  "sampleNote = map utextOf [''---'', ''updated: 2024-01-01'', ''---'', ''x'']"

theorem identity_masks_timestamps_witness:
  "normalizedContent id (joinWith [NL] (sampleNote[1 := utextOf ''updated: 2025-02-02T10:00:05Z''])) [utextOf ''updated'']
     = normalizedContent id (joinWith [NL] sampleNote) [utextOf ''updated'']"
proof (rule identity_masks_timestamps [where c = 2])
  show "noteLines sampleNote 2"
    by (simp add: noteLines_def sampleNote_def utextOf_def plainLine_def NL_def CR_def isFence_def isBlank_def)
  show "maskedLine [utextOf ''updated''] (trimEndBy isBlank (sampleNote ! 1))"
    "maskedLine [utextOf ''updated''] (trimEndBy isBlank (utextOf ''updated: 2025-02-02T10:00:05Z''))"
    by (simp_all add: sampleNote_def utextOf_def maskedLine_def keyOf_def Let_def trimEndBy_def isBlank_def
        isKeyUnit_def isTextDigit_def isTextLineEnd_def isIgnoredKey_def keyMatchesPattern_def lowerText_def
        lowerUnit_def endsWith_def valueOf_def trimText_def isTextSpace_def BOM_def isTimestampValue_def
        unquote_def isoDate_def isoZone_def isoSeconds_def isoFraction_def)
qed (simp_all add: sampleNote_def utextOf_def plainLine_def NL_def CR_def isBlank_def)

end
