(* ===== verification/ConfigSync.thy ===== *)
theory ConfigSync
  imports Prelude "HOL-Library.Char_ord" "HOL-Library.List_Lexorder"
begin

text \<open>
  Which paths take part in synchronisation, \<open>client/src/configsync.ts\<close>: the selection of the
  \<open>.obsidian/\<close> surface, the hard exclusion of the plugin's own folder, the union of the lists of
  enabled plugins, the adjudication of a diverging settings file and the source-of-change notice.
  The host's \<open>JSON.parse\<close> is the parameter \<open>jsonParse\<close> (\<^const>\<open>None\<close> where it throws), its
  \<open>JSON.stringify(xs, null, 2)\<close> on a list of strings the parameter \<open>stringify\<close>, and its
  collation \<open>localeCompare\<close> the parameter \<open>le\<close>.
\<close>

datatype config_direction = Download | Upload

record config_sync =
  cs_enabled :: bool
  cs_core :: bool
  cs_community :: bool
  cs_appearance :: bool
  cs_snippets :: bool
  cs_hotkeys :: bool
  cs_pluginAllow :: "string list"
  cs_pluginDir :: "(string \<times> config_direction) list"

definition DEFAULT_CONFIG_SYNC :: config_sync where
  "DEFAULT_CONFIG_SYNC = \<lparr>cs_enabled = False, cs_core = True, cs_community = False, cs_appearance = True,
     cs_snippets = True, cs_hotkeys = True, cs_pluginAllow = [], cs_pluginDir = []\<rparr>"

definition CONFIG_PREFIX :: string where
  "CONFIG_PREFIX = ''.obsidian/''"

definition LEGACY_SELF_IDS :: "string list" where
  "LEGACY_SELF_IDS = [''new-livesync'']"

record conflict_group =
  cg_key :: string
  cg_label :: string
  cg_paths :: "path list"

definition configFileLabel :: "path \<Rightarrow> string" where
  "configFileLabel p =
     (let rel = (if startsWith p ''.obsidian/'' then drop 10 p else p) in
      case map_of [(''community-plugins.json'', ''Enabled community plugins''),
                   (''core-plugins.json'', ''Enabled core plugins''),
                   (''app.json'', ''App settings''),
                   (''appearance.json'', ''Appearance & theme''),
                   (''hotkeys.json'', ''Hotkeys''),
                   (''graph.json'', ''Graph settings''),
                   (''canvas.json'', ''Canvas settings'')] rel of
        Some l \<Rightarrow> l
      | None \<Rightarrow>
          if startsWith rel ''themes/'' then ''Theme: '' @ hd (splitOn (CHR ''/'') (drop 7 rel))
          else if startsWith rel ''snippets/'' then ''CSS snippet: '' @ drop 9 rel
          else rel)"

definition pluginIdOf :: "path \<Rightarrow> string option" where
  "pluginIdOf p =
     (if \<not> startsWith p CONFIG_PREFIX then None
      else let rest = drop (length CONFIG_PREFIX) p in
        if \<not> startsWith rest ''plugins/'' then None
        else let pid = hd (splitOn (CHR ''/'') (drop 8 rest)) in if pid = [] then None else Some pid)"

text \<open>The groups are kept in insertion order and sorted by label; an entry is found by its key.\<close>

fun groupPush :: "string \<Rightarrow> string \<Rightarrow> path \<Rightarrow> conflict_group list \<Rightarrow> conflict_group list" where
  "groupPush key label p [] = [\<lparr>cg_key = key, cg_label = label, cg_paths = [p]\<rparr>]"
| "groupPush key label p (g # gs) =
     (if cg_key g = key then g\<lparr>cg_paths := cg_paths g @ [p]\<rparr> # gs else g # groupPush key label p gs)"

fun insortBy :: "('a \<Rightarrow> 'a \<Rightarrow> bool) \<Rightarrow> 'a \<Rightarrow> 'a list \<Rightarrow> 'a list" where
  "insortBy le x [] = [x]"
| "insortBy le x (y # ys) = (if le x y then x # y # ys else y # insortBy le x ys)"

definition groupConfigConflicts :: "(string \<Rightarrow> string \<Rightarrow> bool) \<Rightarrow> path list \<Rightarrow> conflict_group list" where
  "groupConfigConflicts le paths =
     foldr (insortBy (\<lambda>a b. le (cg_label a) (cg_label b)))
       (foldl (\<lambda>gs p. case pluginIdOf p of
                 Some pid \<Rightarrow> groupPush (''plugin:'' @ pid) (''Plugin: '' @ pid) p gs
               | None \<Rightarrow> groupPush (''file:'' @ p) (configFileLabel p) p gs) [] paths) []"

datatype config_surface = SCore | SHotkeys | SAppearance | SSnippets | SCommunity

definition configSurfaceOf :: "path \<Rightarrow> config_surface option" where
  "configSurfaceOf path =
     (if \<not> startsWith path CONFIG_PREFIX then None
      else let p = drop (length CONFIG_PREFIX) path in
        if p = ''app.json'' \<or> p = ''core-plugins.json'' then Some SCore
        else if p = ''hotkeys.json'' then Some SHotkeys
        else if p = ''appearance.json'' \<or> startsWith p ''themes/'' then Some SAppearance
        else if startsWith p ''snippets/'' then Some SSnippets
        else if p = ''community-plugins.json'' \<or> startsWith p ''plugins/'' then Some SCommunity
        else None)"

datatype side_choice = KeepLocal | TakeRemote

text \<open>\<open>firstContact\<close> is the test that the reason is \<open>"conflict-copy"\<close>.\<close>

definition configAutoResolveChoice ::
  "bool \<Rightarrow> config_surface option \<Rightarrow> config_direction option \<Rightarrow> side_choice option" where
  "configAutoResolveChoice firstContact surface dir =
     (if \<not> firstContact \<or> surface = None then None
      else case dir of
        None \<Rightarrow> None
      | Some Download \<Rightarrow> Some TakeRemote
      | Some Upload \<Rightarrow> Some KeepLocal)"

datatype config_adjudication = Auto side_choice | Manual

definition adjudicateConfigConflict ::
  "bool \<Rightarrow> config_surface option \<Rightarrow> config_direction option \<Rightarrow> config_adjudication" where
  "adjudicateConfigConflict firstContact surface dir =
     (case configAutoResolveChoice firstContact surface dir of Some c \<Rightarrow> Auto c | None \<Rightarrow> Manual)"

definition isEnabledListConfig :: "path \<Rightarrow> bool" where
  "isEnabledListConfig p \<longleftrightarrow> p = CONFIG_PREFIX @ ''community-plugins.json''"

datatype json = JNull | JBool bool | JNumber | JString utext | JArray "json list" | JObject

fun jsonString :: "json \<Rightarrow> utext option" where
  "jsonString (JString s) = Some s"
| "jsonString _ = None"

fun jsonStrings :: "json \<Rightarrow> utext list option" where
  "jsonStrings (JArray xs) =
     (if list_all (\<lambda>x. jsonString x \<noteq> None) xs then Some (map (the \<circ> jsonString) xs) else None)"
| "jsonStrings _ = None"

definition isWhite :: "nat \<Rightarrow> bool" where
  "isWhite c \<longleftrightarrow> (9 \<le> c \<and> c \<le> 13) \<or> c = 32 \<or> c = 160 \<or> c = 0x1680 \<or> (0x2000 \<le> c \<and> c \<le> 0x200A)
     \<or> c = 0x2028 \<or> c = 0x2029 \<or> c = 0x202F \<or> c = 0x205F \<or> c = 0x3000 \<or> c = 0xFEFF"

definition pluginIds :: "(utext \<Rightarrow> json option) \<Rightarrow> utext \<Rightarrow> utext list option" where
  "pluginIds jsonParse s =
     (let t = trimEndBy isWhite (dropWhile isWhite s) in
      case jsonParse (if t = [] then [91, 93] else t) of None \<Rightarrow> None | Some v \<Rightarrow> jsonStrings v)"

definition mergeEnabledPluginsJson ::
  "(utext \<Rightarrow> json option) \<Rightarrow> (utext list \<Rightarrow> utext) \<Rightarrow> utext \<Rightarrow> utext \<Rightarrow> utext option" where
  "mergeEnabledPluginsJson jsonParse stringify localJson remoteJson =
     (case (pluginIds jsonParse localJson, pluginIds jsonParse remoteJson) of
        (Some l, Some r) \<Rightarrow> Some (stringify (sort (jsDistinct (l @ r))))
      | _ \<Rightarrow> None)"

definition isJunkFile :: "path \<Rightarrow> bool" where
  "isJunkFile p \<longleftrightarrow> endsWith p ''.selfsync-part'' \<or> endsWith p ''.selfsync-tmp''
     \<or> list_ex (\<lambda>seg. seg = ''.DS_Store'' \<or> seg = ''Thumbs.db'' \<or> seg = ''desktop.ini'' \<or> seg = ''.git'') (splitOn (CHR ''/'') p)"

definition isSelfPluginId :: "string \<Rightarrow> string \<Rightarrow> bool" where
  "isSelfPluginId pid selfPluginId =
     (let idLc = toLowerCase pid in
      list_ex (\<lambda>s. toLowerCase s = idLc) (filter (\<lambda>s. s \<noteq> []) (selfPluginId # LEGACY_SELF_IDS)))"

definition pluginFilePaths :: "path list \<Rightarrow> path list \<Rightarrow> string \<Rightarrow> path list" where
  "pluginFilePaths localPaths serverPaths pid =
     (let prefix = CONFIG_PREFIX @ ''plugins/'' @ pid @ ''/'' in
      sort (jsDistinct (filter (\<lambda>p. startsWith p prefix \<and> \<not> isJunkFile p) (localPaths @ serverPaths))))"

definition shouldSync :: "path \<Rightarrow> config_sync \<Rightarrow> string \<Rightarrow> bool" where
  "shouldSync path sel selfPluginId =
     (if isJunkFile path then False
      else if \<not> startsWith path CONFIG_PREFIX then True
      else if \<not> cs_enabled sel then False
      else
        (let p = drop (length CONFIG_PREFIX) path; pl = toLowerCase p in
         if startsWith pl ''plugins/'' \<and> isSelfPluginId (hd (splitOn (CHR ''/'') (drop 8 pl))) selfPluginId then False
         else if p = ''app.json'' \<or> p = ''core-plugins.json'' then cs_core sel
         else if p = ''hotkeys.json'' then cs_hotkeys sel
         else if p = ''appearance.json'' \<or> startsWith p ''themes/'' then cs_appearance sel
         else if startsWith p ''snippets/'' then cs_snippets sel
         else if p = ''community-plugins.json'' then cs_community sel
         else if startsWith p ''plugins/'' then
           (if \<not> cs_community sel then False
            else let pid = hd (splitOn (CHR ''/'') (drop 8 p)) in
              if pid = [] then False else pid \<in> set (cs_pluginAllow sel))
         else False))"

record change_provenance =
  cp_author :: "string option"
  cp_deviceId :: "string option"
  cp_deviceName :: "string option"

datatype notify_mode = NotifyUser | NotifyUserDevice

record self_identity =
  si_user :: string
  si_deviceId :: string

definition sameUser :: "string option \<Rightarrow> string option \<Rightarrow> bool" where
  "sameUser a b \<longleftrightarrow> toLowerCase (case a of Some x \<Rightarrow> x | None \<Rightarrow> []) = toLowerCase (case b of Some x \<Rightarrow> x | None \<Rightarrow> [])"

text \<open>An empty string is falsy, as \<open>undefined\<close> is.\<close>

definition blank :: "string option \<Rightarrow> bool" where
  "blank s \<longleftrightarrow> s = None \<or> s = Some []"

definition shouldNotifyConfigChange :: "change_provenance \<Rightarrow> self_identity \<Rightarrow> notify_mode \<Rightarrow> bool" where
  "shouldNotifyConfigChange p self mode =
     (if blank (cp_author p) then True
      else if \<not> sameUser (cp_author p) (Some (si_user self)) then True
      else if mode = NotifyUser then False
      else if blank (cp_deviceId p) then True
      else cp_deviceId p \<noteq> Some (si_deviceId self))"

definition changeSourceLabel :: "change_provenance \<Rightarrow> self_identity \<Rightarrow> string" where
  "changeSourceLabel p self =
     (let other = (if \<not> blank (cp_author p) \<and> \<not> sameUser (cp_author p) (Some (si_user self)) then cp_author p else None) in
      if \<not> blank (cp_deviceName p) then
        (case other of
           Some o' \<Rightarrow> o' @ '' ('' @ the (cp_deviceName p) @ '')''
         | None \<Rightarrow> the (cp_deviceName p))
      else (case other of Some o' \<Rightarrow> o' | None \<Rightarrow> ''another device''))"

subsection \<open>The plugin's own folder\<close>

lemma hd_splitOn_append: "c \<notin> set x \<Longrightarrow> hd (splitOn c (x @ c # s)) = x"
  by (simp add: splitOn_append_sep)

text \<open>
  The plugin's own folder below \<open>.obsidian/plugins\<close>, which holds this device's credentials, never
  takes part in synchronisation: whatever the selection, the allow list included, and however the
  folder's name is spelled in upper and lower case.
\<close>
theorem self_folder_never_syncs:
  assumes "toLowerCase rel = ''plugins/'' @ toLowerCase selfId @ ''/'' @ rest" and "selfId \<noteq> []" and "CHR ''/'' \<notin> set selfId"
  shows "\<not> shouldSync (CONFIG_PREFIX @ rel) sel selfId"
proof -
  have slash: "CHR ''/'' \<notin> set (toLowerCase selfId)"
    using assms(3) by (auto simp: toLowerCase_def dest!: sym [of "CHR ''/''"])
  have "drop 8 (toLowerCase rel) = toLowerCase selfId @ CHR ''/'' # rest" using assms(1) by simp
  then have "hd (splitOn (CHR ''/'') (drop 8 (toLowerCase rel))) = toLowerCase selfId"
    using hd_splitOn_append [OF slash] by simp
  moreover have "isSelfPluginId (toLowerCase selfId) selfId"
    using assms(2) by (simp add: isSelfPluginId_def)
  moreover have "startsWith (toLowerCase rel) ''plugins/''" using assms(1) by (simp add: startsWith_def)
  ultimately show ?thesis by (simp add: shouldSync_def Let_def)
qed

theorem self_folder_never_syncs_witness:
  "\<not> shouldSync (CONFIG_PREFIX @ ''Plugins/SelfSync/data.json'')
      \<lparr>cs_enabled = True, cs_core = True, cs_community = True, cs_appearance = True, cs_snippets = True,
       cs_hotkeys = True, cs_pluginAllow = [''SelfSync'', ''selfsync''], cs_pluginDir = []\<rparr> ''selfsync''"
  by (rule self_folder_never_syncs [where rest = "''data.json''"]) (code_simp, simp_all)

text \<open>
  The exclusion recognises the settings folder by its exact spelling only. A path below
  \<open>.Obsidian\<close>, which names the same folder on a file system that folds case, is taken for an ordinary
  note, and so the plugin's own data file takes part in synchronisation under that spelling, with the
  synchronisation of settings switched off.
\<close>
theorem recased_settings_folder_syncs:
  "shouldSync ''.Obsidian/plugins/selfsync/data.json'' DEFAULT_CONFIG_SYNC ''selfsync''"
  by code_simp

subsection \<open>The selection and the surfaces\<close>

fun surfaceOn :: "config_sync \<Rightarrow> config_surface \<Rightarrow> bool" where
  "surfaceOn sel SCore = cs_core sel"
| "surfaceOn sel SHotkeys = cs_hotkeys sel"
| "surfaceOn sel SAppearance = cs_appearance sel"
| "surfaceOn sel SSnippets = cs_snippets sel"
| "surfaceOn sel SCommunity = cs_community sel"

text \<open>
  The selection and the surfaces agree: a settings file is synchronised only with the master
  switch on, only if it belongs to a surface, only if that surface is on, and a community plugin's
  file only if the plugin is on the allow list.
\<close>
theorem shouldSync_surface:
  assumes "shouldSync path sel selfId" and "startsWith path CONFIG_PREFIX"
  shows "cs_enabled sel \<and> (\<exists>s. configSurfaceOf path = Some s \<and> surfaceOn sel s)
     \<and> (case pluginIdOf path of Some pid \<Rightarrow> pid \<in> set (cs_pluginAllow sel) \<and> \<not> isSelfPluginId pid selfId | None \<Rightarrow> True)"
proof -
  obtain p where path: "path = CONFIG_PREFIX @ p" using assms(2) by (auto simp: startsWith_iff)
  have sync: "shouldSync (CONFIG_PREFIX @ p) sel selfId" using assms(1) path by simp
  have surf: "cs_enabled sel \<and> (\<exists>s. configSurfaceOf (CONFIG_PREFIX @ p) = Some s \<and> surfaceOn sel s)"
    using sync by (auto simp: shouldSync_def configSurfaceOf_def Let_def split: if_splits)
  have "case pluginIdOf (CONFIG_PREFIX @ p) of Some pid \<Rightarrow> pid \<in> set (cs_pluginAllow sel) \<and> \<not> isSelfPluginId pid selfId | None \<Rightarrow> True"
  proof (cases "startsWith p ''plugins/''")
    case True
    then obtain r where r: "p = ''plugins/'' @ r" by (auto simp: startsWith_iff)
    have neq: "p \<noteq> ''app.json'' \<and> p \<noteq> ''core-plugins.json'' \<and> p \<noteq> ''hotkeys.json'' \<and> p \<noteq> ''appearance.json''
        \<and> \<not> startsWith p ''themes/'' \<and> \<not> startsWith p ''snippets/'' \<and> p \<noteq> ''community-plugins.json''"
      by (simp add: r startsWith_def)
    have "toLowerCase ''plugins/'' = ''plugins/''" by code_simp
    then have "toLowerCase p = ''plugins/'' @ toLowerCase r" unfolding r toLowerCase_append by simp
    then have low: "startsWith (toLowerCase p) ''plugins/''" "drop 8 (toLowerCase p) = toLowerCase r" "drop 8 p = r"
      by (simp_all add: startsWith_def r)
    have "hd (splitOn (CHR ''/'') (toLowerCase r)) = toLowerCase (hd (splitOn (CHR ''/'') r))"
      by (rule hd_splitOn_lower)
    then have "isSelfPluginId (hd (splitOn (CHR ''/'') (toLowerCase r))) selfId = isSelfPluginId (hd (splitOn (CHR ''/'') r)) selfId"
      by (simp add: isSelfPluginId_def)
    then show ?thesis
      using sync neq True low by (simp add: shouldSync_def pluginIdOf_def Let_def split: if_splits)
  qed (simp add: pluginIdOf_def Let_def)
  with surf path show ?thesis by blast
qed

theorem shouldSync_surface_witness:
  "shouldSync (CONFIG_PREFIX @ ''themes/x.css'') (DEFAULT_CONFIG_SYNC\<lparr>cs_enabled := True\<rparr>) ''selfsync''
   \<and> (\<exists>s. configSurfaceOf (CONFIG_PREFIX @ ''themes/x.css'') = Some s \<and> surfaceOn (DEFAULT_CONFIG_SYNC\<lparr>cs_enabled := True\<rparr>) s)"
proof -
  have "shouldSync (CONFIG_PREFIX @ ''themes/x.css'') (DEFAULT_CONFIG_SYNC\<lparr>cs_enabled := True\<rparr>) ''selfsync''"
    by code_simp
  then show ?thesis using shouldSync_surface [of "CONFIG_PREFIX @ ''themes/x.css''"] by simp
qed

subsection \<open>Enabled plugins\<close>

text \<open>
  Merging two lists of enabled plugins never disables one: read back, the merged list enables
  exactly the plugins that either side enables, without duplicates. The hypothesis is that the host's
  JSON parser reads back what its printer wrote for a list of strings.
\<close>
theorem enabled_plugins_union:
  assumes "\<And>xs. pluginIds jsonParse (stringify xs) = Some xs"
    and "mergeEnabledPluginsJson jsonParse stringify l r = Some m"
  shows "\<exists>ls rs ms. pluginIds jsonParse l = Some ls \<and> pluginIds jsonParse r = Some rs \<and> pluginIds jsonParse m = Some ms
           \<and> set ms = set ls \<union> set rs \<and> distinct ms"
  using assms by (auto simp: mergeEnabledPluginsJson_def split: option.splits)

text \<open>A concrete printer and parser with the law: a length before each string, between brackets.\<close>

definition sampleStringify :: "utext list \<Rightarrow> utext" where
  "sampleStringify xs = 91 # concat (map (\<lambda>x. length x # x) xs) @ [93]"

fun sampleDecode :: "utext \<Rightarrow> utext list" where
  "sampleDecode [] = []"
| "sampleDecode (n # t) = take n t # sampleDecode (drop n t)"

definition sampleParse :: "utext \<Rightarrow> json option" where
  "sampleParse t = Some (JArray (map JString (sampleDecode (butlast (tl t)))))"

lemma sample_json: "pluginIds sampleParse (sampleStringify xs) = Some xs"
proof -
  have "trimEndBy isWhite (dropWhile isWhite (sampleStringify xs)) = sampleStringify xs"
    by (simp add: sampleStringify_def trimEndBy_def isWhite_def)
  moreover have "sampleDecode (concat (map (\<lambda>x. length x # x) xs)) = xs" by (induction xs) auto
  moreover have "sampleStringify xs \<noteq> []" by (simp add: sampleStringify_def)
  ultimately show ?thesis
    by (simp add: pluginIds_def sampleParse_def list_all_iff comp_def) (simp add: sampleStringify_def)
qed

theorem enabled_plugins_union_witness:
  "\<exists>ms. mergeEnabledPluginsJson sampleParse sampleStringify (sampleStringify [[5], [7]]) (sampleStringify [[3]]) = Some ms
     \<and> (\<exists>xs. pluginIds sampleParse ms = Some xs \<and> set xs = {[5], [7], [3]})"
proof -
  obtain ms where ms: "mergeEnabledPluginsJson sampleParse sampleStringify (sampleStringify [[5], [7]]) (sampleStringify [[3]]) = Some ms"
    by (simp add: mergeEnabledPluginsJson_def sample_json)
  then show ?thesis
    using enabled_plugins_union [OF sample_json ms] by (auto simp: sample_json)
qed

end
