(* ===== verification/StreamHash.thy ===== *)
theory StreamHash
  imports Prelude "HOL-Library.Word"
begin

unbundle bit_operations_syntax

text \<open>
  The streaming SHA-256 of \<open>client/src/streamhash.ts\<close>, on 32-bit words. The first \<open>bufLen\<close> bytes of
  the block buffer are the list \<open>sh_buf\<close> (the rest of the buffer is never read); a call on a finished
  hasher, which throws, is \<^const>\<open>None\<close>.
\<close>

definition K :: "32 word list" where
  "K =
     [0x428a2f98, 0x71374491, 0xb5c0fbcf, 0xe9b5dba5, 0x3956c25b, 0x59f111f1, 0x923f82a4, 0xab1c5ed5]
   @ [0xd807aa98, 0x12835b01, 0x243185be, 0x550c7dc3, 0x72be5d74, 0x80deb1fe, 0x9bdc06a7, 0xc19bf174]
   @ [0xe49b69c1, 0xefbe4786, 0x0fc19dc6, 0x240ca1cc, 0x2de92c6f, 0x4a7484aa, 0x5cb0a9dc, 0x76f988da]
   @ [0x983e5152, 0xa831c66d, 0xb00327c8, 0xbf597fc7, 0xc6e00bf3, 0xd5a79147, 0x06ca6351, 0x14292967]
   @ [0x27b70a85, 0x2e1b2138, 0x4d2c6dfc, 0x53380d13, 0x650a7354, 0x766a0abb, 0x81c2c92e, 0x92722c85]
   @ [0xa2bfe8a1, 0xa81a664b, 0xc24b8b70, 0xc76c51a3, 0xd192e819, 0xd6990624, 0xf40e3585, 0x106aa070]
   @ [0x19a4c116, 0x1e376c08, 0x2748774c, 0x34b0bcb5, 0x391c0cb3, 0x4ed8aa4a, 0x5b9cca4f, 0x682e6ff3]
   @ [0x748f82ee, 0x78a5636f, 0x84c87814, 0x8cc70208, 0x90befffa, 0xa4506ceb, 0xbef9a3f7, 0xc67178f2]"

definition rotr :: "32 word \<Rightarrow> nat \<Rightarrow> 32 word" where
  "rotr x n = drop_bit n x OR push_bit (32 - n) x"

record sha_vars =
  va :: "32 word"
  vb :: "32 word"
  vc :: "32 word"
  vd :: "32 word"
  ve :: "32 word"
  vf :: "32 word"
  vg :: "32 word"
  vh :: "32 word"

record sha256 =
  sh_h :: sha_vars
  sh_buf :: bytes
  sh_total :: nat
  sh_done :: bool

definition H0 :: sha_vars where
  "H0 = \<lparr>va = 0x6a09e667, vb = 0xbb67ae85, vc = 0x3c6ef372, vd = 0xa54ff53a,
         ve = 0x510e527f, vf = 0x9b05688c, vg = 0x1f83d9ab, vh = 0x5be0cd19\<rparr>"

definition newSha256 :: sha256 where
  "newSha256 = \<lparr>sh_h = H0, sh_buf = [], sh_total = 0, sh_done = False\<rparr>"

definition beWord :: "bytes \<Rightarrow> nat \<Rightarrow> 32 word" where
  "beWord p i = push_bit 24 (of_nat (p ! (4 * i))) OR push_bit 16 (of_nat (p ! (4 * i + 1)))
     OR push_bit 8 (of_nat (p ! (4 * i + 2))) OR of_nat (p ! (4 * i + 3))"

definition scheduleNext :: "32 word list \<Rightarrow> 32 word list" where
  "scheduleNext w =
     (let i = length w; x = w ! (i - 15); y = w ! (i - 2);
          s0 = rotr x 7 XOR rotr x 18 XOR drop_bit 3 x;
          s1 = rotr y 17 XOR rotr y 19 XOR drop_bit 10 y
      in w @ [w ! (i - 16) + s0 + w ! (i - 7) + s1])"

definition schedule :: "bytes \<Rightarrow> 32 word list" where
  "schedule p = (scheduleNext ^^ 48) (map (beWord p) [0..<16])"

definition sha_round :: "32 word \<times> 32 word \<Rightarrow> sha_vars \<Rightarrow> sha_vars" where
  "sha_round kw v =
     (let (k, w) = kw;
          S1 = rotr (ve v) 6 XOR rotr (ve v) 11 XOR rotr (ve v) 25;
          ch = (ve v AND vf v) XOR (NOT (ve v) AND vg v);
          t1 = vh v + S1 + ch + k + w;
          S0 = rotr (va v) 2 XOR rotr (va v) 13 XOR rotr (va v) 22;
          maj = (va v AND vb v) XOR (va v AND vc v) XOR (vb v AND vc v);
          t2 = S0 + maj
      in \<lparr>va = t1 + t2, vb = va v, vc = vb v, vd = vc v, ve = vd v + t1, vf = ve v, vg = vf v, vh = vg v\<rparr>)"

definition sha_block :: "sha_vars \<Rightarrow> bytes \<Rightarrow> sha_vars" where
  "sha_block h p =
     (let v = fold sha_round (zip K (schedule p)) h in
      \<lparr>va = va h + va v, vb = vb h + vb v, vc = vc h + vc v, vd = vd h + vd v,
       ve = ve h + ve v, vf = vf h + vf v, vg = vg h + vg v, vh = vh h + vh v\<rparr>)"

text \<open>The loop over the whole blocks of the data; the second component is what is left over.\<close>

function absorb :: "sha_vars \<Rightarrow> bytes \<Rightarrow> sha_vars \<times> bytes" where
  "absorb h p = (if length p < 64 then (h, p) else absorb (sha_block h (take 64 p)) (drop 64 p))"
  by pat_completeness auto
termination
  by (relation "measure (\<lambda>(h, p). length p)") auto

declare absorb.simps [simp del]

definition sha_update :: "bytes \<Rightarrow> sha256 \<Rightarrow> sha256 option" where
  "sha_update p s =
     (if sh_done s then None
      else
        (let bufLen = length (sh_buf s);
             n = (if bufLen > 0 then min (64 - bufLen) (length p) else 0);
             buf = sh_buf s @ take n p;
             (h1, buf1) = (if bufLen > 0 \<and> length buf = 64 then (sha_block (sh_h s) buf, []) else (sh_h s, buf));
             (h2, rest) = absorb h1 (drop n p)
         in Some (s\<lparr>sh_h := h2, sh_buf := (if rest \<noteq> [] then rest else buf1), sh_total := sh_total s + length p\<rparr>)))"

definition hexDigitChar :: "nat \<Rightarrow> char" where
  "hexDigitChar d = char_of (if d < 10 then 48 + d else 87 + d)"

definition hex8 :: "32 word \<Rightarrow> string" where
  "hex8 w = map (\<lambda>i. hexDigitChar (unat (drop_bit (28 - 4 * i) w AND 15))) [0..<8]"

definition hexOut :: "sha_vars \<Rightarrow> string" where
  "hexOut h = hex8 (va h) @ hex8 (vb h) @ hex8 (vc h) @ hex8 (vd h) @ hex8 (ve h) @ hex8 (vf h) @ hex8 (vg h) @ hex8 (vh h)"

text \<open>\<open>setUint32\<close> in big-endian order.\<close>

definition be4 :: "nat \<Rightarrow> bytes" where
  "be4 n = [n div 2 ^ 24 mod 256, n div 2 ^ 16 mod 256, n div 2 ^ 8 mod 256, n mod 256]"

definition hexDigest :: "sha256 \<Rightarrow> (string \<times> sha256) option" where
  "hexDigest s =
     (if sh_done s then None
      else
        (let bitLen = sh_total s * 8; bufLen = length (sh_buf s);
             padLen = (if bufLen < 56 then 56 - bufLen else 120 - bufLen);
             tail = 0x80 # replicate (padLen - 1) 0 @ be4 (bitLen div 2 ^ 32 mod 2 ^ 32) @ be4 (bitLen mod 2 ^ 32)
         in map_option (\<lambda>s'. (hexOut (sh_h s'), s'\<lparr>sh_done := True\<rparr>)) (sha_update tail s)))"

subsection \<open>The stream hash is the hash of the whole\<close>

text \<open>The padded message of FIPS 180-4 and its hash in one pass.\<close>

definition shaPad :: "nat \<Rightarrow> bytes" where
  "shaPad n =
     0x80 # replicate ((119 - n mod 64) mod 64) 0 @ be4 (n * 8 div 2 ^ 32 mod 2 ^ 32) @ be4 (n * 8 mod 2 ^ 32)"

definition shaWhole :: "bytes \<Rightarrow> string" where
  "shaWhole p = hexOut (fst (absorb H0 (p @ shaPad (length p))))"

lemma absorb_short [simp]: "length p < 64 \<Longrightarrow> absorb h p = (h, p)"
  by (simp add: absorb.simps [of h p])

lemma absorb_block: "length b = 64 \<Longrightarrow> absorb h (b @ p) = absorb (sha_block h b) p"
  by (simp add: absorb.simps [of h "b @ p"])

lemma absorb_append: "absorb h (p @ q) = (let (h', r) = absorb h p in absorb h' (r @ q))"
proof (induction h p rule: absorb.induct)
  case (1 h p)
  show ?case
  proof (cases "length p < 64")
    case False
    then have "p @ q = take 64 p @ (drop 64 p @ q)" "length (take 64 p) = 64" by auto
    then have "absorb h (p @ q) = absorb (sha_block h (take 64 p)) (drop 64 p @ q)"
      using absorb_block by metis
    then show ?thesis using 1 False by (simp add: absorb.simps [of h p])
  qed simp
qed

lemma absorb_rest: "length (snd (absorb h p)) < 64 \<and> length (snd (absorb h p)) = length p mod 64"
proof (induction h p rule: absorb.induct)
  case (1 h p)
  then show ?case
    by (cases "length p < 64") (auto simp: absorb.simps [of h p] le_mod_geq)
qed

text \<open>What a hasher that has been fed the bytes \<open>x\<close> looks like.\<close>

definition fed :: "bytes \<Rightarrow> sha256 \<Rightarrow> bool" where
  "fed x s \<longleftrightarrow> \<not> sh_done s \<and> sh_total s = length x \<and> absorb H0 x = (sh_h s, sh_buf s)"

lemma update_absorb:
  assumes "\<not> sh_done s" "length (sh_buf s) < 64"
  shows "sha_update p s = Some (s\<lparr>sh_h := fst (absorb (sh_h s) (sh_buf s @ p)),
           sh_buf := snd (absorb (sh_h s) (sh_buf s @ p)), sh_total := sh_total s + length p\<rparr>)"
proof -
  let ?b = "sh_buf s" and ?h = "sh_h s"
  consider "?b = []" | "?b \<noteq> []" "length ?b + length p < 64" | "?b \<noteq> []" "64 \<le> length ?b + length p"
    by linarith
  then show ?thesis
  proof cases
    case 1
    then show ?thesis using assms by (auto simp: sha_update_def Let_def split: prod.splits)
  next
    case 2
    then have "min (64 - length ?b) (length p) = length p" by simp
    then show ?thesis using assms 2 by (simp add: sha_update_def Let_def)
  next
    case 3
    let ?n = "64 - length ?b"
    have n: "min ?n (length p) = ?n" and full: "length (?b @ take ?n p) = 64" using 3 assms(2) by auto
    have "absorb ?h (?b @ p) = absorb (sha_block ?h (?b @ take ?n p)) (drop ?n p)"
      using absorb_block [OF full, of ?h "drop ?n p"] by simp
    then show ?thesis
      using assms 3 n full by (auto simp: sha_update_def Let_def split: prod.splits)
  qed
qed

lemma fed_update: "fed x s \<Longrightarrow> \<exists>s'. sha_update p s = Some s' \<and> fed (x @ p) s'"
proof -
  assume f: "fed x s"
  then have "length (sh_buf s) < 64" using absorb_rest [of H0 x] by (simp add: fed_def)
  moreover have "absorb H0 (x @ p) = absorb (sh_h s) (sh_buf s @ p)"
    using f absorb_append [of H0 x p] by (simp add: fed_def)
  ultimately show ?thesis using f by (simp add: fed_def update_absorb)
qed

text \<open>Feeding the chunks one after the other.\<close>

fun feedAll :: "bytes list \<Rightarrow> sha256 \<Rightarrow> sha256 option" where
  "feedAll [] s = Some s"
| "feedAll (c # cs) s = (case sha_update c s of Some s' \<Rightarrow> feedAll cs s' | None \<Rightarrow> None)"

lemma fed_feedAll: "fed x s \<Longrightarrow> \<exists>s'. feedAll cs s = Some s' \<and> fed (x @ concat cs) s'"
proof (induction cs arbitrary: x s)
  case (Cons c cs)
  then obtain s' where "sha_update c s = Some s'" "fed (x @ c) s'" using fed_update by blast
  then show ?case using Cons.IH [of "x @ c" s'] by simp
qed simp

lemma pad_gap: "m < 64 \<Longrightarrow> (119 - m) mod 64 = (if m < 56 then 55 - m else 119 - m :: nat)"
  by (simp add: le_mod_geq)

lemma pad_length: "(if n mod 64 < 56 then 56 - n mod 64 else 120 - n mod 64) - 1 = (119 - n mod 64) mod (64 :: nat)"
  using pad_gap [of "n mod 64"] by auto

lemma fed_digest: "fed x s \<Longrightarrow> \<exists>s'. hexDigest s = Some (shaWhole x, s')"
proof -
  assume f: "fed x s"
  then have len: "length (sh_buf s) = length x mod 64" "sh_total s = length x" "\<not> sh_done s"
    using absorb_rest [of H0 x] by (auto simp: fed_def)
  have less: "length (sh_buf s) < 64" by (simp add: len)
  have "absorb H0 (x @ shaPad (length x)) = absorb (sh_h s) (sh_buf s @ shaPad (length x))"
    using f absorb_append [of H0 x "shaPad (length x)"] by (simp add: fed_def)
  moreover have "hexDigest s = map_option (\<lambda>s'. (hexOut (sh_h s'), s'\<lparr>sh_done := True\<rparr>)) (sha_update (shaPad (length x)) s)"
    unfolding hexDigest_def Let_def shaPad_def len(1,2) pad_length by (simp only: len(3) if_False)
  ultimately show ?thesis
    using update_absorb [OF len(3) less, of "shaPad (length x)"] by (simp add: shaWhole_def)
qed

lemma fed_new: "fed [] newSha256"
  by (simp add: fed_def newSha256_def)

lemma stream_feed: "feedAll cs newSha256 = Some s \<Longrightarrow> hexDigest s = Some (d, s') \<Longrightarrow> d = shaWhole (concat cs)"
  using fed_feedAll [OF fed_new, of cs] fed_digest by fastforce

text \<open>
  (C18) The streaming hasher is correct for every way of cutting a file into chunks: fed chunk by chunk
  it never fails, and its digest is the hash of the concatenation, that is the compression of the
  padded whole message; the padded message is a whole number of blocks.
\<close>
theorem stream_hash_correct:
  "\<exists>s s'. feedAll chunks newSha256 = Some s \<and> hexDigest s = Some (shaWhole (concat chunks), s')
     \<and> 64 dvd length (concat chunks @ shaPad (length (concat chunks)))"
proof -
  from fed_feedAll [OF fed_new, of chunks] obtain s where "feedAll chunks newSha256 = Some s" "fed (concat chunks) s"
    by auto
  moreover have "64 dvd n + length (shaPad n)" for n
  proof -
    have "n mod 64 + (1 + (119 - n mod 64) mod 64 + 8) \<in> {64, 128}"
      using pad_gap [of "n mod 64"] by auto
    then have "64 dvd n mod 64 + length (shaPad n)" by (auto simp: shaPad_def be4_def)
    then show ?thesis by (metis add.commute dvd_eq_mod_eq_0 mod_add_right_eq)
  qed
  ultimately show ?thesis using fed_digest by fastforce
qed

end
