(* ===== verification/Chunker.thy ===== *)
theory Chunker
  imports Prelude "HOL-Library.Word"
begin

unbundle bit_operations_syntax

text \<open>
  Content-defined chunking, \<open>client/src/chunker.ts\<close>, with the rolling gear hash on 32-bit words.
  The host's SHA-256 (\<open>crypto.subtle.digest\<close> in hexadecimal) is the parameter \<open>sha\<close>.
\<close>

definition MIN_CHUNK :: nat where "MIN_CHUNK = 2048"
definition AVG_MASK :: "32 word" where "AVG_MASK = push_bit 14 1 - 1"
definition MAX_CHUNK :: nat where "MAX_CHUNK = 65536"

fun gearFrom :: "nat \<Rightarrow> 32 word \<Rightarrow> 32 word list" where
  "gearFrom 0 s = []"
| "gearFrom (Suc n) s = (let s' = s * 1103515245 + 12345 in s' # gearFrom n s')"

definition GEAR :: "32 word list" where
  "GEAR = gearFrom 256 0x1234567"

definition gearStep :: "32 word \<Rightarrow> nat \<Rightarrow> 32 word" where
  "gearStep h b = push_bit 1 h + GEAR ! b"

text \<open>\<open>cur\<close> holds the bytes from \<open>start\<close> on.\<close>

definition cutHere :: "32 word \<Rightarrow> bytes \<Rightarrow> bool" where
  "cutHere h cur \<longleftrightarrow> MIN_CHUNK \<le> length cur \<and> (h AND AVG_MASK = 0 \<or> MAX_CHUNK \<le> length cur)"

fun scan :: "32 word \<Rightarrow> bytes \<Rightarrow> bytes \<Rightarrow> bytes list" where
  "scan h cur [] = (if cur = [] then [] else [cur])"
| "scan h cur (b # bs) =
     (let h' = gearStep h b; cur' = cur @ [b] in
      if cutHere h' cur' then cur' # scan 0 [] bs else scan h' cur' bs)"

definition slices :: "bytes \<Rightarrow> bytes list" where
  "slices bs = (let sl = scan 0 [] bs in if sl = [] then [[]] else sl)"

definition chunk :: "(bytes \<Rightarrow> hash) \<Rightarrow> bytes \<Rightarrow> (hash \<times> bytes) list" where
  "chunk sha bs = map (\<lambda>s. (sha s, s)) (slices bs)"

lemma concat_scan: "concat (scan h cur bs) = cur @ bs"
  by (induction h cur bs rule: scan.induct) (auto simp: Let_def)

lemma scan_sizes:
  "length cur < MAX_CHUNK \<Longrightarrow>
   list_all (\<lambda>s. s \<noteq> [] \<and> length s \<le> MAX_CHUNK) (scan h cur bs)
   \<and> list_all (\<lambda>s. MIN_CHUNK \<le> length s) (butlast (scan h cur bs))"
proof (induction h cur bs rule: scan.induct)
  case (2 h cur b bs)
  show ?case
  proof (cases "cutHere (gearStep h b) (cur @ [b])")
    case True
    have "0 < MAX_CHUNK" by (simp add: MAX_CHUNK_def)
    then show ?thesis using 2 True by (auto simp: Let_def cutHere_def)
  next
    case False
    have "0 < MAX_CHUNK" "MIN_CHUNK \<le> MAX_CHUNK" by (simp_all add: MAX_CHUNK_def MIN_CHUNK_def)
    then have "length (cur @ [b]) < MAX_CHUNK" using False "2.prems" by (auto simp: cutHere_def)
    then show ?thesis using 2 False by (simp add: Let_def)
  qed
qed auto

lemma scan_append: "prefix (butlast (scan h cur x)) (scan h cur (x @ y))"
proof (induction h cur x rule: scan.induct)
  case (2 h cur b bs)
  then show ?case by (auto simp: Let_def)
qed auto

text \<open>
  (C30) Chunking loses nothing and respects its size limits: the chunks of a file concatenate to the
  file, no chunk exceeds the maximum, every chunk but the last reaches the minimum, there is always
  at least one chunk, and appending to a file leaves every chunk but its last one as it was, so that
  an append uploads only the end of the file.
\<close>
theorem chunk_correct:
  "concat (map snd (chunk sha bs)) = bs
   \<and> list_all (\<lambda>(h, s). h = sha s \<and> length s \<le> MAX_CHUNK) (chunk sha bs)
   \<and> list_all (\<lambda>(h, s). MIN_CHUNK \<le> length s) (butlast (chunk sha bs))
   \<and> chunk sha bs \<noteq> []
   \<and> prefix (butlast (chunk sha bs)) (chunk sha (bs @ more))"
proof -
  have m: "0 < MAX_CHUNK" by (simp add: MAX_CHUNK_def)
  have nonempty: "scan 0 [] z = [] \<longleftrightarrow> z = []" for z
    using concat_scan [of 0 "[]" z] by auto
  have sz: "list_all (\<lambda>s. length s \<le> MAX_CHUNK) (slices z)" "list_all (\<lambda>s. MIN_CHUNK \<le> length s) (butlast (slices z))" for z
    using scan_sizes [of "[]" 0 z] m by (auto simp: slices_def Let_def list_all_iff)
  have "prefix (butlast (slices bs)) (slices (bs @ more))"
    using scan_append [of 0 "[]" bs more] nonempty by (auto simp: slices_def Let_def)
  then have "prefix (butlast (chunk sha bs)) (chunk sha (bs @ more))"
    unfolding chunk_def map_butlast [symmetric] by (rule map_mono_prefix)
  then show ?thesis
    using sz [of bs] concat_scan [of 0 "[]" bs]
    by (auto simp: chunk_def slices_def Let_def list_all_iff map_butlast [symmetric] comp_def)
qed

end
