(* ===== verification/Fsm.thy ===== *)
theory Fsm
  imports Prelude
begin

text \<open>
  The state-machine primitive of \<open>client/src/fsm.ts\<close>. A machine specification is a record; a rule
  of its table is a value of \<open>rule\<close>. \<open>changed\<close> is reported by reference comparison in the
  source: a machine over strings compares values (\<open>m_byValue\<close>), a machine over objects reports a
  change for every freshly built state and none for the rule that returns its own argument
  (\<^term>\<open>Self\<close>).

  The locale \<open>fsm\<close> is the contract every machine of the client is checked against: each state
  and event is of a declared kind. Its lemmas (terminal states are absorbing, table coverage is
  total and stays within the declared kinds) are proved once and reached through an
  interpretation per machine.
\<close>

datatype ('s, 'x) rule = NoRule | Self | Next 's | NextFx 's 'x

record ('s, 'e, 'x) machine_spec =
  m_name :: string
  m_states :: "string list"
  m_events :: "string list"
  m_kindOf :: "'s \<Rightarrow> string"
  m_eventKindOf :: "'e \<Rightarrow> string"
  m_transition :: "'s \<Rightarrow> 'e \<Rightarrow> ('s, 'x) rule"
  m_terminalStates :: "string list"
  m_terminalExits :: "string list"
  m_byValue :: bool

record ('s, 'x) step_result =
  st_state :: 's
  st_effects :: "'x option"
  st_changed :: bool

definition machine_step :: "('s, 'e, 'x) machine_spec \<Rightarrow> 's \<Rightarrow> 'e \<Rightarrow> ('s, 'x) step_result" where
  "machine_step m s e =
     (let unchanged = \<lparr>st_state = s, st_effects = None, st_changed = False\<rparr>;
          differs = (\<lambda>s'. \<not> m_byValue m \<or> s' \<noteq> s) in
      if m_kindOf m s \<in> set (m_terminalStates m)
         \<and> m_eventKindOf m e \<notin> set (m_terminalExits m)
      then unchanged
      else (case m_transition m s e of
              NoRule \<Rightarrow> unchanged
            | Self \<Rightarrow> unchanged
            | Next s' \<Rightarrow> \<lparr>st_state = s', st_effects = None, st_changed = differs s'\<rparr>
            | NextFx s' x \<Rightarrow> \<lparr>st_state = s', st_effects = Some x, st_changed = differs s'\<rparr>))"

definition machine_next :: "('s, 'e, 'x) machine_spec \<Rightarrow> 's \<Rightarrow> 'e \<Rightarrow> 's" where
  "machine_next m s e = st_state (machine_step m s e)"

definition isTerminal :: "('s, 'e, 'x) machine_spec \<Rightarrow> 's \<Rightarrow> bool" where
  "isTerminal m s \<longleftrightarrow> m_kindOf m s \<in> set (m_terminalStates m)"

definition machine_run :: "('s, 'e, 'x) machine_spec \<Rightarrow> 's \<Rightarrow> 'e list \<Rightarrow> 's" where
  "machine_run m s es = foldl (machine_next m) s es"

definition tableCoverage ::
  "('s, 'e, 'x) machine_spec \<Rightarrow> 's list \<Rightarrow> 'e list \<Rightarrow> (string \<times> string \<times> string \<times> bool) list" where
  "tableCoverage m ss es =
     concat (map (\<lambda>s. map (\<lambda>e.
       (let r = machine_step m s e in
        (m_kindOf m s, m_eventKindOf m e, m_kindOf m (st_state r), st_changed r))) es) ss)"

lemma machine_next_cases [machine_simps]:
  "machine_next m s e =
     (if isTerminal m s \<and> m_eventKindOf m e \<notin> set (m_terminalExits m) then s
      else (case m_transition m s e of NoRule \<Rightarrow> s | Self \<Rightarrow> s | Next s' \<Rightarrow> s' | NextFx s' x \<Rightarrow> s'))"
  by (auto simp: machine_next_def machine_step_def isTerminal_def Let_def split: rule.splits)

lemma machine_step_unchanged:
  "\<not> st_changed (machine_step m s e) \<Longrightarrow> st_state (machine_step m s e) = s"
  by (auto simp: machine_step_def Let_def split: rule.splits if_splits)

lemma machine_run_simps [simp]:
  "machine_run m s [] = s"
  "machine_run m s (e # es) = machine_run m (machine_next m s e) es"
  by (simp_all add: machine_run_def)

lemma machine_run_snoc [simp]:
  "machine_run m s (es @ [e]) = machine_next m (machine_run m s es) e"
  by (simp add: machine_run_def)

lemma machine_run_invariant:
  assumes step: "\<And>s e. I s \<Longrightarrow> I (machine_next m s e)"
  shows "I s \<Longrightarrow> I (machine_run m s es)"
  by (induction es arbitrary: s) (auto intro: step)

locale fsm =
  fixes m :: "('s, 'e, 'x) machine_spec"
  assumes kind_listed: "m_kindOf m s \<in> set (m_states m)"
    and event_listed: "m_eventKindOf m e \<in> set (m_events m)"
    and terminal_listed: "set (m_terminalStates m) \<subseteq> set (m_states m)"
    and exits_listed: "set (m_terminalExits m) \<subseteq> set (m_events m)"
begin

lemma next_terminal:
  "isTerminal m s \<Longrightarrow> m_eventKindOf m e \<notin> set (m_terminalExits m) \<Longrightarrow> machine_next m s e = s"
  by (simp add: machine_next_cases)

lemma run_terminal:
  "isTerminal m s \<Longrightarrow> \<forall>e \<in> set es. m_eventKindOf m e \<notin> set (m_terminalExits m)
   \<Longrightarrow> machine_run m s es = s"
  by (induction es) (auto simp: next_terminal)

lemma coverage_total:
  "length (tableCoverage m ss es) = length ss * length es"
  by (induction ss) (auto simp: tableCoverage_def)

lemma coverage_kinds:
  "(from, on, to, ch) \<in> set (tableCoverage m ss es) \<Longrightarrow>
   from \<in> set (m_states m) \<and> on \<in> set (m_events m) \<and> to \<in> set (m_states m)"
  using kind_listed event_listed by (auto simp: tableCoverage_def Let_def)

lemma coverage_terminal:
  "(from, on, to, ch) \<in> set (tableCoverage m ss es) \<Longrightarrow> from \<in> set (m_terminalStates m) \<Longrightarrow>
   on \<notin> set (m_terminalExits m) \<Longrightarrow> to = from \<and> \<not> ch"
  by (auto simp: tableCoverage_def Let_def machine_step_def)

end

end
