(* ===== verification/StatusLight.thy ===== *)
theory StatusLight
  imports Prelude
begin

text \<open>
  The display projection of \<open>client/src/syncstate.ts\<close> and the minimum-show reducer of
  \<open>client/src/statuslight.ts\<close>. The colours and texts of \<open>light\<close> are a rendering
  table and are not modelled; the phases, the collapse of an idle check, the staleness predicate and
  the whole reducer are.
\<close>

datatype phase = Poff | Pconnecting | Pidle | Psyncing | Pretrying | PlockedOut | Pblocked

definition effectivePhase :: "phase \<Rightarrow> int \<Rightarrow> phase" where
  "effectivePhase p syncPending = (if p = Psyncing \<and> syncPending \<le> 0 then Pidle else p)"

definition isWsStale :: "int \<Rightarrow> int \<Rightarrow> int \<Rightarrow> bool" where
  "isWsStale lastActivityMs nowMs staleAfterMs \<longleftrightarrow> nowMs - lastActivityMs > staleAfterMs"

datatype light_event = PhaseEv phase | Settle

record light_display =
  shown :: phase
  held :: bool
  deferred :: "phase option"

record light_action =
  la_state :: light_display
  la_arm :: bool
  la_disarm :: bool

definition isAttention :: "phase \<Rightarrow> bool" where
  "isAttention p \<longleftrightarrow> p = Pretrying \<or> p = Pblocked \<or> p = PlockedOut"

definition lightDisplayInit :: "phase \<Rightarrow> light_display" where
  "lightDisplayInit p = \<lparr>shown = p, held = False, deferred = None\<rparr>"

fun nextLightDisplay :: "light_display \<Rightarrow> light_event \<Rightarrow> light_action" where
  "nextLightDisplay s (PhaseEv p) =
     (if p = Psyncing then
        (if shown s = Psyncing
         then \<lparr>la_state = \<lparr>shown = Psyncing, held = True, deferred = None\<rparr>,
               la_arm = True, la_disarm = held s\<rparr>
         else \<lparr>la_state = \<lparr>shown = Psyncing, held = True, deferred = None\<rparr>,
               la_arm = True, la_disarm = False\<rparr>)
      else if isAttention p then
        \<lparr>la_state = \<lparr>shown = p, held = False, deferred = None\<rparr>, la_arm = False, la_disarm = held s\<rparr>
      else if held s then
        \<lparr>la_state = \<lparr>shown = shown s, held = True, deferred = Some p\<rparr>,
         la_arm = False, la_disarm = False\<rparr>
      else \<lparr>la_state = \<lparr>shown = p, held = False, deferred = None\<rparr>,
            la_arm = False, la_disarm = False\<rparr>)"
| "nextLightDisplay s Settle =
     (case deferred s of
        Some p \<Rightarrow> \<lparr>la_state = \<lparr>shown = p, held = False, deferred = None\<rparr>,
                   la_arm = False, la_disarm = False\<rparr>
      | None \<Rightarrow> \<lparr>la_state = \<lparr>shown = shown s, held = False, deferred = None\<rparr>,
                 la_arm = False, la_disarm = False\<rparr>)"

fun light_run :: "light_display \<Rightarrow> light_event list \<Rightarrow> light_display" where
  "light_run s [] = s"
| "light_run s (e # es) = light_run (la_state (nextLightDisplay s e)) es"

text \<open>
  The caller's timer: armed by \<open>arm\<close>, cancelled by \<open>disarm\<close>, and the only source of
  \<^term>\<open>Settle\<close>, which disarms it by firing.
\<close>

fun timer_after :: "bool \<Rightarrow> light_event \<Rightarrow> light_action \<Rightarrow> bool" where
  "timer_after armed (PhaseEv p) a = (la_arm a \<or> (armed \<and> \<not> la_disarm a))"
| "timer_after armed Settle a = la_arm a"

inductive light_reach :: "light_display \<Rightarrow> bool \<Rightarrow> bool" where
  light_start: "light_reach (lightDisplayInit Poff) False"
| light_phase: "light_reach s armed \<Longrightarrow>
    light_reach (la_state (nextLightDisplay s (PhaseEv p)))
      (timer_after armed (PhaseEv p) (nextLightDisplay s (PhaseEv p)))"
| light_settle: "light_reach s True \<Longrightarrow>
    light_reach (la_state (nextLightDisplay s Settle))
      (timer_after True Settle (nextLightDisplay s Settle))"

definition light_inv :: "light_display \<Rightarrow> bool \<Rightarrow> bool" where
  "light_inv s armed \<longleftrightarrow>
     (held s = armed) \<and> (held s \<longrightarrow> shown s = Psyncing)
     \<and> (\<not> held s \<longrightarrow> deferred s = None)
     \<and> (\<forall>p. deferred s = Some p \<longrightarrow> p \<noteq> Psyncing \<and> \<not> isAttention p)"

lemma light_reach_inv: "light_reach s armed \<Longrightarrow> light_inv s armed"
proof (induction rule: light_reach.induct)
  case light_start
  show ?case by (simp add: light_inv_def lightDisplayInit_def)
next
  case (light_phase s armed p)
  then show ?case by (auto simp: light_inv_def)
next
  case (light_settle s)
  then show ?case by (auto simp: light_inv_def split: option.splits)
qed

end
