(* ===== verification/ConnState.thy ===== *)
theory ConnState
  imports Fsm StatusLight
begin

text \<open>
  The connection-health machine of \<open>client/src/connstate.ts\<close>: the transport-error classifier,
  the recovery policy and the link machine. The two regular expressions the classifier applies to
  the server's short error body are modelled as scanners over the lower-cased body. The display
  texts are constructors of \<open>link_detail\<close>.
\<close>

datatype endpoint = Login | VaultStatus | ChunkEp | Meta | Commit | OtherEp

datatype synthetic_kind = SynVersionMismatch | SynSessionExpired | SynServerDegraded

datatype failure_kind =
    Transient | ServerDegraded | LockedOut | AuthRejected | SessionExpired | MfaRequired
  | Forbidden | MustChangePassword | VersionMismatch | VaultGone

datatype failure_class =
    FTransient | FServerDegraded | FLockedOut int | FAuthRejected | FSessionExpired
  | FMfaRequired | FForbidden | FMustChangePassword | FVersionMismatch | FVaultGone

fun fc_kind :: "failure_class \<Rightarrow> failure_kind" where
  "fc_kind FTransient = Transient"
| "fc_kind FServerDegraded = ServerDegraded"
| "fc_kind (FLockedOut _) = LockedOut"
| "fc_kind FAuthRejected = AuthRejected"
| "fc_kind FSessionExpired = SessionExpired"
| "fc_kind FMfaRequired = MfaRequired"
| "fc_kind FForbidden = Forbidden"
| "fc_kind FMustChangePassword = MustChangePassword"
| "fc_kind FVersionMismatch = VersionMismatch"
| "fc_kind FVaultGone = VaultGone"

datatype recovery = Backoff | After int | Slow int | AwaitUser int

record conn_error_info =
  status :: "int option"
  retryAfterSecs :: "int option"
  wasLogin :: bool
  endpoint :: endpoint
  synthetic :: "synthetic_kind option"
  bodyHint :: "string option"
  hasStoredPassword :: bool

definition SLOW_RETRY_SECS :: int where
  "SLOW_RETRY_SECS = 60"

definition SELF_HEAL_REPROBE_SECS :: int where
  "SELF_HEAL_REPROBE_SECS = 600"

text \<open>\<open>/a.?b/\<close> at the head of the string; the dot does not match a line terminator.\<close>

definition gapMatch :: "string \<Rightarrow> string \<Rightarrow> string \<Rightarrow> bool" where
  "gapMatch a b s \<longleftrightarrow> startsWith s a \<and>
     (let r = drop (length a) s in
      startsWith r b
      \<or> (r \<noteq> [] \<and> hd r \<noteq> CHR 0x0A \<and> hd r \<noteq> CHR 0x0D \<and> startsWith (tl r) b))"

definition searchBy :: "(string \<Rightarrow> bool) \<Rightarrow> string \<Rightarrow> bool" where
  "searchBy p s \<longleftrightarrow> list_ex p (suffixes s)"

definition passwordChangeHint :: "string \<Rightarrow> bool" where
  "passwordChangeHint s =
     (let l = toLowerCase s in
      searchBy (gapMatch ''password'' ''change'') l \<or> searchBy (gapMatch ''change'' ''password'') l)"

definition isWordChar :: "char \<Rightarrow> bool" where
  "isWordChar c \<longleftrightarrow> (let n = of_char c :: nat in
     (48 \<le> n \<and> n \<le> 57) \<or> (65 \<le> n \<and> n \<le> 90) \<or> (97 \<le> n \<and> n \<le> 122) \<or> n = 95)"

fun wordAt :: "string \<Rightarrow> char option \<Rightarrow> string \<Rightarrow> bool" where
  "wordAt w prev [] = False"
| "wordAt w prev (c # cs) =
     ((startsWith (c # cs) w
       \<and> (case prev of None \<Rightarrow> True | Some p \<Rightarrow> \<not> isWordChar p)
       \<and> (case drop (length w) (c # cs) of [] \<Rightarrow> True | d # _ \<Rightarrow> \<not> isWordChar d))
      \<or> wordAt w (Some c) cs)"

definition mfaHint :: "string \<Rightarrow> bool" where
  "mfaHint s =
     (let l = toLowerCase s in
      wordAt ''mfa'' None l
      \<or> searchBy (\<lambda>t. startsWith t ''authenticator'') l
      \<or> searchBy (\<lambda>t. startsWith t ''totp'') l
      \<or> searchBy (gapMatch ''two'' ''factor'') l
      \<or> searchBy (gapMatch ''one'' ''time'') l)"

definition classifyConnectError :: "conn_error_info \<Rightarrow> failure_class" where
  "classifyConnectError info =
     (if synthetic info = Some SynVersionMismatch then FVersionMismatch
      else if synthetic info = Some SynSessionExpired then FSessionExpired
      else if synthetic info = Some SynServerDegraded then FServerDegraded
      else (case status info of
        None \<Rightarrow> FTransient
      | Some st \<Rightarrow>
         if st = 429 then
           FLockedOut (case retryAfterSecs info of Some n \<Rightarrow> n | None \<Rightarrow> SLOW_RETRY_SECS)
         else if st = 503 then FServerDegraded
         else if st = 408 \<or> st \<ge> 500 then FTransient
         else if st = 404 then
           (if endpoint info = VaultStatus then FVaultGone else FTransient)
         else if st = 403 then
           (case bodyHint info of
              Some h \<Rightarrow> if h \<noteq> [] \<and> passwordChangeHint h then FMustChangePassword else FForbidden
            | None \<Rightarrow> FForbidden)
         else if st = 401 then
           (if wasLogin info then
              (case bodyHint info of
                 Some h \<Rightarrow> if h \<noteq> [] \<and> mfaHint h then FMfaRequired else FAuthRejected
               | None \<Rightarrow> FAuthRejected)
            else if hasStoredPassword info then FAuthRejected else FSessionExpired)
         else FServerDegraded))"

fun recoveryFor :: "failure_class \<Rightarrow> recovery" where
  "recoveryFor FTransient = Backoff"
| "recoveryFor FServerDegraded = Slow SLOW_RETRY_SECS"
| "recoveryFor (FLockedOut secs) = After secs"
| "recoveryFor _ = AwaitUser SELF_HEAL_REPROBE_SECS"

datatype link_state =
    LinkOk
  | LinkRetrying recovery nat
  | LinkBlocked failure_kind recovery

datatype link_event = Connected | Failed failure_class

abbreviation LINK_OK :: link_state where
  "LINK_OK \<equiv> LinkOk"

definition blockReasonOf :: "failure_class \<Rightarrow> failure_kind option" where
  "blockReasonOf cls =
     (case recoveryFor cls of AwaitUser _ \<Rightarrow> Some (fc_kind cls) | _ \<Rightarrow> None)"

fun linkRules :: "link_state \<Rightarrow> link_event \<Rightarrow> (link_state, unit) rule" where
  "linkRules s Connected = Next LinkOk"
| "linkRules s (Failed cls) =
     (case recoveryFor cls of
        AwaitUser n \<Rightarrow> Next (LinkBlocked (the (blockReasonOf cls)) (AwaitUser n))
      | rec \<Rightarrow> Next (LinkRetrying rec (case s of LinkRetrying _ n \<Rightarrow> n + 1 | _ \<Rightarrow> 1)))"

fun link_kind :: "link_state \<Rightarrow> string" where
  "link_kind LinkOk = ''ok''"
| "link_kind (LinkRetrying _ _) = ''retrying''"
| "link_kind (LinkBlocked _ _) = ''blocked''"

fun link_event_kind :: "link_event \<Rightarrow> string" where
  "link_event_kind Connected = ''connected''"
| "link_event_kind (Failed _) = ''failed''"

definition linkMachine :: "(link_state, link_event, unit) machine_spec" where
  "linkMachine = \<lparr>m_name = ''pmSession'',
     m_states = [''ok'', ''retrying'', ''blocked''], m_events = [''connected'', ''failed''],
     m_kindOf = link_kind, m_eventKindOf = link_event_kind, m_transition = linkRules,
     m_terminalStates = [], m_terminalExits = [], m_byValue = False\<rparr>"

definition linkNext :: "link_state \<Rightarrow> link_event \<Rightarrow> link_state" where
  "linkNext s e = machine_next linkMachine s e"

text \<open>An error that is not a \<open>ConnError\<close> is \<^const>\<open>None\<close> here.\<close>

definition toConnErrorInfo :: "conn_error_info option \<Rightarrow> bool \<Rightarrow> conn_error_info" where
  "toConnErrorInfo e stored =
     (case e of
        Some info \<Rightarrow> info\<lparr>hasStoredPassword := stored\<rparr>
      | None \<Rightarrow> \<lparr>status = None, retryAfterSecs = None, wasLogin = False, endpoint = OtherEp,
                 synthetic = None, bodyHint = None, hasStoredPassword = stored\<rparr>)"

datatype link_detail = BlockedTip failure_kind | TooManyAttempts int | Reconnecting

fun linkPhase :: "link_state \<Rightarrow> phase \<times> link_detail" where
  "linkPhase (LinkBlocked reason _) = (Pblocked, BlockedTip reason)"
| "linkPhase (LinkRetrying (After secs) _) = (PlockedOut, TooManyAttempts (max 1 ((secs + 30) div 60)))"
| "linkPhase _ = (Pretrying, Reconnecting)"

subsection \<open>Lemmas\<close>

interpretation link_fsm: fsm linkMachine
proof unfold_locales
  fix s :: link_state and e :: link_event
  show "m_kindOf linkMachine s \<in> set (m_states linkMachine)"
    by (cases s) (simp_all add: linkMachine_def)
  show "m_eventKindOf linkMachine e \<in> set (m_events linkMachine)"
    by (cases e) (simp_all add: linkMachine_def)
qed (simp_all add: linkMachine_def)

lemma linkNext_Connected [simp]: "linkNext s Connected = LinkOk"
  by (simp add: linkNext_def machine_next_cases isTerminal_def linkMachine_def)

lemma linkNext_Failed:
  "linkNext s (Failed cls) =
     (case recoveryFor cls of
        AwaitUser n \<Rightarrow> LinkBlocked (fc_kind cls) (AwaitUser n)
      | rec \<Rightarrow> LinkRetrying rec (case s of LinkRetrying _ n \<Rightarrow> n + 1 | _ \<Rightarrow> 1))"
  by (cases cls) (simp_all add: linkNext_def machine_next_cases isTerminal_def linkMachine_def
      blockReasonOf_def)

lemma recovery_awaits_user_iff:
  "(\<exists>n. recoveryFor cls = AwaitUser n) \<longleftrightarrow> fc_kind cls \<notin> {Transient, ServerDegraded, LockedOut}"
  by (cases cls) auto

lemma linkNext_Failed_not_ok: "linkNext s (Failed cls) \<noteq> LinkOk"
  by (cases cls) (simp_all add: linkNext_Failed)

lemma link_attempts_count:
  "\<forall>cls \<in> set clss. fc_kind cls \<in> {Transient, ServerDegraded, LockedOut} \<Longrightarrow> clss \<noteq> [] \<Longrightarrow>
   \<exists>rec. machine_run linkMachine LinkOk (map Failed clss) = LinkRetrying rec (length clss)"
proof (induction clss rule: rev_induct)
  case (snoc cls clss)
  show ?case
  proof (cases "clss = []")
    case True
    with snoc.prems show ?thesis
      by (cases cls) (simp_all add: linkNext_def [symmetric] linkNext_Failed)
  next
    case False
    with snoc obtain rec where
      "machine_run linkMachine LinkOk (map Failed clss) = LinkRetrying rec (length clss)" by auto
    with snoc.prems show ?thesis
      by (cases cls) (simp_all add: linkNext_def [symmetric] linkNext_Failed)
  qed
qed simp

lemma classify_synthetic:
  "synthetic info = Some k \<Longrightarrow> classifyConnectError info =
     (case k of SynVersionMismatch \<Rightarrow> FVersionMismatch | SynSessionExpired \<Rightarrow> FSessionExpired
      | SynServerDegraded \<Rightarrow> FServerDegraded)"
  by (cases k) (simp_all add: classifyConnectError_def)

lemma classify_no_status:
  "synthetic info = None \<Longrightarrow> status info = None \<Longrightarrow> classifyConnectError info = FTransient"
  by (simp add: classifyConnectError_def)

lemma recovery_of_status:
  assumes "synthetic info = None" "status info = Some st"
  shows "recoveryFor (classifyConnectError info) =
     (if st = 429 then After (case retryAfterSecs info of Some n \<Rightarrow> n | None \<Rightarrow> 60)
      else if st = 503 then Slow 60
      else if st = 408 \<or> st \<ge> 500 then Backoff
      else if st = 404 then (if endpoint info = VaultStatus then AwaitUser 600 else Backoff)
      else if st = 403 \<or> st = 401 then AwaitUser 600
      else Slow 60)"
  using assms
  by (simp add: classifyConnectError_def SLOW_RETRY_SECS_def SELF_HEAL_REPROBE_SECS_def
      split: option.split)

lemma vault_gone_iff:
  "classifyConnectError info = FVaultGone \<longleftrightarrow>
     synthetic info = None \<and> status info = Some 404 \<and> endpoint info = VaultStatus"
proof (cases "synthetic info")
  case None
  then show ?thesis
    by (cases "status info") (simp_all add: classifyConnectError_def split: option.split)
next
  case (Some k)
  then show ?thesis by (cases k) (simp_all add: classify_synthetic)
qed

lemma backoff_iff:
  "recoveryFor (classifyConnectError info) = Backoff \<longleftrightarrow>
     synthetic info = None \<and>
     (case status info of None \<Rightarrow> True
      | Some st \<Rightarrow> st = 408 \<or> (st \<ge> 500 \<and> st \<noteq> 503) \<or> (st = 404 \<and> endpoint info \<noteq> VaultStatus))"
proof (cases "synthetic info")
  case None
  then show ?thesis
    by (cases "status info") (simp_all add: recovery_of_status classify_no_status)
next
  case (Some k)
  then show ?thesis by (cases k) (simp_all add: classify_synthetic)
qed

lemma recovery_bounded:
  "recoveryFor (classifyConnectError info) \<in> {Backoff, Slow 60, AwaitUser 600} \<or>
   (status info = Some 429 \<and> recoveryFor (classifyConnectError info)
      = After (case retryAfterSecs info of Some k \<Rightarrow> k | None \<Rightarrow> 60))"
proof (cases "synthetic info")
  case None
  then show ?thesis
    by (cases "status info") (simp_all add: recovery_of_status classify_no_status)
next
  case (Some k)
  then show ?thesis
    by (cases k) (simp_all add: classify_synthetic SLOW_RETRY_SECS_def SELF_HEAL_REPROBE_SECS_def)
qed

text \<open>
  The classifier never strands the user and never hammers the server. The tight backoff is
  armed exactly for network failures, 408, the 5xx statuses other than 503 and a 404 of an
  endpoint other than the vault-status probe; the vault is reported gone exactly on a 404 of that
  probe; every other recovery is the bounded slow retry, the ten-minute re-probe of a class that
  awaits the user, or the server's own Retry-After window on a 429.
\<close>
theorem classify_recovery_sound:
  "(recoveryFor (classifyConnectError info) = Backoff \<longleftrightarrow>
      synthetic info = None \<and>
      (case status info of None \<Rightarrow> True
       | Some st \<Rightarrow> st = 408 \<or> (st \<ge> 500 \<and> st \<noteq> 503) \<or> (st = 404 \<and> endpoint info \<noteq> VaultStatus)))
   \<and> (classifyConnectError info = FVaultGone \<longleftrightarrow>
        synthetic info = None \<and> status info = Some 404 \<and> endpoint info = VaultStatus)
   \<and> (recoveryFor (classifyConnectError info) \<in> {Backoff, Slow 60, AwaitUser 600} \<or>
        (status info = Some 429 \<and> recoveryFor (classifyConnectError info)
           = After (case retryAfterSecs info of Some k \<Rightarrow> k | None \<Rightarrow> 60)))"
  using backoff_iff vault_gone_iff recovery_bounded by blast

end
