(* ===== verification/ResolveFsm.thy ===== *)
theory ResolveFsm
  imports Fsm
begin

text \<open>
  The conflict-resolution machine of \<open>client/src/resolvefsm.ts\<close>. Its states are objects, so
  the machine reports a change for every freshly built state; the rule that keeps \<open>uploading\<close>
  after a second busy signal returns its own argument. Button labels are not modelled.
\<close>

datatype resolve_step = Checking | Reading | Writing | KeepingBoth | RemovingCopy

datatype resolve_state =
    RIdle | RLocal resolve_step | RUploading bool | RDone | RStale | RFailed string

datatype resolve_event =
    RStart | RStep resolve_step | RLocalDone | RStaleEv | RError string | REngineBusy | REngineIdle
  | RGraceElapsed | RCapElapsed | RReset

fun resolveTable :: "resolve_state \<Rightarrow> resolve_event \<Rightarrow> (resolve_state, unit) rule" where
  "resolveTable RIdle e = (if e = RStart then Next (RLocal Checking) else NoRule)"
| "resolveTable (RLocal st) e =
     (case e of
        RStep st' \<Rightarrow> Next (RLocal st')
      | RLocalDone \<Rightarrow> Next (RUploading False)
      | RStaleEv \<Rightarrow> Next RStale
      | RError msg \<Rightarrow> Next (RFailed msg)
      | _ \<Rightarrow> NoRule)"
| "resolveTable (RUploading sawBusy) e =
     (case e of
        REngineBusy \<Rightarrow> if sawBusy then Self else Next (RUploading True)
      | REngineIdle \<Rightarrow> if sawBusy then Next RDone else NoRule
      | RGraceElapsed \<Rightarrow> if sawBusy then NoRule else Next RDone
      | RCapElapsed \<Rightarrow> Next RDone
      | RStaleEv \<Rightarrow> Next RStale
      | RError msg \<Rightarrow> Next (RFailed msg)
      | _ \<Rightarrow> NoRule)"
| "resolveTable _ e = NoRule"

definition resolveRules :: "resolve_state \<Rightarrow> resolve_event \<Rightarrow> (resolve_state, unit) rule" where
  "resolveRules s e = (if e = RReset then Next RIdle else resolveTable s e)"

fun resolve_kind :: "resolve_state \<Rightarrow> string" where
  "resolve_kind RIdle = ''idle''"
| "resolve_kind (RLocal _) = ''local''"
| "resolve_kind (RUploading _) = ''uploading''"
| "resolve_kind RDone = ''done''"
| "resolve_kind RStale = ''stale''"
| "resolve_kind (RFailed _) = ''failed''"

fun resolve_event_kind :: "resolve_event \<Rightarrow> string" where
  "resolve_event_kind RStart = ''start''"
| "resolve_event_kind (RStep _) = ''step''"
| "resolve_event_kind RLocalDone = ''localDone''"
| "resolve_event_kind RStaleEv = ''stale''"
| "resolve_event_kind (RError _) = ''error''"
| "resolve_event_kind REngineBusy = ''engineBusy''"
| "resolve_event_kind REngineIdle = ''engineIdle''"
| "resolve_event_kind RGraceElapsed = ''graceElapsed''"
| "resolve_event_kind RCapElapsed = ''capElapsed''"
| "resolve_event_kind RReset = ''reset''"

definition resolveMachine :: "(resolve_state, resolve_event, unit) machine_spec" where
  "resolveMachine = \<lparr>m_name = ''pmResolver'',
     m_states = [''idle'', ''local'', ''uploading'', ''done'', ''stale'', ''failed''],
     m_events = [''start'', ''step'', ''localDone'', ''stale'', ''error'', ''engineBusy'',
                 ''engineIdle'', ''graceElapsed'', ''capElapsed'', ''reset''],
     m_kindOf = resolve_kind, m_eventKindOf = resolve_event_kind, m_transition = resolveRules,
     m_terminalStates = [''done'', ''stale'', ''failed''], m_terminalExits = [''reset''],
     m_byValue = False\<rparr>"

definition resolveNext :: "resolve_state \<Rightarrow> resolve_event \<Rightarrow> resolve_state" where
  "resolveNext s e = machine_next resolveMachine s e"

definition resolveInFlight :: "resolve_state \<Rightarrow> bool" where
  "resolveInFlight s \<longleftrightarrow> (case s of RLocal _ \<Rightarrow> True | RUploading _ \<Rightarrow> True | _ \<Rightarrow> False)"

interpretation resolve_fsm: fsm resolveMachine
proof unfold_locales
  fix s :: resolve_state and e :: resolve_event
  show "m_kindOf resolveMachine s \<in> set (m_states resolveMachine)"
    by (cases s) (simp_all add: resolveMachine_def)
  show "m_eventKindOf resolveMachine e \<in> set (m_events resolveMachine)"
    by (cases e) (simp_all add: resolveMachine_def)
qed (simp_all add: resolveMachine_def)

lemma resolve_terminal [simp]:
  "isTerminal resolveMachine s \<longleftrightarrow> (case s of RDone \<Rightarrow> True | RStale \<Rightarrow> True | RFailed _ \<Rightarrow> True | _ \<Rightarrow> False)"
  by (cases s) (simp_all add: isTerminal_def resolveMachine_def)

lemma resolve_exit [simp]: "m_eventKindOf resolveMachine e \<notin> set (m_terminalExits resolveMachine) \<longleftrightarrow> e \<noteq> RReset"
  by (cases e) (simp_all add: resolveMachine_def)

lemma resolveNext_rules:
  "resolveNext s e =
     (if isTerminal resolveMachine s \<and> e \<noteq> RReset then s
      else (case resolveRules s e of NoRule \<Rightarrow> s | Self \<Rightarrow> s | Next s' \<Rightarrow> s' | NextFx s' x \<Rightarrow> s'))"
  unfolding resolveNext_def machine_next_cases resolve_exit by (simp add: resolveMachine_def)

text \<open>
  An outcome of a resolution stands until it is reset: after any sequence of events without a
  reset, a done, stale or failed resolution is unchanged, so late busy and idle signals of the engine
  cannot turn a failure into a success.
\<close>
theorem resolve_outcome_stands:
  assumes "s \<in> {RDone, RStale} \<union> range RFailed" and "RReset \<notin> set es"
  shows "machine_run resolveMachine s es = s"
proof (rule resolve_fsm.run_terminal)
  show "isTerminal resolveMachine s" using assms(1) by auto
  show "\<forall>e \<in> set es. m_eventKindOf resolveMachine e \<notin> set (m_terminalExits resolveMachine)"
    using assms(2) by auto
qed

theorem resolve_outcome_stands_witness:
  "machine_run resolveMachine (RFailed ''disk full'') [REngineBusy, REngineIdle, RStart] = RFailed ''disk full''"
  by (rule resolve_outcome_stands) auto

text \<open>
  A resolution never blocks on the network: from every state in flight the cap timer, or the
  completion of the local steps followed by it, ends in a terminal state, and no second start is
  accepted while one is in flight.
\<close>
theorem resolve_never_blocks:
  "resolveInFlight s \<Longrightarrow>
     isTerminal resolveMachine (resolveNext (resolveNext s RLocalDone) RCapElapsed)
     \<and> resolveNext s RStart = s"
  by (cases s) (simp_all add: resolveInFlight_def resolveNext_rules resolveRules_def)

theorem resolve_never_blocks_witness:
  "isTerminal resolveMachine (resolveNext (resolveNext (RUploading True) RLocalDone) RCapElapsed)
   \<and> resolveNext (RUploading True) RStart = RUploading True"
  by (rule resolve_never_blocks) (simp add: resolveInFlight_def)

end
