(* ===== verification/Effects.thy ===== *)
theory Effects
  imports Frontmatter ExcludedFolders ConfigSync StreamHash Chunker ConnState ResolveFsm
begin

text \<open>
  The effectful part of the client: programs that call the vault, the server and the user interface,
  may throw, and change the client's shared state (the base, the chunk cache, the poll cursor, the
  retry budget, the rejected pushes, the ambiguous paths).

  Everything outside the client (the vault on disk, the server, the clock, the other devices and the
  user who edits while a pass runs) is one value of an arbitrary type \<open>'w\<close>, which every call may
  change. A call of the vault or of the server is a function of that value that returns a result or an
  error; nothing is assumed of it, so an edit that lands between two calls, a failing read or a server
  that lies are all covered. An \<open>await\<close> is a call; the work of one pass on its files is run one file
  after the other. Every call that changes something outside, every answer that licenses such a change and
  every callback is recorded in \<open>log\<close>, newest first.
\<close>

datatype err_kind =
    PlainError | CommitConflictError | CommitRejectedError | StreamRaceAbort | PathIdentityError | ConnError conn_error_info

record err =
  e_kind :: err_kind
  e_msg :: string

definition isConnectionError :: "err \<Rightarrow> bool" where
  "isConnectionError e = isConnectionMessage (e_msg e)"

text \<open>
  The messages are the source's, with a hyphen for each dash beyond U+00FF; they matter, since the
  classification of an error reads them.
\<close>

definition newError :: "string \<Rightarrow> err" where
  "newError m = \<lparr>e_kind = PlainError, e_msg = m\<rparr>"

subsection \<open>The data of the wire\<close>

record file_meta =
  fm_path :: path
  fm_hash :: hash
  fm_size :: nat
  fm_mtime :: nat
  fm_version :: int
  fm_chunks :: "hash list"
  fm_author :: "string option"
  fm_deviceId :: "string option"
  fm_deviceName :: "string option"

record deletion =
  dl_path :: path
  dl_version :: int
  dl_author :: "string option"
  dl_deviceId :: "string option"
  dl_deviceName :: "string option"

record changes_response =
  cr_version :: int
  cr_upserts :: "file_meta list"
  cr_deletes :: "deletion list"
  cr_history_floor :: "int option"

record commit_request =
  cq_path :: path
  cq_hash :: hash
  cq_size :: nat
  cq_mtime :: nat
  cq_chunks :: "hash list"
  cq_expectedVersion :: "int option"

type_synonym file_stat = "nat \<times> nat"  \<comment> \<open>size and mtime\<close>

subsection \<open>The log\<close>

datatype probed = Present | Absent | Indeterminate

datatype callback =
    OnConflict path path | OnBaseChanged | OnGuard path | OnFlipHeld path | OnPushGuard path
  | OnSkip path nat | OnReadOnly path | OnReadOnlyCopy path | OnProgress int
  | OnPathWork bool bool | OnPathSettled path | OnDecision path action effect
  | OnConfigConflict path "action option" | OnConfigResolved path
  | OnRemoteConfig path file_meta | OnRemoteConfigDelete path "deletion option"
  | OnFileError path err | OnPushHeld path | OnPathAliased path path
  | OnDeclined "path list" | OnRemotePlugins "(string \<times> string option) list"
  | OnKeptAbsent path | OnPullExhausted path | OnPathViolation path_violation | OnStage string
  | OnEnqueue path nat | OnResolveStep resolve_step | OnPreviewStale path bool | OnOpened path

datatype event =
    IoWrite path bytes | IoRemove path | IoOpen path | IoAppend path bytes | IoClose path | IoAbort path
  | GotRead path "bytes option" | Probed path probed | GotChanges changes_response | GotMeta path "file_meta option"
  | ApiPutChunk hash bytes | ApiCommit commit_request | ApiDelete path "int option"
  | Callback callback

subsection \<open>The environment\<close>

type_synonym ('w, 'a) outside = "'w \<Rightarrow> (err + 'a) \<times> 'w"

record 'w append_io =
  ap_open :: "path \<Rightarrow> ('w, nat) outside"
  ap_append :: "nat \<Rightarrow> bytes \<Rightarrow> ('w, unit) outside"
  ap_close :: "nat \<Rightarrow> ('w, unit) outside"
  ap_abort :: "nat \<Rightarrow> ('w, unit) outside"

record 'w vault_io =
  io_list :: "('w, (path \<times> file_stat) list) outside"
  io_read :: "path \<Rightarrow> ('w, bytes) outside"
  io_write :: "path \<Rightarrow> bytes \<Rightarrow> ('w, unit) outside"
  io_remove :: "path \<Rightarrow> ('w, unit) outside"
  io_exists :: "(path \<Rightarrow> ('w, bool) outside) option"
  io_appendWrite :: "'w append_io option"

record 'w sync_api =
  api_changes :: "int \<Rightarrow> ('w, changes_response) outside"
  api_fileMeta :: "path \<Rightarrow> ('w, file_meta option) outside"
  api_missing :: "hash list \<Rightarrow> ('w, hash list) outside"
  api_getChunk :: "hash \<Rightarrow> ('w, bytes) outside"
  api_putChunk :: "hash \<Rightarrow> bytes \<Rightarrow> ('w, unit) outside"
  api_commit :: "commit_request \<Rightarrow> ('w, file_meta) outside"
  api_deleteFile :: "path \<Rightarrow> int option \<Rightarrow> ('w, unit) outside"

text \<open>What the host computes: hashing, the UTF-8 codec, Unicode normal forms, JSON.\<close>

record host =
  h_sha :: "bytes \<Rightarrow> hash"
  h_decode :: "bytes \<Rightarrow> utext option"
  h_decodeLossy :: "bytes \<Rightarrow> utext"
  h_encode :: "utext \<Rightarrow> bytes"
  h_nfc :: "string \<Rightarrow> string"
  h_nfcText :: "utext \<Rightarrow> utext"
  h_jsonParse :: "utext \<Rightarrow> json option"
  h_stringify :: "utext list \<Rightarrow> utext"

record 'w sync_ctx =
  c_io :: "'w vault_io"
  c_api :: "'w sync_api"
  c_host :: host
  c_nowMs :: "'w \<Rightarrow> nat"
  c_nowUtc :: "'w \<Rightarrow> utc"

record 'w sync_state =
  world :: 'w
  base :: base_store
  cache :: "(hash \<times> bytes) list"
  cursor :: int
  budget :: "retry_budget option"
  rejected :: "(string \<Rightarrow> hash option) option"
  ambiguous :: "string list option"
  log :: "event list"

subsection \<open>Programs\<close>

type_synonym ('w, 'a) prog = "'w sync_state \<Rightarrow> (err + 'a) \<times> 'w sync_state"

definition ret :: "'a \<Rightarrow> ('w, 'a) prog" where
  "ret x = (\<lambda>s. (Inr x, s))"

definition throwE :: "err \<Rightarrow> ('w, 'a) prog" where
  "throwE e = (\<lambda>s. (Inl e, s))"

definition andThen :: "('w, 'a) prog \<Rightarrow> ('a \<Rightarrow> ('w, 'b) prog) \<Rightarrow> ('w, 'b) prog" where
  "andThen m f = (\<lambda>s. case m s of (Inr x, s') \<Rightarrow> f x s' | (Inl e, s') \<Rightarrow> (Inl e, s'))"

definition tryCatch :: "('w, 'a) prog \<Rightarrow> (err \<Rightarrow> ('w, 'a) prog) \<Rightarrow> ('w, 'a) prog" where
  "tryCatch m h = (\<lambda>s. case m s of (Inr x, s') \<Rightarrow> (Inr x, s') | (Inl e, s') \<Rightarrow> h e s')"

definition getS :: "('w sync_state \<Rightarrow> 'a) \<Rightarrow> ('w, 'a) prog" where
  "getS f = (\<lambda>s. (Inr (f s), s))"

text \<open>A change of the client's own state; it can touch neither the outside nor the log.\<close>

definition keepOutside :: "'w sync_state \<Rightarrow> 'w sync_state \<Rightarrow> 'w sync_state" where
  "keepOutside s s' = s'\<lparr>world := world s, log := log s\<rparr>"

definition modS :: "('w sync_state \<Rightarrow> 'w sync_state) \<Rightarrow> ('w, unit) prog" where
  "modS f = (\<lambda>s. (Inr (), keepOutside s (f s)))"

definition record_event :: "event \<Rightarrow> ('w, unit) prog" where
  "record_event e = (\<lambda>s. (Inr (), s\<lparr>log := e # log s\<rparr>))"

abbreviation callback :: "callback \<Rightarrow> ('w, unit) prog" where
  "callback c \<equiv> record_event (Callback c)"

definition outside :: "('w, 'a) outside \<Rightarrow> ('w, 'a) prog" where
  "outside f = (\<lambda>s. case f (world s) of (r, w) \<Rightarrow> (r, s\<lparr>world := w\<rparr>))"

definition perform :: "event \<Rightarrow> ('w, 'a) outside \<Rightarrow> ('w, 'a) prog" where
  "perform e f = andThen (record_event e) (\<lambda>_. outside f)"

fun forEach :: "'a list \<Rightarrow> ('a \<Rightarrow> ('w, unit) prog) \<Rightarrow> ('w, unit) prog" where
  "forEach [] f = ret ()"
| "forEach (x # xs) f = andThen (f x) (\<lambda>_. forEach xs f)"

fun mapEach :: "'a list \<Rightarrow> ('a \<Rightarrow> ('w, 'b) prog) \<Rightarrow> ('w, 'b list) prog" where
  "mapEach [] f = ret []"
| "mapEach (x # xs) f = andThen (f x) (\<lambda>y. andThen (mapEach xs f) (\<lambda>ys. ret (y # ys)))"

definition whenM :: "bool \<Rightarrow> ('w, unit) prog \<Rightarrow> ('w, unit) prog" where
  "whenM b m = (if b then m else ret ())"

lemmas prog_simps = ret_def throwE_def andThen_def tryCatch_def getS_def modS_def keepOutside_def record_event_def
  outside_def perform_def whenM_def

text \<open>Taking a successful run apart.\<close>

lemma andThen_Inr:
  "andThen m f s = (Inr y, s') \<longleftrightarrow> (\<exists>x s1. m s = (Inr x, s1) \<and> f x s1 = (Inr y, s'))"
  by (auto simp: andThen_def split: prod.splits sum.splits)

lemma tryCatch_Inr:
  "tryCatch m h s = (Inr y, s') \<longleftrightarrow> m s = (Inr y, s') \<or> (\<exists>e s1. m s = (Inl e, s1) \<and> h e s1 = (Inr y, s'))"
  by (auto simp: tryCatch_def split: prod.splits sum.splits)

lemma perform_Inr: "perform e f s = (Inr x, s') \<Longrightarrow> log s' = e # log s"
  by (auto simp: perform_def andThen_def record_event_def outside_def split: prod.splits)

subsection \<open>Reasoning about the log\<close>

text \<open>
  \<open>emits Q m\<close>: whatever the outside does, every event that \<open>m\<close> records satisfies \<open>Q\<close>, and the log
  before it is kept. The rules are syntax directed.
\<close>

definition emits :: "(event \<Rightarrow> bool) \<Rightarrow> ('w, 'a) prog \<Rightarrow> bool" where
  "emits Q m \<longleftrightarrow> (\<forall>s. \<exists>evs. log (snd (m s)) = evs @ log s \<and> list_all Q evs)"

text \<open>\<open>gives P m\<close>: whatever the outside does, a result of \<open>m\<close> satisfies \<open>P\<close>.\<close>

definition gives :: "('a \<Rightarrow> bool) \<Rightarrow> ('w, 'a) prog \<Rightarrow> bool" where
  "gives P m \<longleftrightarrow> (\<forall>s x s'. m s = (Inr x, s') \<longrightarrow> P x)"

named_theorems emits_rules \<open>syntax-directed rules for the log\<close>

lemma emits_ret [emits_rules]: "emits Q (ret x)"
  by (simp add: emits_def ret_def)

lemma emits_throwE [emits_rules]: "emits Q (throwE e)"
  by (simp add: emits_def throwE_def)

lemma emits_getS [emits_rules]: "emits Q (getS f)"
  by (simp add: emits_def getS_def)

lemma emits_modS [emits_rules]: "emits Q (modS f)"
  by (simp add: emits_def modS_def keepOutside_def)

lemma emits_outside [emits_rules]: "emits Q (outside f)"
  by (simp add: emits_def outside_def split: prod.splits)

lemma emits_record [emits_rules]: "Q e \<Longrightarrow> emits Q (record_event e)"
  by (simp add: emits_def record_event_def)

lemma emits_andThen_gives:
  assumes "emits Q m" "gives P m" "\<And>x. P x \<Longrightarrow> emits Q (f x)"
  shows "emits Q (andThen m f)"
  unfolding emits_def
proof
  fix s
  obtain r s' where m: "m s = (r, s')" by (cases "m s")
  then obtain e1 where e1: "log s' = e1 @ log s" "list_all Q e1"
    using assms(1) unfolding emits_def by (metis snd_conv)
  show "\<exists>evs. log (snd (andThen m f s)) = evs @ log s \<and> list_all Q evs"
  proof (cases r)
    case (Inl e)
    then show ?thesis using m e1 by (auto simp: andThen_def)
  next
    case (Inr x)
    then have "P x" using assms(2) m by (auto simp: gives_def)
    then obtain e2 where "log (snd (f x s')) = e2 @ log s'" "list_all Q e2"
      using assms(3) unfolding emits_def by metis
    then have "log (snd (andThen m f s)) = (e2 @ e1) @ log s \<and> list_all Q (e2 @ e1)"
      using m Inr e1 by (simp add: andThen_def)
    then show ?thesis by blast
  qed
qed

lemma emits_andThen [emits_rules]: "emits Q m \<Longrightarrow> (\<And>x. emits Q (f x)) \<Longrightarrow> emits Q (andThen m f)"
  by (rule emits_andThen_gives [where P = "\<lambda>_. True"]) (auto simp: gives_def)

lemma emits_tryCatch [emits_rules]:
  assumes "emits Q m" "\<And>e. emits Q (h e)"
  shows "emits Q (tryCatch m h)"
  unfolding emits_def
proof
  fix s
  obtain r s' where m: "m s = (r, s')" by (cases "m s")
  then obtain e1 where e1: "log s' = e1 @ log s" "list_all Q e1"
    using assms(1) unfolding emits_def by (metis snd_conv)
  show "\<exists>evs. log (snd (tryCatch m h s)) = evs @ log s \<and> list_all Q evs"
  proof (cases r)
    case (Inl e)
    obtain e2 where "log (snd (h e s')) = e2 @ log s'" "list_all Q e2"
      using assms(2) unfolding emits_def by metis
    then have "log (snd (tryCatch m h s)) = (e2 @ e1) @ log s \<and> list_all Q (e2 @ e1)"
      using m Inl e1 by (simp add: tryCatch_def)
    then show ?thesis by blast
  qed (use m e1 in \<open>auto simp: tryCatch_def\<close>)
qed

lemma emits_perform [emits_rules]: "Q e \<Longrightarrow> emits Q (perform e f)"
  unfolding perform_def by (intro emits_rules)

lemma emits_whenM [emits_rules]: "(b \<Longrightarrow> emits Q m) \<Longrightarrow> emits Q (whenM b m)"
  by (simp add: whenM_def emits_rules)

lemma emits_if [emits_rules]: "(b \<Longrightarrow> emits Q m) \<Longrightarrow> (\<not> b \<Longrightarrow> emits Q n) \<Longrightarrow> emits Q (if b then m else n)"
  by simp

lemma emits_forEach_mem: "(\<And>x. x \<in> set xs \<Longrightarrow> emits Q (f x)) \<Longrightarrow> emits Q (forEach xs f)"
  by (induction xs) (auto intro!: emits_rules)

lemma emits_forEach [emits_rules]: "(\<And>x. emits Q (f x)) \<Longrightarrow> emits Q (forEach xs f)"
  by (rule emits_forEach_mem)

lemma emits_mapEach_mem: "(\<And>x. x \<in> set xs \<Longrightarrow> emits Q (f x)) \<Longrightarrow> emits Q (mapEach xs f)"
  by (induction xs) (auto intro!: emits_rules)

lemma emits_mapEach [emits_rules]: "(\<And>x. emits Q (f x)) \<Longrightarrow> emits Q (mapEach xs f)"
  by (rule emits_mapEach_mem)

lemma emits_case_option [emits_rules]:
  "(x = None \<Longrightarrow> emits Q m) \<Longrightarrow> (\<And>y. x = Some y \<Longrightarrow> emits Q (f y)) \<Longrightarrow> emits Q (case x of None \<Rightarrow> m | Some y \<Rightarrow> f y)"
  by (cases x) auto

lemma emits_case_prod [emits_rules]:
  "(\<And>a b. x = (a, b) \<Longrightarrow> emits Q (f a b)) \<Longrightarrow> emits Q (case x of (a, b) \<Rightarrow> f a b)"
  by (cases x) auto

lemma emits_let [emits_rules]: "(\<And>x. x = e \<Longrightarrow> emits Q (f x)) \<Longrightarrow> emits Q (let x = e in f x)"
  by simp

text \<open>
  \<open>keeps I m\<close>: whatever the outside does, \<open>m\<close> preserves the state predicate \<open>I\<close>; and the triple
  \<open>runs P m R\<close>: from a state with \<open>P\<close>, a result satisfies \<open>R\<close>.
\<close>

definition keeps :: "('w sync_state \<Rightarrow> bool) \<Rightarrow> ('w, 'a) prog \<Rightarrow> bool" where
  "keeps I m \<longleftrightarrow> (\<forall>s. I s \<longrightarrow> I (snd (m s)))"

definition runs :: "('w sync_state \<Rightarrow> bool) \<Rightarrow> ('w, 'a) prog \<Rightarrow> ('a \<Rightarrow> bool) \<Rightarrow> bool" where
  "runs P m R \<longleftrightarrow> (\<forall>s x s'. P s \<longrightarrow> m s = (Inr x, s') \<longrightarrow> R x)"

named_theorems keeps_rules \<open>syntax-directed rules for state predicates\<close>

lemma keeps_ret [keeps_rules]: "keeps I (ret x)"
  by (simp add: keeps_def ret_def)

lemma keeps_throwE [keeps_rules]: "keeps I (throwE e)"
  by (simp add: keeps_def throwE_def)

lemma keeps_getS [keeps_rules]: "keeps I (getS f)"
  by (simp add: keeps_def getS_def)

lemma keeps_andThen [keeps_rules]: "keeps I m \<Longrightarrow> (\<And>x. keeps I (f x)) \<Longrightarrow> keeps I (andThen m f)"
  by (auto simp: keeps_def andThen_def split: prod.splits sum.splits)

lemma keeps_tryCatch [keeps_rules]: "keeps I m \<Longrightarrow> (\<And>e. keeps I (h e)) \<Longrightarrow> keeps I (tryCatch m h)"
  by (auto simp: keeps_def tryCatch_def split: prod.splits sum.splits)

lemma keeps_if [keeps_rules]: "(b \<Longrightarrow> keeps I m) \<Longrightarrow> (\<not> b \<Longrightarrow> keeps I n) \<Longrightarrow> keeps I (if b then m else n)"
  by simp

lemma keeps_whenM [keeps_rules]: "(b \<Longrightarrow> keeps I m) \<Longrightarrow> keeps I (whenM b m)"
  by (simp add: whenM_def keeps_rules)

lemma keeps_forEach [keeps_rules]: "(\<And>x. keeps I (f x)) \<Longrightarrow> keeps I (forEach xs f)"
  by (induction xs) (auto intro!: keeps_rules)

lemma keeps_mapEach [keeps_rules]: "(\<And>x. keeps I (f x)) \<Longrightarrow> keeps I (mapEach xs f)"
  by (induction xs) (auto intro!: keeps_rules)

lemma keeps_case_option [keeps_rules]:
  "(x = None \<Longrightarrow> keeps I m) \<Longrightarrow> (\<And>y. x = Some y \<Longrightarrow> keeps I (f y)) \<Longrightarrow> keeps I (case x of None \<Rightarrow> m | Some y \<Rightarrow> f y)"
  by (cases x) auto

lemma keeps_case_prod [keeps_rules]:
  "(\<And>a b. x = (a, b) \<Longrightarrow> keeps I (f a b)) \<Longrightarrow> keeps I (case x of (a, b) \<Rightarrow> f a b)"
  by (cases x) auto

lemma keeps_let [keeps_rules]: "(\<And>x. x = e \<Longrightarrow> keeps I (f x)) \<Longrightarrow> keeps I (let x = e in f x)"
  by simp

lemma emits_mono: "emits Q m \<Longrightarrow> (\<And>e. Q e \<Longrightarrow> R e) \<Longrightarrow> emits R m"
  unfolding emits_def by (metis list.pred_mono_strong)

lemma gives_andThen: "(\<And>x. gives P (f x)) \<Longrightarrow> gives P (andThen m f)"
  by (auto simp: gives_def andThen_def split: prod.splits sum.splits)

lemma emits_log: "emits Q m \<Longrightarrow> \<exists>evs. log (snd (m s)) = evs @ log s \<and> list_all Q evs"
  by (simp add: emits_def)

lemma emitsD: "emits Q m \<Longrightarrow> m s = (r, s') \<Longrightarrow> \<exists>evs. log s' = evs @ log s \<and> list_all Q evs"
  unfolding emits_def by (metis snd_conv)

text \<open>
  Predicates on the whole log. An event is \<open>stable\<close> for a predicate that still holds once the event is
  recorded; a program that records stable events only keeps the predicate, and \<^const>\<open>emits\<close> is the case of
  a predicate that looks at the events since the start.
\<close>

definition stable :: "(event list \<Rightarrow> bool) \<Rightarrow> event \<Rightarrow> bool" where
  "stable J e \<longleftrightarrow> (\<forall>es. J es \<longrightarrow> J (e # es))"

definition sinceLog :: "event list \<Rightarrow> (event \<Rightarrow> bool) \<Rightarrow> event list \<Rightarrow> bool" where
  "sinceLog l Q es \<longleftrightarrow> (\<exists>evs. es = evs @ l \<and> list_all Q evs)"

lemma stable_since: "Q e \<Longrightarrow> stable (sinceLog l Q) e"
  unfolding stable_def sinceLog_def by (metis append_Cons list.pred_inject(2))

lemma keeps_stable: "emits (stable J) m \<Longrightarrow> keeps (\<lambda>s. J (log s)) m"
  unfolding keeps_def
proof (intro allI impI)
  fix s :: "'a sync_state" assume em: "emits (stable J) m" and j: "J (log s)"
  obtain evs where evs: "log (snd (m s)) = evs @ log s" "list_all (stable J) evs"
    using em unfolding emits_def by blast
  have "list_all (stable J) evs \<Longrightarrow> J (evs @ log s)"
    by (induction evs) (use j in \<open>auto simp: stable_def\<close>)
  then show "J (log (snd (m s)))" using evs by simp
qed

lemma emits_of_keeps: "(\<And>l. keeps (\<lambda>s. sinceLog l Q (log s)) m) \<Longrightarrow> emits Q m"
  unfolding emits_def keeps_def sinceLog_def by (metis append_Nil list.pred_inject(1))

lemma keeps_log_outside [keeps_rules]: "keeps (\<lambda>s. J (log s)) (outside f)"
  by (simp add: keeps_stable emits_rules)

lemma keeps_log_modS [keeps_rules]: "keeps (\<lambda>s. J (log s)) (modS f)"
  by (simp add: keeps_stable emits_rules)

lemma keeps_log_record [keeps_rules]: "stable J e \<Longrightarrow> keeps (\<lambda>s. J (log s)) (record_event e)"
  by (simp add: keeps_stable emits_rules)

lemma keeps_log_perform [keeps_rules]: "stable J e \<Longrightarrow> keeps (\<lambda>s. J (log s)) (perform e f)"
  by (simp add: keeps_stable emits_rules)

text \<open>
  \<open>keepsFrom B I m\<close>: started in a state with \<open>B\<close>, \<open>m\<close> preserves \<open>I\<close>, whether it returns or throws. In a
  sequence the first part may establish what the second starts from.
\<close>

definition keepsFrom :: "('w sync_state \<Rightarrow> bool) \<Rightarrow> ('w sync_state \<Rightarrow> bool) \<Rightarrow> ('w, 'a) prog \<Rightarrow> bool" where
  "keepsFrom B I m \<longleftrightarrow> (\<forall>s. B s \<longrightarrow> I s \<longrightarrow> I (snd (m s)))"

lemma keepsFrom_keeps: "keeps I m \<Longrightarrow> keepsFrom B I m"
  by (simp add: keepsFrom_def keeps_def)

lemma keepsFromD: "keepsFrom B I m \<Longrightarrow> B s \<Longrightarrow> I s \<Longrightarrow> I (snd (m s))"
  by (simp add: keepsFrom_def)

lemma keepsFrom_mono: "keepsFrom B I m \<Longrightarrow> (\<And>s. A s \<Longrightarrow> B s) \<Longrightarrow> keepsFrom A I m"
  by (simp add: keepsFrom_def)

lemma keepsFrom_andThen:
  assumes "keepsFrom B I m" "\<And>s x s'. B s \<Longrightarrow> m s = (Inr x, s') \<Longrightarrow> A x s'" "\<And>x. keepsFrom (A x) I (g x)"
  shows "keepsFrom B I (andThen m g)"
  using assms by (fastforce simp: keepsFrom_def andThen_def split: prod.splits sum.splits)

lemma keepsFrom_then: "keepsFrom B I m \<Longrightarrow> (\<And>x. keeps I (g x)) \<Longrightarrow> keepsFrom B I (andThen m g)"
  by (rule keepsFrom_andThen [where A = "\<lambda>_ _. True"]) (auto intro: keepsFrom_keeps)

lemma keepsFrom_tryCatch:
  "keepsFrom B I m \<Longrightarrow> (\<And>e. keeps I (h e)) \<Longrightarrow> keepsFrom B I (tryCatch m h)"
  by (fastforce simp: keepsFrom_def keeps_def tryCatch_def split: prod.splits sum.splits)

lemma keepsFrom_perform:
  "(\<And>s. B s \<Longrightarrow> J (log s) \<Longrightarrow> J (e # log s)) \<Longrightarrow> keepsFrom B (\<lambda>s. J (log s)) (perform e f)"
  by (auto simp: keepsFrom_def prog_simps split: prod.splits)

lemma keepsFrom_if:
  "(b \<Longrightarrow> keepsFrom B I m) \<Longrightarrow> (\<not> b \<Longrightarrow> keepsFrom B I n) \<Longrightarrow> keepsFrom B I (if b then m else n)"
  by simp

text \<open>The base survives what does not assign it.\<close>

lemma keeps_base_outside [keeps_rules]: "keeps (\<lambda>s. I (base s)) (outside f)"
  by (simp add: keeps_def outside_def split: prod.splits)

lemma keeps_base_record [keeps_rules]: "keeps (\<lambda>s. I (base s)) (record_event e)"
  by (simp add: keeps_def record_event_def)

lemma keeps_base_perform [keeps_rules]: "keeps (\<lambda>s. I (base s)) (perform e f)"
  unfolding perform_def by (intro keeps_rules)

lemma keeps_base_modS: "(\<And>s. base (f s) = base s) \<Longrightarrow> keeps (\<lambda>s. I (base s)) (modS f)"
  by (simp add: keeps_def modS_def keepOutside_def)

subsection \<open>Conditions on the order of events\<close>

text \<open>
  \<open>lawful ok evs l\<close>: each of the events \<open>evs\<close>, recorded after the log \<open>l\<close>, satisfies \<open>ok\<close> with respect to
  everything recorded before it.
\<close>

fun lawful :: "(event \<Rightarrow> event list \<Rightarrow> bool) \<Rightarrow> event list \<Rightarrow> event list \<Rightarrow> bool" where
  "lawful ok [] l = True"
| "lawful ok (e # evs) l = (ok e (evs @ l) \<and> lawful ok evs l)"

definition lawfulSince :: "event list \<Rightarrow> (event \<Rightarrow> event list \<Rightarrow> bool) \<Rightarrow> event list \<Rightarrow> bool" where
  "lawfulSince l ok es \<longleftrightarrow> (\<exists>evs. es = evs @ l \<and> lawful ok evs l)"

lemma lawfulSince_Cons: "lawfulSince l ok es \<Longrightarrow> ok e es \<Longrightarrow> lawfulSince l ok (e # es)"
  unfolding lawfulSince_def by (metis append_Cons lawful.simps(2))

lemma lawfulSince_refl: "lawfulSince l ok l"
  unfolding lawfulSince_def by (metis append_Nil lawful.simps(1))

lemma stable_lawfulSince: "(\<And>es. ok e es) \<Longrightarrow> stable (lawfulSince l ok) e"
  by (simp add: stable_def lawfulSince_Cons)

end
