(* ===== verification/Sync.thy ===== *)
theory Sync
  imports Effects
begin

text \<open>
  Transfers, \<open>client/src/sync.ts\<close>: the bounded chunk cache, fetching and verifying chunks, streaming a
  large file to disk, and committing a file. \<open>mapPool\<close> runs its function over the items with a
  bounded number in flight and stops at the first failure; here the items run one after the other.
\<close>

definition MAX_CACHE_ENTRIES :: nat where "MAX_CACHE_ENTRIES = 512"
definition MISSING_BATCH :: nat where "MISSING_BATCH = 5000"
definition TRANSFER_CONCURRENCY :: nat where "TRANSFER_CONCURRENCY = 6"

definition cachePut :: "hash \<Rightarrow> bytes \<Rightarrow> (hash \<times> bytes) list \<Rightarrow> (hash \<times> bytes) list" where
  "cachePut h b c =
     (if map_of c h \<noteq> None then c
      else (if MAX_CACHE_ENTRIES \<le> length c then tl c else c) @ [(h, b)])"

definition mapPool :: "'a list \<Rightarrow> nat \<Rightarrow> ('a \<Rightarrow> ('w, 'b) prog) \<Rightarrow> ('w, 'b list) prog" where
  "mapPool items limit fn = mapEach items fn"

definition getVerifiedChunk :: "('w, 'x) sync_ctx_scheme \<Rightarrow> hash \<Rightarrow> ('w, bytes) prog" where
  "getVerifiedChunk d h =
     andThen (getS cache) (\<lambda>c.
     case map_of c h of
       Some hit \<Rightarrow> ret hit
     | None \<Rightarrow>
         andThen (outside (api_getChunk (c_api d) h)) (\<lambda>b.
         if h_sha (c_host d) b \<noteq> h then throwE (newError (''chunk '' @ take 8 h @ '' failed content verification''))
         else andThen (modS (\<lambda>s. s\<lparr>cache := cachePut h b (cache s)\<rparr>)) (\<lambda>_. ret b)))"

definition fetchFileBytes :: "('w, 'x) sync_ctx_scheme \<Rightarrow> hash list \<Rightarrow> ('w, bytes) prog" where
  "fetchFileBytes d chunks =
     andThen (mapPool chunks TRANSFER_CONCURRENCY (getVerifiedChunk d)) (\<lambda>parts. ret (concat parts))"

definition quoted :: "string \<Rightarrow> string" where
  "quoted p = [CHR 0x27] @ p @ [CHR 0x27]"

text \<open>The loop of \<open>streamFileToDisk\<close>: the bytes written so far and the running hash.\<close>

fun streamChunks ::
  "('w, 'x) sync_ctx_scheme \<Rightarrow> 'w append_io \<Rightarrow> path \<Rightarrow> nat \<Rightarrow> hash list \<Rightarrow> nat \<Rightarrow> sha256 \<Rightarrow> ('w, nat \<times> sha256) prog" where
  "streamChunks d ap p h [] written hasher = ret (written, hasher)"
| "streamChunks d ap p h (c # cs) written hasher =
     andThen (getVerifiedChunk d c) (\<lambda>b.
     andThen (perform (IoAppend p b) (ap_append ap h b)) (\<lambda>_.
     case sha_update b hasher of
       None \<Rightarrow> throwE (newError ''Sha256: update() after hexDigest()'')
     | Some hasher' \<Rightarrow> streamChunks d ap p h cs (written + length b) hasher'))"

definition streamBody ::
  "('w, 'x) sync_ctx_scheme \<Rightarrow> 'w append_io \<Rightarrow> path \<Rightarrow> nat \<Rightarrow> hash list \<Rightarrow> nat \<Rightarrow> hash \<Rightarrow> ('w, unit) prog option \<Rightarrow> ('w, bool) prog" where
  "streamBody d ap p h chunks expectedSize expectedHash beforeRename =
     andThen (streamChunks d ap p h chunks 0 newSha256) (\<lambda>(written, hasher).
     if written \<noteq> expectedSize then throwE (newError
        (''streamed reassembly of '' @ quoted p @ '' is '' @ natStr written @ '' bytes, expected '' @ natStr expectedSize
         @ '' - not applying (bad chunk manifest?)''))
     else case hexDigest hasher of
       None \<Rightarrow> throwE (newError ''Sha256: hexDigest() called twice'')
     | Some (got, _) \<Rightarrow>
         if got \<noteq> expectedHash then throwE (newError
            (''streamed reassembly of '' @ quoted p @ '' failed the whole-file hash (got '' @ take 12 got @ '', expected ''
             @ take 12 expectedHash @ '') - not applying (bad chunk manifest?)''))
         else andThen (case beforeRename of Some m \<Rightarrow> m | None \<Rightarrow> ret ()) (\<lambda>_.
              andThen (perform (IoClose p) (ap_close ap h)) (\<lambda>_. ret True)))"

definition streamFileToDisk ::
  "('w, 'x) sync_ctx_scheme \<Rightarrow> path \<Rightarrow> hash list \<Rightarrow> nat \<Rightarrow> hash \<Rightarrow> ('w, unit) prog option \<Rightarrow> ('w, bool) prog" where
  "streamFileToDisk d p chunks expectedSize expectedHash beforeRename =
     (case io_appendWrite (c_io d) of
        None \<Rightarrow> ret False
      | Some ap \<Rightarrow>
          andThen (perform (IoOpen p) (ap_open ap p)) (\<lambda>h.
          tryCatch (streamBody d ap p h chunks expectedSize expectedHash beforeRename)
            (\<lambda>e. andThen (tryCatch (perform (IoAbort p) (ap_abort ap h)) (\<lambda>_. ret ())) (\<lambda>_. throwE e))))"

function batches :: "nat \<Rightarrow> 'a list \<Rightarrow> 'a list list" where
  "batches n xs = (if xs = [] \<or> n = 0 then [] else take n xs # batches n (drop n xs))"
  by pat_completeness auto
termination
  by (relation "measure (\<lambda>(n, xs). length xs)") auto

declare batches.simps [simp del]

definition commitBytes :: "('w, 'x) sync_ctx_scheme \<Rightarrow> path \<Rightarrow> bytes \<Rightarrow> int option \<Rightarrow> ('w, hash \<times> bytes) prog" where
  "commitBytes d p b expectedVersion =
     (let chunks = chunk (h_sha (c_host d)) b; hashes = map fst chunks in
      andThen (modS (\<lambda>s. s\<lparr>cache := fold (\<lambda>(h, x). cachePut h x) chunks (cache s)\<rparr>)) (\<lambda>_.
      andThen (mapEach (batches MISSING_BATCH hashes) (\<lambda>hs. outside (api_missing (c_api d) hs))) (\<lambda>missing.
      andThen (mapPool (filter (\<lambda>(h, x). h \<in> set (concat missing)) chunks) TRANSFER_CONCURRENCY
                 (\<lambda>(h, x). perform (ApiPutChunk h x) (api_putChunk (c_api d) h x))) (\<lambda>_.
      let fileHash = h_sha (c_host d) b in
      andThen (getS (\<lambda>s. c_nowMs d (world s))) (\<lambda>now.
      let req = \<lparr>cq_path = p, cq_hash = fileHash, cq_size = length b, cq_mtime = now, cq_chunks = hashes,
                 cq_expectedVersion = expectedVersion\<rparr> in
      andThen (perform (ApiCommit req) (api_commit (c_api d) req)) (\<lambda>_.
      ret (fileHash, b)))))))"

definition pushFile :: "('w, 'x) sync_ctx_scheme \<Rightarrow> path \<Rightarrow> int option \<Rightarrow> ('w, hash \<times> bytes) prog" where
  "pushFile d p expectedVersion =
     andThen (outside (io_read (c_io d) p)) (\<lambda>b. commitBytes d p b expectedVersion)"

definition pushBytes :: "('w, 'x) sync_ctx_scheme \<Rightarrow> path \<Rightarrow> bytes \<Rightarrow> int option \<Rightarrow> ('w, hash \<times> bytes) prog" where
  "pushBytes d p b expectedVersion =
     andThen (perform (IoWrite p b) (io_write (c_io d) p b)) (\<lambda>_. commitBytes d p b expectedVersion)"

subsection \<open>The cache\<close>

definition cache_ok :: "(bytes \<Rightarrow> hash) \<Rightarrow> (hash \<times> bytes) list \<Rightarrow> bool" where
  "cache_ok sha c \<longleftrightarrow> length c \<le> MAX_CACHE_ENTRIES \<and> distinct (map fst c) \<and> list_all (\<lambda>(h, b). sha b = h) c"

lemma cachePut_ok: "cache_ok sha c \<Longrightarrow> sha b = h \<Longrightarrow> cache_ok sha (cachePut h b c)"
proof -
  assume c: "cache_ok sha c" and h: "sha b = h"
  have "set (map fst (tl c)) \<subseteq> set (map fst c)" "distinct (map fst (tl c))" "set (tl c) \<subseteq> set c"
    using c by (cases c; auto simp: cache_ok_def)+
  moreover have "length (tl c) < MAX_CACHE_ENTRIES" if "MAX_CACHE_ENTRIES \<le> length c"
    using c that by (auto simp: cache_ok_def MAX_CACHE_ENTRIES_def)
  ultimately show ?thesis
    using c h by (auto simp: cachePut_def cache_ok_def list_all_iff map_of_eq_None_iff)
qed

lemma cachePut_fold_ok:
  "cache_ok sha c \<Longrightarrow> list_all (\<lambda>(h, b). sha b = h) xs \<Longrightarrow> cache_ok sha (fold (\<lambda>(h, x). cachePut h x) xs c)"
  by (induction xs arbitrary: c) (auto simp: cachePut_ok)

lemma keeps_cache_outside [keeps_rules]: "keeps (\<lambda>s. I (cache s)) (outside f)"
  by (simp add: keeps_def outside_def split: prod.splits)

lemma keeps_cache_record [keeps_rules]: "keeps (\<lambda>s. I (cache s)) (record_event e)"
  by (simp add: keeps_def record_event_def)

lemma keeps_cache_perform [keeps_rules]: "keeps (\<lambda>s. I (cache s)) (perform e f)"
  unfolding perform_def by (intro keeps_rules)

lemma keeps_cache_modS: "(\<And>s. I (cache s) \<Longrightarrow> I (cache (f s))) \<Longrightarrow> keeps (\<lambda>s. I (cache s)) (modS f)"
  by (simp add: keeps_def modS_def keepOutside_def)

lemma getVerifiedChunk_keeps [keeps_rules]:
  "keeps (\<lambda>s. cache_ok (h_sha (c_host d)) (cache s)) (getVerifiedChunk d h)"
  unfolding getVerifiedChunk_def
  by (intro keeps_rules keeps_cache_modS) (auto intro: cachePut_ok)

lemma getVerifiedChunk_authentic:
  "cache_ok (h_sha (c_host d)) (cache s) \<Longrightarrow> getVerifiedChunk d h s = (Inr b, s') \<Longrightarrow> h_sha (c_host d) b = h"
  by (auto simp: getVerifiedChunk_def prog_simps cache_ok_def list_all_iff split: option.splits prod.splits sum.splits if_splits
      dest!: map_of_SomeD)

lemma mapEach_authentic:
  "cache_ok (h_sha (c_host d)) (cache s) \<Longrightarrow> mapEach hs (getVerifiedChunk d) s = (Inr parts, s') \<Longrightarrow>
   map (h_sha (c_host d)) parts = hs"
proof (induction hs arbitrary: s s' parts)
  case (Cons h hs)
  from Cons.prems(2) obtain b s1 ps where
    b: "getVerifiedChunk d h s = (Inr b, s1)" and ps: "mapEach hs (getVerifiedChunk d) s1 = (Inr ps, s')" "parts = b # ps"
    by (auto simp: andThen_def ret_def split: prod.splits sum.splits)
  have "cache_ok (h_sha (c_host d)) (cache s1)"
    using getVerifiedChunk_keeps [of d h] Cons.prems(1) b unfolding keeps_def by (metis snd_conv)
  then show ?case
    using Cons.IH ps getVerifiedChunk_authentic [OF Cons.prems(1) b] by simp
qed (simp add: ret_def)

text \<open>
  (C16) The chunk cache holds only authentic bytes and stays bounded, and a fetched file is made of
  authentic chunks in order: from a cache in which every entry hashes to its key, with at most 512
  entries, a fetch leaves such a cache behind whether it succeeds or throws, and the bytes it returns
  are the concatenation of parts whose hashes are exactly the requested chunk list, whatever the
  server answered.
\<close>
theorem fetch_authentic:
  assumes "cache_ok (h_sha (c_host d)) (cache s)"
  shows "cache_ok (h_sha (c_host d)) (cache (snd (fetchFileBytes d chunks s)))
    \<and> (\<forall>b s'. fetchFileBytes d chunks s = (Inr b, s') \<longrightarrow>
          (\<exists>parts. b = concat parts \<and> map (h_sha (c_host d)) parts = chunks))"
proof -
  have "keeps (\<lambda>s. cache_ok (h_sha (c_host d)) (cache s)) (fetchFileBytes d chunks)"
    unfolding fetchFileBytes_def mapPool_def by (intro keeps_rules)
  moreover have "\<exists>parts. b = concat parts \<and> map (h_sha (c_host d)) parts = chunks"
    if "fetchFileBytes d chunks s = (Inr b, s')" for b s'
    using that mapEach_authentic [OF assms]
    by (auto simp: fetchFileBytes_def mapPool_def andThen_def ret_def split: prod.splits sum.splits)
  ultimately show ?thesis using assms by (simp add: keeps_def)
qed

subsection \<open>Commits\<close>

definition commit_of :: "(bytes \<Rightarrow> hash) \<Rightarrow> path \<Rightarrow> bytes \<Rightarrow> int option \<Rightarrow> commit_request \<Rightarrow> bool" where
  "commit_of sha p b v q \<longleftrightarrow> cq_path q = p \<and> cq_hash q = sha b \<and> cq_size q = length b \<and> cq_expectedVersion q = v
     \<and> (\<exists>parts. concat parts = b \<and> cq_chunks q = map sha parts)"

fun uploads :: "(bytes \<Rightarrow> hash) \<Rightarrow> path \<Rightarrow> bytes \<Rightarrow> int option \<Rightarrow> event \<Rightarrow> bool" where
  "uploads sha p b v (ApiPutChunk h x) = (h = sha x)"
| "uploads sha p b v (ApiCommit q) = commit_of sha p b v q"
| "uploads sha p b v _ = False"

lemma chunk_parts: "\<exists>parts. concat parts = b \<and> map fst (chunk sha b) = map sha parts"
proof -
  have "concat (slices b) = b" using concat_scan [of 0 "[]" b] by (auto simp: slices_def Let_def)
  then show ?thesis by (auto simp: chunk_def comp_def)
qed

lemma emits_commitBytes: "emits (uploads (h_sha (c_host d)) p b v) (commitBytes d p b v)"
proof -
  let ?sha = "h_sha (c_host d)" and ?Q = "uploads (h_sha (c_host d)) p b v"
  have put: "emits ?Q (mapPool (filter P (chunk ?sha b)) n (\<lambda>(h, x). perform (ApiPutChunk h x) (f h x)))" for P n f
    unfolding mapPool_def by (rule emits_mapEach_mem) (auto simp: chunk_def intro!: emits_rules)
  show ?thesis
    unfolding commitBytes_def Let_def
    using chunk_parts [of b ?sha] by (intro emits_rules put) (auto simp: commit_of_def)
qed

text \<open>
  A commit describes exactly the bytes in hand: all that \<open>commitBytes\<close> sends to the server, whatever
  happens outside meanwhile, are chunks stored under their own hash and a commit request for that path
  with the hash and size of those bytes, the given expected version, and a chunk list that concatenates
  to them.
\<close>
theorem commit_exact:
  "\<exists>evs. log (snd (commitBytes d p b v s)) = evs @ log s \<and> list_all (uploads (h_sha (c_host d)) p b v) evs"
  by (rule emits_log) (rule emits_commitBytes)

subsection \<open>Streaming\<close>

text \<open>The bytes appended to \<open>p\<close> since it was last opened, newest event first.\<close>

fun appendedTo :: "path \<Rightarrow> event list \<Rightarrow> bytes list" where
  "appendedTo p [] = []"
| "appendedTo p (IoAppend q b # es) = (if q = p then appendedTo p es @ [b] else appendedTo p es)"
| "appendedTo p (IoOpen q # es) = (if q = p then [] else appendedTo p es)"
| "appendedTo p (_ # es) = appendedTo p es"

lemma getVerifiedChunk_log: "getVerifiedChunk d h s = (r, s') \<Longrightarrow> log s' = log s"
  by (auto simp: getVerifiedChunk_def prog_simps split: option.splits prod.splits sum.splits if_splits)

lemma streamChunks_appended:
  "streamChunks d ap p h cs written hasher s = (Inr (w', hs'), s') \<Longrightarrow>
   \<exists>bs. appendedTo p (log s') = appendedTo p (log s) @ bs \<and> w' = written + length (concat bs)
      \<and> feedAll bs hasher = Some hs'"
proof (induction cs arbitrary: s written hasher)
  case Nil
  then show ?case by (intro exI [of _ "[]"]) (auto simp: ret_def)
next
  case (Cons c cs)
  from Cons.prems obtain b s1 s2 hasher1 where
    b: "getVerifiedChunk d c s = (Inr b, s1)" and
    a: "perform (IoAppend p b) (ap_append ap h b) s1 = (Inr (), s2)" and
    u: "sha_update b hasher = Some hasher1" and
    rest: "streamChunks d ap p h cs (written + length b) hasher1 s2 = (Inr (w', hs'), s')"
    by (auto simp: andThen_def throwE_def split: prod.splits sum.splits option.splits)
  from Cons.IH [OF rest] obtain bs where
    bs: "appendedTo p (log s') = appendedTo p (log s2) @ bs" "w' = written + length b + length (concat bs)"
      "feedAll bs hasher1 = Some hs'"
    by auto
  have "log s2 = IoAppend p b # log s"
    using a getVerifiedChunk_log [OF b]
    by (auto simp: perform_def andThen_def record_event_def outside_def split: prod.splits sum.splits)
  then show ?case using bs u by (intro exI [of _ "b # bs"]) simp
qed


end
