(* ===== verification/Reconcile.thy ===== *)
theory Reconcile
  imports Sync
begin

text \<open>
  The reconciliation of single paths, \<open>client/src/reconcile.ts\<close>: reading and probing the local side,
  verified pulls that preserve a racing edit, the union of the enabled-plugin list, merge or conflict
  copy, and \<open>reconcileOne\<close>, which gates, decides and executes. The passes over many paths are in the
  theory \<open>Passes\<close>.

  The optional callbacks of the dependencies are always wired here; an absent one would do nothing.
  The booleans and lists that may be \<open>undefined\<close> are \<^const>\<open>False\<close> and empty.
\<close>

record 'w deps = "'w sync_ctx" +
  d_device :: string
  d_ignorePatterns :: "utext list"
  d_excludedFolders :: "string list"
  d_statOf :: "(path \<Rightarrow> 'w \<Rightarrow> file_stat option) option"
  d_maxSyncBytes :: "nat option"
  d_readOnly :: bool
  d_noResurrect :: bool
  d_preserveLocalFirstContact :: bool
  d_alive :: "('w \<Rightarrow> bool) option"
  d_accepts :: "(path \<Rightarrow> bool) option"
  d_pushFlipHold :: "(path \<Rightarrow> hash \<Rightarrow> bytes option \<Rightarrow> 'w \<Rightarrow> bool \<times> 'w) option"
  d_bulkDeleteStrategy :: "bulk_strategy option"
  d_bulkDeleteThreshold :: "rat option"
  d_caseInsensitivePaths :: bool
  d_normalizationInsensitivePaths :: bool
  d_localSizeOf :: "(path \<Rightarrow> 'w \<Rightarrow> nat) option"
  d_violationThrows :: bool

definition accepts :: "('w, 'x) deps_scheme \<Rightarrow> path \<Rightarrow> bool" where
  "accepts d p = (case d_accepts d of None \<Rightarrow> True | Some f \<Rightarrow> f p)"

definition acceptedBasePaths :: "('w, 'x) deps_scheme \<Rightarrow> base_store \<Rightarrow> path list" where
  "acceptedBasePaths d b = filter (accepts d) (base_paths b)"

definition pathFs :: "('w, 'x) deps_scheme \<Rightarrow> path_fs" where
  "pathFs d = \<lparr>caseInsensitive = d_caseInsensitivePaths d, normInsensitive = d_normalizationInsensitivePaths d\<rparr>"

abbreviation idKey :: "('w, 'x) deps_scheme \<Rightarrow> path \<Rightarrow> string" where
  "idKey d p \<equiv> identityKey (h_nfc (c_host d)) p (pathFs d)"

abbreviation shaOf :: "('w, 'x) sync_ctx_scheme \<Rightarrow> bytes \<Rightarrow> hash" where
  "shaOf d \<equiv> h_sha (c_host d)"

abbreviation mergeable :: "('w, 'x) sync_ctx_scheme \<Rightarrow> path \<Rightarrow> bytes \<Rightarrow> bool" where
  "mergeable d p b \<equiv> isMergeable (h_decode (c_host d)) p b"

fun actionStr :: "action \<Rightarrow> string" where
  "actionStr InSync = ''in-sync''"
| "actionStr Push = ''push''"
| "actionStr Pull = ''pull''"
| "actionStr DeleteLocal = ''delete-local''"
| "actionStr DeleteRemote = ''delete-remote''"
| "actionStr MergeBoth = ''merge''"
| "actionStr ConflictCopy = ''conflict-copy''"
| "actionStr EditWinsKeepLocal = ''edit-wins-keep-local''"
| "actionStr EditWinsPull = ''edit-wins-pull''"

definition requireRemote :: "file_meta option \<Rightarrow> action \<Rightarrow> ('w, file_meta) prog" where
  "requireRemote rmeta act =
     (case rmeta of
        Some m \<Rightarrow> ret m
      | None \<Rightarrow> throwE (newError (''reconcile invariant: decide()='' @ actionStr act
          @ '' requires a remote file, but none was present'')))"

definition isConfig :: "path \<Rightarrow> bool" where
  "isConfig p = startsWith p CONFIG_PREFIX"

definition readOrNull :: "('w, 'x) sync_ctx_scheme \<Rightarrow> path \<Rightarrow> ('w, bytes option) prog" where
  "readOrNull d p =
     andThen (tryCatch (andThen (outside (io_read (c_io d) p)) (\<lambda>b. ret (Some b))) (\<lambda>_. ret None))
       (\<lambda>r. andThen (record_event (GotRead p r)) (\<lambda>_. ret r))"

datatype local_content = LPresent bytes | LAbsent | LUnreadable

definition readLocalContent :: "('w, 'x) sync_ctx_scheme \<Rightarrow> path \<Rightarrow> bool option \<Rightarrow> ('w, local_content) prog" where
  "readLocalContent d p reportedPresent =
     andThen (readOrNull d p) (\<lambda>r.
     ret (case r of
            Some b \<Rightarrow> LPresent b
          | None \<Rightarrow> if reportedPresent = Some True then LUnreadable else LAbsent))"

definition probePresence :: "('w, 'x) sync_ctx_scheme \<Rightarrow> path \<Rightarrow> ('w, probed) prog" where
  "probePresence d p =
     andThen
       (tryCatch
         (case io_exists (c_io d) of
            Some ex \<Rightarrow> andThen (outside (ex p)) (\<lambda>b. ret (if b then Present else Absent))
          | None \<Rightarrow> andThen (readOrNull d p) (\<lambda>r. ret (if r = None then Absent else Present)))
         (\<lambda>_. ret Indeterminate))
       (\<lambda>r. andThen (record_event (Probed p r)) (\<lambda>_. ret r))"

definition setBaseEntry :: "('w, 'x) sync_ctx_scheme \<Rightarrow> path \<Rightarrow> bytes \<Rightarrow> hash \<Rightarrow> base_entry" where
  "setBaseEntry d p b h =
     (if mergeable d p b \<and> length b \<le> MAX_BASE_TEXT_BYTES
      then \<lparr>be_hash = h, be_text = Some (h_decodeLossy (c_host d) b), be_size = None, be_mtime = None\<rparr>
      else hashOnly h)"

definition setBase :: "('w, 'x) sync_ctx_scheme \<Rightarrow> path \<Rightarrow> bytes \<Rightarrow> hash \<Rightarrow> ('w, unit) prog" where
  "setBase d p b h =
     andThen (modS (\<lambda>s. s\<lparr>base := base_set p (setBaseEntry d p b h) (base s)\<rparr>)) (\<lambda>_. callback OnBaseChanged)"

definition dropBase :: "path \<Rightarrow> ('w, unit) prog" where
  "dropBase p = andThen (modS (\<lambda>s. s\<lparr>base := base_delete p (base s)\<rparr>)) (\<lambda>_. callback OnBaseChanged)"

definition stamp :: "path \<Rightarrow> file_stat option \<Rightarrow> ('w, unit) prog" where
  "stamp p st =
     (case st of
        None \<Rightarrow> ret ()
      | Some (sz, mt) \<Rightarrow> modS (\<lambda>s. s\<lparr>base := stampStat p sz mt (base s)\<rparr>))"

definition ignorePatternsFor :: "('w, 'x) deps_scheme \<Rightarrow> path \<Rightarrow> utext list" where
  "ignorePatternsFor d p =
     (if d_ignorePatterns d = [] then []
      else if \<not> endsWith p ''.md'' \<or> isConfig p \<or> isExcluded p (d_excludedFolders d) then []
      else d_ignorePatterns d)"

definition normHash :: "('w, 'x) deps_scheme \<Rightarrow> path \<Rightarrow> bytes \<Rightarrow> hash" where
  "normHash d p b =
     normalizedHash (h_nfcText (c_host d)) (h_decode (c_host d)) (h_encode (c_host d)) (shaOf d) b (ignorePatternsFor d p)"

definition baseNormHash :: "('w, 'x) deps_scheme \<Rightarrow> path \<Rightarrow> base_entry option \<Rightarrow> hash option" where
  "baseNormHash d p be =
     (case be of
        None \<Rightarrow> None
      | Some e \<Rightarrow> map_option (\<lambda>t. normHash d p (h_encode (c_host d) t)) (be_text e))"

subsection \<open>Pulling\<close>

datatype race_outcome = NoRace | ConfigRace | CopyRace path

definition copyName :: "('w, 'x) deps_scheme \<Rightarrow> path \<Rightarrow> hash \<Rightarrow> ('w, path) prog" where
  "copyName d p h = getS (\<lambda>s. conflictCopyName p (d_device d) (c_nowUtc d (world s)) (take 6 h))"

definition writeCopy :: "('w, 'x) deps_scheme \<Rightarrow> path \<Rightarrow> bytes \<Rightarrow> ('w, path) prog" where
  "writeCopy d p b =
     andThen (copyName d p (shaOf d b)) (\<lambda>copy.
     andThen (perform (IoWrite copy b) (io_write (c_io d) copy b)) (\<lambda>_.
     andThen (callback (OnConflict p copy)) (\<lambda>_. ret copy)))"

definition conflictCopyIfRaced :: "('w, 'x) deps_scheme \<Rightarrow> path \<Rightarrow> hash option \<Rightarrow> ('w, race_outcome) prog" where
  "conflictCopyIfRaced d p expectLocalHash =
     andThen (readOrNull d p) (\<lambda>cur.
     case cur of
       None \<Rightarrow> ret NoRace
     | Some b \<Rightarrow>
         if Some (shaOf d b) = expectLocalHash then ret NoRace
         else
           andThen (getS (\<lambda>s. base_get (base s) p)) (\<lambda>be.
           if \<not> isConfig p \<and> mergeable d p b \<and> baseNormHash d p be \<noteq> None \<and> Some (normHash d p b) = baseNormHash d p be
           then ret NoRace
           else if isConfig p then andThen (callback (OnConfigConflict p None)) (\<lambda>_. ret ConfigRace)
           else andThen (writeCopy d p b) (\<lambda>copy. ret (CopyRace copy))))"

definition fetchVerified :: "('w, 'x) sync_ctx_scheme \<Rightarrow> file_meta \<Rightarrow> ('w, bytes) prog" where
  "fetchVerified d m =
     andThen (fetchFileBytes d (fm_chunks m)) (\<lambda>b.
     if shaOf d b \<noteq> fm_hash m then
       throwE (newError (''integrity check failed for '' @ quoted (fm_path m) @ '': got '' @ take 12 (shaOf d b)
         @ '', expected '' @ take 12 (fm_hash m) @ '' - not applying (corrupt download?)''))
     else if length b \<noteq> fm_size m then
       throwE (newError (''integrity check failed for '' @ quoted (fm_path m) @ '': size '' @ natStr (length b)
         @ '' != declared '' @ natStr (fm_size m) @ '' - not applying (inconsistent server metadata?)''))
     else ret b)"

text \<open>The write of a pull: when it fails, the conflict copy just made is withdrawn.\<close>

definition writePulled :: "('w, 'x) sync_ctx_scheme \<Rightarrow> path \<Rightarrow> bytes \<Rightarrow> race_outcome \<Rightarrow> ('w, unit) prog" where
  "writePulled d p b race =
     tryCatch (perform (IoWrite p b) (io_write (c_io d) p b))
       (\<lambda>e. andThen
          (case race of
             CopyRace copy \<Rightarrow> tryCatch (perform (IoRemove copy) (io_remove (c_io d) copy)) (\<lambda>_. ret ())
           | _ \<Rightarrow> ret ())
          (\<lambda>_. throwE e))"

text \<open>The buffered pull, which the streamed branch falls back to with the same statements.\<close>

definition bufferedPull :: "('w, 'x) deps_scheme \<Rightarrow> path \<Rightarrow> file_meta \<Rightarrow> hash option \<Rightarrow> bool \<Rightarrow> ('w, unit) prog" where
  "bufferedPull d p rmeta expectLocalHash guardRace =
     andThen (fetchVerified d rmeta) (\<lambda>b.
     andThen (if guardRace then conflictCopyIfRaced d p expectLocalHash else ret NoRace) (\<lambda>race.
     if race = ConfigRace then ret ()
     else andThen (writePulled d p b race) (\<lambda>_. setBase d p b (fm_hash rmeta))))"

definition streamSeam :: "('w, 'x) deps_scheme \<Rightarrow> path \<Rightarrow> hash option \<Rightarrow> ('w, unit) prog" where
  "streamSeam d p expectLocalHash =
     andThen (conflictCopyIfRaced d p expectLocalHash) (\<lambda>race.
     if race = ConfigRace then throwE \<lparr>e_kind = StreamRaceAbort, e_msg = ''stream race: config adjudication''\<rparr>
     else ret ())"

text \<open>\<open>Some True\<close>: streamed; \<open>Some False\<close>: cannot stream; \<open>None\<close>: aborted for adjudication.\<close>

definition streamPull :: "('w, 'x) deps_scheme \<Rightarrow> path \<Rightarrow> file_meta \<Rightarrow> hash option \<Rightarrow> bool \<Rightarrow> ('w, bool option) prog" where
  "streamPull d p rmeta expectLocalHash guardRace =
     tryCatch
       (andThen (streamFileToDisk d p (fm_chunks rmeta) (fm_size rmeta) (fm_hash rmeta)
                   (if guardRace then Some (streamSeam d p expectLocalHash) else None)) (\<lambda>ok.
        if ok then
          andThen (modS (\<lambda>s. s\<lparr>base := base_set p (hashOnly (fm_hash rmeta)) (base s)\<rparr>)) (\<lambda>_.
          andThen (callback OnBaseChanged) (\<lambda>_. ret (Some True)))
        else ret (Some False)))
       (\<lambda>e. if e_kind e = StreamRaceAbort then ret None else throwE e)"

definition applyPull :: "('w, 'x) deps_scheme \<Rightarrow> path \<Rightarrow> file_meta \<Rightarrow> hash option \<Rightarrow> bool \<Rightarrow> ('w, unit) prog" where
  "applyPull d p rmeta expectLocalHash guardRace =
     andThen (whenM (isConfig p) (callback (OnRemoteConfig p rmeta))) (\<lambda>_.
     if STREAM_MIN_BYTES \<le> fm_size rmeta \<and> io_appendWrite (c_io d) \<noteq> None then
       andThen (streamPull d p rmeta expectLocalHash guardRace) (\<lambda>r.
       if r = Some False then bufferedPull d p rmeta expectLocalHash guardRace else ret ())
     else bufferedPull d p rmeta expectLocalHash guardRace)"

subsection \<open>The list of enabled plugins\<close>

definition decodedOrEmpty :: "('w, 'x) sync_ctx_scheme \<Rightarrow> bytes option \<Rightarrow> utext" where
  "decodedOrEmpty d b = (case b of Some x \<Rightarrow> h_decodeLossy (c_host d) x | None \<Rightarrow> [])"

definition reconcileEnabledPluginList ::
  "('w, 'x) deps_scheme \<Rightarrow> path \<Rightarrow> file_meta \<Rightarrow> action \<Rightarrow> ('w, unit) prog \<Rightarrow> ('w, bool) prog" where
  "reconcileEnabledPluginList d p rmeta act onWork =
     (if act \<notin> {Pull, MergeBoth, ConflictCopy, EditWinsPull} then ret False
      else
        andThen (fetchVerified d rmeta) (\<lambda>remoteBytes.
        let remoteStr = h_decodeLossy (c_host d) remoteBytes; parse = h_jsonParse (c_host d) in
        andThen (readOrNull d p) (\<lambda>liveLocal.
        let localStr = decodedOrEmpty d liveLocal in
        case mergeEnabledPluginsJson parse (h_stringify (c_host d)) localStr remoteStr of
          None \<Rightarrow> ret False
        | Some merged \<Rightarrow>
            andThen onWork (\<lambda>_.
            andThen (callback (OnRemoteConfig p rmeta)) (\<lambda>_.
            let localIds = the (pluginIds parse localStr); remoteIds = the (pluginIds parse remoteStr);
                localHasExtra = list_ex (\<lambda>i. i \<notin> set remoteIds) localIds in
            andThen
              (if \<not> localHasExtra then
                 andThen (perform (IoWrite p remoteBytes) (io_write (c_io d) p remoteBytes)) (\<lambda>_.
                 setBase d p remoteBytes (fm_hash rmeta))
               else
                 let mergedBytes = h_encode (c_host d) merged in
                 andThen (perform (IoWrite p mergedBytes) (io_write (c_io d) p mergedBytes)) (\<lambda>_.
                 if d_readOnly d then setBase d p remoteBytes (fm_hash rmeta)
                 else andThen (pushBytes d p mergedBytes (Some (fm_version rmeta))) (\<lambda>(mh, mb). setBase d p mb mh)))
              (\<lambda>_. andThen (callback (OnConfigResolved p)) (\<lambda>_. ret True)))))))"

subsection \<open>Merge or conflict copy\<close>

definition flipHold :: "('w, 'x) deps_scheme \<Rightarrow> path \<Rightarrow> hash \<Rightarrow> bytes option \<Rightarrow> ('w, bool) prog" where
  "flipHold d p h b =
     (case d_pushFlipHold d of
        None \<Rightarrow> ret False
      | Some f \<Rightarrow> outside (\<lambda>w. case f p h b w of (r, w') \<Rightarrow> (Inr r, w')))"

definition adopt :: "('w, 'x) deps_scheme \<Rightarrow> path \<Rightarrow> bytes \<Rightarrow> file_meta \<Rightarrow> ('w, unit) prog" where
  "adopt d p remoteBytes rmeta =
     andThen (perform (IoWrite p remoteBytes) (io_write (c_io d) p remoteBytes)) (\<lambda>_.
     setBase d p remoteBytes (fm_hash rmeta))"

definition pushHeldOr :: "('w, 'x) deps_scheme \<Rightarrow> path \<Rightarrow> bytes \<Rightarrow> int \<Rightarrow> ('w, unit) prog" where
  "pushHeldOr d p b v =
     andThen (flipHold d p (shaOf d b) (Some b)) (\<lambda>held.
     if held then callback (OnFlipHeld p)
     else andThen (pushBytes d p b (Some v)) (\<lambda>(h, committed). setBase d p committed h))"

text \<open>
  The identity shortcuts at the head of \<open>reconcileMergeOrConflict\<close>: \<^const>\<open>None\<close> where the function goes
  on to the plan, otherwise what it does instead.
\<close>

definition identityShortcut ::
  "('w, 'x) deps_scheme \<Rightarrow> path \<Rightarrow> file_meta \<Rightarrow> action \<Rightarrow> base_entry option \<Rightarrow> bytes \<Rightarrow> bytes \<Rightarrow> ('w, unit) prog option" where
  "identityShortcut d p rmeta act baseEntry liveLocal remoteBytes =
     (if \<not> (mergeable d p liveLocal \<and> mergeable d p remoteBytes) then None
      else
        (let patterns = ignorePatternsFor d p; dec = h_decodeLossy (c_host d);
             keysL = ignoredTimestampKeysPresent (dec liveLocal) patterns;
             keysR = ignoredTimestampKeysPresent (dec remoteBytes) patterns;
             localNorm = normHash d p liveLocal; remoteNorm = normHash d p remoteBytes in
         if localNorm = remoteNorm \<and> keysL = keysR then Some (adopt d p remoteBytes rmeta)
         else
           (case (act = MergeBoth, baseNormHash d p baseEntry) of
              (True, Some bnorm) \<Rightarrow>
                (let keysB = (case baseEntry of
                                Some e \<Rightarrow> map_option (\<lambda>t. ignoredTimestampKeysPresent t patterns) (be_text e)
                              | None \<Rightarrow> None) in
                 if localNorm = bnorm \<and> remoteNorm \<noteq> bnorm \<and> (keysB = None \<or> Some keysL = keysB)
                 then Some (adopt d p remoteBytes rmeta)
                 else if remoteNorm = bnorm \<and> localNorm \<noteq> bnorm \<and> \<not> d_readOnly d \<and> (keysB = None \<or> Some keysR = keysB)
                 then Some (pushHeldOr d p liveLocal (fm_version rmeta))
                 else None)
            | _ \<Rightarrow> None)))"

definition rawMerge ::
  "('w, 'x) deps_scheme \<Rightarrow> path \<Rightarrow> utext \<Rightarrow> bytes \<Rightarrow> bytes \<Rightarrow> utext \<times> bool" where
  "rawMerge d p baseText liveLocal remoteBytes =
     (let patterns = ignorePatternsFor d p; dec = h_decodeLossy (c_host d);
          (merged, clean) = merge3 (neutralizeTimestamps baseText patterns)
            (neutralizeTimestamps (dec liveLocal) patterns) (neutralizeTimestamps (dec remoteBytes) patterns)
      in (restoreTimestamps merged (dec liveLocal) patterns, clean))"

definition executePlan ::
  "('w, 'x) deps_scheme \<Rightarrow> path \<Rightarrow> file_meta \<Rightarrow> bytes \<Rightarrow> bytes \<Rightarrow> utext \<Rightarrow> merge_plan \<Rightarrow> ('w, unit) prog" where
  "executePlan d p rmeta liveLocal remoteBytes merged plan =
     (case plan of
        AdoptRemote \<Rightarrow> adopt d p remoteBytes rmeta
      | ReadOnlyKeepCopy \<Rightarrow> andThen (writeCopy d p liveLocal) (\<lambda>_. adopt d p remoteBytes rmeta)
      | PushMerged \<Rightarrow> pushHeldOr d p (h_encode (c_host d) merged) (fm_version rmeta)
      | WriteConflictCopy \<Rightarrow>
          andThen (writeCopy d p liveLocal) (\<lambda>copy.
          andThen (perform (IoWrite p remoteBytes) (io_write (c_io d) p remoteBytes)) (\<lambda>_.
          andThen (pushFile d copy None) (\<lambda>(ch, cb).
          andThen (modS (\<lambda>s. s\<lparr>base := base_set copy
                     (if mergeable d copy cb
                      then \<lparr>be_hash = ch, be_text = Some (h_decodeLossy (c_host d) cb), be_size = None, be_mtime = None\<rparr>
                      else hashOnly ch) (base s)\<rparr>)) (\<lambda>_.
          setBase d p remoteBytes (fm_hash rmeta))))))"

definition mergePlanFor ::
  "('w, 'x) deps_scheme \<Rightarrow> path \<Rightarrow> action \<Rightarrow> base_entry option \<Rightarrow> bytes \<Rightarrow> bytes \<Rightarrow> merge_plan \<times> utext" where
  "mergePlanFor d p act baseEntry liveLocal remoteBytes =
     (let bothText = (mergeable d p liveLocal \<and> mergeable d p remoteBytes);
          cosmetic = (bothText \<and> sameIgnoringEol (h_decodeLossy (c_host d)) liveLocal remoteBytes);
          baseText = Option.bind baseEntry be_text;
          canMerge = (\<not> cosmetic \<and> \<not> d_readOnly d \<and> act = MergeBoth \<and> bothText \<and> baseText \<noteq> None);
          (merged, clean) = (if canMerge then rawMerge d p (the baseText) liveLocal remoteBytes else ([], False))
      in (planMerge \<lparr>p_cosmetic = cosmetic, p_readOnly = d_readOnly d, p_action = act, p_canMerge = canMerge,
            p_mergeClean = clean, p_firstContactKeepCopy = d_preserveLocalFirstContact d\<rparr>, merged))"

text \<open>
  \<open>localBytes!\<close> where both the live read and the earlier read are missing is a type error in the source
  (\<open>sha256hex(null)\<close> rejects).
\<close>

definition reconcileMergeOrConflict ::
  "('w, 'x) deps_scheme \<Rightarrow> path \<Rightarrow> file_meta \<Rightarrow> action \<Rightarrow> base_entry option \<Rightarrow> bytes option \<Rightarrow> ('w, unit) prog" where
  "reconcileMergeOrConflict d p rmeta act baseEntry localBytes =
     andThen (fetchVerified d rmeta) (\<lambda>remoteBytes.
     andThen (readOrNull d p) (\<lambda>live.
     case (if live \<noteq> None then live else localBytes) of
       None \<Rightarrow> throwE (newError ''sha256hex: not a buffer'')
     | Some liveLocal \<Rightarrow>
         (case identityShortcut d p rmeta act baseEntry liveLocal remoteBytes of
            Some m \<Rightarrow> m
          | None \<Rightarrow>
              (case mergePlanFor d p act baseEntry liveLocal remoteBytes of
                 (plan, merged) \<Rightarrow> executePlan d p rmeta liveLocal remoteBytes merged plan))))"

subsection \<open>One path\<close>

text \<open>\<open>o_signal\<close> tells whether the caller passed \<open>onWork\<close>.\<close>

record one_opts =
  o_signal :: bool
  o_rmeta :: "file_meta option"
  o_guardDelete :: bool
  o_guardBulkPush :: bool
  o_localSize :: nat
  o_hasTombstone :: "path \<Rightarrow> bool"
  o_deletionOf :: "path \<Rightarrow> deletion option"
  o_locallyPresent :: "bool option"
  o_localStat :: "file_stat option"
  o_caseRenamed :: bool

definition signalWork :: "one_opts \<Rightarrow> ('w, unit) prog" where
  "signalWork o1 = whenM (o_signal o1) (callback (OnPathWork True False))"

definition rejectedHash :: "('w, 'x) deps_scheme \<Rightarrow> path \<Rightarrow> ('w, hash option) prog" where
  "rejectedHash d p = getS (\<lambda>s. case rejected s of None \<Rightarrow> None | Some m \<Rightarrow> m (idKey d p))"

text \<open>The push of \<open>push\<close> and \<open>restore\<close>: refused content and bouncing content are held.\<close>

definition guardedPush ::
  "('w, 'x) deps_scheme \<Rightarrow> path \<Rightarrow> one_opts \<Rightarrow> hash option \<Rightarrow> bytes option \<Rightarrow> int \<Rightarrow> (bytes \<Rightarrow> hash \<Rightarrow> ('w, unit) prog) \<Rightarrow> ('w, unit) prog" where
  "guardedPush d p o1 localHash localBytes v done =
     andThen (rejectedHash d p) (\<lambda>rej.
     if localHash \<noteq> None \<and> rej = localHash then callback (OnPushHeld p)
     else
       andThen (case localHash of None \<Rightarrow> ret False | Some h \<Rightarrow> flipHold d p h localBytes) (\<lambda>held.
       if held then callback (OnFlipHeld p)
       else
         andThen (signalWork o1) (\<lambda>_.
         andThen
           (tryCatch (pushFile d p (Some v))
             (\<lambda>e. andThen
                (whenM (e_kind e = CommitRejectedError \<and> localHash \<noteq> None)
                  (modS (\<lambda>s. s\<lparr>rejected := map_option (\<lambda>m. m(idKey d p := localHash)) (rejected s)\<rparr>)))
                (\<lambda>_. throwE e)))
           (\<lambda>(h, b).
            andThen (modS (\<lambda>s. s\<lparr>rejected := map_option (\<lambda>m. m(idKey d p := None)) (rejected s)\<rparr>)) (\<lambda>_.
            done b h)))))"

definition executeEffect ::
  "('w, 'x) deps_scheme \<Rightarrow> path \<Rightarrow> one_opts \<Rightarrow> action \<Rightarrow> base_entry option \<Rightarrow> hash option \<Rightarrow> bytes option \<Rightarrow> effect \<Rightarrow> ('w, unit) prog" where
  "executeEffect d p o1 act baseEntry localHash localBytes eff =
     (case eff of
        Noop \<Rightarrow> ret ()
      | SetBaseInSync \<Rightarrow>
          (case (localBytes, o_rmeta o1) of
             (Some b, Some m) \<Rightarrow> andThen (setBase d p b (fm_hash m)) (\<lambda>_. stamp p (o_localStat o1))
           | _ \<Rightarrow> throwE (newError ''setBaseInSync without both sides''))
      | ClearBase \<Rightarrow> dropBase p
      | ReportReadOnly \<Rightarrow> callback (OnReadOnly p)
      | ReportReadOnlyCopy \<Rightarrow> callback (OnReadOnlyCopy p)
      | ReportGuard \<Rightarrow> callback (OnGuard p)
      | ReportPushGuard \<Rightarrow> callback (OnPushGuard p)
      | EffPush v allowStamp \<Rightarrow>
          guardedPush d p o1 localHash localBytes v (\<lambda>b h.
            andThen (setBase d p b h) (\<lambda>_. whenM allowStamp (stamp p (o_localStat o1))))
      | EffPull \<Rightarrow>
          andThen (signalWork o1) (\<lambda>_.
          andThen (requireRemote (o_rmeta o1) act) (\<lambda>m. applyPull d p m localHash True))
      | Restore \<Rightarrow>
          andThen (callback (OnKeptAbsent p)) (\<lambda>_.
          guardedPush d p o1 localHash localBytes 0 (\<lambda>b h. setBase d p b h))
      | KeptAbsentReadOnly \<Rightarrow> callback (OnKeptAbsent p)
      | RemoveLocal \<Rightarrow>
          if o_caseRenamed o1 then dropBase p
          else
            andThen (signalWork o1) (\<lambda>_.
            andThen (perform (IoRemove p) (io_remove (c_io d) p)) (\<lambda>_.
            andThen (dropBase p) (\<lambda>_.
            whenM (isConfig p) (callback (OnRemoteConfigDelete p (o_deletionOf o1 p))))))
      | EffDeleteRemote v \<Rightarrow>
          andThen (probePresence d p) (\<lambda>pr.
          if pr \<noteq> Absent then ret ()
          else
            andThen (signalWork o1) (\<lambda>_.
            andThen (perform (ApiDelete p (Some v)) (api_deleteFile (c_api d) p (Some v))) (\<lambda>_.
            dropBase p)))
      | MergeOrConflict \<Rightarrow>
          andThen (signalWork o1) (\<lambda>_.
          andThen (requireRemote (o_rmeta o1) act) (\<lambda>m.
          reconcileMergeOrConflict d p m act baseEntry localBytes)))"

definition effectFor ::
  "('w, 'x) deps_scheme \<Rightarrow> path \<Rightarrow> one_opts \<Rightarrow> action \<Rightarrow> base_entry option \<Rightarrow> bytes option \<Rightarrow> effect" where
  "effectFor d p o1 act baseEntry localBytes =
     finalize act
       \<lparr>f_readOnly = d_readOnly d, f_noResurrect = d_noResurrect d, f_hasTombstone = o_hasTombstone o1 p,
        f_guardDelete = o_guardDelete o1, f_guardBulkPush = o_guardBulkPush o1, f_isConflictCopy = isConflictCopy p,
        f_hasLocalBytes = (localBytes \<noteq> None), f_hasRmeta = (o_rmeta o1 \<noteq> None), f_hasBaseEntry = (baseEntry \<noteq> None),
        f_remoteVersion = (case o_rmeta o1 of Some m \<Rightarrow> fm_version m | None \<Rightarrow> 0)\<rparr>"

text \<open>The decision with its content-identity override; \<^const>\<open>None\<close> where a cosmetic change ends the pass.\<close>

definition decidedAction ::
  "('w, 'x) deps_scheme \<Rightarrow> path \<Rightarrow> one_opts \<Rightarrow> base_entry option \<Rightarrow> hash option \<Rightarrow> bytes option \<Rightarrow> action option" where
  "decidedAction d p o1 baseEntry localHash localBytes =
     (let act = decide localHash (map_option be_hash baseEntry) (map_option fm_hash (o_rmeta o1)) in
      if \<not> isConfig p \<and> baseEntry \<noteq> None \<and> (act = Push \<or> act = EditWinsKeepLocal) then
        (case localBytes of
           None \<Rightarrow> Some act
         | Some b \<Rightarrow>
             if baseNormHash d p baseEntry \<noteq> None \<and> Some (normHash d p b) = baseNormHash d p baseEntry then
               (if act = EditWinsKeepLocal then Some DeleteLocal else None)
             else Some act)
      else Some act)"

definition adjudicated :: "action \<Rightarrow> bool" where
  "adjudicated act \<longleftrightarrow> act = MergeBoth \<or> act = ConflictCopy \<or> act = EditWinsPull \<or> act = EditWinsKeepLocal"

definition actOn ::
  "('w, 'x) deps_scheme \<Rightarrow> path \<Rightarrow> one_opts \<Rightarrow> base_entry option \<Rightarrow> hash option \<Rightarrow> bytes option \<Rightarrow> action \<Rightarrow> ('w, unit) prog" where
  "actOn d p o1 baseEntry localHash localBytes act =
     andThen
       (case o_rmeta o1 of
          Some m \<Rightarrow> if isEnabledListConfig p then reconcileEnabledPluginList d p m act (signalWork o1) else ret False
        | None \<Rightarrow> ret False)
       (\<lambda>handled.
        if handled then ret ()
        else if isConfig p \<and> adjudicated act then callback (OnConfigConflict p (Some act))
        else
          andThen (whenM (isConfig p) (callback (OnConfigResolved p))) (\<lambda>_.
          let eff = effectFor d p o1 act baseEntry localBytes in
          andThen (callback (OnDecision p act eff)) (\<lambda>_.
          executeEffect d p o1 act baseEntry localHash localBytes eff)))"

definition unreadableError :: "path \<Rightarrow> err" where
  "unreadableError p = newError (quoted p @ '' is present but couldn'' @ [CHR 0x27]
     @ ''t be read right now - skipping (won'' @ [CHR 0x27] @ ''t be treated as deleted)'')"

text \<open>Reading the local side: the scan-skip, or a read in which an unreadable file is not an absent one.\<close>

definition readSide ::
  "('w, 'x) deps_scheme \<Rightarrow> path \<Rightarrow> one_opts \<Rightarrow> base_entry option \<Rightarrow> ('w, hash option \<times> bytes option) prog" where
  "readSide d p o1 baseEntry =
     (if o_locallyPresent o1 = Some True \<and> o_rmeta o1 \<noteq> None \<and> baseStatUnchanged baseEntry (o_localStat o1)
      then ret (map_option be_hash baseEntry, None)
      else
        andThen (readLocalContent d p (o_locallyPresent o1)) (\<lambda>content.
        case content of
          LPresent b \<Rightarrow> ret (Some (shaOf d b), Some b)
        | LAbsent \<Rightarrow> ret (None, None)
        | LUnreadable \<Rightarrow>
            if baseEntry \<noteq> None then
              throwE (unreadableError p)
            else ret (None, None)))"

definition tooLarge :: "('w, 'x) deps_scheme \<Rightarrow> one_opts \<Rightarrow> bool" where
  "tooLarge d o1 =
     (let mx = (case d_maxSyncBytes d of Some n \<Rightarrow> n | None \<Rightarrow> DEFAULT_MAX_SYNC_BYTES);
          remoteSize = (case o_rmeta o1 of Some m \<Rightarrow> fm_size m | None \<Rightarrow> 0);
          streamableDownload = (STREAM_MIN_BYTES \<le> remoteSize \<and> o_localSize o1 = 0 \<and> io_appendWrite (c_io d) \<noteq> None)
      in o_localSize o1 > mx \<or> (remoteSize > mx \<and> \<not> streamableDownload))"

definition reconcileOne :: "('w, 'x) deps_scheme \<Rightarrow> path \<Rightarrow> one_opts \<Rightarrow> ('w, unit) prog" where
  "reconcileOne d p o1 =
     (if \<not> accepts d p then ret ()
      else if tooLarge d o1 then
        callback (OnSkip p (max (o_localSize o1) (case o_rmeta o1 of Some m \<Rightarrow> fm_size m | None \<Rightarrow> 0)))
      else
        andThen (getS (\<lambda>s. base_get (base s) p)) (\<lambda>baseEntry.
        andThen (readSide d p o1 baseEntry) (\<lambda>(localHash, localBytes).
        case decidedAction d p o1 baseEntry localHash localBytes of
          None \<Rightarrow> stamp p (o_localStat o1)
        | Some act \<Rightarrow> actOn d p o1 baseEntry localHash localBytes act)))"

definition resolveConfigConflict :: "('w, 'x) deps_scheme \<Rightarrow> path \<Rightarrow> side_choice \<Rightarrow> ('w, unit) prog" where
  "resolveConfigConflict d p choice =
     (case choice of
        KeepLocal \<Rightarrow>
          andThen (readOrNull d p) (\<lambda>r.
          if r = None then
            andThen (perform (ApiDelete p None) (api_deleteFile (c_api d) p None)) (\<lambda>_. dropBase p)
          else andThen (pushFile d p None) (\<lambda>(h, b). setBase d p b h))
      | TakeRemote \<Rightarrow>
          andThen (outside (api_fileMeta (c_api d) p)) (\<lambda>rmeta.
          case rmeta of
            None \<Rightarrow> andThen (perform (IoRemove p) (io_remove (c_io d) p)) (\<lambda>_. dropBase p)
          | Some m \<Rightarrow> applyPull d p m None False))"

subsection \<open>What the building blocks record\<close>

text \<open>The callbacks made while one path is reconciled; the others belong to the passes.\<close>

fun inner :: "callback \<Rightarrow> bool" where
  "inner (OnFileError p e) = False"
| "inner (OnPullExhausted p) = False"
| "inner (OnPathSettled p) = False"
| "inner (OnPathWork active failed) = (active \<and> \<not> failed)"
| "inner (OnProgress n) = False"
| "inner (OnStage m) = False"
| "inner (OnPathAliased p q) = False"
| "inner (OnPathViolation v) = False"
| "inner (OnDeclined ps) = False"
| "inner (OnRemotePlugins ps) = False"
| "inner (OnEnqueue p n) = False"
| "inner (OnResolveStep st) = False"
| "inner (OnPreviewStale p r) = False"
| "inner (OnOpened p) = False"
| "inner _ = True"

lemma emits_getVerifiedChunk [emits_rules]: "emits Q (getVerifiedChunk d h)"
  unfolding getVerifiedChunk_def by (intro emits_rules)

lemma emits_mapPool [emits_rules]: "(\<And>x. emits Q (f x)) \<Longrightarrow> emits Q (mapPool xs n f)"
  unfolding mapPool_def by (intro emits_rules)

lemma emits_fetchFileBytes [emits_rules]: "emits Q (fetchFileBytes d cs)"
  unfolding fetchFileBytes_def by (intro emits_rules)

lemma emits_fetchVerified [emits_rules]: "emits Q (fetchVerified d m)"
  unfolding fetchVerified_def by (intro emits_rules)

lemma emits_readOrNull [emits_rules]: "(\<And>r. Q (GotRead p r)) \<Longrightarrow> emits Q (readOrNull d p)"
  unfolding readOrNull_def by (intro emits_rules)

lemma emits_readLocalContent [emits_rules]: "(\<And>r. Q (GotRead p r)) \<Longrightarrow> emits Q (readLocalContent d p r)"
  unfolding readLocalContent_def by (intro emits_rules)

lemma emits_readSide [emits_rules]: "(\<And>r. Q (GotRead p r)) \<Longrightarrow> emits Q (readSide d p o1 be)"
  unfolding readSide_def by (intro emits_rules) (simp_all split: local_content.splits add: emits_rules)

lemma emits_requireRemote [emits_rules]: "emits Q (requireRemote r act)"
  unfolding requireRemote_def by (intro emits_rules)

lemma emits_copyName [emits_rules]: "emits Q (copyName d p h)"
  unfolding copyName_def by (intro emits_rules)

lemma emits_flipHold [emits_rules]: "emits Q (flipHold d p h b)"
  unfolding flipHold_def by (intro emits_rules)

lemma emits_rejectedHash [emits_rules]: "emits Q (rejectedHash d p)"
  unfolding rejectedHash_def by (intro emits_rules)

lemma emits_stamp [emits_rules]: "emits Q (stamp p st)"
  unfolding stamp_def by (intro emits_rules)

lemma emits_setBase [emits_rules]: "(\<And>c. inner c \<Longrightarrow> Q (Callback c)) \<Longrightarrow> emits Q (setBase d p b h)"
  unfolding setBase_def by (intro emits_rules) simp_all

lemma emits_dropBase [emits_rules]: "(\<And>c. inner c \<Longrightarrow> Q (Callback c)) \<Longrightarrow> emits Q (dropBase p)"
  unfolding dropBase_def by (intro emits_rules) simp_all

lemma emits_signalWork [emits_rules]: "(\<And>c. inner c \<Longrightarrow> Q (Callback c)) \<Longrightarrow> emits Q (signalWork o1)"
  unfolding signalWork_def by (intro emits_rules) simp_all

lemma emits_probePresence [emits_rules]: "(\<And>r. Q (GotRead p r)) \<Longrightarrow> (\<And>r. Q (Probed p r)) \<Longrightarrow> emits Q (probePresence d p)"
  unfolding probePresence_def by (intro emits_rules)

lemma emits_commit [emits_rules]:
  assumes "\<And>h x. Q (ApiPutChunk h x)" and "\<And>q. cq_path q = p \<Longrightarrow> cq_expectedVersion q = v \<Longrightarrow> Q (ApiCommit q)"
  shows "emits Q (commitBytes d p b v)"
proof (rule emits_mono [OF emits_commitBytes])
  show "Q e" if "uploads (h_sha (c_host d)) p b v e" for e
    using that assms by (cases e) (auto simp: commit_of_def)
qed

lemma emits_pushFile [emits_rules]:
  "(\<And>h x. Q (ApiPutChunk h x)) \<Longrightarrow> (\<And>q. cq_path q = p \<Longrightarrow> cq_expectedVersion q = v \<Longrightarrow> Q (ApiCommit q)) \<Longrightarrow>
   emits Q (pushFile d p v)"
  unfolding pushFile_def by (intro emits_rules)

lemma emits_pushBytes [emits_rules]:
  "Q (IoWrite p b) \<Longrightarrow> (\<And>h x. Q (ApiPutChunk h x)) \<Longrightarrow>
   (\<And>q. cq_path q = p \<Longrightarrow> cq_expectedVersion q = v \<Longrightarrow> Q (ApiCommit q)) \<Longrightarrow> emits Q (pushBytes d p b v)"
  unfolding pushBytes_def by (intro emits_rules)

lemma emits_streamChunks [emits_rules]:
  "(\<And>b. Q (IoAppend p b)) \<Longrightarrow> emits Q (streamChunks d ap p h cs w hs)"
  by (induction cs arbitrary: w hs) (auto intro!: emits_rules)

lemma emits_streamFileToDisk [emits_rules]:
  assumes "Q (IoOpen p)" "\<And>b. Q (IoAppend p b)" "Q (IoClose p)" "Q (IoAbort p)"
    and "\<And>m. before = Some m \<Longrightarrow> emits Q m"
  shows "emits Q (streamFileToDisk d p cs sz h before)"
  unfolding streamFileToDisk_def streamBody_def by (intro emits_rules assms)

subsection \<open>What a reconciliation may do\<close>

definition copyOf :: "('w, 'x) deps_scheme \<Rightarrow> path \<Rightarrow> path \<Rightarrow> bool" where
  "copyOf d p q \<longleftrightarrow> (\<exists>w tag. q = conflictCopyName p (d_device d) w tag)"

lemma gives_copyName: "gives (copyOf d p) (copyName d p h)"
  by (auto simp: gives_def copyName_def getS_def copyOf_def)

lemma emits_writeCopy [emits_rules]:
  assumes "\<And>c. inner c \<Longrightarrow> Q (Callback c)" "\<And>q b. copyOf d p q \<Longrightarrow> Q (IoWrite q b)"
  shows "emits Q (writeCopy d p b)"
  unfolding writeCopy_def
  by (rule emits_andThen_gives [OF _ gives_copyName]) ((intro emits_rules assms)+, simp_all)

lemma gives_writeCopy: "gives (copyOf d p) (writeCopy d p b)"
  by (auto simp: gives_def writeCopy_def copyName_def getS_def andThen_Inr ret_def copyOf_def)

lemma emits_conflictCopyIfRaced [emits_rules]:
  "(\<And>c. inner c \<Longrightarrow> Q (Callback c)) \<Longrightarrow> (\<And>r. Q (GotRead p r)) \<Longrightarrow> (\<And>q b. copyOf d p q \<Longrightarrow> Q (IoWrite q b)) \<Longrightarrow>
   emits Q (conflictCopyIfRaced d p h)"
  unfolding conflictCopyIfRaced_def by (intro emits_rules) simp_all

definition raceCopy :: "('w, 'x) deps_scheme \<Rightarrow> path \<Rightarrow> race_outcome \<Rightarrow> bool" where
  "raceCopy d p r = (case r of CopyRace q \<Rightarrow> copyOf d p q | _ \<Rightarrow> True)"

lemma gives_conflictCopyIfRaced: "gives (raceCopy d p) (conflictCopyIfRaced d p h)"
proof -
  have w: "copyOf d p q" if "writeCopy d p b s = (Inr q, s')" for b q s s'
    using gives_writeCopy [of d p b] that by (auto simp: gives_def)
  show ?thesis
    by (auto simp: gives_def conflictCopyIfRaced_def andThen_Inr getS_def ret_def record_event_def raceCopy_def
        split: option.splits if_splits dest!: w)
qed

lemma emits_bufferedPull [emits_rules]:
  assumes "\<And>c. inner c \<Longrightarrow> Q (Callback c)" "\<And>r. Q (GotRead p r)" "\<And>b. Q (IoWrite p b)"
    and "\<And>q b. copyOf d p q \<Longrightarrow> Q (IoWrite q b)" "\<And>q. copyOf d p q \<Longrightarrow> Q (IoRemove q)"
  shows "emits Q (bufferedPull d p m h g)"
proof -
  have "emits Q (case r of CopyRace copy \<Rightarrow> tryCatch (perform (IoRemove copy) (io_remove (c_io d) copy)) (\<lambda>_. ret ()) | _ \<Rightarrow> ret ())"
    if "raceCopy d p r" for r
    using that assms(5) by (cases r) (auto simp: raceCopy_def intro!: emits_rules)
  moreover have "gives (raceCopy d p) (if g then conflictCopyIfRaced d p h else ret NoRace)"
    using gives_conflictCopyIfRaced [of d p h] by (auto simp: gives_def ret_def raceCopy_def)
  ultimately show ?thesis
    unfolding bufferedPull_def writePulled_def
    by (intro emits_andThen [OF emits_fetchVerified] emits_andThen_gives [where P = "raceCopy d p"] emits_rules assms)
qed

lemma emits_streamPull [emits_rules]:
  assumes "\<And>c. inner c \<Longrightarrow> Q (Callback c)" "\<And>r. Q (GotRead p r)" "Q (IoOpen p)" "\<And>b. Q (IoAppend p b)" "Q (IoClose p)" "Q (IoAbort p)"
    and "\<And>q b. copyOf d p q \<Longrightarrow> Q (IoWrite q b)"
  shows "emits Q (streamPull d p m h g)"
  unfolding streamPull_def
proof (intro emits_rules assms)
  show "emits Q seam" if "(if g then Some (streamSeam d p h) else None) = Some seam" for seam
    using that assms unfolding streamSeam_def by (auto split: if_splits intro!: emits_rules)
qed simp

lemma emits_applyPull [emits_rules]:
  assumes "\<And>c. inner c \<Longrightarrow> Q (Callback c)" "\<And>r. Q (GotRead p r)" "Q (IoOpen p)" "\<And>b. Q (IoAppend p b)" "Q (IoClose p)" "Q (IoAbort p)" "\<And>b. Q (IoWrite p b)"
    and "\<And>q b. copyOf d p q \<Longrightarrow> Q (IoWrite q b)" "\<And>q. copyOf d p q \<Longrightarrow> Q (IoRemove q)"
  shows "emits Q (applyPull d p m h g)"
  unfolding applyPull_def by (intro emits_rules assms) simp_all

text \<open>
  The footprint of \<open>reconcileOne\<close> on a path: the calls it may make, and under which conditions.
\<close>

fun footprint :: "('w, 'x) deps_scheme \<Rightarrow> path \<Rightarrow> one_opts \<Rightarrow> event \<Rightarrow> bool" where
  "footprint d p o1 (IoWrite q b) = (q = p \<or> copyOf d p q)"
| "footprint d p o1 (IoRemove q) =
     ((q = p \<and> o_rmeta o1 = None \<and> o_hasTombstone o1 p \<and> \<not> o_guardDelete o1 \<and> \<not> o_caseRenamed o1) \<or> copyOf d p q)"
| "footprint d p o1 (IoOpen q) = (q = p)"
| "footprint d p o1 (IoAppend q b) = (q = p)"
| "footprint d p o1 (IoClose q) = (q = p)"
| "footprint d p o1 (IoAbort q) = (q = p)"
| "footprint d p o1 (ApiPutChunk h x) = (\<not> d_readOnly d)"
| "footprint d p o1 (ApiCommit r) =
     (\<not> d_readOnly d
      \<and> ((cq_path r = p \<and> cq_expectedVersion r = Some (case o_rmeta o1 of Some m \<Rightarrow> fm_version m | None \<Rightarrow> 0)
           \<and> (d_noResurrect d \<and> o_rmeta o1 = None \<longrightarrow> \<not> o_hasTombstone o1 p \<and> \<not> o_guardBulkPush o1))
         \<or> (copyOf d p (cq_path r) \<and> o_rmeta o1 \<noteq> None)))"
| "footprint d p o1 (ApiDelete q v) =
     (q = p \<and> \<not> d_readOnly d \<and> (\<exists>m. o_rmeta o1 = Some m \<and> v = Some (fm_version m)))"
| "footprint d p o1 (GotRead q r) = (q = p)"
| "footprint d p o1 (Probed q r) = (q = p)"
| "footprint d p o1 (GotChanges r) = False"
| "footprint d p o1 (GotMeta q m) = False"
| "footprint d p o1 (Callback c) = inner c"

lemma emits_pushHeldOr [emits_rules]:
  "(\<And>c. inner c \<Longrightarrow> Q (Callback c)) \<Longrightarrow> Q (IoWrite p b) \<Longrightarrow> (\<And>h x. Q (ApiPutChunk h x)) \<Longrightarrow>
   (\<And>q. cq_path q = p \<Longrightarrow> cq_expectedVersion q = Some v \<Longrightarrow> Q (ApiCommit q)) \<Longrightarrow> emits Q (pushHeldOr d p b v)"
  unfolding pushHeldOr_def by (intro emits_rules) simp_all

lemma emits_adopt [emits_rules]:
  "(\<And>c. inner c \<Longrightarrow> Q (Callback c)) \<Longrightarrow> Q (IoWrite p b) \<Longrightarrow> emits Q (adopt d p b m)"
  unfolding adopt_def by (intro emits_rules)

lemma identityShortcut_footprint:
  assumes "identityShortcut d p m act be l r = Some prog" "o_rmeta o1 = Some m"
  shows "emits (footprint d p o1) prog"
proof -
  have "emits (footprint d p o1) (adopt d p r m)" by (intro emits_rules) auto
  moreover have "emits (footprint d p o1) (pushHeldOr d p l (fm_version m))" if "\<not> d_readOnly d"
    using that assms(2) by (intro emits_rules) auto
  ultimately show ?thesis
    using assms(1) by (auto simp: identityShortcut_def Let_def split: if_splits option.splits bool.splits)
qed

lemma mergePlanFor_readOnly:
  assumes "mergePlanFor d p act be l r = (plan, merged)" "d_readOnly d"
  shows "plan \<in> {AdoptRemote, ReadOnlyKeepCopy}"
proof -
  have "\<exists>f. p_readOnly f \<and> plan = planMerge f"
    using assms by (simp add: mergePlanFor_def Let_def) (metis plan_facts.select_convs(2))
  then show ?thesis using planMerge_readOnly by blast
qed

lemma executePlan_footprint:
  assumes "d_readOnly d \<Longrightarrow> plan \<in> {AdoptRemote, ReadOnlyKeepCopy}" "o_rmeta o1 = Some m"
  shows "emits (footprint d p o1) (executePlan d p m l r merged plan)"
proof (cases plan)
  case WriteConflictCopy
  then have "\<not> d_readOnly d" using assms(1) by auto
  then show ?thesis
    using WriteConflictCopy assms(2) unfolding executePlan_def
    by (simp, intro emits_andThen_gives [OF _ gives_writeCopy] emits_rules) auto
next
  case PushMerged
  then have "\<not> d_readOnly d" using assms(1) by auto
  then show ?thesis
    using PushMerged assms(2) unfolding executePlan_def by (simp, intro emits_rules) auto
qed (auto simp: executePlan_def intro!: emits_rules)

lemma mergeOrConflict_footprint:
  "o_rmeta o1 = Some m \<Longrightarrow> emits (footprint d p o1) (reconcileMergeOrConflict d p m act be lb)"
  unfolding reconcileMergeOrConflict_def
  by (intro emits_rules executePlan_footprint) (auto intro: identityShortcut_footprint dest: mergePlanFor_readOnly)

lemma enabledPluginList_footprint:
  "o_rmeta o1 = Some m \<Longrightarrow> emits (footprint d p o1) (reconcileEnabledPluginList d p m act (signalWork o1))"
  unfolding reconcileEnabledPluginList_def by (intro emits_rules) auto

lemma guardedPush_footprint:
  assumes "\<not> d_readOnly d" "v = (case o_rmeta o1 of Some m \<Rightarrow> fm_version m | None \<Rightarrow> 0)"
    "d_noResurrect d \<Longrightarrow> o_rmeta o1 = None \<Longrightarrow> \<not> o_hasTombstone o1 p \<and> \<not> o_guardBulkPush o1"
    "\<And>b h. emits (footprint d p o1) (done b h)"
  shows "emits (footprint d p o1) (guardedPush d p o1 lh lb v done)"
  unfolding guardedPush_def using assms by (intro emits_rules) auto

lemma effectFor_facts:
  "effectFor d p o1 act be lb = EffPush v a \<Longrightarrow>
     \<not> d_readOnly d \<and> v = (case o_rmeta o1 of Some m \<Rightarrow> fm_version m | None \<Rightarrow> 0)
     \<and> (d_noResurrect d \<and> o_rmeta o1 = None \<longrightarrow> \<not> o_hasTombstone o1 p \<and> \<not> o_guardBulkPush o1)"
  "effectFor d p o1 act be lb = Restore \<Longrightarrow> act = DeleteLocal \<and> \<not> d_readOnly d \<and> \<not> d_noResurrect d"
  "effectFor d p o1 act be lb = RemoveLocal \<Longrightarrow> act = DeleteLocal \<and> o_hasTombstone o1 p \<and> \<not> o_guardDelete o1"
  "effectFor d p o1 act be lb = EffDeleteRemote v \<Longrightarrow>
     act = DeleteRemote \<and> \<not> d_readOnly d \<and> v = (case o_rmeta o1 of Some m \<Rightarrow> fm_version m | None \<Rightarrow> 0)"
  by (cases act; auto simp: effectFor_def split: if_splits)+

text \<open>What the decision says about the server side.\<close>

definition actFits :: "one_opts \<Rightarrow> action \<Rightarrow> bool" where
  "actFits o1 act \<longleftrightarrow> (act = DeleteLocal \<longrightarrow> o_rmeta o1 = None) \<and> (act = DeleteRemote \<longrightarrow> o_rmeta o1 \<noteq> None)"

lemma decidedAction_fits: "decidedAction d p o1 be lh lb = Some act \<Longrightarrow> actFits o1 act"
proof -
  assume act: "decidedAction d p o1 be lh lb = Some act"
  let ?a = "decide lh (map_option be_hash be) (map_option fm_hash (o_rmeta o1))"
  have "act = ?a \<or> (?a = EditWinsKeepLocal \<and> act = DeleteLocal)"
    using act by (auto simp: decidedAction_def Let_def split: if_splits option.splits)
  then show ?thesis by (auto simp: actFits_def decide_def split: if_splits)
qed

lemma requireRemote_gives: "gives (\<lambda>m. o_rmeta o1 = Some m) (requireRemote (o_rmeta o1) act)"
  by (auto simp: gives_def requireRemote_def ret_def throwE_def split: option.splits)

lemma executeEffect_footprint:
  assumes "actFits o1 act" "eff = effectFor d p o1 act be lb"
  shows "emits (footprint d p o1) (executeEffect d p o1 act be lh lb eff)"
proof (cases eff)
  case (EffPush v a)
  then show ?thesis
    using effectFor_facts(1) [of d p o1 act be lb v a] assms(2)
    by (simp add: executeEffect_def) (intro guardedPush_footprint emits_rules, auto)
next
  case Restore
  then show ?thesis
    using effectFor_facts(2) [of d p o1 act be lb] assms
    by (simp add: executeEffect_def actFits_def) (intro guardedPush_footprint emits_rules, auto)
next
  case RemoveLocal
  then show ?thesis
    using effectFor_facts(3) [of d p o1 act be lb] assms
    by (simp add: executeEffect_def actFits_def) (intro conjI impI emits_rules, auto)
next
  case (EffDeleteRemote v)
  then show ?thesis
    using effectFor_facts(4) [of d p o1 act be lb v] assms
    by (simp add: executeEffect_def actFits_def) (intro emits_rules, auto)
next
  case MergeOrConflict
  then show ?thesis
    by (simp add: executeEffect_def)
      (intro emits_andThen [OF emits_signalWork] emits_andThen_gives [OF emits_requireRemote requireRemote_gives]
        mergeOrConflict_footprint, auto)
qed (auto simp: executeEffect_def split: option.splits intro!: emits_rules)

lemma emits_reconcileOne: "emits (\<lambda>e. accepts d p \<and> footprint d p o1 e) (reconcileOne d p o1)"
proof (cases "accepts d p")
  case True
  have "emits (footprint d p o1) (actOn d p o1 be lh lb act)" if "actFits o1 act" for be lh lb act
    unfolding actOn_def using that
    by (intro emits_rules enabledPluginList_footprint executeEffect_footprint) auto
  then have "emits (footprint d p o1) (reconcileOne d p o1)"
    unfolding reconcileOne_def by (intro emits_rules) (auto dest: decidedAction_fits)
  then show ?thesis using True by (auto elim: emits_mono)
qed (simp add: reconcileOne_def emits_rules)

text \<open>
  (C9) The safety of reconciling one path, whatever the vault, the server and the user do meanwhile and
  also when it throws. A path outside the device's selection is not touched at all. Otherwise only this
  path and its conflict copies are written; it is removed only when the server no longer has it, holds a
  real tombstone for it and no bulk-delete hold is on; it is deleted on the server, and anything is
  uploaded, only from a writable scope and with the version it was decided on; and on a shared source a
  path the server does not have is uploaded only without a tombstone and outside a held batch.
\<close>
theorem reconcileOne_safe:
  "\<exists>evs. log (snd (reconcileOne d p o1 s)) = evs @ log s \<and> list_all (\<lambda>e. accepts d p \<and> footprint d p o1 e) evs"
  by (rule emits_log) (rule emits_reconcileOne)


text \<open>
  Unreadable is not deleted: when the vault reports a synced file present but it cannot be read, the
  reconciliation of that path throws before it decides anything. Nothing outside is touched and the base
  keeps its entry, so the next pass tries again; in particular the file is not deleted on the server.
\<close>
theorem unreadable_not_deleted:
  assumes "accepts d p" "\<not> tooLarge d o1" "base_get (base s) p = Some be"
    and "o_locallyPresent o1 = Some True" "io_read (c_io d) p (world s) = (Inl e, w)"
    and "o_rmeta o1 = None \<or> \<not> baseStatUnchanged (Some be) (o_localStat o1)"
  shows "reconcileOne d p o1 s = (Inl (unreadableError p), s\<lparr>world := w, log := GotRead p None # log s\<rparr>)"
  using assms
  by (auto simp: reconcileOne_def readSide_def readLocalContent_def readOrNull_def prog_simps)

lemma strIncludes_middle: "strIncludes (a @ p @ b) p"
proof (induction a)
  case Nil
  have "startsWith (p @ b) p" by (simp add: startsWith_def)
  then show ?case by (cases "p @ b") auto
next
  case (Cons x a)
  then show ?case by simp
qed

text \<open>
  The classification of a connection failure reads the message, and the message of a per-file error
  quotes the file's path: a file whose name contains one of the phrases turns its own read error into a
  failure of the whole connection, which aborts the pass instead of being isolated.
\<close>
theorem file_name_read_as_outage: "isConnectionError (unreadableError (a @ ''econnrefused'' @ b))"
proof -
  have low: "toLowerCase ''econnrefused'' = ''econnrefused''"
    by (simp add: toLowerCase_def lowerChar_def)
  have "\<exists>x y. toLowerCase (e_msg (unreadableError (a @ ''econnrefused'' @ b))) = x @ ''econnrefused'' @ y"
    unfolding unreadableError_def newError_def quoted_def err.select_convs toLowerCase_append low
    by (metis append.assoc)
  then obtain x y where "toLowerCase (e_msg (unreadableError (a @ ''econnrefused'' @ b))) = x @ ''econnrefused'' @ y"
    by blast
  then show ?thesis
    using strIncludes_middle [of x "''econnrefused''" y]
    by (auto simp: isConnectionError_def isConnectionMessage_def list_ex_iff CONNECTION_ERRORS_def)
qed

text \<open>
  Resolving a configuration conflict in favour of this device while the file cannot be read deletes
  the server's copy without a version check: the read's failure counts as the user's removal.
\<close>
theorem keep_local_unreadable_deletes:
  assumes "io_read (c_io d) p (world s) = (Inl e, w)"
  shows "ApiDelete p None \<in> set (log (snd (resolveConfigConflict d p KeepLocal s)))"
  using assms
  by (auto simp: resolveConfigConflict_def readOrNull_def dropBase_def prog_simps split: prod.splits sum.splits)

end
