(* ===== verification/Passes.thy ===== *)
theory Passes
  imports Reconcile
begin

text \<open>
  The passes of \<open>client/src/reconcile.ts\<close>: path aliasing and ambiguity holds, the isolated loop over
  the paths of a pass, the whole-vault, incremental and single-path reconciliations, the resolution of
  held batches and the vault switch. Closure variables of a pass (the pending and examined counters,
  the list of failed versions) are arguments of the loop.
\<close>

definition tryFinally :: "('w, 'a) prog \<Rightarrow> ('w, unit) prog \<Rightarrow> ('w, 'a) prog" where
  "tryFinally m f =
     andThen (tryCatch m (\<lambda>e. andThen f (\<lambda>_. throwE e))) (\<lambda>x. andThen f (\<lambda>_. ret x))"

definition computeBulkPushHold ::
  "('w, 'x) deps_scheme \<Rightarrow> base_store \<Rightarrow> path list \<Rightarrow> path list \<Rightarrow> path list \<Rightarrow> bool" where
  "computeBulkPushHold d b local remote tombstoned =
     (if \<not> d_noResurrect d then False
      else
        (let notTombstoned = filter (\<lambda>p. accepts d p \<and> p \<notin> set tombstoned) local;
             wouldPushNew = length (filter (\<lambda>p. base_get b p = None \<and> p \<notin> set remote) notTombstoned);
             userHold = (d_bulkDeleteStrategy d \<noteq> None \<and> d_bulkDeleteStrategy d \<noteq> Some StratOff
               \<and> bulkDeleteHold (d_bulkDeleteStrategy d) (d_bulkDeleteThreshold d) wouldPushNew (length notTombstoned))
         in userHold \<or> wouldPushNew > SHARED_PUSH_FLOOR))"

definition holdForRetryM :: "path \<Rightarrow> int \<Rightarrow> ('w, bool) prog" where
  "holdForRetryM p v =
     andThen (getS budget) (\<lambda>bud.
     case holdForRetry bud p v of
       (hold, bud', exhausted) \<Rightarrow>
         andThen (modS (\<lambda>s. s\<lparr>budget := bud'\<rparr>)) (\<lambda>_.
         andThen (whenM exhausted (callback (OnPullExhausted p))) (\<lambda>_. ret hold)))"

definition clearBudget :: "path \<Rightarrow> ('w, unit) prog" where
  "clearBudget p = modS (\<lambda>s. s\<lparr>budget := map_option (\<lambda>m. m(p := None)) (budget s)\<rparr>)"

definition isolatedItem ::
  "('w, 'x) deps_scheme \<Rightarrow> (path \<Rightarrow> ('w, unit) prog) \<Rightarrow> (path \<Rightarrow> int option) \<Rightarrow> path \<Rightarrow> ('w, int list) prog" where
  "isolatedItem d run versionOf p =
     tryCatch (andThen (run p) (\<lambda>_. andThen (clearBudget p) (\<lambda>_. ret [])))
       (\<lambda>e. if isConnectionError e then throwE e
            else
              andThen (callback (OnFileError p e)) (\<lambda>_.
              case versionOf p of
                None \<Rightarrow> ret []
              | Some v \<Rightarrow> andThen (holdForRetryM p v) (\<lambda>hold. ret (if hold then [v] else []))))"

fun isolatedPass ::
  "('w, 'x) deps_scheme \<Rightarrow> path list \<Rightarrow> int list \<Rightarrow> (path \<Rightarrow> ('w, unit) prog) \<Rightarrow> (path \<Rightarrow> int option) \<Rightarrow>
   (path \<Rightarrow> int \<times> nat \<Rightarrow> int \<times> nat) \<Rightarrow> (path \<Rightarrow> int \<times> nat \<Rightarrow> ('w, unit) prog) \<Rightarrow> int \<times> nat \<Rightarrow> ('w, int list) prog" where
  "isolatedPass d [] failed run versionOf count onDone k = ret failed"
| "isolatedPass d (p # ps) failed run versionOf count onDone k =
     andThen (getS (\<lambda>s. case d_alive d of None \<Rightarrow> True | Some f \<Rightarrow> f (world s))) (\<lambda>alive.
     if \<not> alive then isolatedPass d ps failed run versionOf count onDone k
     else
       andThen (tryFinally (isolatedItem d run versionOf p) (onDone p (count p k))) (\<lambda>f.
       isolatedPass d ps (failed @ f) run versionOf count onDone (count p k)))"

subsection \<open>Path identity of the listings\<close>

definition aliasing :: "path_fs \<Rightarrow> bool" where
  "aliasing fs \<longleftrightarrow> caseInsensitive fs \<or> normInsensitive fs"

definition caseRenamedTombstones :: "('w, 'x) deps_scheme \<Rightarrow> path list \<Rightarrow> path list \<Rightarrow> path list" where
  "caseRenamedTombstones d tombstoned remoteKeys =
     (if \<not> aliasing (pathFs d) then []
      else
        (let fold1 = identityIndex (h_nfc (c_host d)) remoteKeys (pathFs d) in
         filter (\<lambda>p. case map_of fold1 (idKey d p) of None \<Rightarrow> False | Some k \<Rightarrow> k \<noteq> p) tombstoned))"

definition pathViolation :: "('w, 'x) deps_scheme \<Rightarrow> path_violation \<Rightarrow> ('w, unit) prog" where
  "pathViolation d v =
     (if d_violationThrows d
      then throwE \<lparr>e_kind = PathIdentityError, e_msg = ''path identity violation at '' @ v_site v\<rparr>
      else callback (OnPathViolation v))"

fun aliasLoop ::
  "('w, 'x) deps_scheme \<Rightarrow> path list \<Rightarrow> (string \<times> path) list \<Rightarrow> path list \<Rightarrow> (path \<times> 'v) list \<Rightarrow> (path \<times> 'v) list \<Rightarrow>
   ('w, (path \<times> 'v) list) prog" where
  "aliasLoop d exact fold1 locals [] out = ret out"
| "aliasLoop d exact fold1 locals ((p, v) # rest) out =
     (if p \<in> set exact then aliasLoop d exact fold1 locals rest out
      else case map_of fold1 (idKey d p) of
        None \<Rightarrow> aliasLoop d exact fold1 locals rest out
      | Some k \<Rightarrow>
          if k = p then aliasLoop d exact fold1 locals rest out
          else if k \<in> set locals then
            andThen (pathViolation d \<lparr>v_kind = ListingTwoSpellings, v_site = ''aliasLocalPaths'', v_paths = [p, k]\<rparr>) (\<lambda>_.
            aliasLoop d exact fold1 locals rest out)
          else
            andThen (callback (OnPathAliased p k)) (\<lambda>_.
            aliasLoop d exact fold1 locals rest (AList.update k v (AList.delete p out))))"

definition aliasLocalPaths ::
  "('w, 'x) deps_scheme \<Rightarrow> (path \<times> 'v) list \<Rightarrow> path list \<Rightarrow> ('w, (path \<times> 'v) list) prog" where
  "aliasLocalPaths d local canonical =
     (if \<not> aliasing (pathFs d) then ret local
      else
        (let exact = jsDistinct canonical in
         aliasLoop d exact (identityIndex (h_nfc (c_host d)) exact (pathFs d)) (map fst local) local local))"

definition canonicalLocalPath :: "('w, 'x) deps_scheme \<Rightarrow> path \<Rightarrow> ('w, path) prog" where
  "canonicalLocalPath d p =
     andThen (getS base) (\<lambda>b.
     if \<not> aliasing (pathFs d) \<or> base_get b p \<noteq> None then ret p
     else case foldSibling (h_nfc (c_host d)) p (pathFs d) b of
       (k, b') \<Rightarrow>
         andThen (modS (\<lambda>s. s\<lparr>base := b'\<rparr>)) (\<lambda>_.
         case k of
           None \<Rightarrow> ret p
         | Some q \<Rightarrow> if q = p then ret p else andThen (callback (OnPathAliased p q)) (\<lambda>_. ret q)))"

fun holdGroups :: "('w, 'x) deps_scheme \<Rightarrow> string \<Rightarrow> path list list \<Rightarrow> string list \<Rightarrow> ('w, string list) prog" where
  "holdGroups d site [] heldIds = ret heldIds"
| "holdGroups d site (g # gs) heldIds =
     (let i = idKey d (hd g) in
      if i \<in> set heldIds then holdGroups d site gs heldIds
      else
        andThen (pathViolation d \<lparr>v_kind = DuplicateIdentity, v_site = site, v_paths = g\<rparr>) (\<lambda>_.
        holdGroups d site gs (heldIds @ [i])))"

definition holdAmbiguous :: "('w, 'x) deps_scheme \<Rightarrow> string \<Rightarrow> path list \<Rightarrow> string list \<Rightarrow> ('w, string list) prog" where
  "holdAmbiguous d site keys heldIds = holdGroups d site (identityGroups (h_nfc (c_host d)) keys (pathFs d)) heldIds"

definition isHeldAmbiguous :: "('w, 'x) deps_scheme \<Rightarrow> string list \<Rightarrow> path \<Rightarrow> bool" where
  "isHeldAmbiguous d heldIds p \<longleftrightarrow> heldIds \<noteq> [] \<and> idKey d p \<in> set heldIds"

subsection \<open>The whole vault\<close>

text \<open>\<open>new Map\<close> from a list: a later entry replaces the value of an earlier one.\<close>

definition mapFrom :: "('a \<Rightarrow> path) \<Rightarrow> 'a list \<Rightarrow> (path \<times> 'a) list" where
  "mapFrom key xs = foldl (\<lambda>m x. AList.update (key x) x m) [] xs"

abbreviation remoteOf :: "changes_response \<Rightarrow> (path \<times> file_meta) list" where
  "remoteOf r \<equiv> mapFrom fm_path (cr_upserts r)"

abbreviation tombstonesOf :: "changes_response \<Rightarrow> path list" where
  "tombstonesOf r \<equiv> jsDistinct (map dl_path (cr_deletes r))"

abbreviation deletionsOf :: "changes_response \<Rightarrow> (path \<times> deletion) list" where
  "deletionsOf r \<equiv> mapFrom dl_path (cr_deletes r)"

definition fetchChanges :: "('w, 'x) sync_ctx_scheme \<Rightarrow> int \<Rightarrow> ('w, changes_response) prog" where
  "fetchChanges d since =
     andThen (outside (api_changes (c_api d) since)) (\<lambda>r.
     andThen (record_event (GotChanges r)) (\<lambda>_. ret r))"

definition changeVersion :: "changes_response \<Rightarrow> path \<Rightarrow> int option" where
  "changeVersion r p =
     (case map_of (remoteOf r) p of
        Some m \<Rightarrow> Some (fm_version m)
      | None \<Rightarrow> map_option dl_version (List.find (\<lambda>x. dl_path x = p) (cr_deletes r)))"

text \<open>\<open>/^\.obsidian\/plugins\/([^/]+)\//\<close>, the group.\<close>

definition pluginFolder :: "path \<Rightarrow> string option" where
  "pluginFolder p =
     (if startsWith p ''.obsidian/plugins/'' \<and> CHR ''/'' \<in> set (drop 18 p) then
        (let i = takeWhile (\<lambda>c. c \<noteq> CHR ''/'') (drop 18 p) in if i = [] then None else Some i)
      else None)"

definition remotePlugins :: "(path \<times> file_meta) list \<Rightarrow> (string \<times> string option) list" where
  "remotePlugins remote =
     foldl (\<lambda>byId (p, m).
       case pluginFolder p of
         None \<Rightarrow> byId
       | Some i \<Rightarrow>
           (let byId' = (if map_of byId i = None then AList.update i None byId else byId) in
            if p = ''.obsidian/plugins/'' @ i @ ''/main.js'' then AList.update i (fm_author m) byId' else byId'))
       [] remote"

text \<open>The files that need a transfer, and the remote ones this device does not accept.\<close>

definition isPending ::
  "base_store \<Rightarrow> (path \<times> file_meta) list \<Rightarrow> path list \<Rightarrow> path list \<Rightarrow> path \<Rightarrow> bool" where
  "isPending b remote tombstoned local p =
     (case map_of remote p of
        Some r \<Rightarrow> map_option be_hash (base_get b p) \<noteq> Some (fm_hash r)
      | None \<Rightarrow> (p \<in> set tombstoned \<and> p \<in> set local) \<or> (base_get b p = None \<and> p \<in> set local))"

definition onDoneAll :: "path list \<Rightarrow> nat \<Rightarrow> path \<Rightarrow> int \<times> nat \<Rightarrow> ('w, unit) prog" where
  "onDoneAll pendingPaths n p k =
     andThen (whenM (p \<in> set pendingPaths) (callback (OnProgress (fst k)))) (\<lambda>_.
     whenM (snd k mod 250 = 0)
       (callback (OnStage (''checked '' @ natStr (snd k) @ ''/'' @ natStr n @ '' files''))))"

definition countAll :: "path list \<Rightarrow> path \<Rightarrow> int \<times> nat \<Rightarrow> int \<times> nat" where
  "countAll pendingPaths p k = (if p \<in> set pendingPaths then fst k - 1 else fst k, snd k + 1)"

definition allOpts ::
  "changes_response \<Rightarrow> (path \<times> file_stat) list \<Rightarrow> bool \<Rightarrow> bool \<Rightarrow> path list \<Rightarrow> path \<Rightarrow> one_opts" where
  "allOpts resp local guardBulkDelete guardBulkPush caseRenamed p =
     \<lparr>o_signal = False, o_rmeta = map_of (remoteOf resp) p, o_guardDelete = guardBulkDelete,
      o_guardBulkPush = guardBulkPush, o_localSize = (case map_of local p of Some (sz, _) \<Rightarrow> sz | None \<Rightarrow> 0),
      o_hasTombstone = (\<lambda>q. q \<in> set (tombstonesOf resp)), o_deletionOf = map_of (deletionsOf resp),
      o_locallyPresent = Some (map_of local p \<noteq> None), o_localStat = map_of local p,
      o_caseRenamed = (p \<in> set caseRenamed)\<rparr>"

text \<open>The loop over the files of a pass, given the two bulk holds.\<close>

definition examine ::
  "('w, 'x) deps_scheme \<Rightarrow> changes_response \<Rightarrow> string list \<Rightarrow> (path \<times> file_stat) list \<Rightarrow> base_store \<Rightarrow> bool \<Rightarrow> bool \<Rightarrow>
   ('w, unit) prog" where
  "examine d resp heldIds local b guardBulkDelete guardBulkPush =
     (let remote = remoteOf resp; tombstoned = tombstonesOf resp; locals = map fst local;
          paths = filter (\<lambda>p. \<not> isHeldAmbiguous d heldIds p) (jsDistinct (locals @ map fst remote @ base_paths b));
          pendingPaths = filter (\<lambda>p. accepts d p \<and> isPending b remote tombstoned locals p) paths;
          declined = filter (\<lambda>p. \<not> accepts d p \<and> map_of remote p \<noteq> None) paths;
          caseRenamed = caseRenamedTombstones d tombstoned (map fst remote)
      in
      andThen (whenM (declined \<noteq> []) (callback (OnDeclined declined))) (\<lambda>_.
      andThen (callback (OnProgress (int (length pendingPaths)))) (\<lambda>_.
      andThen (callback (OnStage (''checking '' @ natStr (length paths) @ '' files for changes''))) (\<lambda>_.
      andThen (isolatedPass d paths []
                 (\<lambda>p. reconcileOne d p (allOpts resp local guardBulkDelete guardBulkPush caseRenamed p))
                 (changeVersion resp) (countAll pendingPaths) (onDoneAll pendingPaths (length paths))
                 (int (length pendingPaths), 0)) (\<lambda>failed.
      modS (\<lambda>s. s\<lparr>cursor := advanceCursor (cr_version resp) failed\<rparr>))))))"

definition wouldDelete :: "('w, 'x) deps_scheme \<Rightarrow> changes_response \<Rightarrow> (path \<times> file_stat) list \<Rightarrow> base_store \<Rightarrow> path list" where
  "wouldDelete d resp local b =
     filter (\<lambda>p. p \<in> set (tombstonesOf resp) \<and> p \<in> set (map fst local)) (acceptedBasePaths d b)"

definition passOver ::
  "('w, 'x) deps_scheme \<Rightarrow> changes_response \<Rightarrow> string list \<Rightarrow> (path \<times> file_stat) list \<Rightarrow> ('w, unit) prog" where
  "passOver d resp heldIds local =
     andThen (getS base) (\<lambda>b.
     examine d resp heldIds local b
       (bulkDeleteHold (d_bulkDeleteStrategy d) (d_bulkDeleteThreshold d) (length (wouldDelete d resp local b))
          (length (acceptedBasePaths d b)))
       (computeBulkPushHold d b (map fst local) (map fst (remoteOf resp)) (tombstonesOf resp)))"

text \<open>\<open>reconcileAll\<close>: the fetch, and the rest of the pass on the manifest it returned.\<close>

definition reconcileManifest :: "('w, 'x) deps_scheme \<Rightarrow> changes_response \<Rightarrow> ('w, changes_response) prog" where
  "reconcileManifest d resp =
     (let remote = remoteOf resp; tombstoned = tombstonesOf resp in
      andThen (callback (OnRemotePlugins (remotePlugins remote))) (\<lambda>_.
      andThen (getS base) (\<lambda>b.
      andThen (holdAmbiguous d ''reconcileAll''
                 (map fst remote @ filter (\<lambda>p. p \<notin> set tombstoned) (base_paths b)) []) (\<lambda>heldIds.
      andThen (modS (\<lambda>s. s\<lparr>ambiguous := map_option (\<lambda>_. heldIds) (ambiguous s)\<rparr>)) (\<lambda>_.
      andThen (callback (OnStage ''scanning local files'')) (\<lambda>_.
      andThen (outside (io_list (c_io d))) (\<lambda>listed.
      andThen (getS base) (\<lambda>b2.
      andThen (aliasLocalPaths d listed (map fst remote @ base_paths b2)) (\<lambda>local.
      andThen (passOver d resp heldIds local) (\<lambda>_.
      ret resp))))))))))"

definition reconcileAll :: "('w, 'x) deps_scheme \<Rightarrow> ('w, changes_response) prog" where
  "reconcileAll d =
     andThen (callback (OnStage ''fetching changes from the server'')) (\<lambda>_.
     andThen (fetchChanges d 0) (reconcileManifest d))"

subsection \<open>A delta\<close>

definition deltaOpts ::
  "('w, 'x) deps_scheme \<Rightarrow> changes_response \<Rightarrow> bool \<Rightarrow> path list \<Rightarrow> path \<Rightarrow> bool \<Rightarrow> nat \<Rightarrow> one_opts" where
  "deltaOpts d delta guardBulkDelete caseRenamed p present sz =
     \<lparr>o_signal = False, o_rmeta = map_of (remoteOf delta) p, o_guardDelete = guardBulkDelete, o_guardBulkPush = False,
      o_localSize = sz, o_hasTombstone = (\<lambda>q. q \<in> set (tombstonesOf delta)), o_deletionOf = map_of (deletionsOf delta),
      o_locallyPresent = Some present, o_localStat = None, o_caseRenamed = (p \<in> set caseRenamed)\<rparr>"

definition deltaItem ::
  "('w, 'x) deps_scheme \<Rightarrow> changes_response \<Rightarrow> bool \<Rightarrow> path list \<Rightarrow> path \<Rightarrow> ('w, unit) prog" where
  "deltaItem d delta guardBulkDelete caseRenamed p =
     andThen (case io_exists (c_io d) of Some ex \<Rightarrow> outside (ex p) | None \<Rightarrow> ret True) (\<lambda>present.
     andThen (getS (\<lambda>s. case d_localSizeOf d of Some f \<Rightarrow> f p (world s) | None \<Rightarrow> 0)) (\<lambda>sz.
     reconcileOne d p (deltaOpts d delta guardBulkDelete caseRenamed p present sz)))"

definition reconcileDelta :: "('w, 'x) deps_scheme \<Rightarrow> changes_response \<Rightarrow> ('w, unit) prog" where
  "reconcileDelta d delta =
     andThen (getS base) (\<lambda>b.
     andThen (getS ambiguous) (\<lambda>amb.
     let remote = remoteOf delta; tombstoned = tombstonesOf delta; baseSet = acceptedBasePaths d b;
         deletions = length (filter (\<lambda>p. p \<in> set baseSet) tombstoned);
         guardBulkDelete = bulkDeleteHold (d_bulkDeleteStrategy d) (d_bulkDeleteThreshold d) deletions (length baseSet)
     in
     andThen (holdAmbiguous d ''reconcileDelta''
                (map fst remote @ filter (\<lambda>p. p \<notin> set tombstoned) (base_paths b))
                (case amb of Some xs \<Rightarrow> xs | None \<Rightarrow> [])) (\<lambda>heldIds.
     andThen (modS (\<lambda>s. s\<lparr>ambiguous := map_option (\<lambda>_. heldIds) (ambiguous s)\<rparr>)) (\<lambda>_.
     let changed = filter (\<lambda>p. accepts d p \<and> \<not> isHeldAmbiguous d heldIds p) (jsDistinct (map fst remote @ tombstoned));
         caseRenamed = caseRenamedTombstones d tombstoned (map fst remote)
     in
     andThen (callback (OnProgress (int (length changed)))) (\<lambda>_.
     andThen (isolatedPass d changed [] (deltaItem d delta guardBulkDelete caseRenamed) (changeVersion delta)
                (\<lambda>p k. (fst k - 1, snd k + 1)) (\<lambda>p k. callback (OnProgress (fst k))) (int (length changed), 0)) (\<lambda>failed.
     modS (\<lambda>s. s\<lparr>cursor := advanceCursor (cr_version delta) failed\<rparr>)))))))"

subsection \<open>One path, on an event\<close>

definition fetchMeta :: "('w, 'x) sync_ctx_scheme \<Rightarrow> path \<Rightarrow> ('w, file_meta option) prog" where
  "fetchMeta d p =
     andThen (outside (api_fileMeta (c_api d) p)) (\<lambda>m.
     andThen (record_event (GotMeta p m)) (\<lambda>_. ret m))"

text \<open>
  The evidence of a deletion on the event path: the guard, the tombstone test and the provenance. The
  whole manifest is fetched only for a synced path that the server no longer has.
\<close>

definition deleteEvidence ::
  "('w, 'x) deps_scheme \<Rightarrow> path \<Rightarrow> file_meta option \<Rightarrow> ('w, bool \<times> (path \<Rightarrow> bool) \<times> (path \<Rightarrow> deletion option)) prog" where
  "deleteEvidence d p rmeta =
     andThen (getS (\<lambda>s. base_get (base s) p)) (\<lambda>be.
     if rmeta = None \<and> be \<noteq> None then
       andThen (fetchChanges d 0) (\<lambda>manifest.
       andThen (getS base) (\<lambda>b.
       let remoteSet = jsDistinct (map fm_path (cr_upserts manifest)); basePaths = acceptedBasePaths d b;
           deletions = length (filter (\<lambda>q. q \<notin> set remoteSet) basePaths)
       in ret (isSuspiciousBulkDelete (length basePaths) deletions (remoteSet = []),
               (\<lambda>q. q \<in> set (tombstonesOf manifest)), map_of (deletionsOf manifest))))
     else ret (False, \<lambda>_. False, \<lambda>_. None))"

definition pathOpts ::
  "file_meta option \<Rightarrow> bool \<Rightarrow> nat \<Rightarrow> (path \<Rightarrow> bool) \<Rightarrow> (path \<Rightarrow> deletion option) \<Rightarrow> bool option \<Rightarrow> file_stat option \<Rightarrow> one_opts" where
  "pathOpts rmeta guardDelete sz tomb delOf present st =
     \<lparr>o_signal = True, o_rmeta = rmeta, o_guardDelete = guardDelete, o_guardBulkPush = False, o_localSize = sz,
      o_hasTombstone = tomb, o_deletionOf = delOf, o_locallyPresent = present, o_localStat = st, o_caseRenamed = False\<rparr>"

definition settlePath :: "path \<Rightarrow> path \<Rightarrow> ('w, unit) prog" where
  "settlePath reported p =
     andThen (callback (OnPathSettled p)) (\<lambda>_. whenM (reported \<noteq> p) (callback (OnPathSettled reported)))"

text \<open>The closure variable \<open>signalled\<close>: whether the work callback fired since \<open>before\<close>.\<close>

definition signalledSince :: "event list \<Rightarrow> event list \<Rightarrow> bool" where
  "signalledSince before now \<longleftrightarrow> Callback (OnPathWork True False) \<in> set (take (length now - length before) now)"

definition pathFinally :: "path \<Rightarrow> path \<Rightarrow> event list \<Rightarrow> bool \<Rightarrow> ('w, unit) prog" where
  "pathFinally reported p before failed =
     andThen (getS (\<lambda>s. signalledSince before (log s))) (\<lambda>signalled.
     andThen (whenM signalled (callback (OnPathWork False failed))) (\<lambda>_.
     whenM (\<not> failed) (settlePath reported p)))"

definition bracketed :: "path \<Rightarrow> path \<Rightarrow> ('w, unit) prog \<Rightarrow> ('w, unit) prog" where
  "bracketed reported p m =
     andThen (getS log) (\<lambda>before.
     tryCatch (andThen m (\<lambda>_. pathFinally reported p before False))
       (\<lambda>e. if e_kind e = CommitConflictError
            then andThen (callback (OnFileError p e)) (\<lambda>_. pathFinally reported p before False)
            else andThen (pathFinally reported p before True) (\<lambda>_. throwE e)))"

definition reconcilePath :: "('w, 'x) deps_scheme \<Rightarrow> path \<Rightarrow> nat \<Rightarrow> ('w, unit) prog" where
  "reconcilePath d reported localSize =
     andThen (canonicalLocalPath d reported) (\<lambda>p.
     andThen (getS ambiguous) (\<lambda>amb.
     if (case amb of Some heldIds \<Rightarrow> isHeldAmbiguous d heldIds p | None \<Rightarrow> False) then settlePath reported p
     else
       andThen (fetchMeta d p) (\<lambda>rmeta.
       andThen (getS (\<lambda>s. case d_localSizeOf d of Some f \<Rightarrow> f p (world s) | None \<Rightarrow> localSize)) (\<lambda>liveSize.
       andThen (deleteEvidence d p rmeta) (\<lambda>(guardDelete, tomb, delOf).
       andThen (case (rmeta, io_exists (c_io d)) of
                  (Some _, Some ex) \<Rightarrow> andThen (outside (ex p)) (\<lambda>x. ret (Some x))
                | _ \<Rightarrow> ret None) (\<lambda>present.
       andThen (getS (\<lambda>s. Option.bind (d_statOf d) (\<lambda>f. f p (world s)))) (\<lambda>st.
       bracketed reported p (reconcileOne d p (pathOpts rmeta guardDelete liveSize tomb delOf present st)))))))))"

subsection \<open>The periodic scan of the configuration\<close>

definition configOpts :: "file_meta option \<Rightarrow> nat \<Rightarrow> bool \<Rightarrow> one_opts" where
  "configOpts rmeta sz present =
     \<lparr>o_signal = False, o_rmeta = rmeta, o_guardDelete = False, o_guardBulkPush = False, o_localSize = sz,
      o_hasTombstone = (\<lambda>_. False), o_deletionOf = (\<lambda>_. None), o_locallyPresent = Some present, o_localStat = None,
      o_caseRenamed = False\<rparr>"

definition configItem :: "('w, 'x) deps_scheme \<Rightarrow> (path \<times> file_stat) list \<Rightarrow> path \<Rightarrow> ('w, unit) prog" where
  "configItem d local p =
     (if \<not> accepts d p then ret ()
      else
        andThen (getS (\<lambda>s. base_get (base s) p)) (\<lambda>be.
        if baseStatUnchanged be (map_of local p) then ret ()
        else
          andThen (readOrNull d p) (\<lambda>cur.
          if map_option (shaOf d) cur = map_option be_hash be
          then whenM (cur \<noteq> None) (stamp p (map_of local p))
          else
            tryCatch
              (andThen (fetchMeta d p) (\<lambda>rmeta.
               reconcileOne d p (configOpts rmeta (case cur of Some b \<Rightarrow> length b | None \<Rightarrow> 0) (map_of local p \<noteq> None))))
              (\<lambda>e. if isConnectionError e then throwE e else callback (OnFileError p e)))))"

definition reconcileLocalConfig :: "('w, 'x) deps_scheme \<Rightarrow> ('w, unit) prog" where
  "reconcileLocalConfig d =
     andThen (outside (io_list (c_io d))) (\<lambda>listed.
     andThen (getS base) (\<lambda>b.
     andThen (aliasLocalPaths d listed (base_paths b)) (\<lambda>local.
     forEach (jsDistinct (filter isConfig (map fst local) @ filter isConfig (base_paths b))) (configItem d local))))"

subsection \<open>Held batches\<close>

definition changedIfAny :: "path list \<Rightarrow> ('w, unit) prog" where
  "changedIfAny ps = whenM (ps \<noteq> []) (callback OnBaseChanged)"

definition applyHeldDeletions :: "('w, 'x) deps_scheme \<Rightarrow> path list \<Rightarrow> ('w, unit) prog" where
  "applyHeldDeletions d ps =
     andThen
       (forEach ps (\<lambda>p.
          tryCatch
            (andThen (perform (IoRemove p) (io_remove (c_io d) p)) (\<lambda>_. modS (\<lambda>s. s\<lparr>base := base_delete p (base s)\<rparr>)))
            (\<lambda>e. callback (OnFileError p e))))
       (\<lambda>_. changedIfAny ps)"

definition keepHeldDeletions :: "path list \<Rightarrow> ('w, unit) prog" where
  "keepHeldDeletions ps =
     andThen (forEach ps (\<lambda>p. modS (\<lambda>s. s\<lparr>base := base_delete p (base s)\<rparr>))) (\<lambda>_. changedIfAny ps)"

definition applyHeldPushes :: "('w, 'x) deps_scheme \<Rightarrow> path list \<Rightarrow> ('w, unit) prog" where
  "applyHeldPushes d ps =
     andThen
       (forEach ps (\<lambda>p.
          tryCatch (andThen (pushFile d p (Some 0)) (\<lambda>(h, b). setBase d p b h)) (\<lambda>e. callback (OnFileError p e))))
       (\<lambda>_. changedIfAny ps)"

definition keepHeldPushes :: "('w, 'x) deps_scheme \<Rightarrow> path list \<Rightarrow> ('w, unit) prog" where
  "keepHeldPushes d ps =
     andThen (tryCatch (andThen (fetchChanges d 0) (\<lambda>r. ret (tombstonesOf r))) (\<lambda>_. ret (jsDistinct ps))) (\<lambda>tombstoned.
     andThen
       (forEach ps (\<lambda>p.
          if p \<in> set tombstoned then ret ()
          else
            tryCatch
              (andThen (readOrNull d p) (\<lambda>r.
               case r of None \<Rightarrow> ret () | Some b \<Rightarrow> setBase d p b (shaOf d b)))
              (\<lambda>e. callback (OnFileError p e))))
       (\<lambda>_. changedIfAny ps))"

subsection \<open>Switching to another vault\<close>

datatype switch_mode = SwitchDownload | SwitchUpload | SwitchMerge

definition maxSync :: "('w, 'x) deps_scheme \<Rightarrow> nat" where
  "maxSync d = (case d_maxSyncBytes d of Some n \<Rightarrow> n | None \<Rightarrow> DEFAULT_MAX_SYNC_BYTES)"

text \<open>One adopted file of a download: the result is the version to hold the cursor below, if any.\<close>

definition adoptItem ::
  "('w, 'x) deps_scheme \<Rightarrow> (path \<times> base_entry) list \<Rightarrow> path \<Rightarrow> file_meta \<Rightarrow> ('w, int list) prog" where
  "adoptItem d oldBase p m =
     (if fm_size m > maxSync d \<and> \<not> (STREAM_MIN_BYTES \<le> fm_size m \<and> io_appendWrite (c_io d) \<noteq> None)
      then andThen (callback (OnSkip p (fm_size m))) (\<lambda>_. ret [])
      else
        tryCatch (andThen (applyPull d p m None False) (\<lambda>_. andThen (clearBudget p) (\<lambda>_. ret [])))
          (\<lambda>e. if isConnectionError e then throwE e
               else
                 andThen (callback (OnFileError p e)) (\<lambda>_.
                 andThen (case map_of oldBase p of
                            None \<Rightarrow> ret ()
                          | Some prev \<Rightarrow> modS (\<lambda>s. s\<lparr>base := base_set p prev (base s)\<rparr>)) (\<lambda>_.
                 andThen (holdForRetryM p (fm_version m)) (\<lambda>hold.
                 ret (if hold then [fm_version m] else []))))))"

fun adoptLoop ::
  "('w, 'x) deps_scheme \<Rightarrow> (path \<times> base_entry) list \<Rightarrow> (path \<times> file_meta) list \<Rightarrow> int \<Rightarrow> int list \<Rightarrow> ('w, int list) prog" where
  "adoptLoop d oldBase [] pending failed = ret failed"
| "adoptLoop d oldBase ((p, m) # rest) pending failed =
     andThen (adoptItem d oldBase p m) (\<lambda>f.
     andThen (callback (OnProgress (pending - 1))) (\<lambda>_.
     adoptLoop d oldBase rest (pending - 1) (failed @ f)))"

definition switchDownload ::
  "('w, 'x) deps_scheme \<Rightarrow> (path \<times> file_meta) list \<Rightarrow> (path \<times> file_stat) list \<Rightarrow> (path \<times> base_entry) list \<Rightarrow> ('w, int list) prog" where
  "switchDownload d remote local oldBase =
     andThen (callback (OnProgress (int (length remote)))) (\<lambda>_.
     andThen (adoptLoop d oldBase remote (int (length remote)) []) (\<lambda>failed.
     let acceptedLocal = filter (accepts d) (map fst local);
         toRemove = filter (\<lambda>p. map_of remote p = None) acceptedLocal;
         guardMassDelete = isSuspiciousBulkDelete (length acceptedLocal) (length toRemove) (remote = [])
     in
     andThen
       (forEach toRemove (\<lambda>p.
          if guardMassDelete then callback (OnGuard p)
          else (case map_of local p of
                  None \<Rightarrow> ret ()
                | Some (sz, _) \<Rightarrow>
                    if sz > maxSync d then callback (OnSkip p sz)
                    else tryCatch (perform (IoRemove p) (io_remove (c_io d) p)) (\<lambda>e. callback (OnFileError p e)))))
       (\<lambda>_. ret failed)))"

definition uploadItem :: "('w, 'x) deps_scheme \<Rightarrow> path \<Rightarrow> ('w, unit) prog" where
  "uploadItem d p =
     tryCatch (andThen (pushFile d p None) (\<lambda>(h, b). setBase d p b h))
       (\<lambda>e. if isConnectionError e then throwE e else callback (OnFileError p e))"

fun uploadLoop :: "('w, 'x) deps_scheme \<Rightarrow> (path \<times> file_stat) list \<Rightarrow> int \<Rightarrow> ('w, unit) prog" where
  "uploadLoop d [] pending = ret ()"
| "uploadLoop d ((p, sz, mt) # rest) pending =
     (if \<not> accepts d p then uploadLoop d rest pending
      else if sz > maxSync d then andThen (callback (OnSkip p sz)) (\<lambda>_. uploadLoop d rest pending)
      else
        andThen (uploadItem d p) (\<lambda>_.
        andThen (callback (OnProgress (pending - 1))) (\<lambda>_.
        uploadLoop d rest (pending - 1))))"

definition dropRemoteItem :: "('w, 'x) deps_scheme \<Rightarrow> (path \<times> file_stat) list \<Rightarrow> path \<Rightarrow> ('w, unit) prog" where
  "dropRemoteItem d local p =
     (if map_of local p \<noteq> None then ret ()
      else
        andThen (probePresence d p) (\<lambda>pr.
        if pr \<noteq> Absent then ret ()
        else
          tryCatch (perform (ApiDelete p None) (api_deleteFile (c_api d) p None))
            (\<lambda>e. if isConnectionError e then throwE e else callback (OnFileError p e))))"

definition switchUpload ::
  "('w, 'x) deps_scheme \<Rightarrow> (path \<times> file_meta) list \<Rightarrow> (path \<times> file_stat) list \<Rightarrow> ('w, unit) prog" where
  "switchUpload d remote local =
     (let pending = int (length (filter (\<lambda>(p, sz, mt). accepts d p \<and> sz \<le> maxSync d) local)) in
      andThen (callback (OnProgress pending)) (\<lambda>_.
      andThen (uploadLoop d local pending) (\<lambda>_.
      forEach (map fst remote) (dropRemoteItem d local))))"

definition switchTo :: "('w, 'x) deps_scheme \<Rightarrow> switch_mode \<Rightarrow> ('w, unit) prog" where
  "switchTo d mode =
     andThen (getS base) (\<lambda>b.
     let oldBase = map (\<lambda>p. (p, the (base_get b p))) (base_paths b) in
     andThen (modS (\<lambda>s. s\<lparr>base := fold base_delete (base_paths b) (base s),
                budget := map_option (\<lambda>_. Map.empty) (budget s)\<rparr>)) (\<lambda>_.
     andThen (callback OnBaseChanged) (\<lambda>_.
     if mode = SwitchUpload \<and> d_readOnly d
     then throwE (newError ''refusing to upload to a read-only shared vault'')
     else if mode = SwitchMerge then andThen (reconcileAll d) (\<lambda>_. ret ())
     else
       andThen (fetchChanges d 0) (\<lambda>resp.
       let remote = mapFrom fm_path (filter (\<lambda>f. accepts d (fm_path f)) (cr_upserts resp)) in
       andThen (outside (io_list (c_io d))) (\<lambda>local.
       andThen (if mode = SwitchDownload then switchDownload d remote local oldBase
                else andThen (switchUpload d remote local) (\<lambda>_. ret [])) (\<lambda>failedRemote.
       modS (\<lambda>s. s\<lparr>cursor := advanceCursor (cr_version resp) failedRemote\<rparr>)))))))"

end
