(* ===== verification/SampleWorld.thy ===== *)
theory SampleWorld
  imports Reconcile
begin

text \<open>
  A world in memory, to run the model on: a vault of files, some of which may be locked, and a server
  that keeps chunks, current files and tombstones under increasing versions and refuses a commit or a
  deletion whose expected version is not the current one. Hashing and the text codec are simple stand-ins;
  the theorems they illustrate hold for every world and every host.
\<close>

record mem =
  m_files :: "(path \<times> bytes) list"
  m_locked :: "path list"
  m_temp :: "path \<times> bytes"
  m_chunks :: "(hash \<times> bytes) list"
  m_live :: "(path \<times> file_meta) list"
  m_dead :: "(path \<times> deletion) list"
  m_version :: int

definition memRead :: "path \<Rightarrow> (mem, bytes) outside" where
  "memRead p w =
     (if p \<in> set (m_locked w) then (Inl (newError ''EBUSY''), w)
      else case map_of (m_files w) p of None \<Rightarrow> (Inl (newError ''ENOENT''), w) | Some b \<Rightarrow> (Inr b, w))"

definition memIo :: "mem vault_io" where
  "memIo =
     \<lparr>io_list = (\<lambda>w. (Inr (map (\<lambda>(p, b). (p, length b, 0)) (m_files w)), w)),
      io_read = memRead,
      io_write = (\<lambda>p b w. (Inr (), w\<lparr>m_files := AList.update p b (m_files w)\<rparr>)),
      io_remove = (\<lambda>p w. (Inr (), w\<lparr>m_files := AList.delete p (m_files w)\<rparr>)),
      io_exists = Some (\<lambda>p w. (Inr (map_of (m_files w) p \<noteq> None), w)),
      io_appendWrite = Some
        \<lparr>ap_open = (\<lambda>p w. (Inr 0, w\<lparr>m_temp := (p, [])\<rparr>)),
         ap_append = (\<lambda>h b w. (Inr (), w\<lparr>m_temp := (fst (m_temp w), snd (m_temp w) @ b)\<rparr>)),
         ap_close = (\<lambda>h w. (Inr (), w\<lparr>m_files := AList.update (fst (m_temp w)) (snd (m_temp w)) (m_files w)\<rparr>)),
         ap_abort = (\<lambda>h w. (Inr (), w))\<rparr>\<rparr>"

definition currentVersion :: "path \<Rightarrow> mem \<Rightarrow> int" where
  "currentVersion p w = (case map_of (m_live w) p of Some m \<Rightarrow> fm_version m | None \<Rightarrow> 0)"

definition conflictError :: err where
  "conflictError = \<lparr>e_kind = CommitConflictError, e_msg = ''commit conflict''\<rparr>"

definition memCommit :: "commit_request \<Rightarrow> (mem, file_meta) outside" where
  "memCommit q w =
     (if cq_expectedVersion q \<noteq> None \<and> cq_expectedVersion q \<noteq> Some (currentVersion (cq_path q) w) then (Inl conflictError, w)
      else
        (let v = m_version w + 1;
             m = \<lparr>fm_path = cq_path q, fm_hash = cq_hash q, fm_size = cq_size q, fm_mtime = cq_mtime q, fm_version = v,
                  fm_chunks = cq_chunks q, fm_author = None, fm_deviceId = None, fm_deviceName = None\<rparr>
         in (Inr m, w\<lparr>m_version := v, m_live := AList.update (cq_path q) m (m_live w),
                       m_dead := AList.delete (cq_path q) (m_dead w)\<rparr>)))"

definition memDelete :: "path \<Rightarrow> int option \<Rightarrow> (mem, unit) outside" where
  "memDelete p ver w =
     (if ver \<noteq> None \<and> ver \<noteq> Some (currentVersion p w) then (Inl conflictError, w)
      else
        (let v = m_version w + 1;
             x = \<lparr>dl_path = p, dl_version = v, dl_author = None, dl_deviceId = None, dl_deviceName = None\<rparr>
         in (Inr (), w\<lparr>m_version := v, m_live := AList.delete p (m_live w), m_dead := AList.update p x (m_dead w)\<rparr>)))"

definition memApi :: "mem sync_api" where
  "memApi =
     \<lparr>api_changes = (\<lambda>since w. (Inr \<lparr>cr_version = m_version w,
        cr_upserts = filter (\<lambda>m. fm_version m > since) (map snd (m_live w)),
        cr_deletes = filter (\<lambda>x. dl_version x > since) (map snd (m_dead w)), cr_history_floor = None\<rparr>, w)),
      api_fileMeta = (\<lambda>p w. (Inr (map_of (m_live w) p), w)),
      api_missing = (\<lambda>hs w. (Inr (filter (\<lambda>h. map_of (m_chunks w) h = None) hs), w)),
      api_getChunk = (\<lambda>h w. (case map_of (m_chunks w) h of
         None \<Rightarrow> Inl (newError ''getChunk: HTTP 404'') | Some b \<Rightarrow> Inr b, w)),
      api_putChunk = (\<lambda>h b w. (Inr (), w\<lparr>m_chunks := AList.update h b (m_chunks w)\<rparr>)),
      api_commit = memCommit,
      api_deleteFile = memDelete\<rparr>"

definition sampleHost :: host where
  "sampleHost =
     \<lparr>h_sha = (\<lambda>b. map char_of b), h_decode = (\<lambda>b. Some b), h_decodeLossy = (\<lambda>b. b), h_encode = (\<lambda>t. t), h_nfc = (\<lambda>s. s),
      h_nfcText = (\<lambda>t. t), h_jsonParse = sampleParse, h_stringify = sampleStringify\<rparr>"

definition sampleDeps :: "bool \<Rightarrow> mem deps" where
  "sampleDeps readOnly =
     \<lparr>c_io = memIo, c_api = memApi, c_host = sampleHost, c_nowMs = (\<lambda>_. 0),
      c_nowUtc = (\<lambda>_. \<lparr>u_year = 2026, u_month = 1, u_day = 2, u_hour = 3, u_minute = 4, u_second = 5\<rparr>),
      d_device = ''Laptop'', d_ignorePatterns = [], d_excludedFolders = [], d_statOf = None, d_maxSyncBytes = None,
      d_readOnly = readOnly, d_noResurrect = False, d_preserveLocalFirstContact = True, d_alive = None, d_accepts = None,
      d_pushFlipHold = None, d_bulkDeleteStrategy = Some StratCount, d_bulkDeleteThreshold = Some 1,
      d_caseInsensitivePaths = False, d_normalizationInsensitivePaths = False, d_localSizeOf = None,
      d_violationThrows = False\<rparr>"

definition emptyMem :: mem where
  "emptyMem = \<lparr>m_files = [], m_locked = [], m_temp = ('''', []), m_chunks = [], m_live = [], m_dead = [], m_version = 0\<rparr>"

definition startIn :: "mem \<Rightarrow> base_store \<Rightarrow> mem sync_state" where
  "startIn w b = \<lparr>world = w, base = b, cache = [], cursor = 0, budget = None, rejected = None, ambiguous = None, log = []\<rparr>"

definition oneChunk :: mem where
  "oneChunk = emptyMem\<lparr>m_chunks := [(''ab'', [97, 98])]\<rparr>"

lemma fetch_authentic_witness:
  "cache_ok (h_sha (c_host (sampleDeps False))) (cache (snd (fetchFileBytes (sampleDeps False) [''ab''] (startIn oneChunk (baseStore [])))))
   \<and> fst (fetchFileBytes (sampleDeps False) [''ab''] (startIn oneChunk (baseStore []))) = Inr [97, 98]
   \<and> (\<exists>parts. [97, 98] = concat parts \<and> map (h_sha (c_host (sampleDeps False))) parts = [''ab''])"
proof -
  have "cache_ok (h_sha (c_host (sampleDeps False))) (cache (startIn oneChunk (baseStore [])))"
    by (simp add: cache_ok_def startIn_def)
  note fetched = fetch_authentic [OF this, of "[''ab'']"]
  have ab: "char_of (97::nat) = CHR ''a''" "char_of (98::nat) = CHR ''b''" by code_simp+
  have run: "\<exists>s'. fetchFileBytes (sampleDeps False) [''ab''] (startIn oneChunk (baseStore [])) = (Inr [97, 98], s')"
    by (simp add: fetchFileBytes_def mapPool_def getVerifiedChunk_def prog_simps startIn_def oneChunk_def emptyMem_def
        sampleDeps_def memApi_def sampleHost_def ab)
  then show ?thesis using fetched by fastforce
qed


text \<open>A synced note that the vault lists but that is locked just now.\<close>

definition lockedNote :: mem where
  "lockedNote = emptyMem\<lparr>m_files := [(''a.md'', [104])], m_locked := [''a.md'']\<rparr>"

definition noteBase :: base_store where
  "noteBase = base_set ''a.md'' (hashOnly ''h'') (baseStore [])"

definition presentOpts :: one_opts where
  "presentOpts = \<lparr>o_signal = False, o_rmeta = None, o_guardDelete = False, o_guardBulkPush = False, o_localSize = 1,
     o_hasTombstone = (\<lambda>_. True), o_deletionOf = (\<lambda>_. None), o_locallyPresent = Some True, o_localStat = None,
     o_caseRenamed = False\<rparr>"

lemma unreadable_not_deleted_witness:
  "\<exists>s'. reconcileOne (sampleDeps False) ''a.md'' presentOpts (startIn lockedNote noteBase) = (Inl (unreadableError ''a.md''), s')
     \<and> log s' = [GotRead ''a.md'' None]"
proof -
  have "reconcileOne (sampleDeps False) ''a.md'' presentOpts (startIn lockedNote noteBase)
      = (Inl (unreadableError ''a.md''), startIn lockedNote noteBase\<lparr>world := lockedNote,
           log := GotRead ''a.md'' None # log (startIn lockedNote noteBase)\<rparr>)"
  proof (rule unreadable_not_deleted)
    show "base_get (base (startIn lockedNote noteBase)) ''a.md'' = Some (hashOnly ''h'')"
      by (simp add: startIn_def noteBase_def baseStore_def base_set_def base_get_def)
    show "io_read (c_io (sampleDeps False)) ''a.md'' (world (startIn lockedNote noteBase)) = (Inl (newError ''EBUSY''), lockedNote)"
      by (simp add: sampleDeps_def memIo_def memRead_def startIn_def lockedNote_def)
  qed (simp_all add: accepts_def tooLarge_def presentOpts_def sampleDeps_def DEFAULT_MAX_SYNC_BYTES_def)
  then show ?thesis by (simp add: startIn_def)
qed

lemma keep_local_unreadable_deletes_witness:
  "ApiDelete ''a.md'' None \<in> set (log (snd (resolveConfigConflict (sampleDeps False) ''a.md'' KeepLocal (startIn lockedNote noteBase))))"
  by (rule keep_local_unreadable_deletes [of _ _ _ "newError ''EBUSY''" lockedNote])
    (simp add: sampleDeps_def memIo_def memRead_def startIn_def lockedNote_def)

end
