(* ===== verification/MountIo.thy ===== *)
theory MountIo
  imports Mounts Passes SampleWorld
begin

text \<open>
  The adapters of a mount, \<open>client/src/mountio.ts\<close>: a vault and a server interface in the paths relative to
  the mount, over the real vault and the source vault. The state of a \<open>MountedIo\<close>, the spelling of the
  mount point found on disk, is kept beside the outside world.
\<close>

definition isDataPath :: "path \<Rightarrow> bool" where
  "isDataPath rel =
     (let segs = filter (\<lambda>s. s \<noteq> '''') (splitOn (CHR ''/'') rel) in
      length segs > 0 \<and> toLowerCase (hd segs) \<noteq> ''.obsidian'')"

record 'w mounted =
  mw_world :: 'w
  mw_real :: "path option"

text \<open>A call of the underlying interface.\<close>

definition below :: "('w, 'a) outside \<Rightarrow> ('w mounted, 'a) outside" where
  "below f = (\<lambda>w. case f (mw_world w) of (r, w') \<Rightarrow> (r, w\<lparr>mw_world := w'\<rparr>))"

definition mapResult :: "('a \<Rightarrow> 'b) \<Rightarrow> ('w, 'a) outside \<Rightarrow> ('w, 'b) outside" where
  "mapResult g f = (\<lambda>w. case f w of (r, w') \<Rightarrow> (map_sum id g r, w'))"

definition refuse :: "string \<Rightarrow> ('w, 'a) outside" where
  "refuse msg = (\<lambda>w. (Inl (newError msg), w))"

definition mountAt :: "mount \<Rightarrow> 'w mounted \<Rightarrow> mount" where
  "mountAt m w =
     (case mw_real w of
        Some spelt \<Rightarrow> if spelt = '''' then m else m\<lparr>mt_mountPoint := spelt\<rparr>
      | None \<Rightarrow> m)"

definition localOf :: "mount \<Rightarrow> path \<Rightarrow> 'w mounted \<Rightarrow> path" where
  "localOf m rel w = localFromMountRel (mountAt m w) rel"

definition realPrefix :: "path \<Rightarrow> path \<Rightarrow> path" where
  "realPrefix p rel = trimEndBy (\<lambda>c. c = CHR ''/'') (take (length p - length rel) p)"

definition listEntry ::
  "(string \<Rightarrow> string) \<Rightarrow> mount \<Rightarrow> (path \<times> file_stat) list \<times> path option \<Rightarrow> path \<times> file_stat \<Rightarrow> (path \<times> file_stat) list \<times> path option" where
  "listEntry nfc m acc e =
     (case (acc, e) of
        ((out, spelt), (p, stat)) \<Rightarrow>
          (case mountRelFromLocal nfc m p of
             None \<Rightarrow> acc
           | Some rel \<Rightarrow>
               if rel = '''' \<or> \<not> isDataPath rel then acc
               else (AList.update rel stat out,
                     if spelt = None \<and> length p > length rel then Some (realPrefix p rel) else spelt)))"

definition mountedList :: "(string \<Rightarrow> string) \<Rightarrow> mount \<Rightarrow> 'w vault_io \<Rightarrow> ('w mounted, (path \<times> file_stat) list) outside" where
  "mountedList nfc m io w =
     (case io_list io (mw_world w) of
        (Inl e, w') \<Rightarrow> (Inl e, w\<lparr>mw_world := w'\<rparr>)
      | (Inr files, w') \<Rightarrow>
          (case foldl (listEntry nfc m) ([], mw_real w) files of
             (out, spelt) \<Rightarrow> (Inr out, w\<lparr>mw_world := w', mw_real := spelt\<rparr>)))"

definition mountedIo :: "(string \<Rightarrow> string) \<Rightarrow> mount \<Rightarrow> 'w vault_io \<Rightarrow> 'w mounted vault_io" where
  "mountedIo nfc m io =
     \<lparr>io_list = mountedList nfc m io,
      io_read = (\<lambda>rel w. below (io_read io (localOf m rel w)) w),
      io_write = (\<lambda>rel b w. below (io_write io (localOf m rel w) b) w),
      io_remove = (\<lambda>rel w. below (io_remove io (localOf m rel w)) w),
      io_exists = map_option (\<lambda>ex rel w. below (ex (localOf m rel w)) w) (io_exists io),
      io_appendWrite = map_option (\<lambda>ap.
        \<lparr>ap_open = (\<lambda>rel w. below (ap_open ap (localOf m rel w)) w),
         ap_append = (\<lambda>h b. below (ap_append ap h b)),
         ap_close = (\<lambda>h. below (ap_close ap h)),
         ap_abort = (\<lambda>h. below (ap_abort ap h))\<rparr>) (io_appendWrite io)\<rparr>"

subsection \<open>The source\<close>

definition toRel :: "(string \<Rightarrow> string) \<Rightarrow> mount \<Rightarrow> file_meta \<Rightarrow> file_meta option" where
  "toRel nfc m f = map_option (\<lambda>rel. f\<lparr>fm_path := rel\<rparr>) (mountRelFromSource nfc m (fm_path f))"

definition deletionToRel :: "(string \<Rightarrow> string) \<Rightarrow> mount \<Rightarrow> deletion \<Rightarrow> deletion option" where
  "deletionToRel nfc m x =
     (case mountRelFromSource nfc m (dl_path x) of
        None \<Rightarrow> None
      | Some rel \<Rightarrow> if isDataPath rel then Some (x\<lparr>dl_path := rel\<rparr>) else None)"

definition mountedChanges :: "(string \<Rightarrow> string) \<Rightarrow> mount \<Rightarrow> changes_response \<Rightarrow> changes_response" where
  "mountedChanges nfc m r =
     r\<lparr>cr_upserts := filter (\<lambda>f. isDataPath (fm_path f)) (List.map_filter (toRel nfc m) (cr_upserts r)),
       cr_deletes := List.map_filter (deletionToRel nfc m) (cr_deletes r)\<rparr>"

definition mountedApi :: "(string \<Rightarrow> string) \<Rightarrow> mount \<Rightarrow> 'w sync_api \<Rightarrow> 'w mounted sync_api" where
  "mountedApi nfc m api =
     \<lparr>api_changes = (\<lambda>since. mapResult (mountedChanges nfc m) (below (api_changes api since))),
      api_fileMeta = (\<lambda>rel.
        if \<not> isDataPath rel then (\<lambda>w. (Inr None, w))
        else mapResult (map_option (\<lambda>f. f\<lparr>fm_path := rel\<rparr>)) (below (api_fileMeta api (sourceFromMountRel m rel)))),
      api_missing = (\<lambda>hs. below (api_missing api hs)),
      api_getChunk = (\<lambda>h. below (api_getChunk api h)),
      api_putChunk = (\<lambda>h b.
        if mt_direction m = DirPull then refuse ''MountedApi: refusing to putChunk on a pull (read-only) mount source''
        else below (api_putChunk api h b)),
      api_commit = (\<lambda>req.
        if mt_direction m = DirPull then refuse ''MountedApi: refusing to write to a pull (read-only) mount source''
        else if \<not> isDataPath (cq_path req)
          then refuse ''MountedApi: refusing to write a non-data (config) path across a mount boundary''
        else mapResult (\<lambda>f. f\<lparr>fm_path := cq_path req\<rparr>)
          (below (api_commit api (req\<lparr>cq_path := sourceFromMountRel m (cq_path req)\<rparr>)))),
      api_deleteFile = (\<lambda>rel v.
        if mt_direction m = DirPull then refuse ''MountedApi: refusing to delete on a pull (read-only) mount source''
        else if \<not> isDataPath rel
          then refuse ''MountedApi: refusing to delete a non-data (config) path across a mount boundary''
        else below (api_deleteFile api (sourceFromMountRel m rel) v))\<rparr>"

subsection \<open>The local side is confined to the mount\<close>

text \<open>
  The learned spelling names the configured folder. This is kept by every listing whose paths are in
  normal form, as the paths of a vault are.
\<close>

definition spellOk :: "(string \<Rightarrow> string) \<Rightarrow> mount \<Rightarrow> path option \<Rightarrow> bool" where
  "spellOk nfc m spelt \<longleftrightarrow>
     (case spelt of None \<Rightarrow> True | Some r \<Rightarrow> map (canonSeg nfc) (segsOf r) = map (canonSeg nfc) (segsOf (mt_mountPoint m)))"

lemma trimEndBy_snoc: "p c \<Longrightarrow> s \<noteq> [] \<Longrightarrow> \<not> p (last s) \<Longrightarrow> trimEndBy p (s @ [c]) = s"
  by (cases s rule: rev_cases) (simp_all add: trimEndBy_def)

lemma last_joined: "plainSegs xs \<Longrightarrow> xs \<noteq> [] \<Longrightarrow> joinWith ''/'' xs \<noteq> [] \<and> last (joinWith ''/'' xs) \<noteq> CHR ''/''"
proof (induction xs)
  case (Cons x xs)
  have "x \<noteq> []" "last x \<noteq> CHR ''/''"
    using Cons.prems(1) by (auto simp: plainSegs_def goodSeg_def) (metis last_in_set)
  then show ?case using Cons by (cases xs) (auto simp: plainSegs_def)
qed simp

lemma realPrefix_eq:
  assumes "normFolder p = p" "n \<le> length (segsOf p)" "0 < n" "rel = joinWith ''/'' (drop n (segsOf p))" "rel \<noteq> ''''"
  shows "realPrefix p rel = joinWith ''/'' (take n (segsOf p))"
proof -
  let ?a = "take n (segsOf p)" and ?b = "drop n (segsOf p)"
  have b: "?b \<noteq> []" using assms(4,5) by auto
  have a: "?a \<noteq> []" using assms(2,3) b by auto
  have plain: "plainSegs ?a" using plain_segsOf [of p] by (metis append_take_drop_id plainSegs_append)
  have "p = joinWith ''/'' (?a @ ?b)" by (metis append_take_drop_id assms(1) normFolder_segs)
  also have "\<dots> = joinWith ''/'' ?a @ ''/'' @ rel" unfolding assms(4) by (rule joinWith_append [OF a b])
  finally have p: "p = (joinWith ''/'' ?a @ ''/'') @ rel" by simp
  have "trimEndBy (\<lambda>c. c = CHR ''/'') (joinWith ''/'' ?a @ ''/'') = joinWith ''/'' ?a"
    using last_joined [OF plain a] by (intro trimEndBy_snoc) simp_all
  moreover have "take (length p - length rel) p = joinWith ''/'' ?a @ ''/''"
    using arg_cong [OF p, of length] by (metis append_eq_conv_conj add_diff_cancel_right' length_append p)
  ultimately show ?thesis by (simp add: realPrefix_def)
qed

lemma mountRelFromLocal_Some:
  "mountRelFromLocal nfc m p = Some rel \<longleftrightarrow>
     segsOf (mt_mountPoint m) \<noteq> [] \<and> underOrEqual nfc (segsOf p) (segsOf (mt_mountPoint m))
     \<and> rel = joinWith ''/'' (drop (length (segsOf (mt_mountPoint m))) (segsOf p))"
  by (auto simp: mountRelFromLocal_def Let_def)

lemma canon_take:
  assumes "underOrEqual nfc p q"
  shows "map (canonSeg nfc) (take (length q) p) = map (canonSeg nfc) q" "length q \<le> length p"
proof -
  obtain r where r: "map (canonSeg nfc) p = map (canonSeg nfc) q @ r" using assms underOrEqual_iff by blast
  then show "map (canonSeg nfc) (take (length q) p) = map (canonSeg nfc) q" by (simp flip: take_map)
  show "length q \<le> length p" using arg_cong [OF r, of length] by simp
qed

lemma realPrefix_rel:
  assumes "mountRelFromLocal nfc m p = Some rel" "normFolder p = p" "rel \<noteq> ''''"
  shows "realPrefix p rel = joinWith ''/'' (take (length (segsOf (mt_mountPoint m))) (segsOf p))"
    and "segsOf (realPrefix p rel) = take (length (segsOf (mt_mountPoint m))) (segsOf p)"
proof -
  let ?n = "length (segsOf (mt_mountPoint m))"
  have under: "underOrEqual nfc (segsOf p) (segsOf (mt_mountPoint m))" "segsOf (mt_mountPoint m) \<noteq> []"
    and rel: "rel = joinWith ''/'' (drop ?n (segsOf p))"
    using assms(1) by (auto simp: mountRelFromLocal_Some)
  show *: "realPrefix p rel = joinWith ''/'' (take ?n (segsOf p))"
    using realPrefix_eq [OF assms(2) canon_take(2) [OF under(1)] _ rel assms(3)] under(2) by simp
  have "plainSegs (take ?n (segsOf p))"
    using plain_segsOf [of p] by (metis append_take_drop_id plainSegs_append)
  then show "segsOf (realPrefix p rel) = take ?n (segsOf p)" by (simp add: *)
qed

lemma spellOk_listEntry:
  "spellOk nfc m (snd acc) \<Longrightarrow> normFolder (fst e) = fst e \<Longrightarrow> spellOk nfc m (snd (listEntry nfc m acc e))"
proof -
  assume ok: "spellOk nfc m (snd acc)" and normal: "normFolder (fst e) = fst e"
  have "map (canonSeg nfc) (segsOf (realPrefix (fst e) rel)) = map (canonSeg nfc) (segsOf (mt_mountPoint m))"
    if "mountRelFromLocal nfc m (fst e) = Some rel" "rel \<noteq> ''''" for rel
    using realPrefix_rel(2) [OF that(1) normal that(2)] canon_take(1) that(1) by (auto simp: mountRelFromLocal_Some)
  with ok show ?thesis
    by (cases acc; cases e) (auto simp: listEntry_def spellOk_def split: option.splits)
qed

lemma spellOk_list:
  assumes "spellOk nfc m (mw_real w)"
    and "\<And>files w'. io_list io (mw_world w) = (Inr files, w') \<Longrightarrow> list_all (\<lambda>(p, _). normFolder p = p) files"
  shows "spellOk nfc m (mw_real (snd (mountedList nfc m io w)))"
proof -
  have "list_all (\<lambda>(p, _). normFolder p = p) files \<Longrightarrow> spellOk nfc m (snd acc) \<Longrightarrow>
      spellOk nfc m (snd (foldl (listEntry nfc m) acc files))" for files acc
  proof (induction files arbitrary: acc)
    case (Cons e files)
    then have "spellOk nfc m (snd (listEntry nfc m acc e))" by (auto intro!: spellOk_listEntry)
    with Cons show ?case by (cases e) simp
  qed simp
  note fold = this
  show ?thesis
  proof (cases "io_list io (mw_world w)")
    case (Pair r w')
    then show ?thesis
      using assms fold [of _ "([], mw_real w)"]
      by (cases r) (auto simp: mountedList_def case_prod_beta)
  qed
qed

lemma segsOf_localOf: "segsOf (localOf m rel w) = segsOf (mt_mountPoint (mountAt m w)) @ segsOf rel"
  by (simp add: localOf_def localFromMountRel_segs)

lemma localOf_inside:
  assumes "segsOf (mt_mountPoint m) \<noteq> []" "spellOk nfc m (mw_real w)"
  shows "mountRelFromLocal nfc m (localOf m rel w) = Some (normFolder rel)"
    and "claimsLocal nfc m (localOf m rel w)"
proof -
  have canon: "map (canonSeg nfc) (segsOf (mt_mountPoint (mountAt m w))) = map (canonSeg nfc) (segsOf (mt_mountPoint m))"
    using assms(2) by (auto simp: mountAt_def spellOk_def split: option.splits)
  then have len: "length (segsOf (mt_mountPoint (mountAt m w))) = length (segsOf (mt_mountPoint m))"
    by (metis length_map)
  have under: "underOrEqual nfc (segsOf (localOf m rel w)) (segsOf (mt_mountPoint m))"
    by (auto simp: underOrEqual_iff segsOf_localOf canon)
  show "mountRelFromLocal nfc m (localOf m rel w) = Some (normFolder rel)"
    using under assms(1) by (simp add: mountRelFromLocal_Some segsOf_localOf len [symmetric] normFolder_segs)
  show "claimsLocal nfc m (localOf m rel w)" using under assms(1) by (simp add: claimsLocal_def)
qed

lemma mem_update: "rel \<in> fst ` set (AList.update k v xs) \<longleftrightarrow> rel = k \<or> rel \<in> fst ` set xs"
  using dom_update [of k v xs] by auto

lemma listed_iff:
  "rel \<in> fst ` set (fst (foldl (listEntry nfc m) acc files)) \<longleftrightarrow>
     rel \<in> fst ` set (fst acc) \<or> (isDataPath rel \<and> (\<exists>(p, st) \<in> set files. mountRelFromLocal nfc m p = Some rel))"
proof (induction files arbitrary: acc)
  case (Cons e files)
  have "\<not> isDataPath ''''" by (simp add: isDataPath_def)
  then have "rel \<in> fst ` set (fst (listEntry nfc m acc e)) \<longleftrightarrow>
      rel \<in> fst ` set (fst acc) \<or> isDataPath rel \<and> mountRelFromLocal nfc m (fst e) = Some rel"
    by (cases acc; cases e) (auto simp: listEntry_def mem_update simp del: set_map split: option.splits)
  then show ?case using Cons.IH [of "listEntry nfc m acc e"] by auto
qed auto

text \<open>Once a spelling is known it stays; before, the first file of the mount that is listed gives it.\<close>

lemma known_spelling: "snd (foldl (listEntry nfc m) (out, Some r) files) = Some r"
proof (induction files arbitrary: out)
  case (Cons e files)
  have "snd (listEntry nfc m (out, Some r) e) = Some r"
    by (cases e) (simp add: listEntry_def split: option.split)
  then have "listEntry nfc m (out, Some r) e = (fst (listEntry nfc m (out, Some r) e), Some r)" by (metis prod.collapse)
  with Cons show ?case by (metis foldl_Cons)
qed simp

lemma learned_spelling:
  assumes "list_all (\<lambda>(q, _). normFolder q = q) files"
    and "\<forall>(q, _) \<in> set files. \<forall>rel. mountRelFromLocal nfc m q = Some rel \<and> isDataPath rel \<longrightarrow>
        take (length (segsOf (mt_mountPoint m))) (segsOf q) = pre"
    and "(p, st) \<in> set files" "mountRelFromLocal nfc m p = Some rel" "isDataPath rel"
  shows "snd (foldl (listEntry nfc m) (out, None) files) = Some (joinWith ''/'' pre)"
  using assms
proof (induction files arbitrary: out)
  case (Cons e files)
  obtain q t where e: "e = (q, t)" by (cases e)
  show ?case
  proof (cases "\<exists>r. mountRelFromLocal nfc m q = Some r \<and> isDataPath r")
    case True
    then obtain r where r: "mountRelFromLocal nfc m q = Some r" "isDataPath r" by blast
    have ne: "r \<noteq> ''''" using r(2) by (auto simp: isDataPath_def)
    have "normFolder q = q" and "take (length (segsOf (mt_mountPoint m))) (segsOf q) = pre"
      using Cons.prems(1,2) e r by auto
    then have real: "realPrefix q r = joinWith ''/'' pre" using realPrefix_rel(1) [OF r(1) _ ne] by simp
    have "length r < length q"
    proof (rule ccontr)
      assume "\<not> length r < length q"
      then have "realPrefix q r = ''''" by (simp add: realPrefix_def trimEndBy_def)
      then have "segsOf (realPrefix q r) = []" by (simp add: segsOf_filter goodSeg_def)
      then show False
        using realPrefix_rel(2) [OF r(1) \<open>normFolder q = q\<close> ne] canon_take(2) r(1)
        by (fastforce simp: mountRelFromLocal_Some)
    qed
    then have "listEntry nfc m (out, None) e = (AList.update r t out, Some (joinWith ''/'' pre))"
      using e r ne real by (simp add: listEntry_def)
    then show ?thesis by (simp add: known_spelling)
  next
    case False
    then have "listEntry nfc m (out, None) e = (out, None)" using e by (auto simp: listEntry_def split: option.splits)
    moreover have "(p, st) \<in> set files" using Cons.prems(3,4,5) e False by auto
    ultimately show ?thesis using Cons by simp
  qed
qed simp

text \<open>
  (C36) The vault that a mount shows to the engine is confined to the mount. While the learned spelling
  names the mount's folder, reading, writing, removing and probing a relative path all act on one local
  path, which the mount claims and which translates back to that relative path; a listing of paths in
  normal form keeps the learned spelling right, and lists exactly the data files under the mount.
\<close>
theorem mounted_io_confined:
  assumes "segsOf (mt_mountPoint m) \<noteq> []" "spellOk nfc m (mw_real w)"
    and "io_list io (mw_world w) = (Inr files, w')" "list_all (\<lambda>(p, _). normFolder p = p) files"
  shows "(\<exists>q. claimsLocal nfc m q \<and> mountRelFromLocal nfc m q = Some (normFolder rel)
       \<and> io_read (mountedIo nfc m io) rel w = below (io_read io q) w
       \<and> io_write (mountedIo nfc m io) rel b w = below (io_write io q b) w
       \<and> io_remove (mountedIo nfc m io) rel w = below (io_remove io q) w
       \<and> map_option (\<lambda>ex. ex rel w) (io_exists (mountedIo nfc m io)) = map_option (\<lambda>ex. below (ex q) w) (io_exists io)
       \<and> map_option (\<lambda>ap. ap_open ap rel w) (io_appendWrite (mountedIo nfc m io))
           = map_option (\<lambda>ap. below (ap_open ap q) w) (io_appendWrite io))
     \<and> (\<exists>out spelt. io_list (mountedIo nfc m io) w = (Inr out, \<lparr>mw_world = w', mw_real = spelt\<rparr>) \<and> spellOk nfc m spelt
          \<and> fst ` set out = {r. isDataPath r \<and> (\<exists>(p, st) \<in> set files. mountRelFromLocal nfc m p = Some r)})"
proof
  show "\<exists>q. claimsLocal nfc m q \<and> mountRelFromLocal nfc m q = Some (normFolder rel)
       \<and> io_read (mountedIo nfc m io) rel w = below (io_read io q) w
       \<and> io_write (mountedIo nfc m io) rel b w = below (io_write io q b) w
       \<and> io_remove (mountedIo nfc m io) rel w = below (io_remove io q) w
       \<and> map_option (\<lambda>ex. ex rel w) (io_exists (mountedIo nfc m io)) = map_option (\<lambda>ex. below (ex q) w) (io_exists io)
       \<and> map_option (\<lambda>ap. ap_open ap rel w) (io_appendWrite (mountedIo nfc m io))
           = map_option (\<lambda>ap. below (ap_open ap q) w) (io_appendWrite io)"
    using localOf_inside [OF assms(1,2), of rel]
    by (intro exI [of _ "localOf m rel w"]) (simp add: mountedIo_def option.map_comp comp_def)
  obtain out spelt where run: "foldl (listEntry nfc m) ([], mw_real w) files = (out, spelt)"
    by (cases "foldl (listEntry nfc m) ([], mw_real w) files")
  have list: "io_list (mountedIo nfc m io) w = (Inr out, \<lparr>mw_world = w', mw_real = spelt\<rparr>)"
    by (simp add: mountedIo_def mountedList_def assms(3) run)
  moreover have "spellOk nfc m spelt"
    using spellOk_list [OF assms(2), of io] assms(3,4) list by (simp add: mountedIo_def)
  moreover have "fst ` set out = {r. isDataPath r \<and> (\<exists>(p, st) \<in> set files. mountRelFromLocal nfc m p = Some r)}"
    using listed_iff [where acc = "([], mw_real w)" and nfc = nfc and m = m and files = files] run by auto
  ultimately show "\<exists>out spelt. io_list (mountedIo nfc m io) w = (Inr out, \<lparr>mw_world = w', mw_real = spelt\<rparr>) \<and> spellOk nfc m spelt
          \<and> fst ` set out = {r. isDataPath r \<and> (\<exists>(p, st) \<in> set files. mountRelFromLocal nfc m p = Some r)}"
    by blast
qed

text \<open>
  A file of the mount is read under the path it was listed with, also when its folder is spelled
  differently from the configured mount point: on a disk that lists every file of the mount under one
  spelling of the folder, each relative path that the first listing returns leads back to the very path
  that was listed.
\<close>
theorem mounted_listing_reads_back:
  assumes "io_list io (mw_world w) = (Inr files, w')" "mw_real w = None"
    and "list_all (\<lambda>(q, _). normFolder q = q) files"
    and "\<forall>(q, _) \<in> set files. \<forall>r. mountRelFromLocal nfc m q = Some r \<and> isDataPath r \<longrightarrow>
        take (length (segsOf (mt_mountPoint m))) (segsOf q) = pre"
    and "(p, st) \<in> set files" "mountRelFromLocal nfc m p = Some rel" "isDataPath rel"
  shows "localOf m rel (snd (io_list (mountedIo nfc m io) w)) = p"
proof -
  let ?mp = "segsOf (mt_mountPoint m)"
  have normal: "normFolder p = p" and pre: "take (length ?mp) (segsOf p) = pre"
    using assms(3,4,5,6,7) by (auto simp: list_all_iff)
  have rel: "rel = joinWith ''/'' (drop (length ?mp) (segsOf p))" and len: "length ?mp \<le> length (segsOf p)" "?mp \<noteq> []"
    using assms(6) canon_take(2) by (auto simp: mountRelFromLocal_Some)
  have plain: "plainSegs pre" unfolding pre [symmetric]
    using plain_segsOf [of p] by (metis append_take_drop_id plainSegs_append)
  have "pre \<noteq> []" using pre len by auto
  have "mw_real (snd (io_list (mountedIo nfc m io) w)) = Some (joinWith ''/'' pre)"
    using learned_spelling [OF assms(3-7), of "[]"] by (simp add: mountedIo_def mountedList_def assms(1,2) case_prod_beta)
  then have "segsOf (localOf m rel (snd (io_list (mountedIo nfc m io) w))) = pre @ drop (length ?mp) (segsOf p)"
    unfolding segsOf_localOf rel using plain \<open>pre \<noteq> []\<close> by (simp add: mountAt_def)
  then have "segsOf (localOf m rel (snd (io_list (mountedIo nfc m io) w))) = segsOf p" unfolding pre [symmetric] by simp
  then show ?thesis by (metis localFromMountRel_segs localOf_def normFolder_join normFolder_segs normal plainSegs_append plain_segsOf)
qed

subsection \<open>The source side is guarded\<close>

lemma set_mapped: "set (List.map_filter f xs) = {y. \<exists>x \<in> set xs. f x = Some y}"
  by (force simp: List.map_filter_def)

text \<open>
  What a mount can do to its source. On a pull mount every call that would change the source fails
  and leaves the outside as it is. On a sync mount the same holds for paths into the settings folder, and
  every other write reaches the source at a path inside the mounted subfolder that translates back to
  the relative path; of the source's changes exactly the data files below that subfolder are seen.
\<close>
theorem mounted_api_guarded:
  "(if mt_direction m = DirSync \<and> isDataPath (cq_path q)
    then \<exists>p. mountRelFromSource nfc m p = Some (normFolder (cq_path q))
        \<and> snd (api_commit (mountedApi nfc m api) q w) = snd (below (api_commit api (q\<lparr>cq_path := p\<rparr>)) w)
    else \<exists>e. api_commit (mountedApi nfc m api) q w = (Inl e, w))
   \<and> (if mt_direction m = DirSync \<and> isDataPath rel
    then \<exists>p. mountRelFromSource nfc m p = Some (normFolder rel)
        \<and> api_deleteFile (mountedApi nfc m api) rel v w = below (api_deleteFile api p v) w
    else \<exists>e. api_deleteFile (mountedApi nfc m api) rel v w = (Inl e, w))
   \<and> (if mt_direction m = DirPull then \<exists>e. api_putChunk (mountedApi nfc m api) h b w = (Inl e, w)
    else api_putChunk (mountedApi nfc m api) h b w = below (api_putChunk api h b) w)
   \<and> set (cr_upserts (mountedChanges nfc m r))
       = {f\<lparr>fm_path := p\<rparr> | f p. f \<in> set (cr_upserts r) \<and> mountRelFromSource nfc m (fm_path f) = Some p \<and> isDataPath p}
   \<and> set (cr_deletes (mountedChanges nfc m r))
       = {x\<lparr>dl_path := p\<rparr> | x p. x \<in> set (cr_deletes r) \<and> mountRelFromSource nfc m (dl_path x) = Some p \<and> isDataPath p}"
proof (intro conjI)
  show "if mt_direction m = DirSync \<and> isDataPath (cq_path q)
    then \<exists>p. mountRelFromSource nfc m p = Some (normFolder (cq_path q))
        \<and> snd (api_commit (mountedApi nfc m api) q w) = snd (below (api_commit api (q\<lparr>cq_path := p\<rparr>)) w)
    else \<exists>e. api_commit (mountedApi nfc m api) q w = (Inl e, w)"
    using source_scope.toRel_fromRel [of nfc m "cq_path q"]
    by (cases "mt_direction m") (auto simp: mountedApi_def refuse_def mapResult_def case_prod_beta)
  show "if mt_direction m = DirSync \<and> isDataPath rel
    then \<exists>p. mountRelFromSource nfc m p = Some (normFolder rel)
        \<and> api_deleteFile (mountedApi nfc m api) rel v w = below (api_deleteFile api p v) w
    else \<exists>e. api_deleteFile (mountedApi nfc m api) rel v w = (Inl e, w)"
    using source_scope.toRel_fromRel [of nfc m rel] by (cases "mt_direction m") (auto simp: mountedApi_def refuse_def)
  show "if mt_direction m = DirPull then \<exists>e. api_putChunk (mountedApi nfc m api) h b w = (Inl e, w)
    else api_putChunk (mountedApi nfc m api) h b w = below (api_putChunk api h b) w"
    by (simp add: mountedApi_def refuse_def)
  show "set (cr_upserts (mountedChanges nfc m r))
       = {f\<lparr>fm_path := p\<rparr> | f p. f \<in> set (cr_upserts r) \<and> mountRelFromSource nfc m (fm_path f) = Some p \<and> isDataPath p}"
  proof -
    have "set (cr_upserts (mountedChanges nfc m r))
        = {g. isDataPath (fm_path g) \<and> (\<exists>f \<in> set (cr_upserts r). \<exists>p. mountRelFromSource nfc m (fm_path f) = Some p \<and> g = f\<lparr>fm_path := p\<rparr>)}"
      by (auto simp: mountedChanges_def set_mapped toRel_def)
    also have "\<dots> = {f\<lparr>fm_path := p\<rparr> | f p. f \<in> set (cr_upserts r) \<and> mountRelFromSource nfc m (fm_path f) = Some p \<and> isDataPath p}"
      by auto blast+
    finally show ?thesis .
  qed
  show "set (cr_deletes (mountedChanges nfc m r))
       = {x\<lparr>dl_path := p\<rparr> | x p. x \<in> set (cr_deletes r) \<and> mountRelFromSource nfc m (dl_path x) = Some p \<and> isDataPath p}"
    by (auto simp: mountedChanges_def set_mapped deletionToRel_def split: option.splits if_splits)
qed

subsection \<open>A mount whose folder is spelled differently on disk\<close>

definition spelledVault :: "mem mounted" where
  "spelledVault = \<lparr>mw_world = emptyMem\<lparr>m_files := [(''work/asi/a.md'', [104]), (''b.md'', [105])]\<rparr>, mw_real = None\<rparr>"

lemma spelled_facts:
  "io_list memIo (mw_world spelledVault) = (Inr [(''work/asi/a.md'', 1, 0), (''b.md'', 1, 0)], mw_world spelledVault)"
  "mw_real spelledVault = None" "segsOf (mt_mountPoint workMount) = [''Work'', ''ASI'']"
  "normFolder ''work/asi/a.md'' = ''work/asi/a.md''" "normFolder ''b.md'' = ''b.md''" "isDataPath ''a.md''"
  "mountRelFromLocal (\<lambda>s. s) workMount ''work/asi/a.md'' = Some ''a.md''"
  "mountRelFromLocal (\<lambda>s. s) workMount ''b.md'' = None"
  by (simp add: spelledVault_def memIo_def emptyMem_def, simp add: spelledVault_def, code_simp+)

theorem mounted_io_confined_witness:
  "\<exists>out spelt. io_list (mountedIo (\<lambda>s. s) workMount memIo) spelledVault = (Inr out, \<lparr>mw_world = mw_world spelledVault, mw_real = spelt\<rparr>)
     \<and> spellOk (\<lambda>s. s) workMount spelt \<and> ''a.md'' \<in> fst ` set out \<and> ''b.md'' \<notin> fst ` set out"
proof -
  have "spellOk (\<lambda>s. s) workMount (mw_real spelledVault)" by (simp add: spellOk_def spelled_facts)
  note confined = mounted_io_confined [OF _ this spelled_facts(1), THEN conjunct2]
  have "fst ` set out = {r. isDataPath r \<and> (\<exists>(p, st) \<in> set [(''work/asi/a.md'', 1::nat, 0::nat), (''b.md'', 1, 0)].
          mountRelFromLocal (\<lambda>s. s) workMount p = Some r)} \<Longrightarrow> ''a.md'' \<in> fst ` set out \<and> ''b.md'' \<notin> fst ` set out"
    for out :: "(path \<times> file_stat) list"
    by (simp add: spelled_facts)
  then show ?thesis using confined by (fastforce simp: spelled_facts(3-5))
qed

theorem mounted_listing_reads_back_witness:
  "localOf workMount ''a.md'' (snd (io_list (mountedIo (\<lambda>s. s) workMount memIo) spelledVault)) = ''work/asi/a.md''"
proof (rule mounted_listing_reads_back)
  show "\<forall>(q, _) \<in> set [(''work/asi/a.md'', 1::nat, 0::nat), (''b.md'', 1, 0)]. \<forall>r.
      mountRelFromLocal (\<lambda>s. s) workMount q = Some r \<and> isDataPath r \<longrightarrow>
      take (length (segsOf (mt_mountPoint workMount))) (segsOf q) = [''work'', ''asi'']"
    by (simp add: spelled_facts) (simp add: segsOf_filter goodSeg_def)
qed (simp_all add: spelled_facts)

end
