(* ===== verification/MountFsm.thy ===== *)
theory MountFsm
  imports Fsm
begin

text \<open>
  The per-mount lifecycle machine and the status fold of \<open>client/src/mountfsm.ts\<close>.
\<close>

datatype mount_state =
    Detached | Mounting | Live | Syncing | Diverged | Offline | Unmounting | LocalGone | MFailed

datatype mount_event =
    MMount | MMounted | MSyncStart | MSyncSettled | MDiverge | MResolved | MDisconnect | MReconnect
  | MUnmount | MUnmounted | MFail | MRetry | MLocalGone | MConflict | MReset

fun mountTable :: "mount_state \<Rightarrow> mount_event \<Rightarrow> mount_state option" where
  "mountTable Detached e = (if e = MMount then Some Mounting else None)"
| "mountTable Mounting e =
     (if e = MMounted \<or> e = MSyncSettled then Some Live else if e = MConflict then Some Diverged
      else if e = MDisconnect then Some Offline else None)"
| "mountTable Live e =
     (if e = MSyncStart then Some Syncing else if e = MDiverge \<or> e = MConflict then Some Diverged
      else if e = MSyncSettled then Some Live else if e = MDisconnect then Some Offline else None)"
| "mountTable Syncing e =
     (if e = MSyncSettled then Some Live else if e = MDiverge \<or> e = MConflict then Some Diverged
      else if e = MDisconnect then Some Offline else None)"
| "mountTable Diverged e =
     (if e = MResolved \<or> e = MSyncSettled then Some Live else if e = MConflict then Some Diverged
      else if e = MDisconnect then Some Offline else None)"
| "mountTable Offline e =
     (if e = MReconnect \<or> e = MSyncSettled then Some Live else if e = MConflict then Some Diverged else None)"
| "mountTable Unmounting e = (if e = MUnmounted then Some Detached else None)"
| "mountTable LocalGone e = (if e = MMount then Some Mounting else None)"
| "mountTable MFailed e =
     (if e = MRetry then Some Mounting else if e = MReset then Some Detached else None)"

definition mountRules :: "mount_state \<Rightarrow> mount_event \<Rightarrow> (mount_state, unit) rule" where
  "mountRules s e =
     (if e = MUnmount \<and> s \<noteq> Detached \<and> s \<noteq> Unmounting then Next Unmounting
      else if e = MFail \<and> s \<noteq> Detached \<and> s \<noteq> Unmounting then Next MFailed
      else if e = MLocalGone \<and> (s = Mounting \<or> s = Live \<or> s = Syncing \<or> s = Diverged \<or> s = Offline)
        then Next LocalGone
      else (case mountTable s e of None \<Rightarrow> NoRule | Some s' \<Rightarrow> Next s'))"

fun mount_kind :: "mount_state \<Rightarrow> string" where
  "mount_kind Detached = ''detached''"
| "mount_kind Mounting = ''mounting''"
| "mount_kind Live = ''live''"
| "mount_kind Syncing = ''syncing''"
| "mount_kind Diverged = ''diverged''"
| "mount_kind Offline = ''offline''"
| "mount_kind Unmounting = ''unmounting''"
| "mount_kind LocalGone = ''localGone''"
| "mount_kind MFailed = ''failed''"

fun mount_event_kind :: "mount_event \<Rightarrow> string" where
  "mount_event_kind MMount = ''mount''"
| "mount_event_kind MMounted = ''mounted''"
| "mount_event_kind MSyncStart = ''syncStart''"
| "mount_event_kind MSyncSettled = ''syncSettled''"
| "mount_event_kind MDiverge = ''diverge''"
| "mount_event_kind MResolved = ''resolved''"
| "mount_event_kind MDisconnect = ''disconnect''"
| "mount_event_kind MReconnect = ''reconnect''"
| "mount_event_kind MUnmount = ''unmount''"
| "mount_event_kind MUnmounted = ''unmounted''"
| "mount_event_kind MFail = ''fail''"
| "mount_event_kind MRetry = ''retry''"
| "mount_event_kind MLocalGone = ''localGone''"
| "mount_event_kind MConflict = ''conflict''"
| "mount_event_kind MReset = ''reset''"

definition mountMachine :: "(mount_state, mount_event, unit) machine_spec" where
  "mountMachine = \<lparr>m_name = ''pmMount'',
     m_states = [''detached'', ''mounting'', ''live'', ''syncing'', ''diverged'', ''offline'',
                 ''unmounting'', ''localGone'', ''failed''],
     m_events = [''mount'', ''mounted'', ''syncStart'', ''syncSettled'', ''diverge'', ''resolved'',
                 ''disconnect'', ''reconnect'', ''unmount'', ''unmounted'', ''fail'', ''retry'',
                 ''localGone'', ''conflict'', ''reset''],
     m_kindOf = mount_kind, m_eventKindOf = mount_event_kind, m_transition = mountRules,
     m_terminalStates = [], m_terminalExits = [], m_byValue = True\<rparr>"

definition mountTransition :: "mount_state \<Rightarrow> mount_event \<Rightarrow> mount_state" where
  "mountTransition s e = machine_next mountMachine s e"

datatype health = HError | HDiverged | HOffline | HBusy | HOk | HIdle

fun SEVERITY :: "health \<Rightarrow> nat" where
  "SEVERITY HError = 5"
| "SEVERITY HDiverged = 4"
| "SEVERITY HOffline = 3"
| "SEVERITY HBusy = 2"
| "SEVERITY HOk = 1"
| "SEVERITY HIdle = 0"

fun mountHealth :: "mount_state \<Rightarrow> health" where
  "mountHealth MFailed = HError"
| "mountHealth LocalGone = HDiverged"
| "mountHealth Diverged = HDiverged"
| "mountHealth Offline = HOffline"
| "mountHealth Mounting = HBusy"
| "mountHealth Syncing = HBusy"
| "mountHealth Unmounting = HBusy"
| "mountHealth Live = HOk"
| "mountHealth Detached = HIdle"

definition foldHealth :: "health list \<Rightarrow> health" where
  "foldHealth hs = foldl (\<lambda>worst h. if SEVERITY h > SEVERITY worst then h else worst) HIdle hs"

fun aggregate_from :: "health \<Rightarrow> string \<Rightarrow> (string \<times> mount_state) list \<Rightarrow> health \<times> string" where
  "aggregate_from worst reason [] = (worst, reason)"
| "aggregate_from worst reason ((label, st) # ms) =
     (let h = mountHealth st in
      if SEVERITY h > SEVERITY worst then aggregate_from h (''mount '' @ label) ms
      else aggregate_from worst reason ms)"

definition aggregateStatus :: "health \<Rightarrow> (string \<times> mount_state) list \<Rightarrow> health \<times> string" where
  "aggregateStatus primaryHealth mounts = aggregate_from primaryHealth ''primary'' mounts"

interpretation mount_fsm: fsm mountMachine
proof unfold_locales
  fix s :: mount_state and e :: mount_event
  show "m_kindOf mountMachine s \<in> set (m_states mountMachine)"
    by (cases s) (simp_all add: mountMachine_def)
  show "m_eventKindOf mountMachine e \<in> set (m_events mountMachine)"
    by (cases e) (simp_all add: mountMachine_def)
qed (simp_all add: mountMachine_def)

lemma mountTransition_rules:
  "mountTransition s e =
     (case mountRules s e of NoRule \<Rightarrow> s | Self \<Rightarrow> s | Next s' \<Rightarrow> s' | NextFx s' x \<Rightarrow> s')"
  by (simp add: mountTransition_def machine_next_cases isTerminal_def mountMachine_def)

lemma SEVERITY_inj: "SEVERITY a = SEVERITY b \<longleftrightarrow> a = b"
  by (cases a; cases b) simp_all

lemma aggregate_from_worst:
  "SEVERITY (fst (aggregate_from w r ms)) = Max (insert (SEVERITY w) ((\<lambda>m. SEVERITY (mountHealth (snd m))) ` set ms))"
proof (induction w r ms rule: aggregate_from.induct)
  case (2 w r label st ms)
  let ?f = "\<lambda>m. SEVERITY (mountHealth (snd m)) :: nat"
  let ?S = "?f ` set ms"
  have split: "Max (insert a (insert b ?S)) = Max (insert (max a b) ?S)" for a b
    by (cases "?S = {}") (simp_all add: max.assoc)
  show ?case
    using 2 by (simp add: Let_def split max_def)
qed simp

lemma aggregate_from_reason:
  "aggregate_from w r ms = (h, reason) \<Longrightarrow>
   (h = w \<and> reason = r) \<or> (\<exists>(l, st) \<in> set ms. mountHealth st = h \<and> reason = ''mount '' @ l)"
proof (induction w r ms rule: aggregate_from.induct)
  case (2 w r label st ms)
  then show ?case
    by (cases "SEVERITY (mountHealth st) > SEVERITY w") (auto simp: Let_def)
qed simp

lemma aggregate_from_first:
  "aggregate_from w r ms = (w, reason) \<Longrightarrow> reason = r"
proof (induction ms arbitrary: w r)
  case (Cons m ms)
  obtain l st where m: "m = (l, st)" by (cases m)
  have "SEVERITY (mountHealth st) \<le> SEVERITY w"
  proof (rule ccontr)
    assume gt: "\<not> ?thesis"
    with Cons.prems m have agg: "aggregate_from (mountHealth st) (''mount '' @ l) ms = (w, reason)"
      by (simp add: Let_def)
    have "SEVERITY (mountHealth st) \<le> SEVERITY (fst (aggregate_from (mountHealth st) (''mount '' @ l) ms))"
      unfolding aggregate_from_worst by (rule Max_ge) simp_all
    then have "SEVERITY (mountHealth st) \<le> SEVERITY w" unfolding agg by (simp only: fst_conv)
    with gt show False by simp
  qed
  with Cons m show ?case by (simp add: Let_def)
qed simp

text \<open>
  The status fold never hides the worst scope: the displayed health is one whose severity is the
  maximum over the primary scope and every mount, and the reason names a scope that has that health,
  the primary one whenever the primary itself is the worst.
\<close>
theorem aggregate_status_worst:
  "SEVERITY (fst (aggregateStatus p ms))
     = Max (insert (SEVERITY p) ((\<lambda>m. SEVERITY (mountHealth (snd m))) ` set ms))
   \<and> (if fst (aggregateStatus p ms) = p then snd (aggregateStatus p ms) = ''primary''
      else \<exists>(l, st) \<in> set ms. mountHealth st = fst (aggregateStatus p ms)
             \<and> snd (aggregateStatus p ms) = ''mount '' @ l)"
proof (cases "aggregateStatus p ms")
  case (Pair h reason)
  then have agg: "aggregate_from p ''primary'' ms = (h, reason)" by (simp add: aggregateStatus_def)
  show ?thesis
    using aggregate_from_worst [of p "''primary''" ms] aggregate_from_reason [OF agg]
      aggregate_from_first [of p "''primary''" ms reason] agg Pair
    by (auto simp: aggregateStatus_def)
qed

text \<open>
  A mount held because its local folder disappeared is never released by the sync loop: from
  \<open>localGone\<close> every event other than an explicit mount, unmount or fail leaves the state as
  it is, and a user tear-down or an untouched mount is never turned into a failure.
\<close>
theorem mount_localGone_held:
  "(mountTransition LocalGone e \<noteq> LocalGone \<longleftrightarrow> e \<in> {MMount, MUnmount, MFail})
   \<and> (mountTransition s MLocalGone = LocalGone \<longleftrightarrow> s \<notin> {Detached, Unmounting, MFailed})
   \<and> mountTransition Detached MFail = Detached \<and> mountTransition Unmounting MFail = Unmounting"
  by (cases e; cases s) (simp_all add: mountTransition_rules mountRules_def)

end
