(* ===== verification/ForeignTools.thy ===== *)
theory ForeignTools
  imports Base "HOL-Library.Char_ord" "HOL-Library.List_Lexorder"
begin

text \<open>
  The footprints of other synchronisation tools, \<open>client/src/foreigntools.ts\<close>. The regular expressions
  are written as matchers; an unanchored one is tried at every suffix of the name.
\<close>

datatype foreign_tool = Syncthing | Dropbox | Nextcloud | ResilioSync | ICloudDrive | Office

datatype artefact_kind = KConflictCopy | KMarker | KVersions | KPlaceholder | KLock

fun toolName :: "foreign_tool \<Rightarrow> string" where
  "toolName Syncthing = ''Syncthing''"
| "toolName Dropbox = ''Dropbox''"
| "toolName Nextcloud = ''Nextcloud''"
| "toolName ResilioSync = ''Resilio Sync''"
| "toolName ICloudDrive = ''iCloud Drive''"
| "toolName Office = ''Office''"

text \<open>\<open>c{n}\<close>: the rest after \<open>n\<close> characters of a class.\<close>

definition repeated :: "(char \<Rightarrow> bool) \<Rightarrow> nat \<Rightarrow> string \<Rightarrow> string option" where
  "repeated c n s = (if n \<le> length s \<and> list_all c (take n s) then Some (drop n s) else None)"

definition literally :: "string \<Rightarrow> string \<Rightarrow> string option" where
  "literally l s = (if startsWith s l then Some (drop (length l) s) else None)"

definition anywhere :: "(string \<Rightarrow> bool) \<Rightarrow> string \<Rightarrow> bool" where
  "anywhere m s = list_ex m (suffixes s)"

definition isUpperOrDigit :: "char \<Rightarrow> bool" where
  "isUpperOrDigit c \<longleftrightarrow> isDigit c \<or> (65 \<le> (of_char c :: nat) \<and> (of_char c :: nat) \<le> 90)"

definition SYNCTHING_CONFLICT :: "string \<Rightarrow> bool" where
  "SYNCTHING_CONFLICT = anywhere (\<lambda>s.
     case Option.bind (literally ''.sync-conflict-'' s) (\<lambda>s1.
          Option.bind (repeated isDigit 8 s1) (\<lambda>s2.
          Option.bind (literally ''-'' s2) (\<lambda>s3.
          Option.bind (repeated isDigit 6 s3) (\<lambda>s4.
          Option.bind (literally ''-'' s4) (repeated isUpperOrDigit 7)))))
     of None \<Rightarrow> False | Some rest \<Rightarrow> rest = [] \<or> hd rest = CHR ''.'')"

definition isoDate :: "string \<Rightarrow> string option" where
  "isoDate s =
     Option.bind (repeated isDigit 4 s) (\<lambda>s1.
     Option.bind (literally ''-'' s1) (\<lambda>s2.
     Option.bind (repeated isDigit 2 s2) (\<lambda>s3.
     Option.bind (literally ''-'' s3) (repeated isDigit 2))))"

text \<open>\<open>conflicted copy(?: date(?: time)?)?\)\<close>.\<close>

definition conflictedCore :: "string \<Rightarrow> bool" where
  "conflictedCore s =
     (case literally ''conflicted copy'' s of
        None \<Rightarrow> False
      | Some r \<Rightarrow> startsWith r '')''
          \<or> (case Option.bind (literally '' '' r) isoDate of
               None \<Rightarrow> False
             | Some r1 \<Rightarrow> startsWith r1 '')''
                 \<or> (case Option.bind (literally '' '' r1) (repeated isDigit 6) of
                      None \<Rightarrow> False | Some r2 \<Rightarrow> startsWith r2 '')'')))"

definition CONFLICTED_COPY :: "string \<Rightarrow> bool" where
  "CONFLICTED_COPY = anywhere (\<lambda>s.
     case literally '' ('' s of
       None \<Rightarrow> False
     | Some r \<Rightarrow> conflictedCore r
         \<or> list_ex (\<lambda>i. r ! i = CHR '' '' \<and> CHR ''('' \<notin> set (take i r) \<and> CHR '')'' \<notin> set (take i r)
              \<and> conflictedCore (drop (Suc i) r)) [0..<length r])"

definition isLineEnd :: "char \<Rightarrow> bool" where
  "isLineEnd c \<longleftrightarrow> (of_char c :: nat) = 10 \<or> (of_char c :: nat) = 13"

text \<open>\<open>^pre.+post$\<close>.\<close>

definition framed :: "string \<Rightarrow> string \<Rightarrow> string \<Rightarrow> bool" where
  "framed pre post s \<longleftrightarrow>
     startsWith s pre \<and> endsWith s post \<and> length pre + length post < length s
     \<and> list_all (\<lambda>c. \<not> isLineEnd c) (take (length s - length pre - length post) (drop (length pre) s))"

definition ICLOUD_PLACEHOLDER :: "string \<Rightarrow> bool" where
  "ICLOUD_PLACEHOLDER = framed ''.'' ''.icloud''"

definition timedCopy :: "string \<Rightarrow> bool" where
  "timedCopy = anywhere (\<lambda>s.
     case Option.bind (literally '' '' s) (repeated isDigit 6) of None \<Rightarrow> False | Some r \<Rightarrow> startsWith r '')'')"

definition markerSegs :: "(string \<times> foreign_tool \<times> artefact_kind) list" where
  "markerSegs =
     [(''.stfolder'', Syncthing, KMarker), (''.stignore'', Syncthing, KMarker), (''.stversions'', Syncthing, KVersions),
      (''.dropbox'', Dropbox, KMarker), (''.dropbox.cache'', Dropbox, KVersions), (''.sync'', ResilioSync, KMarker)]"

fun firstMarker :: "string list \<Rightarrow> (foreign_tool \<times> artefact_kind) option" where
  "firstMarker [] = None"
| "firstMarker (s # ss) = (case map_of markerSegs s of Some a \<Rightarrow> Some a | None \<Rightarrow> firstMarker ss)"

definition nameArtefact :: "string \<Rightarrow> (foreign_tool \<times> artefact_kind) option" where
  "nameArtefact b =
     (if SYNCTHING_CONFLICT b then Some (Syncthing, KConflictCopy)
      else if CONFLICTED_COPY b then Some (if timedCopy b then Nextcloud else Dropbox, KConflictCopy)
      else if ICLOUD_PLACEHOLDER b then Some (ICloudDrive, KPlaceholder)
      else if startsWith b ''~$'' \<or> framed ''.~lock.'' ''#'' b then Some (Office, KLock)
      else None)"

definition foreignArtefact :: "path \<Rightarrow> (foreign_tool \<times> artefact_kind) option" where
  "foreignArtefact p =
     (let segs = filter (\<lambda>s. s \<noteq> '''') (splitOn (CHR ''/'') p) in
      if segs = [] then None
      else case firstMarker segs of Some a \<Rightarrow> Some a | None \<Rightarrow> nameArtefact (last segs))"

definition isForeignArtefact :: "path \<Rightarrow> bool" where
  "isForeignArtefact p \<longleftrightarrow> foreignArtefact p \<noteq> None"

definition FOREIGN_ROOT_MARKERS :: "string list" where
  "FOREIGN_ROOT_MARKERS = [''.stfolder'', ''.stignore'', ''.stversions'', ''.dropbox'', ''.dropbox.cache'', ''.sync'']"

record foreign_summary =
  fs_tools :: "string list"
  fs_skipped :: nat
  fs_byTool :: "(string \<times> nat) list"

definition countTool :: "nat \<times> (string \<times> nat) list \<Rightarrow> path \<Rightarrow> nat \<times> (string \<times> nat) list" where
  "countTool acc p =
     (case foreignArtefact p of
        None \<Rightarrow> acc
      | Some (t, _) \<Rightarrow> (fst acc + 1,
          AList.update (toolName t) ((case map_of (snd acc) (toolName t) of Some n \<Rightarrow> n | None \<Rightarrow> 0) + 1) (snd acc)))"

definition summarizeForeign :: "path list \<Rightarrow> foreign_summary" where
  "summarizeForeign paths =
     (case foldl countTool (0, []) paths of
        (skipped, byTool) \<Rightarrow> \<lparr>fs_tools = sort (map fst byTool), fs_skipped = skipped, fs_byTool = byTool\<rparr>)"

definition describeForeign :: "foreign_summary \<Rightarrow> string" where
  "describeForeign s =
     (if fs_tools s = [] then ''''
      else
        (let count = (\<lambda>t. the (map_of (fs_byTool s) t)) in
         joinWith '', '' (map (\<lambda>t. t @ '' ('' @ natStr (count t) @ '' file'' @ (if count t = 1 then '''' else ''s'') @ '')'') (fs_tools s))
         @ '' detected - '' @ (if fs_skipped s = 1 then ''its file is'' else ''their files are'')
         @ '' left to that tool and not synced''))"

subsection \<open>The summary\<close>

lemma firstMarker_all: "firstMarker ss \<noteq> None \<longleftrightarrow> (\<exists>s \<in> set ss. map_of markerSegs s \<noteq> None)"
  by (induction ss) (auto split: option.splits)

lemma root_markers_foreign: "list_all isForeignArtefact FOREIGN_ROOT_MARKERS"
  by (simp add: FOREIGN_ROOT_MARKERS_def isForeignArtefact_def foreignArtefact_def markerSegs_def)

lemma sum_update:
  "distinct (map fst xs) \<Longrightarrow>
   sum_list (map snd (AList.update k v xs)) + (case map_of xs k of Some n \<Rightarrow> n | None \<Rightarrow> 0) = sum_list (map snd xs) + (v::nat)"
  by (induction xs) (auto split: option.splits dest: map_of_SomeD)

definition countsOk :: "nat \<times> (string \<times> nat) list \<Rightarrow> path list \<Rightarrow> bool" where
  "countsOk acc ps \<longleftrightarrow> distinct (map fst (snd acc)) \<and> fst acc = sum_list (map snd (snd acc))
     \<and> fst acc = length (filter isForeignArtefact ps) \<and> (\<forall>(t, n) \<in> set (snd acc). 0 < n)"

lemma countsOk_step: "countsOk acc ps \<Longrightarrow> countsOk (countTool acc p) (ps @ [p])"
proof -
  assume ok: "countsOk acc ps"
  have upd: "set (AList.update k v xs) \<subseteq> insert (k, v) (set xs)" for k v and xs :: "(string \<times> nat) list"
    by (induction xs) auto
  show ?thesis
  proof (cases "foreignArtefact p")
    case None
    then show ?thesis using ok by (simp add: countTool_def countsOk_def isForeignArtefact_def)
  next
    case (Some a)
    obtain t k where a: "a = (t, k)" by (cases a)
    let ?n = "case map_of (snd acc) (toolName t) of Some n \<Rightarrow> n | None \<Rightarrow> 0"
    show ?thesis
      using ok sum_update [of "snd acc" "toolName t" "?n + 1"] upd [of "toolName t" "?n + 1" "snd acc"] Some a
      by (auto simp: countTool_def countsOk_def isForeignArtefact_def distinct_update)
  qed
qed

lemma countsOk_fold: "countsOk acc ps \<Longrightarrow> countsOk (foldl countTool acc qs) (ps @ qs)"
proof (induction qs arbitrary: acc ps)
  case (Cons q qs)
  from Cons.IH [OF countsOk_step [OF Cons.prems, of q]] show ?case by simp
qed simp

text \<open>The numbers shown add up: each skipped file is counted for exactly one of the tools named.\<close>

lemma summary_adds_up:
  "fs_skipped (summarizeForeign ps) = length (filter isForeignArtefact ps)
   \<and> fs_skipped (summarizeForeign ps) = sum_list (map (\<lambda>t. the (map_of (fs_byTool (summarizeForeign ps)) t)) (fs_tools (summarizeForeign ps)))
   \<and> distinct (fs_tools (summarizeForeign ps)) \<and> sorted (fs_tools (summarizeForeign ps))"
proof -
  obtain n by' where run: "foldl countTool (0, []) ps = (n, by')" by (cases "foldl countTool (0, []) ps")
  have "countsOk (0, []) []" by (simp add: countsOk_def)
  from countsOk_fold [OF this, of ps] have ok: "countsOk (n, by') ps" by (simp add: run)
  have "sum_list (map (\<lambda>t. the (map_of by' t)) (sort (map fst by'))) = sum_list (map (\<lambda>t. the (map_of by' t)) (map fst by'))"
    using ok by (simp add: sum_list_distinct_conv_sum_set countsOk_def del: map_map)
  also have "map (\<lambda>t. the (map_of by' t)) (map fst by') = map snd by'"
    using ok by (auto simp: countsOk_def map_of_eq_Some_iff intro!: map_cong)
  finally show ?thesis
    using ok by (simp add: summarizeForeign_def run countsOk_def)
qed

end
