(* ===== verification/PassSafety.thy ===== *)
theory PassSafety
  imports Passes SampleWorld
begin

text \<open>
  What the passes of \<open>client/src/reconcile.ts\<close> guarantee, whatever the vault, the server, the other
  devices and the user do while they run, and also when they throw: the calls a pass may make given the
  manifest it worked on, the read-only scope, the bulk-delete hold, the isolation of failing files with
  the cursor held below them, and the bracket around a single path.
\<close>

subsection \<open>What the loops record\<close>

lemma emits_tryFinally [emits_rules]: "emits Q m \<Longrightarrow> emits Q f \<Longrightarrow> emits Q (tryFinally m f)"
  unfolding tryFinally_def by (intro emits_rules)

lemma emits_holdForRetryM [emits_rules]: "(\<And>c. Q (Callback c)) \<Longrightarrow> emits Q (holdForRetryM p v)"
  unfolding holdForRetryM_def by (intro emits_rules)

lemma emits_clearBudget [emits_rules]: "emits Q (clearBudget p)"
  unfolding clearBudget_def by (intro emits_rules)

lemma emits_isolatedItem [emits_rules]:
  "(\<And>c. Q (Callback c)) \<Longrightarrow> emits Q (run p) \<Longrightarrow> emits Q (isolatedItem d run versionOf p)"
  unfolding isolatedItem_def by (intro emits_rules)

lemma emits_isolatedPass:
  assumes "\<And>c. Q (Callback c)" "\<And>p. p \<in> set ps \<Longrightarrow> emits Q (run p)" "\<And>p k. emits Q (onDone p k)"
  shows "emits Q (isolatedPass d ps failed run versionOf count onDone k)"
  using assms(2)
proof (induction ps arbitrary: failed k)
  case (Cons p ps)
  have "emits Q (isolatedItem d run versionOf p)"
    using Cons.prems by (intro emits_rules assms(1)) simp
  then show ?case
    using Cons.IH Cons.prems assms(1,3) by (simp, intro emits_rules) auto
qed (simp add: emits_rules)

lemma emits_pathViolation [emits_rules]: "(\<And>c. Q (Callback c)) \<Longrightarrow> emits Q (pathViolation d v)"
  unfolding pathViolation_def by (intro emits_rules)

lemma emits_holdGroups [emits_rules]: "(\<And>c. Q (Callback c)) \<Longrightarrow> emits Q (holdGroups d site gs heldIds)"
  by (induction gs arbitrary: heldIds) (auto simp: Let_def intro!: emits_rules)

lemma emits_holdAmbiguous [emits_rules]: "(\<And>c. Q (Callback c)) \<Longrightarrow> emits Q (holdAmbiguous d site keys heldIds)"
  unfolding holdAmbiguous_def by (intro emits_rules)

lemma emits_aliasLoop [emits_rules]: "(\<And>c. Q (Callback c)) \<Longrightarrow> emits Q (aliasLoop d ex f ls xs out)"
  by (induction xs arbitrary: out) (auto intro!: emits_rules)

lemma emits_aliasLocalPaths [emits_rules]: "(\<And>c. Q (Callback c)) \<Longrightarrow> emits Q (aliasLocalPaths d l c)"
  unfolding aliasLocalPaths_def by (intro emits_rules)

lemma emits_canonicalLocalPath [emits_rules]: "(\<And>c. Q (Callback c)) \<Longrightarrow> emits Q (canonicalLocalPath d p)"
  unfolding canonicalLocalPath_def by (intro emits_rules)

subsection \<open>What a manifest licenses\<close>

definition liveVersion :: "changes_response \<Rightarrow> path \<Rightarrow> int" where
  "liveVersion r p = (case map_of (remoteOf r) p of Some m \<Rightarrow> fm_version m | None \<Rightarrow> 0)"

fun allowedBy :: "('w, 'x) deps_scheme \<Rightarrow> changes_response \<Rightarrow> event \<Rightarrow> bool" where
  "allowedBy d r (IoWrite q b) = (\<exists>p. accepts d p \<and> (q = p \<or> copyOf d p q))"
| "allowedBy d r (IoRemove q) =
     ((accepts d q \<and> q \<in> set (tombstonesOf r) \<and> map_of (remoteOf r) q = None) \<or> (\<exists>p. accepts d p \<and> copyOf d p q))"
| "allowedBy d r (IoOpen q) = accepts d q"
| "allowedBy d r (IoAppend q b) = accepts d q"
| "allowedBy d r (IoClose q) = accepts d q"
| "allowedBy d r (IoAbort q) = accepts d q"
| "allowedBy d r (ApiPutChunk h x) = (\<not> d_readOnly d)"
| "allowedBy d r (ApiCommit c) =
     (\<not> d_readOnly d
      \<and> ((accepts d (cq_path c) \<and> cq_expectedVersion c = Some (liveVersion r (cq_path c))
           \<and> (d_noResurrect d \<and> map_of (remoteOf r) (cq_path c) = None \<longrightarrow> cq_path c \<notin> set (tombstonesOf r)))
         \<or> (\<exists>p. accepts d p \<and> copyOf d p (cq_path c) \<and> map_of (remoteOf r) p \<noteq> None)))"
| "allowedBy d r (ApiDelete q v) =
     (accepts d q \<and> \<not> d_readOnly d \<and> (\<exists>m. map_of (remoteOf r) q = Some m \<and> v = Some (fm_version m)))"
| "allowedBy d r (GotRead q x) = accepts d q"
| "allowedBy d r (Probed q x) = accepts d q"
| "allowedBy d r (GotChanges r') = False"
| "allowedBy d r (GotMeta q m) = False"
| "allowedBy d r (Callback c) = True"

lemma footprint_allowed:
  assumes "accepts d p" "footprint d p o1 e" "o_rmeta o1 = map_of (remoteOf r) p"
    "o_hasTombstone o1 = (\<lambda>q. q \<in> set (tombstonesOf r))"
  shows "allowedBy d r e"
  using assms by (cases e) (auto simp: liveVersion_def split: option.splits)

lemma emits_reconcileOne_allowed:
  assumes "o_rmeta o1 = map_of (remoteOf r) p" "o_hasTombstone o1 = (\<lambda>q. q \<in> set (tombstonesOf r))"
  shows "emits (allowedBy d r) (reconcileOne d p o1)"
  by (rule emits_mono [OF emits_reconcileOne]) (use assms in \<open>blast intro: footprint_allowed\<close>)

lemma emits_passOver: "emits (allowedBy d r) (passOver d r heldIds local)"
  unfolding passOver_def examine_def onDoneAll_def
  by (intro emits_rules emits_isolatedPass emits_reconcileOne_allowed) (simp_all add: allOpts_def)

lemma emits_reconcileDelta: "emits (allowedBy d r) (reconcileDelta d r)"
  unfolding reconcileDelta_def deltaItem_def
  by (intro emits_rules emits_isolatedPass emits_reconcileOne_allowed) (simp_all add: deltaOpts_def)

lemma emits_reconcileManifest: "emits (allowedBy d r) (reconcileManifest d r)"
  unfolding reconcileManifest_def by (intro emits_rules emits_passOver) simp_all

text \<open>A pass fetches a manifest once; the rest of the run is licensed by that manifest.\<close>

lemma fetchChanges_then:
  assumes "andThen (fetchChanges d since) f s = (res, s')" "\<And>r. emits (Q r) (f r)"
  shows "(\<exists>e. res = Inl e \<and> log s' = log s) \<or> (\<exists>r evs. log s' = evs @ GotChanges r # log s \<and> list_all (Q r) evs)"
proof (cases "api_changes (c_api d) since (world s)")
  case (Pair x w)
  then show ?thesis
  proof (cases x)
    case (Inl e)
    then show ?thesis using assms(1) Pair by (auto simp: fetchChanges_def prog_simps)
  next
    case (Inr r)
    then have "f r (s\<lparr>world := w, log := GotChanges r # log s\<rparr>) = (res, s')"
      using assms(1) Pair by (simp add: fetchChanges_def prog_simps)
    from emitsD [OF assms(2) this] show ?thesis by auto
  qed
qed

abbreviation fetchStage :: event where
  "fetchStage \<equiv> Callback (OnStage ''fetching changes from the server'')"


text \<open>
  The same for the incremental pass: everything it does is licensed by the delta it was given.
\<close>
theorem reconcileDelta_safe:
  "\<exists>evs. log (snd (reconcileDelta d delta s)) = evs @ log s \<and> list_all (allowedBy d delta) evs"
  by (rule emits_log) (rule emits_reconcileDelta)

subsection \<open>The bulk-delete hold\<close>

fun removesCopiesOnly :: "('w, 'x) deps_scheme \<Rightarrow> event \<Rightarrow> bool" where
  "removesCopiesOnly d (IoRemove q) = (\<exists>p. copyOf d p q)"
| "removesCopiesOnly d _ = True"

lemma emits_reconcileOne_guarded: "o_guardDelete o1 \<Longrightarrow> emits (removesCopiesOnly d) (reconcileOne d p o1)"
proof (rule emits_mono [OF emits_reconcileOne])
  show "removesCopiesOnly d e" if "o_guardDelete o1" "accepts d p \<and> footprint d p o1 e" for e
    using that by (cases e) auto
qed


definition twoDeleted :: changes_response where
  "twoDeleted = \<lparr>cr_version = 3, cr_upserts = [], cr_deletes =
     map (\<lambda>p. \<lparr>dl_path = p, dl_version = 3, dl_author = None, dl_deviceId = None, dl_deviceName = None\<rparr>) [''a.md'', ''b.md''],
     cr_history_floor = None\<rparr>"

definition twoNotes :: "mem sync_state" where
  "twoNotes = startIn (emptyMem\<lparr>m_files := [(''a.md'', [104]), (''b.md'', [105])]\<rparr>)
     (base_set ''b.md'' (hashOnly ''i'') noteBase)"


subsection \<open>Isolation of failing files\<close>

definition noFileError :: "event \<Rightarrow> bool" where
  "noFileError e \<longleftrightarrow> (\<forall>p x. e \<noteq> Callback (OnFileError p x))"

lemma emits_reconcileOne_noFileError: "emits noFileError (reconcileOne d p o1)"
  by (rule emits_mono [OF emits_reconcileOne]) (auto simp: noFileError_def)

text \<open>A change that failed is either held for the next poll or reported as given up.\<close>

definition accounted :: "(path \<Rightarrow> int option) \<Rightarrow> event list \<Rightarrow> int list \<Rightarrow> bool" where
  "accounted versionOf evs failed \<longleftrightarrow>
     (\<forall>p e v. Callback (OnFileError p e) \<in> set evs \<longrightarrow> versionOf p = Some v \<longrightarrow>
        v \<in> set failed \<or> Callback (OnPullExhausted p) \<in> set evs)"

lemma accounted_append:
  "accounted versionOf e1 f1 \<Longrightarrow> accounted versionOf e2 f2 \<Longrightarrow> accounted versionOf (e2 @ e1) (f1 @ f2)"
  by (auto simp: accounted_def)

lemma noFileError_accounted: "list_all noFileError evs \<Longrightarrow> accounted versionOf evs []"
  by (force simp: accounted_def list_all_iff noFileError_def)

lemma holdForRetryM_run:
  "holdForRetryM p v s = (res, s') \<Longrightarrow>
   \<exists>hold evs. res = Inr hold \<and> log s' = evs @ log s \<and> (hold \<or> Callback (OnPullExhausted p) \<in> set evs)
     \<and> list_all noFileError evs"
proof -
  assume run: "holdForRetryM p v s = (res, s')"
  obtain hold bud ex where h: "holdForRetry (budget s) p v = (hold, bud, ex)" by (cases "holdForRetry (budget s) p v")
  then have "hold \<or> ex" by (auto simp: holdForRetry_def Let_def split: option.splits if_splits)
  moreover have "res = Inr hold \<and> log s' = (if ex then [Callback (OnPullExhausted p)] else []) @ log s"
    using run h by (auto simp: holdForRetryM_def prog_simps)
  ultimately show ?thesis by (auto simp: noFileError_def split: if_splits)
qed

lemma isolatedItem_run:
  assumes "isolatedItem d run versionOf p s = (res, s')" "emits noFileError (run p)"
  shows "\<exists>evs. log s' = evs @ log s \<and> (case res of Inl e \<Rightarrow> isConnectionError e | Inr f \<Rightarrow> accounted versionOf evs f)"
proof -
  obtain x s1 where run: "run p s = (x, s1)" by (cases "run p s")
  then obtain evs where evs: "log s1 = evs @ log s" "list_all noFileError evs"
    using emitsD [OF assms(2)] by blast
  show ?thesis
  proof (cases x)
    case (Inr u)
    then show ?thesis
      using assms(1) run evs noFileError_accounted [of evs versionOf] by (auto simp: isolatedItem_def clearBudget_def prog_simps)
  next
    case (Inl e)
    show ?thesis
    proof (cases "isConnectionError e")
      case True
      then show ?thesis using assms(1) run Inl evs by (auto simp: isolatedItem_def prog_simps)
    next
      case False
      let ?s = "s1\<lparr>log := Callback (OnFileError p e) # log s1\<rparr>"
      have old: "Callback (OnFileError q e') \<notin> set evs" for q e' using evs(2) by (auto simp: list_all_iff noFileError_def)
      show ?thesis
      proof (cases "versionOf p")
        case None
        then show ?thesis
          using assms(1) run Inl False evs old
          by (auto simp: isolatedItem_def prog_simps accounted_def intro!: exI [of _ "Callback (OnFileError p e) # evs"])
      next
        case (Some v)
        obtain r2 s2 where h: "holdForRetryM p v ?s = (r2, s2)" by (cases "holdForRetryM p v ?s")
        from holdForRetryM_run [OF h] obtain hold evs2 where
          h2: "r2 = Inr hold" "log s2 = evs2 @ log ?s" "hold \<or> Callback (OnPullExhausted p) \<in> set evs2" "list_all noFileError evs2"
          by blast
        have old2: "Callback (OnFileError q e') \<notin> set evs2" for q e' using h2(4) by (auto simp: list_all_iff noFileError_def)
        show ?thesis
          using assms(1) run Inl False evs h h2 old old2 Some
          by (auto simp: isolatedItem_def prog_simps accounted_def intro!: exI [of _ "evs2 @ Callback (OnFileError p e) # evs"])
      qed
    qed
  qed
qed

text \<open>The callbacks after each file neither throw nor report a file error.\<close>

definition quiet :: "('w, unit) prog \<Rightarrow> bool" where
  "quiet m \<longleftrightarrow> emits noFileError m \<and> (\<forall>s. fst (m s) = Inr ())"

lemma tryFinally_run:
  assumes "tryFinally m f s = (res, s')" "quiet f"
  shows "\<exists>s1 evs. m s = (res, s1) \<and> log s' = evs @ log s1 \<and> list_all noFileError evs"
proof -
  obtain r s1 where m: "m s = (r, s1)" by (cases "m s")
  obtain s2 where f: "f s1 = (Inr (), s2)" using assms(2) by (metis quiet_def prod.collapse)
  have "res = r \<and> s' = s2"
    using assms(1) m f by (cases r) (auto simp: tryFinally_def prog_simps)
  then show ?thesis using m f emitsD [of noFileError f s1 "Inr ()" s2] assms(2) by (auto simp: quiet_def)
qed

lemma isolatedPass_run:
  assumes "isolatedPass d ps failed run versionOf count onDone k s = (res, s')"
    "\<And>p. emits noFileError (run p)" "\<And>p k. quiet (onDone p k)"
  shows "\<exists>evs. log s' = evs @ log s \<and>
    (case res of Inl e \<Rightarrow> isConnectionError e | Inr f \<Rightarrow> \<exists>f'. f = failed @ f' \<and> accounted versionOf evs f')"
  using assms(1)
proof (induction ps arbitrary: failed k s)
  case Nil
  then show ?case by (auto simp: ret_def accounted_def intro!: exI [of _ "[]"])
next
  case (Cons p ps)
  let ?item = "tryFinally (isolatedItem d run versionOf p) (onDone p (count p k))"
  show ?case
  proof (cases "case d_alive d of None \<Rightarrow> True | Some f \<Rightarrow> f (world s)")
    case False
    then show ?thesis using Cons.prems Cons.IH by (simp add: andThen_def getS_def)
  next
    case True
    obtain r1 s1 where item: "?item s = (r1, s1)" by (cases "?item s")
    from tryFinally_run [OF item assms(3)] obtain s0 e2 where
      i: "isolatedItem d run versionOf p s = (r1, s0)" "log s1 = e2 @ log s0" "list_all noFileError e2" by blast
    from isolatedItem_run [OF i(1) assms(2)] obtain e1 where
      e1: "log s0 = e1 @ log s" "case r1 of Inl e \<Rightarrow> isConnectionError e | Inr f \<Rightarrow> accounted versionOf e1 f" by blast
    show ?thesis
    proof (cases r1)
      case (Inl e)
      then show ?thesis using Cons.prems True item i e1 by (auto simp: andThen_def getS_def)
    next
      case (Inr f)
      have acc: "accounted versionOf (e2 @ e1) f"
        using accounted_append [of versionOf e1 f e2 "[]"] e1(2) Inr noFileError_accounted [OF i(3)] by simp
      have "isolatedPass d ps (failed @ f) run versionOf count onDone (count p k) s1 = (res, s')"
        using Cons.prems True item Inr by (simp add: andThen_def getS_def)
      from Cons.IH [OF this] obtain e3 where
        e3: "log s' = e3 @ log s1"
          "case res of Inl e \<Rightarrow> isConnectionError e | Inr g \<Rightarrow> \<exists>f'. g = (failed @ f) @ f' \<and> accounted versionOf e3 f'"
        by blast
      show ?thesis
      proof (intro exI conjI)
        show "log s' = (e3 @ e2 @ e1) @ log s" using e3(1) i(2) e1(1) by simp
        show "case res of Inl e \<Rightarrow> isConnectionError e
              | Inr g \<Rightarrow> \<exists>f'. g = failed @ f' \<and> accounted versionOf (e3 @ e2 @ e1) f'"
          using e3(2) accounted_append [OF acc] by (auto split: sum.splits)
      qed
    qed
  qed
qed

lemma advanceCursor_bounds:
  "advanceCursor v failed \<le> v" "x \<in> set failed \<Longrightarrow> advanceCursor v failed < x"
proof -
  show "advanceCursor v failed \<le> v" by (simp add: advanceCursor_def)
  show "advanceCursor v failed < x" if "x \<in> set failed"
  proof -
    have "Min (set failed) \<le> x" using that by simp
    then have "Min (set failed) - 1 < x" by linarith
    then show ?thesis using that by (auto simp: advanceCursor_def intro: min.strict_coboundedI2)
  qed
qed

text \<open>How a pass ends: by a connection failure, or with every failed change accounted for.\<close>

definition ended :: "changes_response \<Rightarrow> event list \<Rightarrow> err + unit \<Rightarrow> int \<Rightarrow> bool" where
  "ended r evs res cur =
     (case res of
        Inl e \<Rightarrow> isConnectionError e
      | Inr _ \<Rightarrow> cur \<le> cr_version r
          \<and> (\<forall>p e v. Callback (OnFileError p e) \<in> set evs \<longrightarrow> changeVersion r p = Some v \<longrightarrow>
                cur < v \<or> Callback (OnPullExhausted p) \<in> set evs))"

lemma loop_ended:
  assumes "andThen (isolatedPass d ps [] run (changeVersion r) count onDone k)
             (\<lambda>failed. modS (\<lambda>s. s\<lparr>cursor := advanceCursor (cr_version r) failed\<rparr>)) s = (res, s')"
    and "\<And>p. emits noFileError (run p)" "\<And>p k. quiet (onDone p k)"
  shows "\<exists>evs. log s' = evs @ log s \<and> ended r evs res (cursor s')"
proof -
  obtain x s1 where x: "isolatedPass d ps [] run (changeVersion r) count onDone k s = (x, s1)"
    by (cases "isolatedPass d ps [] run (changeVersion r) count onDone k s")
  from isolatedPass_run [OF x assms(2,3)] obtain evs where evs: "log s1 = evs @ log s"
    "case x of Inl e \<Rightarrow> isConnectionError e | Inr f \<Rightarrow> \<exists>f'. f = [] @ f' \<and> accounted (changeVersion r) evs f'" by blast
  show ?thesis
  proof (cases x)
    case (Inl e)
    then show ?thesis using assms(1) x evs by (auto simp: andThen_def ended_def)
  next
    case (Inr f)
    have cur: "res = Inr ()" "cursor s' = advanceCursor (cr_version r) f" "log s' = evs @ log s"
      using assms(1) x evs(1) Inr by (auto simp: andThen_def modS_def keepOutside_def)
    have "accounted (changeVersion r) evs f" using evs(2) Inr by simp
    then have "ended r evs (Inr ()) (advanceCursor (cr_version r) f)"
      using advanceCursor_bounds by (simp add: ended_def accounted_def) blast
    then show ?thesis using cur by auto
  qed
qed

lemma quiet_callback: "(\<And>p e. c \<noteq> OnFileError p e) \<Longrightarrow> quiet (callback c)"
  unfolding quiet_def by (intro conjI emits_rules) (simp_all add: noFileError_def record_event_def)

lemma quiet_andThen: "quiet m \<Longrightarrow> (\<And>x. quiet (f x)) \<Longrightarrow> quiet (andThen m f)"
  by (auto simp: quiet_def intro!: emits_rules)
    (metis (no_types, lifting) andThen_def case_prod_unfold fst_conv old.sum.simps(6))

lemma quiet_whenM: "quiet m \<Longrightarrow> quiet (whenM b m)"
  by (auto simp: quiet_def whenM_def ret_def emits_def)

lemma quiet_onDoneAll: "quiet (onDoneAll ps n p k)"
  unfolding onDoneAll_def by (intro quiet_andThen quiet_whenM quiet_callback) simp_all

lemma quiet_then:
  assumes "andThen m f s = (res, s')" "quiet m"
  shows "\<exists>s1 evs. f () s1 = (res, s') \<and> log s1 = evs @ log s \<and> list_all noFileError evs"
proof -
  obtain s1 where "m s = (Inr (), s1)" using assms(2) by (metis quiet_def prod.collapse)
  then show ?thesis
    using assms emitsD [of noFileError m s "Inr ()" s1] by (auto simp: quiet_def andThen_def)
qed

lemma ended_append: "list_all noFileError e0 \<Longrightarrow> ended r evs res cur \<Longrightarrow> ended r (evs @ e0) res cur"
  by (auto simp: ended_def list_all_iff noFileError_def split: sum.splits)

lemma quiet_then_ended:
  assumes "andThen m f s = (res, s')" "quiet m"
    "\<And>s1. f () s1 = (res, s') \<Longrightarrow> \<exists>evs. log s' = evs @ log s1 \<and> ended r evs res (cursor s')"
  shows "\<exists>evs. log s' = evs @ log s \<and> ended r evs res (cursor s')"
proof -
  from quiet_then [OF assms(1,2)] obtain s1 e0 where
    s1: "f () s1 = (res, s')" "log s1 = e0 @ log s" "list_all noFileError e0" by blast
  from assms(3) [OF s1(1)] obtain evs where "log s' = evs @ log s1" "ended r evs res (cursor s')" by blast
  then show ?thesis using s1 ended_append [OF s1(3)] by (intro exI [of _ "evs @ e0"]) simp
qed


subsection \<open>Every entry point\<close>

text \<open>The passes the engine can run.\<close>

datatype pass = PassAll | PassDelta changes_response | PassPath path nat | PassConfig | PassSwitch switch_mode

definition runPass :: "('w, 'x) deps_scheme \<Rightarrow> pass \<Rightarrow> ('w, unit) prog" where
  "runPass d ps =
     (case ps of
        PassAll \<Rightarrow> andThen (reconcileAll d) (\<lambda>_. ret ())
      | PassDelta r \<Rightarrow> reconcileDelta d r
      | PassPath p n \<Rightarrow> reconcilePath d p n
      | PassConfig \<Rightarrow> reconcileLocalConfig d
      | PassSwitch m \<Rightarrow> switchTo d m)"

text \<open>
  A predicate on the log under which the answers and callbacks are harmless, and which reconciling a
  single path keeps, is kept by the passes.
\<close>

definition harmless :: "(event list \<Rightarrow> bool) \<Rightarrow> bool" where
  "harmless J \<longleftrightarrow> (\<forall>c. stable J (Callback c)) \<and> (\<forall>r. stable J (GotChanges r)) \<and> (\<forall>p m. stable J (GotMeta p m))
     \<and> (\<forall>p r. stable J (GotRead p r)) \<and> (\<forall>p r. stable J (Probed p r))"

lemma harmless_callback: "harmless J \<Longrightarrow> stable J (Callback c)"
  by (simp add: harmless_def)

lemma keeps_log_leaves:
  assumes "harmless J"
  shows "keeps (\<lambda>s. J (log s)) (fetchChanges d0 n)" "keeps (\<lambda>s. J (log s)) (fetchMeta d0 p)"
    "keeps (\<lambda>s. J (log s)) (holdAmbiguous d site keys heldIds)" "keeps (\<lambda>s. J (log s)) (aliasLocalPaths d l c)"
    "keeps (\<lambda>s. J (log s)) (canonicalLocalPath d p)" "keeps (\<lambda>s. J (log s)) (holdForRetryM p v)"
    "keeps (\<lambda>s. J (log s)) (clearBudget p)" "keeps (\<lambda>s. J (log s)) (readOrNull d0 p)"
    "keeps (\<lambda>s. J (log s)) (probePresence d0 p)" "keeps (\<lambda>s. J (log s)) (stamp p st)"
    "keeps (\<lambda>s. J (log s)) (onDoneAll ps k p x)" "keeps (\<lambda>s. J (log s)) (settlePath p q)"
    "keeps (\<lambda>s. J (log s)) (setBase d0 p b h)"
  unfolding fetchChanges_def fetchMeta_def onDoneAll_def settlePath_def
  using assms by (intro keeps_stable emits_rules; simp add: harmless_def)+

lemma keeps_tryFinally [keeps_rules]: "keeps I m \<Longrightarrow> keeps I f \<Longrightarrow> keeps I (tryFinally m f)"
  unfolding tryFinally_def by (intro keeps_rules)

lemma keeps_isolatedPass:
  assumes "harmless J" "\<And>p. keeps (\<lambda>s. J (log s)) (run p)" "\<And>p k. keeps (\<lambda>s. J (log s)) (onDone p k)"
  shows "keeps (\<lambda>s. J (log s)) (isolatedPass d ps failed run versionOf count onDone k)"
proof -
  have item: "keeps (\<lambda>s. J (log s)) (isolatedItem d run versionOf p)" for p
    unfolding isolatedItem_def
    by (intro keeps_rules keeps_log_leaves [OF assms(1)] assms(2) harmless_callback [OF assms(1)])
  show ?thesis
  proof (induction ps arbitrary: failed k)
    case (Cons p ps)
    show ?case by (simp only: isolatedPass.simps) (intro keeps_rules item assms(3) Cons.IH)
  qed (simp add: keeps_rules)
qed

locale path_logic =
  fixes J :: "event list \<Rightarrow> bool" and d :: "('w, 'x) deps_scheme"
  assumes harmless: "harmless J"
    and one: "keeps (\<lambda>s. J (log s)) (reconcileOne d p o1)"
begin

lemmas log_rules = keeps_rules keeps_log_leaves [OF harmless] keeps_isolatedPass [OF harmless] one harmless_callback [OF harmless]

lemma all: "keeps (\<lambda>s. J (log s)) (reconcileAll d)"
  unfolding reconcileAll_def reconcileManifest_def passOver_def examine_def by (intro log_rules)

lemma delta: "keeps (\<lambda>s. J (log s)) (reconcileDelta d r)"
  unfolding reconcileDelta_def deltaItem_def by (intro log_rules)

lemma single: "keeps (\<lambda>s. J (log s)) (reconcilePath d p n)"
proof -
  have "keeps (\<lambda>s. J (log s)) (case (rmeta, io_exists (c_io d)) of
          (Some _, Some ex) \<Rightarrow> andThen (outside (ex q)) (\<lambda>x. ret (Some x)) | _ \<Rightarrow> ret None)" for rmeta q
    by (cases rmeta; cases "io_exists (c_io d)") (auto intro!: keeps_rules)
  then show ?thesis
    unfolding reconcilePath_def deleteEvidence_def bracketed_def pathFinally_def by (intro log_rules)
qed

lemma config: "keeps (\<lambda>s. J (log s)) (reconcileLocalConfig d)"
  unfolding reconcileLocalConfig_def configItem_def by (intro log_rules)

lemma switch:
  assumes "\<And>rs l old. keeps (\<lambda>s. J (log s)) (switchDownload d rs l old)"
    and "\<And>rs l. \<not> d_readOnly d \<Longrightarrow> keeps (\<lambda>s. J (log s)) (switchUpload d rs l)"
  shows "keeps (\<lambda>s. J (log s)) (switchTo d m)"
proof -
  have "keeps (\<lambda>s. J (log s)) (switchUpload d rs l)"
    if "\<not> (m = SwitchUpload \<and> d_readOnly d)" "m \<noteq> SwitchMerge" "m \<noteq> SwitchDownload" for rs l
    using that assms(2) by (cases m) auto
  then show ?thesis unfolding switchTo_def by (intro log_rules all assms(1)) assumption+
qed

lemma passes:
  assumes "\<And>rs l old. keeps (\<lambda>s. J (log s)) (switchDownload d rs l old)"
    and "\<And>rs l. \<not> d_readOnly d \<Longrightarrow> keeps (\<lambda>s. J (log s)) (switchUpload d rs l)"
  shows "keeps (\<lambda>s. J (log s)) (runPass d ps)"
  unfolding runPass_def
  by (cases ps) (auto intro!: keeps_rules all delta single config switch [OF assms])

end

text \<open>A download changes the vault only.\<close>

fun vaultEvent :: "event \<Rightarrow> bool" where
  "vaultEvent (ApiPutChunk h x) = False"
| "vaultEvent (ApiCommit q) = False"
| "vaultEvent (ApiDelete p v) = False"
| "vaultEvent _ = True"

lemma emits_switchDownload: "emits vaultEvent (switchDownload d remote local old)"
proof -
  have "emits vaultEvent (adoptItem d old p m)" for p m
    unfolding adoptItem_def by (intro emits_rules; simp)
  then have "emits vaultEvent (adoptLoop d old rs n f)" for rs n f
    by (induction d old rs n f rule: adoptLoop.induct) (auto intro!: emits_rules)
  then show ?thesis
    unfolding switchDownload_def by (intro emits_rules; simp)
qed

subsection \<open>The read-only scope\<close>

lemma emits_reconcileOne_readOnly: "d_readOnly d \<Longrightarrow> emits vaultEvent (reconcileOne d p o1)"
proof (rule emits_mono [OF emits_reconcileOne])
  show "vaultEvent e" if "d_readOnly d" "accepts d p \<and> footprint d p o1 e" for e
    using that by (cases e) auto
qed

lemma keeps_since: "emits Q m \<Longrightarrow> keeps (\<lambda>s. sinceLog l Q (log s)) m"
  by (rule keeps_stable) (rule emits_mono, assumption, rule stable_since)

lemma readOnly_logic: "d_readOnly d \<Longrightarrow> path_logic (sinceLog l vaultEvent) d"
  by unfold_locales (auto simp: harmless_def intro!: stable_since keeps_since emits_reconcileOne_readOnly)

text \<open>
  (C8) A read-only scope never changes the server: whichever pass runs on it (the whole vault, a delta, a
  single path, the configuration scan, or a vault switch in any mode), no chunk is uploaded, nothing is
  committed and nothing is deleted there.
\<close>
theorem readOnly_scope_never_mutates:
  assumes "d_readOnly d"
  shows "\<exists>evs. log (snd (runPass d ps s)) = evs @ log s \<and> list_all vaultEvent evs"
proof (rule emits_log)
  show "emits vaultEvent (runPass d ps)"
    by (rule emits_of_keeps, rule path_logic.passes [OF readOnly_logic])
      (use assms in \<open>auto intro: keeps_since emits_switchDownload\<close>)
qed

lemma readOnly_scope_never_mutates_witness:
  "d_readOnly (sampleDeps True)
   \<and> (\<exists>evs. log (snd (runPass (sampleDeps True) PassAll twoNotes)) = evs @ log twoNotes \<and> list_all vaultEvent evs)"
proof -
  have "d_readOnly (sampleDeps True)" by (simp add: sampleDeps_def)
  then show ?thesis using readOnly_scope_never_mutates [of "sampleDeps True" PassAll twoNotes] by blast
qed

end
