(* ===== verification/MountSync.thy ===== *)
theory MountSync
  imports MountIo MountFsm ForeignTools PassSafety
begin

text \<open>
  The runtime of one mount, \<open>client/src/mountengine.ts\<close>, and the loop that drives the mounts,
  \<open>client/src/mountsync.ts\<close>. A mount runs the passes of the reconciliation unchanged, on its own base,
  cursor and retry budget and on the adapters of \<open>MountIo\<close>; the world and the chunk cache are shared.

  The lists that the runtime's callbacks fill (the held deletions, the held pushes, the read-only edits
  and whether a conflict copy was made) are read off the callbacks that a poll has recorded. The settings
  that the context reads live are read once per poll. What the plugin does to a scope while its poll is
  awaited, tearing it down or asking for a full pass, is an argument of the driver.
\<close>

definition mountKey :: "mount \<Rightarrow> string" where
  "mountKey m =
     jsonStrArray [ms_owner (mt_source m), ms_vaultId (mt_source m), ms_sourcePath (mt_source m), mt_mountPoint m]"

subsection \<open>The persisted state\<close>

record mount_persist =
  mp_base :: "(path \<times> base_entry) list"
  mp_version :: int
  mp_historyFloor :: "int option"

text \<open>
  What the parser reads: the numbers of an entry and the cursor need not be integers there.
\<close>

record parsed_entry =
  pe_hash :: hash
  pe_text :: "utext option"
  pe_size :: "rat option"
  pe_mtime :: "rat option"

record parsed_mount =
  pm_base :: "(path \<times> parsed_entry) list"
  pm_version :: rat
  pm_historyFloor :: "int option"

definition nonNegative :: "jval \<Rightarrow> rat option" where
  "nonNegative v = (case numOf v of None \<Rightarrow> None | Some q \<Rightarrow> if q \<ge> 0 then Some q else None)"

definition parseEntry :: "jval \<Rightarrow> parsed_entry option" where
  "parseEntry be =
     (if \<not> isObject be then None
      else case fieldOf be ''hash'' of
        VStr h \<Rightarrow> Some
          \<lparr>pe_hash = ofUnits h,
           pe_text = (case fieldOf be ''text'' of VStr t \<Rightarrow> Some t | _ \<Rightarrow> None),
           pe_size = nonNegative (fieldOf be ''size''),
           pe_mtime = nonNegative (fieldOf be ''mtime'')\<rparr>
      | _ \<Rightarrow> None)"

definition parseBase :: "jval \<Rightarrow> (path \<times> parsed_entry) list" where
  "parseBase v =
     foldl (\<lambda>out (p, be). case parseEntry be of None \<Rightarrow> out | Some e \<Rightarrow> recordSet p e out) [] (entriesOf v)"

definition MAX_SAFE_INTEGER :: int where
  "MAX_SAFE_INTEGER = 9007199254740991"

definition parseFloor :: "jval \<Rightarrow> int option" where
  "parseFloor v =
     (case intOf v of None \<Rightarrow> None | Some n \<Rightarrow> if 1 \<le> n \<and> n \<le> MAX_SAFE_INTEGER then Some n else None)"

definition parsePersist :: "jval \<Rightarrow> parsed_mount option" where
  "parsePersist e =
     (if \<not> isObject e then None
      else case nonNegative (fieldOf e ''version'') of
        None \<Rightarrow> None
      | Some version \<Rightarrow>
          if \<not> isObject (fieldOf e ''base'') then None
          else Some
            \<lparr>pm_base = parseBase (fieldOf e ''base''), pm_version = version,
             pm_historyFloor = parseFloor (fieldOf e ''historyFloor'')\<rparr>)"

definition parseMountState :: "jval \<Rightarrow> (string \<times> parsed_mount) list" where
  "parseMountState raw =
     foldl (\<lambda>out (key, v). case parsePersist v of None \<Rightarrow> out | Some e \<Rightarrow> recordSet key e out) [] (entriesOf raw)"

subsection \<open>The runtime\<close>

record 'w mount_ctx =
  mc_io :: "'w vault_io"
  mc_sourceApi :: "'w sync_api"
  mc_host :: host
  mc_nowMs :: "'w \<Rightarrow> nat"
  mc_nowUtc :: "'w \<Rightarrow> utc"
  mc_device :: string
  mc_restore :: "mount_persist option"
  mc_ignorePatterns :: "utext list"
  mc_maxSyncBytes :: "nat option"
  mc_skipForeignArtefacts :: "('w \<Rightarrow> bool) option"
  mc_bulkDeleteStrategy :: "bulk_strategy option"
  mc_bulkDeleteThreshold :: "rat option"
  mc_sourceReadOnly :: "('w \<Rightarrow> bool) option"
  mc_pushFlipHold :: "(path \<Rightarrow> hash \<Rightarrow> bytes option \<Rightarrow> 'w \<Rightarrow> bool \<times> 'w) option"
  mc_sourceReady :: "('w, bool) outside option"

record 'w mount_runtime =
  rt_mount :: mount
  rt_ctx :: "'w mount_ctx"
  rt_base :: base_store
  rt_version :: int
  rt_retryBudget :: "retry_budget option"
  rt_spelt :: "path option"
  rt_sawConflict :: bool
  rt_held :: "path list"
  rt_heldPush :: "path list"
  rt_roEdits :: "path list"
  rt_histFloor :: "int option"

definition newRuntime :: "mount \<Rightarrow> 'w mount_ctx \<Rightarrow> 'w mount_runtime" where
  "newRuntime m ctx =
     \<lparr>rt_mount = m, rt_ctx = ctx,
      rt_base = baseStore (case mc_restore ctx of None \<Rightarrow> []
        | Some r \<Rightarrow> map (\<lambda>(p, e). (p, base_entry.extend e \<lparr>le_normHash = None\<rparr>)) (mp_base r)),
      rt_version = (case mc_restore ctx of None \<Rightarrow> 0 | Some r \<Rightarrow> mp_version r),
      rt_retryBudget = Some Map.empty, rt_spelt = None, rt_sawConflict = False, rt_held = [], rt_heldPush = [],
      rt_roEdits = [], rt_histFloor = Option.bind (mc_restore ctx) mp_historyFloor\<rparr>"

definition mountReadOnly :: "'w mount_runtime \<Rightarrow> 'w \<Rightarrow> bool" where
  "mountReadOnly rt w \<longleftrightarrow>
     mt_direction (rt_mount rt) = DirPull \<or> (case mc_sourceReadOnly (rt_ctx rt) of None \<Rightarrow> False | Some f \<Rightarrow> f w)"

definition mountAccepts :: "'w mount_runtime \<Rightarrow> 'w \<Rightarrow> path \<Rightarrow> bool" where
  "mountAccepts rt w p \<longleftrightarrow>
     isDataPath p
     \<and> \<not> ((case mc_skipForeignArtefacts (rt_ctx rt) of None \<Rightarrow> True | Some f \<Rightarrow> f w) \<and> isForeignArtefact p)"

definition mountDeps :: "'w mount_runtime \<Rightarrow> 'w \<Rightarrow> 'w mounted deps" where
  "mountDeps rt w =
     (let ctx = rt_ctx rt; m = rt_mount rt; nfc = h_nfc (mc_host ctx) in
      \<lparr>c_io = mountedIo nfc m (mc_io ctx), c_api = mountedApi nfc m (mc_sourceApi ctx), c_host = mc_host ctx,
       c_nowMs = (\<lambda>x. mc_nowMs ctx (mw_world x)), c_nowUtc = (\<lambda>x. mc_nowUtc ctx (mw_world x)),
       d_device = mc_device ctx, d_ignorePatterns = mc_ignorePatterns ctx, d_excludedFolders = [], d_statOf = None,
       d_maxSyncBytes = mc_maxSyncBytes ctx, d_readOnly = mountReadOnly rt w,
       d_noResurrect = (ms_owner (mt_source m) \<noteq> ''''), d_preserveLocalFirstContact = True, d_alive = None,
       d_accepts = Some (mountAccepts rt w),
       d_pushFlipHold = map_option (\<lambda>f p h b x. case f p h b (mw_world x) of (r, w') \<Rightarrow> (r, x\<lparr>mw_world := w'\<rparr>))
         (mc_pushFlipHold ctx),
       d_bulkDeleteStrategy = mc_bulkDeleteStrategy ctx, d_bulkDeleteThreshold = mc_bulkDeleteThreshold ctx,
       d_caseInsensitivePaths = False, d_normalizationInsensitivePaths = False, d_localSizeOf = None,
       d_violationThrows = False\<rparr>)"

fun anyAbsent :: "(path \<Rightarrow> ('w, bool) outside) \<Rightarrow> path list \<Rightarrow> ('w, bool) prog" where
  "anyAbsent ex [] = ret False"
| "anyAbsent ex (p # ps) = andThen (outside (ex p)) (\<lambda>here. if \<not> here then ret True else anyAbsent ex ps)"

definition massByListing :: "('w, 'x) deps_scheme \<Rightarrow> path list \<Rightarrow> ('w, bool) prog" where
  "massByListing d basePaths =
     andThen (outside (io_list (c_io d))) (\<lambda>local.
     let listAbsent = filter (\<lambda>p. map_of local p = None) basePaths in
     if \<not> (length listAbsent = length basePaths \<or> length listAbsent \<ge> BULK_DELETE_MIN) then ret False
     else case io_exists (c_io d) of
       Some ex \<Rightarrow> anyAbsent ex listAbsent
     | None \<Rightarrow> ret True)"

definition massLocalDeletion :: "('w, 'x) deps_scheme \<Rightarrow> ('w, bool) prog" where
  "massLocalDeletion d =
     andThen (getS (\<lambda>s. base_paths (base s))) (\<lambda>basePaths.
     if basePaths = [] then ret False
     else andThen
       (case io_exists (c_io d) of
          Some ex \<Rightarrow> andThen (outside (ex '''')) (\<lambda>here. ret (\<not> here))
        | None \<Rightarrow> ret False)
       (\<lambda>folderGone. if folderGone then ret True else massByListing d basePaths))"

definition noteHistoryFloor :: "int option \<Rightarrow> int option \<Rightarrow> bool \<Rightarrow> int option" where
  "noteHistoryFloor histFloor observed authoritative =
     (if authoritative then observed
      else case observed of
        None \<Rightarrow> histFloor
      | Some f \<Rightarrow> (case histFloor of None \<Rightarrow> Some f | Some h \<Rightarrow> if f > h then Some f else Some h))"

definition toPersist :: "'w mount_runtime \<Rightarrow> mount_persist" where
  "toPersist rt = \<lparr>mp_base = toJSON (rt_base rt), mp_version = rt_version rt, mp_historyFloor = rt_histFloor rt\<rparr>"

definition resetHeld :: "'w mount_runtime \<Rightarrow> 'w mount_runtime" where
  "resetHeld rt = rt\<lparr>rt_held := [], rt_heldPush := [], rt_roEdits := []\<rparr>"

definition ready :: "'w mount_runtime \<Rightarrow> ('w mounted, bool) outside" where
  "ready rt = (case mc_sourceReady (rt_ctx rt) of None \<Rightarrow> (\<lambda>w. (Inr True, w)) | Some f \<Rightarrow> below f)"

subsection \<open>One poll\<close>

text \<open>The result is the history floor after the poll and whether the mount's content was found gone.\<close>

definition pollMount :: "('w, 'x) deps_scheme \<Rightarrow> int option \<Rightarrow> bool \<Rightarrow> ('w, int option \<times> bool) prog" where
  "pollMount d histFloor forceFull =
     andThen (getS cursor) (\<lambda>before.
     andThen (fetchChanges d before) (\<lambda>delta.
     let noChange = (cr_upserts delta = [] \<and> cr_deletes delta = [] \<and> cr_version delta = before);
         rewound = cr_version delta < before;
         floorAdvanced = (case (histFloor, cr_history_floor delta) of (Some prior, Some f) \<Rightarrow> f > prior | _ \<Rightarrow> False);
         mode = decideReconcileMode False forceFull (rewound \<or> floorAdvanced) noChange
     in if mode = ModeNoop then ret (noteHistoryFloor histFloor (cr_history_floor delta) False, False)
        else if mode = ModeFull then
          andThen (massLocalDeletion d) (\<lambda>gone.
          if gone then ret (histFloor, True)
          else andThen (reconcileAll d) (\<lambda>_. ret (noteHistoryFloor histFloor (cr_history_floor delta) rewound, False)))
        else andThen (reconcileDelta d delta) (\<lambda>_. ret (noteHistoryFloor histFloor (cr_history_floor delta) rewound, False))))"

subsection \<open>The driver\<close>

definition MAX_MOUNT_FAILS :: nat where
  "MAX_MOUNT_FAILS = 3"

record 'w mount_scope =
  sc_runtime :: "'w mount_runtime"
  sc_state :: mount_state
  sc_fails :: nat
  sc_forceFull :: bool

record 'w shared =
  sh_world :: 'w
  sh_cache :: "(hash \<times> bytes) list"

datatype hook_call =
    HookEvent mount_state | HookError err | HookHeld "path list" bool | HookHeldPush "path list" bool | HookRoEdits "path list" bool

definition enterMount :: "'w mount_runtime \<Rightarrow> 'w shared \<Rightarrow> 'w mounted sync_state" where
  "enterMount rt sh =
     \<lparr>world = \<lparr>mw_world = sh_world sh, mw_real = rt_spelt rt\<rparr>, base = rt_base rt, cache = sh_cache sh,
      cursor = rt_version rt, budget = rt_retryBudget rt, rejected = None, ambiguous = None, log = []\<rparr>"

fun heldOf :: "event \<Rightarrow> path option" where
  "heldOf (Callback (OnGuard p)) = Some p"
| "heldOf _ = None"

fun heldPushOf :: "event \<Rightarrow> path option" where
  "heldPushOf (Callback (OnPushGuard p)) = Some p"
| "heldPushOf _ = None"

fun roEditOf :: "event \<Rightarrow> path option" where
  "roEditOf (Callback (OnReadOnly p)) = Some p"
| "roEditOf (Callback (OnReadOnlyCopy p)) = Some p"
| "roEditOf _ = None"

fun isConflictCall :: "event \<Rightarrow> bool" where
  "isConflictCall (Callback (OnConflict p copy)) = True"
| "isConflictCall _ = False"

definition leaveMount :: "'w mount_runtime \<Rightarrow> 'w mounted sync_state \<Rightarrow> 'w mount_runtime" where
  "leaveMount rt s =
     rt\<lparr>rt_base := base s, rt_version := cursor s, rt_retryBudget := budget s, rt_spelt := mw_real (world s),
        rt_sawConflict := rt_sawConflict rt \<or> list_ex isConflictCall (log s),
        rt_held := rt_held rt @ List.map_filter heldOf (rev (log s)),
        rt_heldPush := rt_heldPush rt @ List.map_filter heldPushOf (rev (log s)),
        rt_roEdits := rt_roEdits rt @ List.map_filter roEditOf (rev (log s))\<rparr>"

definition sharedOf :: "'w mounted sync_state \<Rightarrow> 'w shared" where
  "sharedOf s = \<lparr>sh_world = mw_world (world s), sh_cache = cache s\<rparr>"

text \<open>
  The body of the \<open>try\<close>: the readiness check of a first contact or reconnection, then the poll. The lists of
  the last pass are only forgotten once the poll starts.
\<close>

definition checkReady :: "'w mount_runtime \<Rightarrow> bool \<Rightarrow> ('w mounted, unit) prog" where
  "checkReady rt contact =
     andThen (if contact then outside (ready rt) else ret True) (\<lambda>ok.
     if \<not> ok then throwE (newError ''source vault not ready (reindexing?)'') else ret ())"

definition scopePoll ::
  "'w mount_runtime \<Rightarrow> bool \<Rightarrow> bool \<Rightarrow> 'w shared \<Rightarrow> (err + int option \<times> bool) \<times> 'w mount_runtime \<times> 'w shared" where
  "scopePoll rt contact full sh =
     (case checkReady rt contact (enterMount rt sh) of
        (Inl e, s) \<Rightarrow> (Inl e, leaveMount rt s, sharedOf s)
      | (Inr _, s) \<Rightarrow>
          (case pollMount (mountDeps rt (mw_world (world s))) (rt_histFloor rt) full s of
             (r, s') \<Rightarrow> (r, leaveMount (resetHeld rt) s', sharedOf s')))"

definition pollFailed :: "'w mount_scope \<Rightarrow> err \<Rightarrow> 'w mount_scope \<times> hook_call list" where
  "pollFailed sc e =
     (let sc1 = sc\<lparr>sc_fails := sc_fails sc + 1,
            sc_state := mountTransition (sc_state sc) (if sc_fails sc + 1 \<ge> MAX_MOUNT_FAILS then MFail else MDisconnect)\<rparr>
      in (sc1, [HookError e, HookEvent (sc_state sc1)]))"

definition pollGone :: "'w mount_scope \<Rightarrow> 'w mount_scope \<times> hook_call list" where
  "pollGone sc =
     (let sc1 = sc\<lparr>sc_state := mountTransition (sc_state sc) MLocalGone\<rparr> in (sc1, [HookEvent (sc_state sc1)]))"

definition pollSettled :: "'w mount_scope \<Rightarrow> bool \<Rightarrow> 'w mount_scope \<times> hook_call list" where
  "pollSettled sc full =
     (let rt = sc_runtime sc;
          sc1 = sc\<lparr>sc_runtime := rt\<lparr>rt_held := [], rt_heldPush := [], rt_roEdits := [], rt_sawConflict := False\<rparr>,
            sc_fails := 0,
            sc_state := mountTransition (sc_state sc) (if rt_sawConflict rt then MConflict else MSyncSettled)\<rparr>
      in (sc1, [HookHeld (rt_held rt) full, HookHeldPush (rt_heldPush rt) full, HookRoEdits (rt_roEdits rt) full,
                HookEvent (sc_state sc1)]))"

text \<open>
  What happens to the scope while the poll is awaited: the events the plugin applies to its state, and
  whether it asks for a full pass.
\<close>

type_synonym meanwhile = "mount_event list \<times> bool"

definition afterMeanwhile :: "meanwhile \<Rightarrow> 'w mount_scope \<Rightarrow> 'w mount_scope" where
  "afterMeanwhile mw sc =
     sc\<lparr>sc_state := foldl mountTransition (sc_state sc) (fst mw), sc_forceFull := sc_forceFull sc \<or> snd mw\<rparr>"

definition reconcileMountScope ::
  "meanwhile \<Rightarrow> 'w mount_scope \<Rightarrow> 'w shared \<Rightarrow> ('w mount_scope \<times> hook_call list) \<times> 'w shared" where
  "reconcileMountScope mw sc sh =
     (if sc_state sc \<in> {Detached, Unmounting, MFailed, LocalGone} then ((sc, []), sh)
      else
        (let contact = (sc_state sc = Mounting \<or> sc_state sc = Offline);
             full = (contact \<or> sc_forceFull sc);
             live = (sc_state sc = Live);
             sc1 = sc\<lparr>sc_forceFull := False, sc_state := (if live then mountTransition Live MSyncStart else sc_state sc)\<rparr>;
             started = (if live then [HookEvent (sc_state sc1)] else []);
             (result, rt, sh1) = scopePoll (sc_runtime sc) contact full sh;
             sc2 = afterMeanwhile mw (sc1\<lparr>sc_runtime := rt\<rparr>);
             outcome = (case result of
                Inl e \<Rightarrow> pollFailed sc2 e
              | Inr (histFloor, gone) \<Rightarrow>
                  if gone then pollGone sc2
                  else pollSettled (sc2\<lparr>sc_runtime := rt\<lparr>rt_histFloor := histFloor\<rparr>\<rparr>) full)
         in ((fst outcome, started @ snd outcome), sh1)))"

text \<open>
  One cycle over all scopes. \<open>isLive\<close> is asked before each scope, in the world of that moment.
\<close>

definition startScope :: "'w mount_scope \<Rightarrow> 'w mount_scope" where
  "startScope sc = (if sc_state sc = Detached then sc\<lparr>sc_state := mountTransition Detached MMount\<rparr> else sc)"

fun reconcileMountScopes ::
  "('w mount_scope \<Rightarrow> 'w \<Rightarrow> bool) \<Rightarrow> ('w mount_scope \<times> meanwhile) list \<Rightarrow> 'w shared \<Rightarrow>
   ('w mount_scope \<times> hook_call list) list \<times> 'w shared" where
  "reconcileMountScopes isLive [] sh = ([], sh)"
| "reconcileMountScopes isLive ((sc, mw) # scs) sh =
     (let (r, sh1) = (if \<not> isLive sc (sh_world sh) then ((sc, []), sh) else reconcileMountScope mw (startScope sc) sh);
          (rs, sh2) = reconcileMountScopes isLive scs sh1
      in (r # rs, sh2))"

end
