(* ===== verification/Evidence.thy ===== *)
theory Evidence
  imports PassSafety
begin

text \<open>
  Properties of the order of calls: a deletion on the server comes right after a definite answer that
  the file is gone, and the work signal around a single path is always cleared.
\<close>

subsection \<open>Deletions on the server are evidenced\<close>

fun isCallback :: "event \<Rightarrow> bool" where
  "isCallback (Callback c) = True"
| "isCallback _ = False"

text \<open>The newest event that is not a callback is the probe's definite answer.\<close>

definition answeredAbsent :: "path \<Rightarrow> event list \<Rightarrow> bool" where
  "answeredAbsent p es =
     (case dropWhile isCallback es of [] \<Rightarrow> False | e # _ \<Rightarrow> e = Probed p Absent)"

fun evidenced :: "event list \<Rightarrow> bool" where
  "evidenced [] = True"
| "evidenced (ApiDelete p v # es) = (answeredAbsent p es \<and> evidenced es)"
| "evidenced (_ # es) = evidenced es"

fun noDelete :: "event \<Rightarrow> bool" where
  "noDelete (ApiDelete p v) = False"
| "noDelete _ = True"

lemma stable_evidenced: "noDelete e \<Longrightarrow> stable evidenced e"
  by (cases e) (auto simp: stable_def)

lemma keeps_evidenced: "emits noDelete m \<Longrightarrow> keeps (\<lambda>s. evidenced (log s)) m"
  by (rule keeps_stable) (rule emits_mono, assumption, rule stable_evidenced)

text \<open>The probe is definite: \<open>exists\<close> said no, or there is no \<open>exists\<close> and the file could not be read.\<close>

lemma probePresence_absent:
  assumes "probePresence d p s = (Inr Absent, s')"
  shows "answeredAbsent p (log s')
    \<and> (case io_exists (c_io d) of
         Some ex \<Rightarrow> fst (ex p (world s)) = Inr False
       | None \<Rightarrow> \<exists>e. fst (io_read (c_io d) p (world s)) = Inl e)"
  using assms
  by (auto simp: probePresence_def readOrNull_def prog_simps answeredAbsent_def
      split: option.splits prod.splits sum.splits if_splits)

text \<open>A program that may delete \<open>p\<close> on the server when it starts right after the answer.\<close>

abbreviation deletesAfter :: "path \<Rightarrow> ('w, 'a) prog \<Rightarrow> bool" where
  "deletesAfter p m \<equiv> keepsFrom (\<lambda>s. answeredAbsent p (log s)) (\<lambda>s. evidenced (log s)) m"

lemma deletesAfter_perform: "deletesAfter p (perform (ApiDelete p v) f)"
  by (rule keepsFrom_perform) simp

lemma answeredAbsent_callbacks: "list_all isCallback cs \<Longrightarrow> answeredAbsent p (cs @ es) = answeredAbsent p es"
  by (induction cs) (auto simp: answeredAbsent_def)

lemma deletesAfter_signal:
  assumes "emits isCallback sig" "\<And>x. deletesAfter p (m x)"
  shows "deletesAfter p (andThen sig m)"
proof (rule keepsFrom_andThen [OF _ _ assms(2)])
  have "noDelete e" if "isCallback e" for e using that by (cases e) auto
  then show "deletesAfter p sig" by (intro keepsFrom_keeps keeps_evidenced emits_mono [OF assms(1)])
  show "answeredAbsent p (log s')" if "answeredAbsent p (log s)" "sig s = (Inr x, s')" for s x s'
    using emitsD [OF assms(1) that(2)] that(1) by (auto simp: answeredAbsent_callbacks)
qed

lemma keeps_probed:
  assumes "deletesAfter p m"
  shows "keeps (\<lambda>s. evidenced (log s)) (andThen (probePresence d p) (\<lambda>pr. if pr \<noteq> Absent then ret () else m))"
proof -
  have "keeps (\<lambda>s. evidenced (log s)) (probePresence d p)"
    by (rule keeps_evidenced) (intro emits_rules; simp)
  then have "keepsFrom (\<lambda>_. True) (\<lambda>s. evidenced (log s))
      (andThen (probePresence d p) (\<lambda>pr. if pr \<noteq> Absent then ret () else m))"
  proof (rule keepsFrom_andThen [where A = "\<lambda>pr s. pr = Absent \<longrightarrow> answeredAbsent p (log s)", OF keepsFrom_keeps])
    show "pr = Absent \<longrightarrow> answeredAbsent p (log s')" if "probePresence d p s = (Inr pr, s')" for s pr s'
      using probePresence_absent that by blast
    show "keepsFrom (\<lambda>s. pr = Absent \<longrightarrow> answeredAbsent p (log s)) (\<lambda>s. evidenced (log s)) (if pr \<noteq> Absent then ret () else m)" for pr
      using assms by (simp add: keepsFrom_def ret_def)
  qed
  then show ?thesis by (simp add: keepsFrom_def keeps_def)
qed

subsection \<open>Reconciling one path\<close>

lemma identityShortcut_noDelete:
  assumes "identityShortcut d p m act be l r = Some prog"
  shows "emits noDelete prog"
proof -
  have "emits noDelete (adopt d p r m)" by (intro emits_rules) auto
  moreover have "emits noDelete (pushHeldOr d p l (fm_version m))" by (intro emits_rules) auto
  ultimately show ?thesis
    using assms by (auto simp: identityShortcut_def Let_def split: if_splits option.splits bool.splits)
qed

lemma executePlan_noDelete: "emits noDelete (executePlan d p m l r merged plan)"
  unfolding executePlan_def by (cases plan; simp; intro emits_rules) auto

lemma mergeOrConflict_noDelete: "emits noDelete (reconcileMergeOrConflict d p m act be lb)"
  unfolding reconcileMergeOrConflict_def
  by (intro emits_rules executePlan_noDelete identityShortcut_noDelete) auto

lemma enabledPluginList_noDelete: "emits noDelete (reconcileEnabledPluginList d p m act (signalWork o1))"
  unfolding reconcileEnabledPluginList_def by (intro emits_rules) auto

lemma guardedPush_noDelete: "(\<And>b h. emits noDelete (done b h)) \<Longrightarrow> emits noDelete (guardedPush d p o1 lh lb v done)"
  unfolding guardedPush_def by (intro emits_rules) auto

lemma keeps_executeEffect: "keeps (\<lambda>s. evidenced (log s)) (executeEffect d p o1 act be lh lb eff)"
proof (cases eff)
  case (EffDeleteRemote v)
  have "keeps (\<lambda>s. evidenced (log s)) (dropBase p)"
    by (rule keeps_evidenced) (intro emits_rules; simp)
  moreover have "emits isCallback (signalWork o1)" by (intro emits_rules) simp
  ultimately show ?thesis
    unfolding executeEffect_def EffDeleteRemote effect.case
    by (intro keeps_probed deletesAfter_signal keepsFrom_then deletesAfter_perform)
next
  case (EffPush v a)
  then show ?thesis
    unfolding executeEffect_def by (simp, intro keeps_evidenced guardedPush_noDelete emits_rules) auto
next
  case Restore
  then show ?thesis
    unfolding executeEffect_def by (simp, intro keeps_evidenced guardedPush_noDelete emits_rules) auto
next
  case MergeOrConflict
  then show ?thesis
    unfolding executeEffect_def by (simp, intro keeps_evidenced mergeOrConflict_noDelete emits_rules) auto
next
  case EffPull
  then show ?thesis
    unfolding executeEffect_def by (simp, intro keeps_evidenced emits_rules) auto
qed (simp_all add: executeEffect_def split: option.splits, (intro conjI impI allI keeps_evidenced emits_rules; simp)+)

lemma keeps_reconcileOne: "keeps (\<lambda>s. evidenced (log s)) (reconcileOne d p o1)"
proof -
  have cb: "keeps (\<lambda>s. evidenced (log s)) (callback c)" for c
    by (rule keeps_evidenced) (intro emits_rules; simp)
  have lst: "keeps (\<lambda>s. evidenced (log s)) (reconcileEnabledPluginList d p m act (signalWork o1))" for m act
    by (rule keeps_evidenced) (rule enabledPluginList_noDelete)
  have st: "keeps (\<lambda>s. evidenced (log s)) (stamp p x)" for x
    by (rule keeps_evidenced) (intro emits_rules)
  have rd: "keeps (\<lambda>s. evidenced (log s)) (readSide d p o1 x)" for x
    by (rule keeps_evidenced) (intro emits_rules; simp)
  show ?thesis
    unfolding reconcileOne_def actOn_def
    by (intro keeps_rules cb lst st rd keeps_executeEffect)
qed


subsection \<open>The passes\<close>

interpretation evidence: path_logic evidenced d for d :: "('w, 'x) deps_scheme"
  by unfold_locales (auto simp: harmless_def intro!: stable_evidenced keeps_reconcileOne)

lemma keeps_switchUpload: "keeps (\<lambda>s. evidenced (log s)) (switchUpload d remote local)"
proof -
  have cb: "keeps (\<lambda>s. evidenced (log s)) (callback c)" for c :: callback
    by (rule keeps_evidenced) (intro emits_rules; simp)
  have "keeps (\<lambda>s. evidenced (log s)) (dropRemoteItem d local p)" for p
    unfolding dropRemoteItem_def
    by (intro keeps_rules keeps_probed keepsFrom_tryCatch deletesAfter_perform cb)
  moreover have "emits noDelete (uploadItem d p)" for p
    unfolding uploadItem_def by (intro emits_rules; simp)
  then have "emits noDelete (uploadLoop d xs n)" for xs n
    by (induction d xs n rule: uploadLoop.induct) (auto intro!: emits_rules)
  ultimately show ?thesis
    unfolding switchUpload_def by (intro keeps_rules cb keeps_evidenced [of "uploadLoop d _ _"])
qed

lemma keeps_switchDownload: "keeps (\<lambda>s. evidenced (log s)) (switchDownload d remote local old)"
proof (intro keeps_evidenced emits_mono [OF emits_switchDownload])
  show "noDelete e" if "vaultEvent e" for e using that by (cases e) auto
qed

text \<open>
  (C3) Evidenced deletion: in every pass (whole vault, delta, single path, configuration scan, vault
  switch), each deletion sent to the server comes right after the probe of that very path gave its
  definite answer "absent", with nothing but callbacks in between. A file that is merely missing from a
  listing, unreadable, or whose probe failed is never deleted for the other devices.
\<close>
theorem deletes_evidenced:
  assumes "evidenced (log s)"
  shows "evidenced (log (snd (runPass d ps s)))"
  using evidence.passes [OF keeps_switchDownload keeps_switchUpload, of d ps] assms by (simp add: keeps_def)


lemma deletes_evidenced_witness:
  "evidenced (log twoNotes) \<and> evidenced (log (snd (runPass (sampleDeps False) PassAll twoNotes)))"
proof -
  have "evidenced (log twoNotes)" by (simp add: twoNotes_def startIn_def)
  then show ?thesis using deletes_evidenced [of twoNotes "sampleDeps False" PassAll] by blast
qed

subsection \<open>The bracket around a single path\<close>

definition workOf :: "event \<Rightarrow> bool option" where
  "workOf e = (case e of Callback c \<Rightarrow> (case c of OnPathWork a f \<Rightarrow> Some a | _ \<Rightarrow> None) | _ \<Rightarrow> None)"

text \<open>What the newest work callback said: whether the busy light is left on.\<close>

definition workActive :: "event list \<Rightarrow> bool" where
  "workActive es = (case List.map_filter workOf es of [] \<Rightarrow> False | a # _ \<Rightarrow> a)"

definition settledIn :: "path \<Rightarrow> event list \<Rightarrow> bool" where
  "settledIn p es \<longleftrightarrow> Callback (OnPathSettled p) \<in> set es"

definition bracketEnd :: "path \<Rightarrow> event list \<Rightarrow> err + unit \<Rightarrow> bool" where
  "bracketEnd reported evs res \<longleftrightarrow> \<not> workActive evs \<and>
     (case res of Inr _ \<Rightarrow> settledIn reported evs | Inl e \<Rightarrow> \<forall>q. \<not> settledIn q evs)"

definition idle :: "event \<Rightarrow> bool" where
  "idle e \<longleftrightarrow> workOf e = None \<and> (\<forall>q. e \<noteq> Callback (OnPathSettled q))"

lemma idle_simps [simp]:
  "idle (GotChanges r)" "idle (GotMeta p m)" "idle (Callback (OnPathAliased p q))" "idle (Callback (OnPathViolation v))"
  by (simp_all add: idle_def workOf_def)

lemma map_filter_idle: "list_all idle es \<Longrightarrow> List.map_filter workOf es = []"
  by (induction es) (auto simp: idle_def List.map_filter_simps)

lemma workActive_append_idle: "list_all idle es \<Longrightarrow> workActive (evs @ es) = workActive evs"
  by (simp add: workActive_def map_filter_append map_filter_idle)

lemma bracketEnd_append: "list_all idle es \<Longrightarrow> bracketEnd p evs res \<Longrightarrow> bracketEnd p (evs @ es) res"
  by (auto simp: bracketEnd_def workActive_append_idle settledIn_def idle_def list_all_iff split: sum.splits)

lemma bracketEnd_thrown: "list_all idle evs \<Longrightarrow> bracketEnd p evs (Inl e)"
  by (auto simp: bracketEnd_def workActive_def map_filter_idle settledIn_def idle_def list_all_iff)

text \<open>A condition on the events of a run and its result.\<close>

definition finishes :: "(event list \<Rightarrow> err + 'a \<Rightarrow> bool) \<Rightarrow> ('w, 'a) prog \<Rightarrow> bool" where
  "finishes R m \<longleftrightarrow> (\<forall>s res s'. m s = (res, s') \<longrightarrow> (\<exists>evs. log s' = evs @ log s \<and> R evs res))"

lemma finishes_andThen:
  fixes m :: "('w, 'a) prog"
  assumes "emits idle m" "\<And>x. finishes (bracketEnd p) (f x)"
  shows "finishes (bracketEnd p) (andThen m f)"
  unfolding finishes_def
proof (intro allI impI)
  fix s :: "'w sync_state" and res s' assume run: "andThen m f s = (res, s')"
  obtain x s1 where x: "m s = (x, s1)" by (cases "m s")
  obtain e0 where e0: "log s1 = e0 @ log s" "list_all idle e0" using emitsD [OF assms(1) x] by blast
  show "\<exists>evs. log s' = evs @ log s \<and> bracketEnd p evs res"
  proof (cases x)
    case (Inl e)
    then show ?thesis using run x e0 bracketEnd_thrown [OF e0(2)] by (auto simp: andThen_def)
  next
    case (Inr y)
    then have "f y s1 = (res, s')" using run x by (simp add: andThen_def)
    then obtain evs where "log s' = evs @ log s1" "bracketEnd p evs res"
      using assms(2) unfolding finishes_def by blast
    then show ?thesis using e0 bracketEnd_append by (intro exI [of _ "evs @ e0"]) auto
  qed
qed

lemma pathFinally_run:
  assumes "pathFinally reported p before failed s = (res, s')" "log s = es @ before"
  shows "res = Inr () \<and> log s' =
    (if failed then [] else (if reported \<noteq> p then [Callback (OnPathSettled reported)] else []) @ [Callback (OnPathSettled p)])
    @ (if Callback (OnPathWork True False) \<in> set es then [Callback (OnPathWork False failed)] else []) @ log s"
  using assms by (auto simp: pathFinally_def settlePath_def signalledSince_def prog_simps)

text \<open>The events of the bracketed work: only the start of work, no settling.\<close>

definition starting :: "event \<Rightarrow> bool" where
  "starting e \<longleftrightarrow> (idle e \<or> e = Callback (OnPathWork True False))"

lemma emits_starting: "emits starting (reconcileOne d p o1)"
proof (rule emits_mono [OF emits_reconcileOne])
  show "starting e" if "accepts d p \<and> footprint d p o1 e" for e
  proof (cases e)
    case (Callback c)
    then show ?thesis using that by (cases c) (auto simp: starting_def idle_def workOf_def)
  qed (auto simp: starting_def idle_def workOf_def)
qed

lemma starting_idle: "list_all starting es \<Longrightarrow> Callback (OnPathWork True False) \<notin> set es \<Longrightarrow> list_all idle es"
  by (auto simp: list_all_iff starting_def)

lemma starting_settled: "list_all starting es \<Longrightarrow> \<not> settledIn q es"
  by (auto simp: list_all_iff starting_def idle_def settledIn_def workOf_def)

text \<open>The final part: an outgoing \<open>OnPathWork False\<close> when work began, and the settling.\<close>

lemma bracketEnd_final:
  assumes "list_all starting es"
  shows "bracketEnd reported ((if failed then [] else (if reported \<noteq> p then [Callback (OnPathSettled reported)] else [])
           @ [Callback (OnPathSettled p)])
         @ (if Callback (OnPathWork True False) \<in> set es then [Callback (OnPathWork False failed)] else []) @ es)
       (if failed then Inl e else Inr ())"
  using starting_settled [OF assms] starting_idle [OF assms] map_filter_idle [of es]
  by (auto simp: bracketEnd_def workActive_def settledIn_def workOf_def List.map_filter_simps)

lemma bracketed_finishes:
  assumes "emits starting m"
  shows "finishes (bracketEnd reported) (bracketed reported p m)"
  unfolding finishes_def
proof (intro allI impI)
  fix s :: "'a sync_state" and res s' assume run: "bracketed reported p m s = (res, s')"
  obtain x s1 where x: "m s = (x, s1)" by (cases "m s")
  obtain es where es: "log s1 = es @ log s" "list_all starting es" using emitsD [OF assms x] by blast
  have fin: "\<exists>evs. log t = evs @ log s \<and> bracketEnd reported evs (if failed then Inl e else Inr ())"
    if "pathFinally reported p (log s) failed s2 = (r, t)" "log s2 = es2 @ log s" "list_all starting es2" for failed s2 r t es2 e
    using pathFinally_run [OF that(1,2)] that(2) bracketEnd_final [OF that(3), of reported failed p e] by auto
  show "\<exists>evs. log s' = evs @ log s \<and> bracketEnd reported evs res"
  proof (cases x)
    case (Inr u)
    obtain r t where f: "pathFinally reported p (log s) False s1 = (r, t)" by (cases "pathFinally reported p (log s) False s1")
    have "r = Inr ()" using pathFinally_run [OF f es(1)] by simp
    then have "res = Inr () \<and> s' = t" using run x Inr f by (simp add: bracketed_def prog_simps)
    then show ?thesis using fin [OF f es] by auto
  next
    case (Inl e)
    show ?thesis
    proof (cases "e_kind e = CommitConflictError")
      case True
      let ?s = "s1\<lparr>log := Callback (OnFileError p e) # log s1\<rparr>"
      obtain r t where f: "pathFinally reported p (log s) False ?s = (r, t)" by (cases "pathFinally reported p (log s) False ?s")
      have st: "log ?s = (Callback (OnFileError p e) # es) @ log s" "list_all starting (Callback (OnFileError p e) # es)"
        using es by (auto simp: starting_def idle_def workOf_def)
      have "r = Inr ()" using pathFinally_run [OF f st(1)] by simp
      then have "res = Inr () \<and> s' = t" using run x Inl True f by (simp add: bracketed_def prog_simps)
      then show ?thesis using fin [OF f st] by auto
    next
      case False
      obtain r t where f: "pathFinally reported p (log s) True s1 = (r, t)" by (cases "pathFinally reported p (log s) True s1")
      have "r = Inr ()" using pathFinally_run [OF f es(1)] by simp
      then have "res = Inl e \<and> s' = t" using run x Inl False f by (simp add: bracketed_def prog_simps)
      then show ?thesis using fin [OF f es, of e] by auto
    qed
  qed
qed

lemma settlePath_finishes: "finishes (bracketEnd reported) (settlePath reported p)"
  by (auto simp: finishes_def settlePath_def prog_simps bracketEnd_def workActive_def settledIn_def workOf_def
      List.map_filter_simps)

lemma emits_idle_leaves:
  "emits idle (fetchMeta d p)" "emits idle (deleteEvidence d2 p m)" "emits idle (canonicalLocalPath d2 p)"
  unfolding fetchMeta_def deleteEvidence_def fetchChanges_def canonicalLocalPath_def
  by (intro emits_rules; simp)+

text \<open>
  The busy light never latches: however the reconciliation of a single path on an event ends (done,
  nothing to do, a commit conflict that is isolated, or an error that is thrown), the last work signal it
  gave, if any, is the one that clears it. The reported path is settled when the run returns, and nothing
  is settled when it throws, so that the edit stays outstanding.
\<close>
theorem path_work_cleared:
  "\<exists>evs. log (snd (reconcilePath d p n s)) = evs @ log s \<and> bracketEnd p evs (fst (reconcilePath d p n s))"
proof -
  have "finishes (bracketEnd p) (bracketed p q (reconcileOne d q o1))" for q o1
    by (rule bracketed_finishes) (rule emits_starting)
  then have "finishes (bracketEnd p) (reconcilePath d p n)"
    unfolding reconcilePath_def
    by (intro finishes_andThen emits_idle_leaves emits_getS)
      (auto intro!: settlePath_finishes finishes_andThen emits_idle_leaves emits_rules)
  then show ?thesis by (simp add: finishes_def)
qed

end
