(* ===== verification/MountSafety.thy ===== *)
theory MountSafety
  imports MountSync Evidence
begin

text \<open>
  What the composition of mounts guarantees: keys that tell mounts apart, the round trip of the
  persisted state, the safety of a poll (inherited from the passes through the locale of path logics),
  the guard against wiping the source, and the containment of failures.
\<close>

text \<open>
  Two mounts share the key of their persisted state only if they join the same source folder to the
  same local folder, whatever characters their parts contain.
\<close>
theorem mountKey_distinguishes:
  "mountKey a = mountKey b \<longleftrightarrow> mt_source a = mt_source b \<and> mt_mountPoint a = mt_mountPoint b"
  by (auto simp: mountKey_def jsonStrArray_inj)

subsection \<open>The persisted state\<close>

text \<open>The JSON values written for an entry and for a mount; an absent field is left out.\<close>

definition optField :: "string \<Rightarrow> jval option \<Rightarrow> (string \<times> jval) list" where
  "optField k v = (case v of None \<Rightarrow> [] | Some x \<Rightarrow> [(k, x)])"

definition entryJson :: "base_entry \<Rightarrow> jval" where
  "entryJson e = VObj ((''hash'', VStr (units (be_hash e))) # optField ''text'' (map_option VStr (be_text e))
     @ optField ''size'' (map_option (\<lambda>n. VNum (Finite (of_nat n))) (be_size e))
     @ optField ''mtime'' (map_option (\<lambda>n. VNum (Finite (of_nat n))) (be_mtime e)))"

definition persistJson :: "mount_persist \<Rightarrow> (string \<times> jval) list \<Rightarrow> jval" where
  "persistJson mp baseFields = VObj ([(''base'', VObj baseFields), (''version'', VNum (Finite (of_int (mp_version mp))))]
     @ optField ''historyFloor'' (map_option (\<lambda>n. VNum (Finite (of_int n))) (mp_historyFloor mp)))"

definition readEntry :: "base_entry \<Rightarrow> parsed_entry" where
  "readEntry e = \<lparr>pe_hash = be_hash e, pe_text = be_text e, pe_size = map_option of_nat (be_size e),
     pe_mtime = map_option of_nat (be_mtime e)\<rparr>"

lemma parseEntry_entryJson [simp]: "parseEntry (entryJson e) = Some (readEntry e)"
  by (cases "be_text e"; cases "be_size e"; cases "be_mtime e")
    (simp_all add: parseEntry_def entryJson_def optField_def readEntry_def nonNegative_def)

lemma parseBase_lookup:
  assumes "distinct (map fst fs)" "\<And>v. v \<in> snd ` set fs \<Longrightarrow> parseEntry v \<noteq> None" "p \<noteq> ''__proto__''"
  shows "map_of (parseBase (VObj fs)) p = Option.bind (map_of fs p) parseEntry"
proof -
  let ?step = "\<lambda>out (p, be). case parseEntry be of None \<Rightarrow> out | Some e \<Rightarrow> recordSet p e out"
  have "map_of (foldl ?step out fs) p = (case map_of fs p of Some v \<Rightarrow> parseEntry v | None \<Rightarrow> map_of out p)" for out
    using assms(1,2)
  proof (induction fs arbitrary: out)
    case (Cons x fs)
    obtain k v e where x: "x = (k, v)" "parseEntry v = Some e" using Cons.prems(2) by (cases x) force
    have none: "map_of fs k = None" using Cons.prems(1) x by (simp add: map_of_eq_None_iff)
    have out: "map_of (?step out x) p = (if p = k then Some e else map_of out p)"
      using x assms(3) by (auto simp: recordSet_def update_conv')
    show ?case
      unfolding foldl_Cons using Cons.IH [of "?step out x"] Cons.prems none x out by (auto split: option.split)
  qed simp
  from this [of "[]"] show ?thesis by (simp add: parseBase_def split: option.split)
qed

text \<open>
  Loading the persisted state of a mount gives back what was saved: the cursor, the history floor and
  the entry of every path, in whatever order the properties of the base are written.
\<close>
theorem mount_state_roundtrip:
  assumes "distinct (map fst fs)" "set fs = (\<lambda>(p, e). (p, entryJson e)) ` set (mp_base mp)" "distinct (map fst (mp_base mp))"
    and "0 \<le> mp_version mp" "\<forall>f \<in> set_option (mp_historyFloor mp). 1 \<le> f \<and> f \<le> MAX_SAFE_INTEGER"
    and "key \<noteq> ''__proto__''" "p \<noteq> ''__proto__''"
  shows "\<exists>pm. parseMountState (VObj [(key, persistJson mp fs)]) = [(key, pm)]
     \<and> pm_version pm = of_int (mp_version mp) \<and> pm_historyFloor pm = mp_historyFloor mp
     \<and> map_of (pm_base pm) p = map_option readEntry (map_of (mp_base mp) p)"
proof -
  let ?pm = "\<lparr>pm_base = parseBase (VObj fs), pm_version = of_int (mp_version mp), pm_historyFloor = mp_historyFloor mp\<rparr>"
  have "parsePersist (persistJson mp fs) = Some ?pm"
    using assms(4,5) by (cases "mp_historyFloor mp")
      (simp_all add: parsePersist_def persistJson_def optField_def nonNegative_def parseFloor_def intOf_def)
  then have "parseMountState (VObj [(key, persistJson mp fs)]) = [(key, ?pm)]"
    using assms(6) by (simp add: parseMountState_def recordSet_def)
  note parsed = this
  have "map_of fs p = map_option entryJson (map_of (mp_base mp) p)"
  proof -
    have "map_of fs = map_of (map (\<lambda>(p, e). (p, entryJson e)) (mp_base mp))"
      by (rule map_of_inject_set [THEN iffD2]) (use assms(1-3) in \<open>auto simp: comp_def case_prod_beta\<close>)
    then show ?thesis by (simp add: map_of_map)
  qed
  moreover have parses: "parseEntry v \<noteq> None" if "v \<in> snd ` set fs" for v
    using that unfolding assms(2) by auto
  ultimately have "map_of (pm_base ?pm) p = map_option readEntry (map_of (mp_base mp) p)"
    using parseBase_lookup [OF assms(1) parses assms(7)] by (cases "map_of (mp_base mp) p") auto
  with parsed show ?thesis by (intro exI [of _ ?pm]) simp
qed

theorem mount_state_roundtrip_witness:
  "\<exists>pm. parseMountState (VObj [(''k'', persistJson \<lparr>mp_base = [(''a.md'', hashOnly ''h'')], mp_version = 7, mp_historyFloor = Some 1\<rparr>
       [(''a.md'', entryJson (hashOnly ''h''))])]) = [(''k'', pm)]
     \<and> pm_version pm = 7 \<and> pm_historyFloor pm = Some 1 \<and> map_of (pm_base pm) ''a.md'' = Some (readEntry (hashOnly ''h''))"
  using mount_state_roundtrip [of "[(''a.md'', entryJson (hashOnly ''h''))]"
      "\<lparr>mp_base = [(''a.md'', hashOnly ''h'')], mp_version = 7, mp_historyFloor = Some 1\<rparr>" "''k''" "''a.md''"]
  by (simp add: MAX_SAFE_INTEGER_def)

subsection \<open>A poll\<close>

lemma emits_anyAbsent: "emits Q (anyAbsent ex ps)"
  by (induction ps) (auto intro!: emits_rules)

lemma emits_massLocalDeletion: "emits Q (massLocalDeletion d)"
  unfolding massLocalDeletion_def massByListing_def by (intro emits_rules emits_anyAbsent)

text \<open>What a path logic shows of the passes holds of a poll, since a poll is one of them or none.\<close>

context path_logic
begin

lemma poll: "keeps (\<lambda>s. J (log s)) (pollMount d histFloor forceFull)"
  unfolding pollMount_def
  by (intro log_rules all delta keeps_stable [OF emits_massLocalDeletion])

end

lemma poll_vaultEvent: "d_readOnly d \<Longrightarrow> emits vaultEvent (pollMount d histFloor forceFull)"
  by (rule emits_of_keeps, rule path_logic.poll [OF readOnly_logic])

text \<open>
  (C35) A poll of a mount keeps the promises of the passes: every deletion it sends to the source follows a
  definite absence of the file, and a mount that may not write (because it is a pull mount, or because
  the grant forbids it) sends the source nothing at all: no chunk, no commit, no deletion.
\<close>
theorem mount_poll_safe:
  "evidenced (log (snd (pollMount (mountDeps rt w) histFloor forceFull (enterMount rt sh))))
   \<and> list_all (if mountReadOnly rt w then vaultEvent else (\<lambda>_. True))
        (log (snd (pollMount (mountDeps rt w) histFloor forceFull (enterMount rt sh))))"
proof
  show "evidenced (log (snd (pollMount (mountDeps rt w) histFloor forceFull (enterMount rt sh))))"
    using evidence.poll [of "mountDeps rt w" histFloor forceFull] by (simp add: keeps_def enterMount_def)
  show "list_all (if mountReadOnly rt w then vaultEvent else (\<lambda>_. True))
        (log (snd (pollMount (mountDeps rt w) histFloor forceFull (enterMount rt sh))))"
  proof (cases "mountReadOnly rt w")
    case True
    then have "d_readOnly (mountDeps rt w)" by (simp add: mountDeps_def Let_def)
    from emits_log [OF poll_vaultEvent [OF this], of histFloor forceFull "enterMount rt sh"]
    show ?thesis using True by (simp add: enterMount_def)
  qed (simp add: list_all_iff)
qed

subsection \<open>The guard against wiping the source\<close>

text \<open>A vault whose answers do not change the world: what it lists and what it says is there.\<close>

definition answers :: "('w, 'x) deps_scheme \<Rightarrow> 'w \<Rightarrow> (path \<times> file_stat) list \<Rightarrow> (path \<Rightarrow> bool) \<Rightarrow> bool" where
  "answers d w files here \<longleftrightarrow> io_list (c_io d) w = (Inr files, w)
     \<and> (\<exists>ex. io_exists (c_io d) = Some ex \<and> (\<forall>p. ex p w = (Inr (here p), w)))"

definition wiped :: "(path \<times> file_stat) list \<Rightarrow> (path \<Rightarrow> bool) \<Rightarrow> path list \<Rightarrow> bool" where
  "wiped files here ps \<longleftrightarrow>
     ps \<noteq> [] \<and> (\<not> here '''' \<or>
       (let missing = filter (\<lambda>p. map_of files p = None) ps in
        (length missing = length ps \<or> BULK_DELETE_MIN \<le> length missing) \<and> list_ex (\<lambda>p. \<not> here p) missing))"

lemma anyAbsent_run:
  "(\<And>p. ex p (world s) = (Inr (here p), world s)) \<Longrightarrow> anyAbsent ex ps s = (Inr (list_ex (\<lambda>p. \<not> here p) ps), s)"
  by (induction ps) (simp_all add: prog_simps)

lemma massLocalDeletion_run:
  assumes "answers d (world s) files here"
  shows "massLocalDeletion d s = (Inr (wiped files here (base_paths (base s))), s)"
proof -
  obtain ex where ex: "io_exists (c_io d) = Some ex" "\<And>p. ex p (world s) = (Inr (here p), world s)"
    and list: "io_list (c_io d) (world s) = (Inr files, world s)"
    using assms by (auto simp: answers_def)
  have listing: "massByListing d ps s =
      (Inr (let missing = filter (\<lambda>p. map_of files p = None) ps in
        (length missing = length ps \<or> BULK_DELETE_MIN \<le> length missing) \<and> list_ex (\<lambda>p. \<not> here p) missing), s)" for ps
    using anyAbsent_run [of ex s here] ex list
    by (simp add: massByListing_def andThen_def outside_def ret_def Let_def)
  show ?thesis
    using ex listing by (simp add: massLocalDeletion_def andThen_def getS_def ret_def outside_def wiped_def)
qed

text \<open>
  (C34) A local wipe never reaches the source. Suppose the mount has synced content, and its folder is gone, or
  the listing lacks all of the content or at least six files of it and one of them is really absent. Then a
  poll that would scan the vault, whether it was asked to or the source's history was rewound or truncated,
  does nothing but fetch the changes: it reports the content as gone, and the base, the cursor and the
  history floor stay as they are.
\<close>
theorem mount_wipe_held:
  assumes "answers d (world s) files here" "wiped files here (base_paths (base s))"
    and "api_changes (c_api d) (cursor s) (world s) = (Inr delta, world s)"
    and "forceFull \<or> cr_version delta < cursor s
       \<or> (\<exists>prior f. histFloor = Some prior \<and> cr_history_floor delta = Some f \<and> prior < f)"
  shows "pollMount d histFloor forceFull s = (Inr (histFloor, True), s\<lparr>log := GotChanges delta # log s\<rparr>)"
proof -
  let ?s = "s\<lparr>log := GotChanges delta # log s\<rparr>"
  have mode: "decideReconcileMode False forceFull (cr_version delta < cursor s
      \<or> (case (histFloor, cr_history_floor delta) of (Some prior, Some f) \<Rightarrow> f > prior | _ \<Rightarrow> False)) nc = ModeFull" for nc
    using assms(4) by (auto simp: decideReconcileMode_def)
  have "massLocalDeletion d ?s = (Inr True, ?s)"
    using massLocalDeletion_run [of d ?s files here] assms(1,2) by simp
  then show ?thesis
    by (simp add: pollMount_def fetchChanges_def andThen_def getS_def outside_def record_event_def assms(3) ret_def Let_def mode [simplified])
qed

theorem mount_wipe_held_witness:
  "pollMount (sampleDeps False) (Some 4) True (startIn emptyMem noteBase)
     = (Inr (Some 4, True), (startIn emptyMem noteBase)
         \<lparr>log := [GotChanges \<lparr>cr_version = 0, cr_upserts = [], cr_deletes = [], cr_history_floor = None\<rparr>]\<rparr>)"
proof -
  have "answers (sampleDeps False) (world (startIn emptyMem noteBase)) [] (\<lambda>_. False)"
    by (simp add: answers_def sampleDeps_def memIo_def startIn_def emptyMem_def)
  moreover have "wiped [] (\<lambda>_. False) (base_paths (base (startIn emptyMem noteBase)))"
    by (simp add: wiped_def startIn_def noteBase_def base_set_def base_paths_def baseStore_def Let_def)
  ultimately show ?thesis
    using mount_wipe_held [of "sampleDeps False" "startIn emptyMem noteBase" "[]" "\<lambda>_. False"
        "\<lparr>cr_version = 0, cr_upserts = [], cr_deletes = [], cr_history_floor = None\<rparr>" True "Some 4"]
    by (simp add: sampleDeps_def memApi_def startIn_def emptyMem_def)
qed

subsection \<open>Failures are contained\<close>

definition failsIn :: "'w mount_scope \<Rightarrow> 'w shared \<Rightarrow> bool" where
  "failsIn sc sh \<longleftrightarrow> isl (fst (scopePoll (sc_runtime sc) (sc_state sc = Mounting \<or> sc_state sc = Offline)
     (sc_state sc = Mounting \<or> sc_state sc = Offline \<or> sc_forceFull sc) sh))"

definition activeState :: "mount_state \<Rightarrow> bool" where
  "activeState st \<longleftrightarrow> st \<notin> {Detached, Unmounting, MFailed, LocalGone}"

lemma leaveMount_floor [simp]: "rt_histFloor (leaveMount rt s) = rt_histFloor rt" "rt_mount (leaveMount rt s) = rt_mount rt"
  by (simp_all add: leaveMount_def)

lemma scopePoll_floor:
  "scopePoll rt contact full sh = (r, rt', sh') \<Longrightarrow> rt_histFloor rt' = rt_histFloor rt \<and> rt_mount rt' = rt_mount rt"
  by (auto simp: scopePoll_def resetHeld_def split: prod.splits sum.splits)

lemma scope_fails:
  assumes "activeState (sc_state sc)" "failsIn sc sh"
  shows "\<exists>sc' e sh'. reconcileMountScope ([], n) sc sh = ((sc', (if sc_state sc = Live then [HookEvent Syncing] else []) @
        [HookError e, HookEvent (sc_state sc')]), sh')
     \<and> sc_fails sc' = sc_fails sc + 1 \<and> sc_forceFull sc' = n
     \<and> sc_state sc' = (if MAX_MOUNT_FAILS \<le> sc_fails sc + 1 then MFailed else Offline)
     \<and> rt_histFloor (sc_runtime sc') = rt_histFloor (sc_runtime sc)"
proof -
  let ?contact = "sc_state sc = Mounting \<or> sc_state sc = Offline"
  obtain r rt sh' where run: "scopePoll (sc_runtime sc) ?contact (?contact \<or> sc_forceFull sc) sh = (r, rt, sh')"
    by (cases "scopePoll (sc_runtime sc) ?contact (?contact \<or> sc_forceFull sc) sh")
  moreover obtain e where "r = Inl e" using assms(2) run by (auto simp: failsIn_def isl_def disj_assoc)
  ultimately show ?thesis
    using assms(1) scopePoll_floor [OF run]
    by (cases "sc_state sc")
      (auto simp: reconcileMountScope_def Let_def pollFailed_def afterMeanwhile_def activeState_def
        mountTransition_rules mountRules_def)
qed

definition scopeAfter :: "'w mount_scope \<Rightarrow> 'w shared \<Rightarrow> 'w mount_scope" where
  "scopeAfter sc sh = fst (fst (reconcileMountScope ([], False) sc sh))"

lemma scopeAfter_fails:
  assumes "activeState (sc_state sc)" "failsIn sc sh"
  shows "sc_fails (scopeAfter sc sh) = sc_fails sc + 1"
    and "sc_state (scopeAfter sc sh) = (if MAX_MOUNT_FAILS \<le> sc_fails sc + 1 then MFailed else Offline)"
    and "rt_histFloor (sc_runtime (scopeAfter sc sh)) = rt_histFloor (sc_runtime sc)"
  using scope_fails [OF assms, of False] by (auto simp: scopeAfter_def)

text \<open>
  A mount that cannot be polled goes offline and is tried again; the third failure in a row, in whatever
  worlds the polls ran, declares it failed, and from then on no cycle touches it or anything through it. No
  failure is thrown on, and none spends the pending reset signal: the history floor is the one from before.
\<close>
theorem mount_failures_contained:
  assumes "activeState (sc_state sc)" "sc_fails sc = 0" "failsIn sc sh0" "failsIn (scopeAfter sc sh0) sh1"
    and "failsIn (scopeAfter (scopeAfter sc sh0) sh1) sh2"
  shows "sc_state (scopeAfter sc sh0) = Offline
     \<and> sc_state (scopeAfter (scopeAfter sc sh0) sh1) = Offline
     \<and> sc_state (scopeAfter (scopeAfter (scopeAfter sc sh0) sh1) sh2) = MFailed
     \<and> rt_histFloor (sc_runtime (scopeAfter (scopeAfter (scopeAfter sc sh0) sh1) sh2)) = rt_histFloor (sc_runtime sc)
     \<and> reconcileMountScope mw (scopeAfter (scopeAfter (scopeAfter sc sh0) sh1) sh2) sh
         = ((scopeAfter (scopeAfter (scopeAfter sc sh0) sh1) sh2, []), sh)"
proof -
  note one = scopeAfter_fails [OF assms(1,3)]
  have off: "activeState Offline" by (simp add: activeState_def)
  have st1: "sc_state (scopeAfter sc sh0) = Offline" using one(2) assms(2) by (simp add: MAX_MOUNT_FAILS_def)
  note two = scopeAfter_fails [OF _ assms(4), unfolded st1, OF off]
  have st2: "sc_state (scopeAfter (scopeAfter sc sh0) sh1) = Offline"
    using one(1) two(2) assms(2) by (simp add: MAX_MOUNT_FAILS_def)
  note three = scopeAfter_fails [OF _ assms(5), unfolded st2, OF off]
  have st3: "sc_state (scopeAfter (scopeAfter (scopeAfter sc sh0) sh1) sh2) = MFailed"
    using one(1) two(1) three(2) assms(2) by (simp add: MAX_MOUNT_FAILS_def)
  show ?thesis using st1 st2 st3 one(3) two(3) three(3) by (simp add: reconcileMountScope_def)
qed

text \<open>A source that is being reindexed.\<close>

definition reindexing :: "mem mount_ctx" where
  "reindexing =
     \<lparr>mc_io = memIo, mc_sourceApi = memApi, mc_host = sampleHost, mc_nowMs = (\<lambda>_. 0),
      mc_nowUtc = (\<lambda>_. \<lparr>u_year = 2026, u_month = 1, u_day = 2, u_hour = 3, u_minute = 4, u_second = 5\<rparr>),
      mc_device = ''Laptop'', mc_restore = None, mc_ignorePatterns = [], mc_maxSyncBytes = None,
      mc_skipForeignArtefacts = None, mc_bulkDeleteStrategy = None, mc_bulkDeleteThreshold = None,
      mc_sourceReadOnly = None, mc_pushFlipHold = None, mc_sourceReady = Some (\<lambda>w. (Inr False, w))\<rparr>"

definition freshScope :: "mem mount_scope" where
  "freshScope = \<lparr>sc_runtime = newRuntime workMount reindexing, sc_state = Mounting, sc_fails = 0, sc_forceFull = False\<rparr>"

definition memShared :: "mem shared" where
  "memShared = \<lparr>sh_world = emptyMem, sh_cache = []\<rparr>"

lemma unready_fails:
  "rt_ctx (sc_runtime sc) = reindexing \<Longrightarrow> sc_state sc = Mounting \<or> sc_state sc = Offline \<Longrightarrow> failsIn sc sh"
  by (auto simp: failsIn_def scopePoll_def checkReady_def ready_def reindexing_def prog_simps below_def isl_def)

lemma scopePoll_ctx: "scopePoll rt contact full sh = (r, rt', sh') \<Longrightarrow> rt_ctx rt' = rt_ctx rt"
  by (auto simp: scopePoll_def resetHeld_def leaveMount_def split: prod.splits sum.splits)

lemma failed_ctx:
  assumes "activeState (sc_state sc)" "failsIn sc sh"
  shows "rt_ctx (sc_runtime (scopeAfter sc sh)) = rt_ctx (sc_runtime sc)"
proof -
  let ?contact = "sc_state sc = Mounting \<or> sc_state sc = Offline"
  obtain r rt sh' where run: "scopePoll (sc_runtime sc) ?contact (?contact \<or> sc_forceFull sc) sh = (r, rt, sh')"
    by (cases "scopePoll (sc_runtime sc) ?contact (?contact \<or> sc_forceFull sc) sh")
  moreover obtain e where "r = Inl e" using assms(2) run by (auto simp: failsIn_def isl_def disj_assoc)
  ultimately show ?thesis
    using scopePoll_ctx [OF run] assms(1)
    by (simp add: scopeAfter_def reconcileMountScope_def activeState_def Let_def pollFailed_def afterMeanwhile_def)
qed

theorem mount_failures_contained_witness:
  "sc_state (scopeAfter (scopeAfter (scopeAfter freshScope memShared) memShared) memShared) = MFailed"
proof -
  have ctx: "rt_ctx (sc_runtime freshScope) = reindexing" by (simp add: freshScope_def newRuntime_def)
  have f0: "failsIn freshScope memShared" by (rule unready_fails) (simp_all add: ctx, simp add: freshScope_def)
  have a0: "activeState (sc_state freshScope)" "sc_fails freshScope = 0" by (simp_all add: freshScope_def activeState_def)
  have f1: "failsIn (scopeAfter freshScope memShared) memShared"
    by (rule unready_fails) (simp_all add: failed_ctx [OF a0(1) f0] ctx scopeAfter_fails(2) [OF a0(1) f0] a0(2) MAX_MOUNT_FAILS_def)
  have a1: "activeState (sc_state (scopeAfter freshScope memShared))"
    by (simp add: scopeAfter_fails(2) [OF a0(1) f0] a0(2) MAX_MOUNT_FAILS_def activeState_def)
  have f2: "failsIn (scopeAfter (scopeAfter freshScope memShared) memShared) memShared"
    by (rule unready_fails) (simp_all add: failed_ctx [OF a1 f1] failed_ctx [OF a0(1) f0] ctx scopeAfter_fails [OF a1 f1] scopeAfter_fails [OF a0(1) f0] a0(2) MAX_MOUNT_FAILS_def)
  show ?thesis using mount_failures_contained [OF a0 f0 f1 f2] by blast
qed

lemma scope_final:
  assumes "activeState (sc_state sc)"
  shows "\<exists>st. \<exists>e \<in> {MFail, MDisconnect, MLocalGone, MConflict, MSyncSettled}.
    sc_state (fst (fst (reconcileMountScope mw sc sh))) = mountTransition (foldl mountTransition st (fst mw)) e"
proof -
  let ?contact = "sc_state sc = Mounting \<or> sc_state sc = Offline"
  obtain r rt sh' where run: "scopePoll (sc_runtime sc) ?contact (?contact \<or> sc_forceFull sc) sh = (r, rt, sh')"
    by (cases "scopePoll (sc_runtime sc) ?contact (?contact \<or> sc_forceFull sc) sh")
  let ?st = "if sc_state sc = Live then mountTransition Live MSyncStart else sc_state sc"
  have "\<exists>e \<in> {MFail, MDisconnect, MLocalGone, MConflict, MSyncSettled}.
    sc_state (fst (fst (reconcileMountScope mw sc sh))) = mountTransition (foldl mountTransition ?st (fst mw)) e"
  proof (cases r)
    case (Inl e)
    then show ?thesis using assms run
      by (simp add: reconcileMountScope_def activeState_def Let_def pollFailed_def afterMeanwhile_def)
  next
    case (Inr x)
    then show ?thesis using assms run
      by (cases x) (simp add: reconcileMountScope_def activeState_def Let_def pollGone_def pollSettled_def afterMeanwhile_def)
  qed
  then show ?thesis by blast
qed

text \<open>
  A mount that the user takes down while its poll is running stays down: however the poll ends, in
  success, with a conflict, in failure or with the content gone, it does not bring the mount back.
\<close>
theorem mount_teardown_stands:
  assumes "activeState (sc_state sc)"
  shows "sc_state (fst (fst (reconcileMountScope (evs @ [MUnmount], nudged) sc sh))) \<in> {Detached, Unmounting}"
proof -
  have down: "mountTransition (mountTransition st MUnmount) e \<in> {Detached, Unmounting}"
    if "e \<in> {MFail, MDisconnect, MLocalGone, MConflict, MSyncSettled}" for st e
    using that by (cases st) (auto simp: mountTransition_rules mountRules_def)
  obtain e st where "e \<in> {MFail, MDisconnect, MLocalGone, MConflict, MSyncSettled}"
    "sc_state (fst (fst (reconcileMountScope (evs @ [MUnmount], nudged) sc sh)))
       = mountTransition (foldl mountTransition st (evs @ [MUnmount])) e"
    using scope_final [OF assms, of "(evs @ [MUnmount], nudged)" sh] by auto
  then show ?thesis using down [of e "foldl mountTransition st evs"] by simp
qed

theorem mount_teardown_stands_witness:
  "sc_state (fst (fst (reconcileMountScope ([MUnmount], False) freshScope memShared))) \<in> {Detached, Unmounting}"
proof -
  have "activeState (sc_state freshScope)" by (simp add: freshScope_def activeState_def)
  from mount_teardown_stands [OF this, of "[]"] show ?thesis by (simp only: append_Nil)
qed

subsection \<open>The scopes of one cycle\<close>

text \<open>
  A cycle treats the scopes one after the other: what the later ones do depends on the earlier ones only
  through the shared world and cache, whether those failed or not.
\<close>

lemma scopes_append:
  "reconcileMountScopes isLive (xs @ ys) sh =
     (let (r1, sh1) = reconcileMountScopes isLive xs sh; (r2, sh2) = reconcileMountScopes isLive ys sh1 in (r1 @ r2, sh2))"
  by (induction isLive xs sh rule: reconcileMountScopes.induct) (simp_all add: Let_def split: prod.splits)

end
