(* ===== verification/Preserve.thy ===== *)
theory Preserve
  imports Reconcile
begin

text \<open>
  No local content is lost without a trace. Whenever a pull or a merge replaces a local file, the bytes
  that were there at the last look are accounted for: they were written to a conflict copy before, they
  are the content that was synced last (or equal it but for line ends and ignored timestamps), or they
  went into the merge result.
\<close>

text \<open>The last answer about \<open>p\<close> of a read that tolerates failure.\<close>

fun latestRead :: "path \<Rightarrow> event list \<Rightarrow> bytes option option" where
  "latestRead p [] = None"
| "latestRead p (GotRead q r # es) = (if q = p then Some r else latestRead p es)"
| "latestRead p (_ # es) = latestRead p es"

definition copySaved :: "('w, 'x) deps_scheme \<Rightarrow> path \<Rightarrow> bytes \<Rightarrow> event list \<Rightarrow> bool" where
  "copySaved d p x es \<longleftrightarrow> (\<exists>q. copyOf d p q \<and> IoWrite q x \<in> set es)"

definition cosmeticOf :: "('w, 'x) deps_scheme \<Rightarrow> path \<Rightarrow> base_entry option \<Rightarrow> bytes \<Rightarrow> bool" where
  "cosmeticOf d p be x \<longleftrightarrow> mergeable d p x \<and> baseNormHash d p be \<noteq> None \<and> Some (normHash d p x) = baseNormHash d p be"

lemma copyOf_neq: "copyOf d p q \<Longrightarrow> q \<noteq> p"
proof -
  have "length p < length (conflictCopyName p device w tag)" for device w tag
  proof -
    have "length p = length (dirOf p) + length (stemOf (nameOf p)) + length (extOf (nameOf p))"
      using dir_name [of p] stem_ext [of "nameOf p"] by (metis add.assoc length_append)
    then show ?thesis by (simp add: conflictCopyName_def Let_def)
  qed
  then show "copyOf d p q \<Longrightarrow> q \<noteq> p" by (metis copyOf_def less_irrefl)
qed

lemma writeCopy_run:
  "writeCopy d p x s = (Inr q, s') \<Longrightarrow> copyOf d p q \<and> log s' = Callback (OnConflict p q) # IoWrite q x # log s"
  by (auto simp: copyOf_def writeCopy_def copyName_def getS_def andThen_Inr ret_def record_event_def dest!: perform_Inr)

subsection \<open>Pulls\<close>

definition sheltered :: "('w, 'x) deps_scheme \<Rightarrow> path \<Rightarrow> base_entry option \<Rightarrow> hash option \<Rightarrow> event list \<Rightarrow> bool" where
  "sheltered d p be expect es =
     (case latestRead p es of
        None \<Rightarrow> False
      | Some None \<Rightarrow> True
      | Some (Some x) \<Rightarrow> Some (shaOf d x) = expect \<or> cosmeticOf d p be x \<or> copySaved d p x es)"

text \<open>Replacing the file: by a write, which must carry verified bytes, or by renaming a finished stream.\<close>

fun okPull :: "('w, 'x) deps_scheme \<Rightarrow> path \<Rightarrow> base_entry option \<Rightarrow> hash option \<Rightarrow> file_meta \<Rightarrow> event \<Rightarrow> event list \<Rightarrow> bool" where
  "okPull d p be expect m (IoWrite q b) es =
     (q = p \<longrightarrow> shaOf d b = fm_hash m \<and> length b = fm_size m \<and> sheltered d p be expect es)"
| "okPull d p be expect m (IoClose q) es = (q = p \<longrightarrow> sheltered d p be expect es)"
| "okPull d p be expect m _ es = True"

lemma keeps_base_chunk [keeps_rules]: "keeps (\<lambda>s. I (base s)) (getVerifiedChunk d h)"
  unfolding getVerifiedChunk_def by (intro keeps_rules keeps_base_modS) simp_all

lemma keeps_base_fetchVerified [keeps_rules]: "keeps (\<lambda>s. I (base s)) (fetchVerified d m)"
  unfolding fetchVerified_def fetchFileBytes_def mapPool_def by (intro keeps_rules)

lemma keeps_base_streamChunks [keeps_rules]: "keeps (\<lambda>s. I (base s)) (streamChunks d ap p h cs w hs)"
  by (induction cs arbitrary: w hs) (auto intro!: keeps_rules)

lemma keepsD: "keeps I m \<Longrightarrow> I s \<Longrightarrow> m s = (r, s') \<Longrightarrow> I s'"
  unfolding keeps_def by (metis snd_conv)

lemma fetchVerified_run:
  assumes "fetchVerified d m s = (Inr b, s')" "base_get (base s) p = be"
  shows "base_get (base s') p = be \<and> shaOf d b = fm_hash m \<and> length b = fm_size m"
proof -
  have "shaOf d b = fm_hash m \<and> length b = fm_size m"
    using assms(1) by (auto simp: fetchVerified_def andThen_Inr throwE_def ret_def split: if_splits)
  then show ?thesis
    using keepsD [OF keeps_base_fetchVerified [where I = "\<lambda>x. base_get x p = be"] _ assms(1)] assms(2) by simp
qed

lemma raced_sheltered:
  assumes "conflictCopyIfRaced d p expect s = (Inr race, s')" "base_get (base s) p = be" "race \<noteq> ConfigRace"
  shows "sheltered d p be expect (log s')"
proof -
  obtain cur s1 where rd: "readOrNull d p s = (Inr cur, s1)" and rest: "conflictCopyIfRaced d p expect s = (Inr race, s')"
    using assms(1) by (auto simp: conflictCopyIfRaced_def andThen_Inr)
  have s1: "log s1 = GotRead p cur # log s" "base s1 = base s"
    using rd by (auto simp: readOrNull_def prog_simps split: prod.splits sum.splits)
  show ?thesis
  proof (cases cur)
    case None
    then have "s' = s1" using rest rd by (auto simp: conflictCopyIfRaced_def prog_simps)
    then show ?thesis using s1 None by (simp add: sheltered_def)
  next
    case (Some x)
    show ?thesis
    proof (cases "Some (shaOf d x) = expect \<or> (\<not> isConfig p \<and> cosmeticOf d p be x)")
      case True
      then have "s' = s1"
        using rest rd Some s1(2) assms(2) by (auto simp: conflictCopyIfRaced_def prog_simps cosmeticOf_def split: if_splits)
      then show ?thesis using s1 Some True by (auto simp: sheltered_def)
    next
      case False
      then have nc: "\<not> isConfig p"
        using rest rd Some s1(2) assms(2,3) by (auto simp: conflictCopyIfRaced_def prog_simps)
      then obtain q where "writeCopy d p x s1 = (Inr q, s')"
        using rest rd Some s1(2) assms(2) False
        by (auto simp: conflictCopyIfRaced_def andThen_Inr getS_def ret_def cosmeticOf_def split: if_splits)
      then have "copyOf d p q \<and> log s' = Callback (OnConflict p q) # IoWrite q x # log s1"
        by (rule writeCopy_run)
      then show ?thesis using s1 Some by (auto simp: sheltered_def copySaved_def)
    qed
  qed
qed


lemma stable_okPull: "stable (lawfulSince l (okPull d p be expect m)) e" if "\<And>es. okPull d p be expect m e es"
  using that by (rule stable_lawfulSince)

lemma keeps_raced: "keeps (\<lambda>s. lawfulSince l (okPull d p be expect m) (log s)) (conflictCopyIfRaced d p h)"
  by (rule keeps_stable, intro emits_rules stable_okPull) (auto dest: copyOf_neq)

abbreviation pullable :: "('w, 'x) deps_scheme \<Rightarrow> path \<Rightarrow> base_entry option \<Rightarrow> hash option \<Rightarrow> file_meta \<Rightarrow> race_outcome \<Rightarrow> bytes \<Rightarrow>
    'w sync_state \<Rightarrow> bool" where
  "pullable d p be expect m race b s \<equiv>
     (race \<noteq> ConfigRace \<longrightarrow> sheltered d p be expect (log s)) \<and> shaOf d b = fm_hash m \<and> length b = fm_size m"

lemma keepsFrom_writePulled:
  assumes "race \<noteq> ConfigRace"
  shows "keepsFrom (pullable d p be expect m race b) (\<lambda>s. lawfulSince l (okPull d p be expect m) (log s)) (writePulled d p b race)"
proof -
  have cleanup: "keeps (\<lambda>s. lawfulSince l (okPull d p be expect m) (log s)) (andThen
      (case race of CopyRace copy \<Rightarrow> tryCatch (perform (IoRemove copy) (io_remove (c_io d) copy)) (\<lambda>_. ret ()) | _ \<Rightarrow> ret ())
      (\<lambda>_. throwE e))" for e
    by (rule keeps_stable, cases race) (auto intro!: emits_rules stable_okPull)
  show ?thesis
    unfolding writePulled_def using assms
    by (intro keepsFrom_tryCatch keepsFrom_perform cleanup) (auto intro: lawfulSince_Cons)
qed

lemma keepsFrom_bufferedPull:
  "keepsFrom (\<lambda>s. base_get (base s) p = be) (\<lambda>s. lawfulSince l (okPull d p be expect m) (log s))
     (bufferedPull d p m expect True)"
proof -
  let ?J = "\<lambda>s. lawfulSince l (okPull d p be expect m) (log s)"
  have sb: "keeps ?J (setBase d p b h)" for b h
    by (rule keeps_stable, intro emits_rules stable_okPull) simp
  have fv: "keeps ?J (fetchVerified d m)" by (rule keeps_stable) (intro emits_rules)
  have wr: "keepsFrom (pullable d p be expect m race b) ?J
      (if race = ConfigRace then ret () else andThen (writePulled d p b race) (\<lambda>_. setBase d p b (fm_hash m)))" for race b
    by (intro keepsFrom_if keepsFrom_keeps [OF keeps_ret]
        keepsFrom_then [OF keepsFrom_writePulled sb]) auto
  show ?thesis
    unfolding bufferedPull_def if_True
  proof (rule keepsFrom_andThen [where A = "\<lambda>b s. base_get (base s) p = be \<and> shaOf d b = fm_hash m \<and> length b = fm_size m"])
    show "keepsFrom (\<lambda>s. base_get (base s) p = be) ?J (fetchVerified d m)" by (rule keepsFrom_keeps [OF fv])
    show "base_get (base s') p = be \<and> shaOf d b = fm_hash m \<and> length b = fm_size m"
      if "base_get (base s) p = be" "fetchVerified d m s = (Inr b, s')" for s b s'
      using fetchVerified_run [OF that(2,1)] .
  qed (auto intro!: keepsFrom_andThen [OF keepsFrom_keeps [OF keeps_raced] _ wr] dest: raced_sheltered)
qed

lemma seam_sheltered:
  assumes "streamSeam d p expect s = (Inr u, s')" "base_get (base s) p = be"
  shows "sheltered d p be expect (log s')"
  using assms raced_sheltered [OF _ assms(2)]
  by (auto simp: streamSeam_def andThen_Inr throwE_def ret_def split: if_splits)

lemma keepsFrom_streamBody:
  "keepsFrom (\<lambda>s. base_get (base s) p = be) (\<lambda>s. lawfulSince l (okPull d p be expect m) (log s))
     (streamBody d ap p h cs sz hash0 (Some (streamSeam d p expect)))"
proof -
  let ?J = "\<lambda>s. lawfulSince l (okPull d p be expect m) (log s)"
  let ?B = "\<lambda>s. base_get (base s) p = be"
  have "keeps ?J (streamSeam d p expect)"
    unfolding streamSeam_def by (intro keeps_rules keeps_raced)
  then have seam: "keepsFrom ?B ?J (andThen (streamSeam d p expect) (\<lambda>_. andThen (perform (IoClose p) (ap_close ap h)) (\<lambda>_. ret True)))"
    by (intro keepsFrom_andThen [where A = "\<lambda>_ s. sheltered d p be expect (log s)"] keepsFrom_keeps
        keepsFrom_then [where g = "\<lambda>_. ret True"] keepsFrom_perform keeps_ret)
      (auto intro: lawfulSince_Cons seam_sheltered)
  have ch: "keeps ?J (streamChunks d ap p h cs 0 newSha256)"
    by (rule keeps_stable, intro emits_rules stable_okPull) simp
  have est: "?B s'" if "?B s" "streamChunks d ap p h cs 0 newSha256 s = (Inr x, s')" for s x s'
    using keepsD [OF keeps_base_streamChunks [where I = "\<lambda>b. base_get b p = be"] _ that(2)] that(1) by simp
  show ?thesis
    unfolding streamBody_def
    by (rule keepsFrom_andThen [where A = "\<lambda>_. ?B", OF keepsFrom_keeps [OF ch] est])
      (auto split: option.splits intro!: keepsFrom_if seam keepsFrom_keeps [OF keeps_throwE])
qed

lemma streamFileToDisk_false:
  assumes "streamFileToDisk d p cs sz h before s = (Inr False, s')"
  shows "io_appendWrite (c_io d) = None"
  using assms
  by (auto simp: streamFileToDisk_def streamBody_def andThen_Inr tryCatch_Inr throwE_def ret_def
      split: option.splits if_splits)

lemma keepsFrom_streamPull:
  "keepsFrom (\<lambda>s. base_get (base s) p = be) (\<lambda>s. lawfulSince l (okPull d p be expect m) (log s))
     (streamPull d p m expect True)"
proof -
  let ?J = "\<lambda>s. lawfulSince l (okPull d p be expect m) (log s)"
  let ?B = "\<lambda>s. base_get (base s) p = be"
  let ?stream = "streamFileToDisk d p (fm_chunks m) (fm_size m) (fm_hash m) (Some (streamSeam d p expect))"
  have abort: "keeps ?J (andThen (tryCatch (perform (IoAbort p) f) (\<lambda>_. ret ())) (\<lambda>_. throwE e))" for e f
    by (intro keeps_rules stable_okPull) simp
  have op: "keepsFrom ?B ?J (perform (IoOpen p) f)" for f
    by (rule keepsFrom_keeps, intro keeps_rules stable_okPull) simp
  have est: "?B s'" if "?B s" "perform (IoOpen p) f s = (Inr x, s')" for s x s' f
    using keepsD [OF keeps_base_perform [where I = "\<lambda>b. base_get b p = be"] _ that(2)] that(1) by simp
  have "keepsFrom ?B ?J ?stream"
    unfolding streamFileToDisk_def
    by (cases "io_appendWrite (c_io d)")
      (auto intro!: keepsFrom_keeps [OF keeps_ret] keepsFrom_andThen [where A = "\<lambda>_. ?B", OF op est]
        keepsFrom_tryCatch keepsFrom_streamBody abort)
  then show ?thesis
    unfolding streamPull_def if_True
    by (intro keepsFrom_tryCatch keepsFrom_then keeps_rules stable_okPull) simp_all
qed

lemma keepsFrom_applyPull:
  "keepsFrom (\<lambda>s. base_get (base s) p = be) (\<lambda>s. lawfulSince l (okPull d p be expect m) (log s))
     (applyPull d p m expect True)"
proof -
  let ?J = "\<lambda>s. lawfulSince l (okPull d p be expect m) (log s)"
  let ?B = "\<lambda>s. base_get (base s) p = be"
  have cb: "keepsFrom ?B ?J (whenM b (callback c))" for b c
    by (rule keepsFrom_keeps, intro keeps_rules stable_okPull) simp
  have est: "?B s'" if "?B s" "whenM b (callback c) s = (Inr x, s')" for b c s x s'
    using that by (auto simp: whenM_def record_event_def ret_def split: if_splits)
  have noFallback: "r \<noteq> Some False" if "io_appendWrite (c_io d) \<noteq> None" "streamPull d p m expect True s = (Inr r, s')" for s r s'
    using that streamFileToDisk_false [of d p]
    by (auto simp: streamPull_def andThen_Inr tryCatch_Inr throwE_def ret_def split: if_splits)
  have "keepsFrom ?B ?J (andThen (streamPull d p m expect True)
      (\<lambda>r. if r = Some False then bufferedPull d p m expect True else ret ()))" if "io_appendWrite (c_io d) \<noteq> None"
    by (rule keepsFrom_andThen [where A = "\<lambda>r _. r \<noteq> Some False", OF keepsFrom_streamPull])
      (use noFallback [OF that] in \<open>auto simp: keepsFrom_def ret_def\<close>)
  then show ?thesis
    unfolding applyPull_def
    by (intro keepsFrom_andThen [where A = "\<lambda>_. ?B", OF cb est] keepsFrom_if keepsFrom_bufferedPull) auto
qed


subsection \<open>Merges and conflicts\<close>

text \<open>
  The excuses for replacing local bytes \<open>x\<close> by \<open>b\<close>: nothing changes; a copy was saved; the server's bytes
  take the place of bytes equal to them or to the last synced ones up to normalization or line ends, or of
  a first-contact file in a read-only scope that does not preserve those; or \<open>b\<close> is the clean three-way
  merge of the last synced text, \<open>x\<close> and the server's bytes.
\<close>

definition accountedFor ::
  "('w, 'x) deps_scheme \<Rightarrow> path \<Rightarrow> action \<Rightarrow> base_entry option \<Rightarrow> file_meta \<Rightarrow> bytes \<Rightarrow> bytes \<Rightarrow> event list \<Rightarrow> bool" where
  "accountedFor d p act be m x b es \<longleftrightarrow>
     b = x \<or> copySaved d p x es
     \<or> (shaOf d b = fm_hash m
        \<and> (normHash d p x = normHash d p b \<or> Some (normHash d p x) = baseNormHash d p be
           \<or> sameIgnoringEol (h_decodeLossy (c_host d)) x b
           \<or> (d_readOnly d \<and> act \<noteq> MergeBoth \<and> \<not> d_preserveLocalFirstContact d)))
     \<or> (\<exists>t rb merged. Option.bind be be_text = Some t \<and> shaOf d rb = fm_hash m
          \<and> rawMerge d p t x rb = (merged, True) \<and> b = h_encode (c_host d) merged)"

definition keptBy ::
  "('w, 'x) deps_scheme \<Rightarrow> path \<Rightarrow> action \<Rightarrow> base_entry option \<Rightarrow> file_meta \<Rightarrow> bytes \<Rightarrow> event list \<Rightarrow> bool" where
  "keptBy d p act be m b es =
     (case latestRead p es of
        None \<Rightarrow> False
      | Some None \<Rightarrow> True
      | Some (Some x) \<Rightarrow> accountedFor d p act be m x b es)"

fun okMerge :: "('w, 'x) deps_scheme \<Rightarrow> path \<Rightarrow> action \<Rightarrow> base_entry option \<Rightarrow> file_meta \<Rightarrow> event \<Rightarrow> event list \<Rightarrow> bool" where
  "okMerge d p act be m (IoWrite q b) es = (q = p \<longrightarrow> keptBy d p act be m b es)"
| "okMerge d p act be m (IoClose q) es = (q \<noteq> p)"
| "okMerge d p act be m (IoRemove q) es = (q \<noteq> p)"
| "okMerge d p act be m _ es = True"

lemma stable_okMerge: "stable (lawfulSince l (okMerge d p act be m)) e" if "\<And>es. okMerge d p act be m e es"
  using that by (rule stable_lawfulSince)

lemma keepsFrom_adopt:
  assumes "\<And>es. A es \<Longrightarrow> keptBy d p act be m rb es"
  shows "keepsFrom (\<lambda>s. A (log s)) (\<lambda>s. lawfulSince l (okMerge d p act be m) (log s)) (adopt d p rb m)"
proof -
  have "keeps (\<lambda>s. lawfulSince l (okMerge d p act be m) (log s)) (setBase d p rb h)" for h
    by (rule keeps_stable, intro emits_rules stable_okMerge) simp
  then show ?thesis
    unfolding adopt_def using assms
    by (intro keepsFrom_then keepsFrom_perform) (auto intro: lawfulSince_Cons)
qed

lemma keepsFrom_pushHeldOr:
  assumes "\<And>es. A es \<Longrightarrow> keptBy d p act be m b es"
  shows "keepsFrom (\<lambda>s. A (log s)) (\<lambda>s. lawfulSince l (okMerge d p act be m) (log s)) (pushHeldOr d p b v)"
proof -
  let ?J = "\<lambda>s. lawfulSince l (okMerge d p act be m) (log s)"
  have rest: "keeps ?J (setBase d p x h)" "keeps ?J (commitBytes d p b (Some v))" "keeps ?J (callback c)" for x h c
    by (rule keeps_stable, intro emits_rules stable_okMerge; simp)+
  have flip: "A (log s')" if "A (log s)" "flipHold d p h y s = (Inr r, s')" for s h y r s'
    using that emitsD [OF emits_flipHold [where Q = "\<lambda>_. False"] that(2)] by (auto simp: list_all_iff)
  have fl: "keeps ?J (flipHold d p h y)" for h y by (rule keeps_stable) (intro emits_rules)
  have "keepsFrom (\<lambda>s. A (log s)) ?J (pushBytes d p b (Some v))"
    unfolding pushBytes_def using assms by (intro keepsFrom_then keepsFrom_perform rest) (auto intro: lawfulSince_Cons)
  then show ?thesis
    unfolding pushHeldOr_def
    by (intro keepsFrom_andThen [where A = "\<lambda>_ s. A (log s)", OF keepsFrom_keeps [OF fl] flip] keepsFrom_if
        keepsFrom_keeps [OF rest(3)] keepsFrom_then) (auto intro: rest)
qed

text \<open>The last look found \<open>x\<close>, or nothing and \<open>x\<close> is the content read earlier.\<close>

definition sawLocal :: "path \<Rightarrow> bytes \<Rightarrow> event list \<Rightarrow> bool" where
  "sawLocal p x es \<longleftrightarrow> latestRead p es = Some None \<or> latestRead p es = Some (Some x)"

lemma sawLocal_keptBy: "sawLocal p x es \<Longrightarrow> accountedFor d p act be m x b es \<Longrightarrow> keptBy d p act be m b es"
  by (auto simp: sawLocal_def keptBy_def)

lemma mergePlanFor_cases:
  assumes "mergePlanFor d p act be x rb = (plan, merged)"
  shows "plan = AdoptRemote \<Longrightarrow> sameIgnoringEol (h_decodeLossy (c_host d)) x rb
           \<or> (d_readOnly d \<and> act \<noteq> MergeBoth \<and> \<not> d_preserveLocalFirstContact d)"
    and "plan = PushMerged \<Longrightarrow> \<exists>t. Option.bind be be_text = Some t \<and> rawMerge d p t x rb = (merged, True)"
  using assms by (auto simp: mergePlanFor_def planMerge_def Let_def split: if_splits prod.splits)

lemma keeps_writeCopy: "keeps (\<lambda>s. lawfulSince l (okMerge d p act be m) (log s)) (writeCopy d p x)"
  by (rule keeps_stable, intro emits_rules stable_okMerge) (auto dest: copyOf_neq)

lemma keepsFrom_executePlan:
  assumes "mergePlanFor d p act be x rb = (plan, merged)" "shaOf d rb = fm_hash m"
  shows "keepsFrom (\<lambda>s. sawLocal p x (log s)) (\<lambda>s. lawfulSince l (okMerge d p act be m) (log s))
    (executePlan d p m x rb merged plan)"
proof -
  let ?J = "\<lambda>s. lawfulSince l (okMerge d p act be m) (log s)"
  let ?A = "\<lambda>s. sawLocal p x (log s) \<and> copySaved d p x (log s)"
  have copied: "?A s'" if "sawLocal p x (log s)" "writeCopy d p x s = (Inr q, s')" for s q s'
    using that(1) writeCopy_run [OF that(2)] by (auto simp: sawLocal_def copySaved_def)
  have ad: "keepsFrom ?A ?J (adopt d p rb m)"
    by (rule keepsFrom_adopt [where A = "\<lambda>es. sawLocal p x es \<and> copySaved d p x es"])
      (auto intro: sawLocal_keptBy simp: accountedFor_def)
  show ?thesis
  proof (cases plan)
    case AdoptRemote
    then show ?thesis
      using mergePlanFor_cases(1) [OF assms(1)] assms(2)
      by (auto simp: executePlan_def accountedFor_def intro!: keepsFrom_adopt intro: sawLocal_keptBy)
  next
    case ReadOnlyKeepCopy
    then show ?thesis
      by (auto simp: executePlan_def
          intro!: keepsFrom_andThen [where A = "\<lambda>_. ?A", OF keepsFrom_keeps [OF keeps_writeCopy] copied ad])
  next
    case PushMerged
    then obtain t where "Option.bind be be_text = Some t" "rawMerge d p t x rb = (merged, True)"
      using mergePlanFor_cases(2) [OF assms(1)] by blast
    then have "accountedFor d p act be m x (h_encode (c_host d) merged) es" for es
      using assms(2) by (auto simp: accountedFor_def)
    then show ?thesis
      using PushMerged by (auto simp: executePlan_def intro!: keepsFrom_pushHeldOr intro: sawLocal_keptBy)
  next
    case WriteConflictCopy
    have wr: "keepsFrom ?A ?J (perform (IoWrite p rb) f)" for f
      by (rule keepsFrom_perform) (auto intro!: lawfulSince_Cons sawLocal_keptBy simp: accountedFor_def)
    have rest: "keeps ?J (andThen (pushFile d q None) (\<lambda>(ch, cb). andThen (modS (f ch cb)) (\<lambda>_. setBase d p b h)))" for q f b h
      by (rule keeps_stable, intro emits_rules stable_okMerge) simp_all
    show ?thesis
      unfolding executePlan_def WriteConflictCopy merge_plan.case
      by (rule keepsFrom_andThen [where A = "\<lambda>_. ?A", OF keepsFrom_keeps [OF keeps_writeCopy] copied])
        (assumption+, rule keepsFrom_then [OF wr rest])
  qed
qed

lemma keepsFrom_identityShortcut:
  assumes "identityShortcut d p m act be x rb = Some prog" "shaOf d rb = fm_hash m"
  shows "keepsFrom (\<lambda>s. sawLocal p x (log s)) (\<lambda>s. lawfulSince l (okMerge d p act be m) (log s)) prog"
proof -
  have push: "keepsFrom (\<lambda>s. sawLocal p x (log s)) (\<lambda>s. lawfulSince l (okMerge d p act be m) (log s))
      (pushHeldOr d p x (fm_version m))"
    by (rule keepsFrom_pushHeldOr) (auto intro: sawLocal_keptBy simp: accountedFor_def)
  have ad: "keepsFrom (\<lambda>s. sawLocal p x (log s)) (\<lambda>s. lawfulSince l (okMerge d p act be m) (log s)) (adopt d p rb m)"
    if "normHash d p x = normHash d p rb \<or> Some (normHash d p x) = baseNormHash d p be"
    by (rule keepsFrom_adopt) (use that assms(2) in \<open>auto intro: sawLocal_keptBy simp: accountedFor_def\<close>)
  show ?thesis
    using assms(1) push ad
    by (auto simp: identityShortcut_def Let_def split: if_splits option.splits bool.splits)
qed


end
