(* ===== verification/PathSafe.thy ===== *)
theory PathSafe
  imports Prelude
begin

text \<open>
  The guard on server-supplied paths, \<open>client/src/pathsafe.ts\<close>.
\<close>

definition isReservedWinName :: "string \<Rightarrow> bool" where
  "isReservedWinName segment =
     (let stem = toLowerCase (hd (splitOn (CHR ''.'') segment)) in
      if stem \<in> set [''con'', ''prn'', ''aux'', ''nul''] then True
      else (startsWith stem ''com'' \<or> startsWith stem ''lpt'')
        \<and> length stem = 4 \<and> 49 \<le> (of_char (stem ! 3) :: nat) \<and> (of_char (stem ! 3) :: nat) \<le> 57)"

definition isControl :: "char \<Rightarrow> bool" where
  "isControl c \<longleftrightarrow> (of_char c :: nat) < 0x20 \<or> (of_char c :: nat) = 0x7F"

definition isAsciiLetter :: "char \<Rightarrow> bool" where
  "isAsciiLetter c \<longleftrightarrow> (65 \<le> (of_char c :: nat) \<and> (of_char c :: nat) \<le> 90) \<or> (97 \<le> (of_char c :: nat) \<and> (of_char c :: nat) \<le> 122)"

definition safeSegment :: "string \<Rightarrow> bool" where
  "safeSegment seg \<longleftrightarrow>
     \<not> (seg = '''' \<or> seg = ''.'' \<or> seg = ''..'') \<and> \<not> (endsWith seg ''.'' \<or> endsWith seg '' '') \<and> \<not> isReservedWinName seg"

definition isSafeVaultPath :: "path \<Rightarrow> bool" where
  "isSafeVaultPath p =
     (if p = [] \<or> length p > 1024 then False
      else if CHR 0x5C \<in> set p then False
      else if list_ex isControl p then False
      else if startsWith p ''/'' then False
      else if 2 \<le> length p \<and> isAsciiLetter (p ! 0) \<and> p ! 1 = CHR '':'' then False
      else list_all safeSegment (splitOn (CHR ''/'') p))"

definition asSafeVaultPath :: "path \<Rightarrow> path option" where
  "asSafeVaultPath p = (if isSafeVaultPath p then Some p else None)"

subsection \<open>No escape from the vault\<close>

text \<open>
  How a file system resolves a relative path below a directory: an empty or \<open>.\<close> segment stays, a
  \<open>..\<close> segment goes up. This is what the guard protects against.
\<close>

fun resolveSegs :: "string list \<Rightarrow> string list \<Rightarrow> string list" where
  "resolveSegs dir [] = dir"
| "resolveSegs dir (s # ss) =
     (if s = '''' \<or> s = ''.'' then resolveSegs dir ss
      else if s = ''..'' then resolveSegs (butlast dir) ss
      else resolveSegs (dir @ [s]) ss)"

lemma resolveSegs_safe: "list_all safeSegment ss \<Longrightarrow> resolveSegs dir ss = dir @ ss"
  by (induction ss arbitrary: dir) (auto simp: safeSegment_def)

text \<open>
  A path that passes the guard cannot leave the vault: resolved below any vault directory it
  names exactly its own segments below that directory, two safe paths that resolve to the same place
  are the same string, and none of its segments is a name that Windows rewrites or maps to a device.
\<close>
theorem safe_path_stays_inside:
  assumes "asSafeVaultPath p = Some q"
  shows "resolveSegs vault (splitOn (CHR ''/'') q) = vault @ splitOn (CHR ''/'') q
     \<and> list_all (\<lambda>s. s \<noteq> [] \<and> last s \<noteq> CHR ''.'' \<and> last s \<noteq> CHR '' '' \<and> \<not> isReservedWinName s) (splitOn (CHR ''/'') q)
     \<and> (\<forall>q'. isSafeVaultPath q' \<and> resolveSegs vault (splitOn (CHR ''/'') q') = resolveSegs vault (splitOn (CHR ''/'') q) \<longrightarrow> q' = q)"
proof -
  have segs: "list_all safeSegment (splitOn (CHR ''/'') r)" if "isSafeVaultPath r" for r
    using that by (simp add: isSafeVaultPath_def split: if_splits)
  have q: "isSafeVaultPath q" using assms by (simp add: asSafeVaultPath_def split: if_splits)
  have "q' = q" if "isSafeVaultPath q'"
    "resolveSegs vault (splitOn (CHR ''/'') q') = resolveSegs vault (splitOn (CHR ''/'') q)" for q'
  proof -
    have "splitOn (CHR ''/'') q' = splitOn (CHR ''/'') q"
      using that resolveSegs_safe [OF segs [OF q]] resolveSegs_safe [OF segs [OF that(1)]] by simp
    then show ?thesis by (metis join_split)
  qed
  moreover have "s \<noteq> [] \<and> last s \<noteq> CHR ''.'' \<and> last s \<noteq> CHR '' '' \<and> \<not> isReservedWinName s" if "safeSegment s" for s
    using that by (cases s rule: rev_cases) (auto simp: safeSegment_def endsWith_iff)
  ultimately show ?thesis
    using resolveSegs_safe [OF segs [OF q]] segs [OF q] by (auto simp: list_all_iff)
qed

theorem safe_path_stays_inside_witness:
  "asSafeVaultPath ''notes/a.md'' = Some ''notes/a.md''
   \<and> resolveSegs [''home'', ''vault''] (splitOn (CHR ''/'') ''notes/a.md'') = [''home'', ''vault'', ''notes'', ''a.md'']
   \<and> asSafeVaultPath ''notes/../../.ssh/id'' = None"
proof -
  have "isReservedWinName ''notes'' = False" "isReservedWinName ''a.md'' = False" by code_simp+
  then have "asSafeVaultPath ''notes/a.md'' = Some ''notes/a.md''" "asSafeVaultPath ''notes/../../.ssh/id'' = None"
    by (simp_all add: asSafeVaultPath_def isSafeVaultPath_def isControl_def startsWith_def isAsciiLetter_def
        safeSegment_def endsWith_def)
  then show ?thesis
    using safe_path_stays_inside [of "''notes/a.md''" "''notes/a.md''" "[''home'', ''vault'']"] by simp
qed

end
