(* ===== verification/SyncEngine.thy ===== *)
theory SyncEngine
  imports ConnState
begin

text \<open>
  The operational engine of \<open>client/src/syncengine.ts\<close>: the state table \<open>engineMachine\<close>,
  the event queue with its coalescing, the failure path and the run-to-completion pump.

  The pump is asynchronous. Its program counter is \<open>pc\<close>: \<^term>\<open>PIdle\<close> (no processor running),
  \<^term>\<open>PLoop\<close> (at the head of the while loop) and \<^term>\<open>PAwait ev\<close> (the injected effect of
  \<open>ev\<close> is in flight). Everything between two awaits is one step. What the environment may do
  while the pump is at an await (enqueue any event, report transfer work, settle the effect either
  way) is the step relation \<open>engine_step\<close>. A queued job (\<open>task\<close>) carries an identifier; the
  calls the engine makes on the injected effects are recorded in \<open>calls\<close>. The classifier is an
  argument, as in \<open>EngineEffects\<close>.
\<close>

datatype engine_state = Off | Connecting | Reconciling | Idle | Disconnected | Unloading

datatype engine_event =
    EvConnect | EvRemote | EvPath path nat | EvTask nat | EvRews | EvDisconnect | EvUnload

datatype engine_state_event =
    SUnload | SDisconnect | SConnectStart bool | SConnected bool | SFailed | SWork | SDrained

fun engineRules :: "engine_state \<Rightarrow> engine_state_event \<Rightarrow> (engine_state, unit) rule" where
  "engineRules s SUnload = Next Unloading"
| "engineRules s SDisconnect = Next Off"
| "engineRules s (SConnectStart linkRetrying) = Next (if linkRetrying then Disconnected else Connecting)"
| "engineRules s (SConnected queued) = Next (if queued then Reconciling else Idle)"
| "engineRules s SFailed = Next Disconnected"
| "engineRules s SWork = (if s = Idle \<or> s = Connecting \<or> s = Disconnected then Next Reconciling else NoRule)"
| "engineRules s SDrained = (if s = Reconciling then Next Idle else NoRule)"

fun engine_kind :: "engine_state \<Rightarrow> string" where
  "engine_kind Off = ''off''"
| "engine_kind Connecting = ''connecting''"
| "engine_kind Reconciling = ''reconciling''"
| "engine_kind Idle = ''idle''"
| "engine_kind Disconnected = ''disconnected''"
| "engine_kind Unloading = ''unloading''"

fun engine_event_kind :: "engine_state_event \<Rightarrow> string" where
  "engine_event_kind SUnload = ''unload''"
| "engine_event_kind SDisconnect = ''disconnect''"
| "engine_event_kind (SConnectStart _) = ''connectStart''"
| "engine_event_kind (SConnected _) = ''connected''"
| "engine_event_kind SFailed = ''failed''"
| "engine_event_kind SWork = ''work''"
| "engine_event_kind SDrained = ''drained''"

definition engineMachine :: "(engine_state, engine_state_event, unit) machine_spec" where
  "engineMachine = \<lparr>m_name = ''pmSyncEngine'',
     m_states = [''off'', ''connecting'', ''reconciling'', ''idle'', ''disconnected'', ''unloading''],
     m_events = [''unload'', ''disconnect'', ''connectStart'', ''connected'', ''failed'', ''work'', ''drained''],
     m_kindOf = engine_kind, m_eventKindOf = engine_event_kind, m_transition = engineRules,
     m_terminalStates = [''unloading''], m_terminalExits = [], m_byValue = True\<rparr>"

fun engineStateToPhase :: "engine_state \<Rightarrow> phase" where
  "engineStateToPhase Connecting = Pconnecting"
| "engineStateToPhase Reconciling = Psyncing"
| "engineStateToPhase Idle = Pidle"
| "engineStateToPhase Disconnected = Pretrying"
| "engineStateToPhase Off = Poff"
| "engineStateToPhase Unloading = Poff"

datatype pump_pc = PIdle | PLoop | PAwait engine_event

datatype 'err fx_call =
    FxConnect | FxReconcileAll | FxReconcilePath path nat | FxRews | FxRun nat | FxTeardown
  | FxOnPhase phase | FxOnError string 'err | FxScheduleRecovery recovery

record 'err sync_engine =
  queue :: "engine_event list"
  pc :: pump_pc
  estate :: engine_state
  link :: link_state
  calls :: "'err fx_call list"

definition engine_init :: "'err sync_engine" where
  "engine_init = \<lparr>queue = [], pc = PIdle, estate = Off, link = LINK_OK, calls = []\<rparr>"

definition engine_phase :: "'err sync_engine \<Rightarrow> phase" where
  "engine_phase s =
     (if estate s = Disconnected then fst (linkPhase (link s)) else engineStateToPhase (estate s))"

definition isConnected :: "'err sync_engine \<Rightarrow> bool" where
  "isConnected s \<longleftrightarrow> estate s = Reconciling \<or> estate s = Idle"

definition emit :: "'err fx_call \<Rightarrow> 'err sync_engine \<Rightarrow> 'err sync_engine" where
  "emit c s = s\<lparr>calls := calls s @ [c]\<rparr>"

definition transition :: "engine_state_event \<Rightarrow> 'err sync_engine \<Rightarrow> 'err sync_engine" where
  "transition ev s =
     (let nxt = machine_next engineMachine (estate s) ev in
      if nxt \<noteq> estate s
      then (let s' = s\<lparr>estate := nxt\<rparr> in emit (FxOnPhase (engine_phase s')) s')
      else s)"

definition beginReconcile :: "'err sync_engine \<Rightarrow> 'err sync_engine" where
  "beginReconcile s = transition SWork s"

definition doUnload :: "'err sync_engine \<Rightarrow> 'err sync_engine" where
  "doUnload s = emit FxTeardown ((transition SUnload (s\<lparr>link := LINK_OK\<rparr>))\<lparr>queue := []\<rparr>)"

text \<open>\<open>void this.pump()\<close>: a second processor returns at once.\<close>

definition kickPump :: "'err sync_engine \<Rightarrow> 'err sync_engine" where
  "kickPump s = (if pc s = PIdle then s\<lparr>pc := PLoop\<rparr> else s)"

fun growPath :: "path \<Rightarrow> nat \<Rightarrow> engine_event list \<Rightarrow> engine_event list" where
  "growPath p n [] = []"
| "growPath p n (EvPath q k # es) =
     (if q = p then EvPath q (if n > k then n else k) # es else EvPath q k # growPath p n es)"
| "growPath p n (e # es) = e # growPath p n es"

definition queuedPath :: "path \<Rightarrow> engine_event list \<Rightarrow> bool" where
  "queuedPath p q \<longleftrightarrow> list_ex (\<lambda>e. case e of EvPath p' _ \<Rightarrow> p' = p | _ \<Rightarrow> False) q"

definition enqueue :: "engine_event \<Rightarrow> 'err sync_engine \<Rightarrow> 'err sync_engine" where
  "enqueue ev s =
     (if estate s = Unloading then s
      else case ev of
        EvUnload \<Rightarrow> doUnload s
      | EvPath p n \<Rightarrow>
          if queuedPath p (queue s) then s\<lparr>queue := growPath p n (queue s)\<rparr>
          else kickPump (s\<lparr>queue := queue s @ [ev]\<rparr>)
      | _ \<Rightarrow>
          if ev \<in> {EvRemote, EvConnect, EvRews} \<and> ev \<in> set (queue s) then s
          else kickPump (s\<lparr>queue := queue s @ [ev]\<rparr>))"

definition isTask :: "engine_event \<Rightarrow> bool" where
  "isTask e \<longleftrightarrow> (case e of EvTask _ \<Rightarrow> True | _ \<Rightarrow> False)"

definition failWith ::
  "('err \<Rightarrow> failure_class) \<Rightarrow> string \<Rightarrow> 'err \<Rightarrow> 'err sync_engine \<Rightarrow> 'err sync_engine" where
  "failWith classify site e s =
     (let cls = classify e;
          s1 = s\<lparr>link := linkNext (link s) (Failed cls)\<rparr>;
          s2 = emit (FxOnError site e) (transition SFailed s1);
          s3 = s2\<lparr>queue := filter (\<lambda>q. q = EvDisconnect \<or> q = EvUnload \<or> isTask q) (queue s2)\<rparr>
      in emit (FxScheduleRecovery (recoveryFor cls)) s3)"

text \<open>The synchronous part of \<open>handle\<close>, up to its await.\<close>

fun handle_start :: "engine_event \<Rightarrow> 'err sync_engine \<Rightarrow> 'err sync_engine" where
  "handle_start EvUnload s = (doUnload s)\<lparr>pc := PLoop\<rparr>"
| "handle_start EvDisconnect s =
     (transition SDisconnect
        (emit FxTeardown (s\<lparr>link := LINK_OK, queue := filter isTask (queue s)\<rparr>)))\<lparr>pc := PLoop\<rparr>"
| "handle_start EvConnect s =
     (emit FxConnect
        (transition (SConnectStart (case link s of LinkRetrying _ _ \<Rightarrow> True | _ \<Rightarrow> False)) s))
      \<lparr>pc := PAwait EvConnect\<rparr>"
| "handle_start EvRews s =
     (if \<not> isConnected s then s\<lparr>pc := PLoop\<rparr> else (emit FxRews s)\<lparr>pc := PAwait EvRews\<rparr>)"
| "handle_start EvRemote s =
     (if \<not> isConnected s then s\<lparr>pc := PLoop\<rparr> else (emit FxReconcileAll s)\<lparr>pc := PAwait EvRemote\<rparr>)"
| "handle_start (EvPath p n) s =
     (if \<not> isConnected s then s\<lparr>pc := PLoop\<rparr>
      else (emit (FxReconcilePath p n) (transition SWork s))\<lparr>pc := PAwait (EvPath p n)\<rparr>)"
| "handle_start (EvTask i) s = (emit (FxRun i) s)\<lparr>pc := PAwait (EvTask i)\<rparr>"

text \<open>The continuation of \<open>handle\<close> when the awaited effect settles: \<^const>\<open>None\<close> is success.\<close>

fun handle_finish ::
  "('err \<Rightarrow> failure_class) \<Rightarrow> engine_event \<Rightarrow> 'err option \<Rightarrow> 'err sync_engine \<Rightarrow> 'err sync_engine" where
  "handle_finish classify EvConnect None s =
     (let s1 = s\<lparr>link := linkNext (link s) Connected\<rparr> in transition (SConnected (queue s1 \<noteq> [])) s1)"
| "handle_finish classify EvConnect (Some e) s = failWith classify ''connect'' e s"
| "handle_finish classify EvRews (Some e) s = enqueue EvConnect (emit (FxOnError ''rews'' e) s)"
| "handle_finish classify EvRemote (Some e) s = failWith classify ''remote'' e s"
| "handle_finish classify (EvPath p n) (Some e) s = failWith classify ''path'' e s"
| "handle_finish classify (EvTask i) (Some e) s = emit (FxOnError ''task'' e) s"
| "handle_finish classify _ _ s = s"

text \<open>One iteration of the while loop of \<open>pump\<close>, or its exit.\<close>

definition pump_iter :: "'err sync_engine \<Rightarrow> 'err sync_engine" where
  "pump_iter s =
     (case queue s of
        ev # rest \<Rightarrow>
          if estate s \<noteq> Unloading then handle_start ev (s\<lparr>queue := rest\<rparr>)
          else s\<lparr>pc := PIdle\<rparr>
      | [] \<Rightarrow> (transition SDrained s)\<lparr>pc := PIdle\<rparr>)"

definition settle ::
  "('err \<Rightarrow> failure_class) \<Rightarrow> 'err option \<Rightarrow> 'err sync_engine \<Rightarrow> 'err sync_engine" where
  "settle classify out s =
     (case pc s of PAwait ev \<Rightarrow> (handle_finish classify ev out s)\<lparr>pc := PLoop\<rparr> | _ \<Rightarrow> s)"

inductive engine_step ::
  "('err \<Rightarrow> failure_class) \<Rightarrow> 'err sync_engine \<Rightarrow> 'err sync_engine \<Rightarrow> bool"
  for classify :: "'err \<Rightarrow> failure_class" where
  step_enqueue: "engine_step classify s (enqueue ev s)"
| step_work: "pc s = PAwait ev \<Longrightarrow> engine_step classify s (beginReconcile s)"
| step_loop: "pc s = PLoop \<Longrightarrow> engine_step classify s (pump_iter s)"
| step_settle: "pc s = PAwait ev \<Longrightarrow> engine_step classify s (settle classify out s)"

inductive engine_reach :: "('err \<Rightarrow> failure_class) \<Rightarrow> 'err sync_engine \<Rightarrow> bool"
  for classify :: "'err \<Rightarrow> failure_class" where
  reach_init: "engine_reach classify engine_init"
| reach_step: "engine_reach classify s \<Longrightarrow> engine_step classify s t \<Longrightarrow> engine_reach classify t"

text \<open>
  The pump left to itself: every effect settles as the oracle says, nothing else is enqueued.
\<close>

fun drain ::
  "('err \<Rightarrow> failure_class) \<Rightarrow> (engine_event \<Rightarrow> 'err option) \<Rightarrow> nat \<Rightarrow> 'err sync_engine \<Rightarrow> 'err sync_engine" where
  "drain classify outcome 0 s = s"
| "drain classify outcome (Suc n) s =
     (case pc s of
        PIdle \<Rightarrow> s
      | PLoop \<Rightarrow> drain classify outcome n (pump_iter s)
      | PAwait ev \<Rightarrow> drain classify outcome n (settle classify (outcome ev) s))"

subsection \<open>The state table\<close>

interpretation engine_fsm: fsm engineMachine
proof unfold_locales
  fix s :: engine_state and e :: engine_state_event
  show "m_kindOf engineMachine s \<in> set (m_states engineMachine)"
    by (cases s) (simp_all add: engineMachine_def)
  show "m_eventKindOf engineMachine e \<in> set (m_events engineMachine)"
    by (cases e) (simp_all add: engineMachine_def)
qed (simp_all add: engineMachine_def)

lemma engine_terminal [simp]: "isTerminal engineMachine s \<longleftrightarrow> s = Unloading"
  by (cases s) (simp_all add: isTerminal_def engineMachine_def)

lemma engine_next [simp]:
  "machine_next engineMachine s e =
     (if s = Unloading then Unloading
      else case engineRules s e of NoRule \<Rightarrow> s | Self \<Rightarrow> s | Next s' \<Rightarrow> s' | NextFx s' x \<Rightarrow> s')"
  unfolding machine_next_cases engine_terminal by (auto simp: engineMachine_def)

subsection \<open>What the building blocks leave alone\<close>

lemma emit_fields [simp]:
  "queue (emit c s) = queue s" "pc (emit c s) = pc s" "estate (emit c s) = estate s"
  "link (emit c s) = link s" "calls (emit c s) = calls s @ [c]"
  by (simp_all add: emit_def)

lemma transition_fields [simp]:
  "queue (transition ev s) = queue s" "pc (transition ev s) = pc s"
  "link (transition ev s) = link s"
  "estate (transition ev s) = machine_next engineMachine (estate s) ev"
  by (simp_all add: transition_def Let_def)

lemma transition_calls:
  "\<exists>l. calls (transition ev s) = calls s @ l \<and> (\<forall>c \<in> set l. \<exists>p. c = FxOnPhase p)"
  by (simp add: transition_def Let_def)

lemma doUnload_fields [simp]:
  "queue (doUnload s) = []" "pc (doUnload s) = pc s" "estate (doUnload s) = Unloading"
  "link (doUnload s) = LINK_OK"
  by (simp_all add: doUnload_def)

lemma kickPump_fields [simp]:
  "queue (kickPump s) = queue s" "estate (kickPump s) = estate s" "link (kickPump s) = link s"
  "calls (kickPump s) = calls s" "pc (kickPump s) = (if pc s = PIdle then PLoop else pc s)"
  by (simp_all add: kickPump_def)

lemma failWith_fields [simp]:
  "queue (failWith cl w e s) = filter (\<lambda>q. q = EvDisconnect \<or> q = EvUnload \<or> isTask q) (queue s)"
  "pc (failWith cl w e s) = pc s"
  "estate (failWith cl w e s) = (if estate s = Unloading then Unloading else Disconnected)"
  "link (failWith cl w e s) = linkNext (link s) (Failed (cl e))"
  by (simp_all add: failWith_def Let_def)

subsection \<open>Coalescing\<close>

fun coalesceKey :: "engine_event \<Rightarrow> (nat \<times> path) option" where
  "coalesceKey EvConnect = Some (0, [])"
| "coalesceKey EvRemote = Some (1, [])"
| "coalesceKey EvRews = Some (2, [])"
| "coalesceKey (EvPath p _) = Some (3, p)"
| "coalesceKey _ = None"

definition queue_ok :: "engine_event list \<Rightarrow> bool" where
  "queue_ok q \<longleftrightarrow> EvUnload \<notin> set q \<and> distinct (List.map_filter coalesceKey q)"

lemma map_filter_key_iff:
  "k \<in> set (List.map_filter coalesceKey q) \<longleftrightarrow> (\<exists>e \<in> set q. coalesceKey e = Some k)"
  by (force simp: List.map_filter_def)

lemma map_filter_single: "List.map_filter f [x] = (case f x of None \<Rightarrow> [] | Some y \<Rightarrow> [y])"
  by (simp add: List.map_filter_def split: option.splits)

lemma growPath_keys: "List.map_filter coalesceKey (growPath p n q) = List.map_filter coalesceKey q"
  by (induction p n q rule: growPath.induct) (auto simp: List.map_filter_def)

lemma growPath_members: "set (growPath p n q) \<subseteq> set q \<union> range (EvPath p)"
  by (induction p n q rule: growPath.induct) auto

lemma length_growPath [simp]: "length (growPath p n q) = length q"
  by (induction p n q rule: growPath.induct) auto

lemma growPath_task [simp]: "EvTask i \<in> set (growPath p n q) \<longleftrightarrow> EvTask i \<in> set q"
  by (induction p n q rule: growPath.induct) auto

lemma growPath_Nil [simp]: "growPath p n q = [] \<longleftrightarrow> q = []"
  by (cases "(p, n, q)" rule: growPath.cases) auto

lemma queue_ok_grow [intro]: "queue_ok q \<Longrightarrow> queue_ok (growPath p n q)"
  using growPath_members [of p n q] by (auto simp: queue_ok_def growPath_keys)

lemma queue_ok_snoc:
  "queue_ok q \<Longrightarrow> ev \<noteq> EvUnload \<Longrightarrow> \<forall>e \<in> set q. coalesceKey e = None \<or> coalesceKey e \<noteq> coalesceKey ev
   \<Longrightarrow> queue_ok (q @ [ev])"
  by (cases "coalesceKey ev")
    (auto simp: queue_ok_def map_filter_append map_filter_single map_filter_key_iff)

lemma queue_ok_filter: "queue_ok q \<Longrightarrow> queue_ok (filter P q)"
proof (induction q)
  case (Cons e q)
  then show ?case
    by (cases "coalesceKey e")
      (auto simp: queue_ok_def List.map_filter_def image_iff split: option.splits)
qed simp

lemma queue_ok_tl: "queue_ok (e # q) \<Longrightarrow> queue_ok q"
  by (auto simp: queue_ok_def List.map_filter_def split: option.splits if_splits)

lemma queuedPath_key: "queuedPath p q \<longleftrightarrow> (\<exists>e \<in> set q. coalesceKey e = Some (3, p))"
proof -
  have "coalesceKey e = Some (3, p) \<longleftrightarrow> (case e of EvPath p' _ \<Rightarrow> p' = p | _ \<Rightarrow> False)" for e
    by (cases e) auto
  then show ?thesis by (simp add: queuedPath_def list_ex_iff)
qed

lemma member_key: "ev \<in> {EvRemote, EvConnect, EvRews} \<Longrightarrow>
  ev \<in> set q \<longleftrightarrow> (\<exists>e \<in> set q. coalesceKey e = coalesceKey ev)"
proof -
  assume ev: "ev \<in> {EvRemote, EvConnect, EvRews}"
  then have "coalesceKey e = coalesceKey ev \<longleftrightarrow> e = ev" for e
    by (cases e) auto
  then show ?thesis by auto
qed

lemma enqueue_queue_ok: "queue_ok (queue s) \<Longrightarrow> queue_ok (queue (enqueue ev s))"
proof (cases ev)
  case (EvPath p n)
  assume ok: "queue_ok (queue s)"
  show ?thesis
  proof (cases "queuedPath p (queue s)")
    case True
    with ok EvPath show ?thesis by (auto simp: enqueue_def)
  next
    case False
    with ok EvPath show ?thesis
      by (auto simp: enqueue_def queuedPath_key intro!: queue_ok_snoc)
  qed
next
  case EvUnload
  then show "queue_ok (queue s) \<Longrightarrow> ?thesis"
    by (simp add: enqueue_def) (simp add: queue_ok_def List.map_filter_def)
qed (auto simp: enqueue_def member_key intro!: queue_ok_snoc)

subsection \<open>The engine invariant\<close>

text \<open>
  Nothing is left behind: an idle processor has an empty queue and rests in a settled state; a
  down link always carries its cause; \<open>connecting\<close> is shown only while a connect is in flight.
\<close>

definition engine_inv :: "'err sync_engine \<Rightarrow> bool" where
  "engine_inv s \<longleftrightarrow>
     queue_ok (queue s)
     \<and> (estate s = Unloading \<longrightarrow> queue s = [])
     \<and> (pc s = PIdle \<longrightarrow> queue s = [] \<and> estate s \<noteq> Reconciling)
     \<and> (estate s = Connecting \<longrightarrow> pc s = PAwait EvConnect)
     \<and> pc s \<noteq> PAwait EvUnload \<and> pc s \<noteq> PAwait EvDisconnect
     \<and> (estate s = Disconnected \<longrightarrow> link s \<noteq> LinkOk)"

lemma engine_inv_init: "engine_inv engine_init"
  by (simp add: engine_inv_def engine_init_def queue_ok_def List.map_filter_def)

lemma enqueue_other_fields:
  "link (enqueue ev s) = link s \<or> estate (enqueue ev s) = Unloading"
  "estate (enqueue ev s) = estate s \<or> estate (enqueue ev s) = Unloading"
  "estate (enqueue ev s) = Unloading \<longrightarrow> queue (enqueue ev s) = [] \<or> estate s = Unloading"
  by (cases ev; simp add: enqueue_def)+

lemma enqueue_pc:
  "pc (enqueue ev s) = pc s \<or> pc s = PIdle \<and> pc (enqueue ev s) = PLoop"
  by (cases ev) (simp_all add: enqueue_def)

lemma enqueue_idle:
  "pc (enqueue ev s) = PIdle \<Longrightarrow> queue s = [] \<Longrightarrow> queue (enqueue ev s) = []"
  by (cases ev) (auto simp: enqueue_def queuedPath_def split: if_splits)

lemma enqueue_unloading: "estate s = Unloading \<Longrightarrow> enqueue ev s = s"
  by (simp add: enqueue_def)

lemma enqueue_inv:
  assumes "engine_inv s"
  shows "engine_inv (enqueue ev s)"
proof (cases "estate s = Unloading")
  case True
  with assms show ?thesis by (simp add: enqueue_unloading)
next
  case False
  then show ?thesis
    using assms enqueue_queue_ok [of s ev] enqueue_other_fields [of ev s] enqueue_pc [of ev s]
      enqueue_idle [of ev s]
    unfolding engine_inv_def by (elim disjE conjE) auto
qed

lemma handle_start_inv:
  assumes "queue_ok (queue s)" "estate s \<noteq> Unloading" "estate s \<noteq> Connecting"
    "estate s = Disconnected \<longrightarrow> link s \<noteq> LinkOk" "ev \<noteq> EvUnload"
  shows "engine_inv (handle_start ev s)"
  using assms
  by (cases ev) (auto simp: engine_inv_def isConnected_def queue_ok_filter split: link_state.splits)

lemma pump_iter_inv:
  assumes inv: "engine_inv s" and loop: "pc s = PLoop"
  shows "engine_inv (pump_iter s)"
proof (cases "queue s")
  case Nil
  with inv loop show ?thesis
    by (auto simp: pump_iter_def engine_inv_def)
next
  case (Cons ev rest)
  with inv have live: "estate s \<noteq> Unloading" by (auto simp: engine_inv_def)
  from inv Cons have "queue_ok (ev # rest)" by (simp add: engine_inv_def)
  then have rest: "queue_ok rest" "ev \<noteq> EvUnload" by (rule queue_ok_tl) (use \<open>queue_ok (ev # rest)\<close> in \<open>auto simp: queue_ok_def\<close>)
  have "engine_inv (handle_start ev (s\<lparr>queue := rest\<rparr>))"
    using inv loop live rest by (intro handle_start_inv) (auto simp: engine_inv_def)
  with Cons live show ?thesis by (simp add: pump_iter_def)
qed

lemma settle_inv:
  assumes inv: "engine_inv s" and await: "pc s = PAwait ev"
  shows "engine_inv (settle classify out s)"
proof -
  have "engine_inv ((handle_finish classify ev out s)\<lparr>pc := PLoop\<rparr>)"
  proof (cases out)
    case None
    with inv await show ?thesis
      by (cases ev) (auto simp: engine_inv_def Let_def)
  next
    case (Some e)
    show ?thesis
    proof (cases "ev = EvRews")
      case True
      let ?t = "emit (FxOnError ''rews'' e) s"
      have "engine_inv ?t" using inv by (simp add: engine_inv_def)
      then have "engine_inv (enqueue EvConnect ?t)" by (rule enqueue_inv)
      moreover have "estate (enqueue EvConnect ?t) \<noteq> Connecting"
        using inv await True enqueue_other_fields(2) [of EvConnect ?t] by (auto simp: engine_inv_def)
      ultimately show ?thesis using True Some by (simp add: engine_inv_def)
    next
      case False
      with inv await Some show ?thesis
        by (cases ev) (auto simp: engine_inv_def queue_ok_filter linkNext_Failed_not_ok)
    qed
  qed
  with await show ?thesis by (simp add: settle_def)
qed

lemma engine_step_inv: "engine_step classify s t \<Longrightarrow> engine_inv s \<Longrightarrow> engine_inv t"
proof (induction rule: engine_step.induct)
  case (step_enqueue s ev)
  then show ?case by (rule enqueue_inv)
next
  case (step_work s ev)
  then show ?case by (auto simp: engine_inv_def beginReconcile_def)
next
  case (step_loop s)
  then show ?case by (simp add: pump_iter_inv)
next
  case (step_settle s ev out)
  then show ?case by (simp add: settle_inv)
qed

lemma engine_reach_inv: "engine_reach classify s \<Longrightarrow> engine_inv s"
  by (induction rule: engine_reach.induct) (auto intro: engine_inv_init engine_step_inv)

subsection \<open>Draining\<close>

definition weight :: "engine_event \<Rightarrow> nat" where
  "weight e = (if e = EvRews then 4 else 2)"

definition pump_measure :: "'err sync_engine \<Rightarrow> nat" where
  "pump_measure s =
     (case pc s of
        PIdle \<Rightarrow> 0
      | PLoop \<Rightarrow> 1 + sum_list (map weight (queue s))
      | PAwait ev \<Rightarrow> weight ev + sum_list (map weight (queue s)))"

lemma sum_weight_filter: "sum_list (map weight (filter P q)) \<le> sum_list (map weight q)"
  by (induction q) auto

lemma sum_weight_le: "sum_list (map weight q) \<le> 4 * length q"
  by (induction q) (auto simp: weight_def)

lemma handle_start_measure:
  "pc s = PLoop \<Longrightarrow> pump_measure (handle_start ev s) < 1 + weight ev + sum_list (map weight (queue s))"
  using sum_weight_filter [of isTask "queue s"]
  by (cases ev) (auto simp: pump_measure_def weight_def)

lemma pump_iter_measure:
  assumes "engine_inv s" "pc s = PLoop"
  shows "pump_measure (pump_iter s) < pump_measure s"
proof (cases "queue s")
  case Nil
  with assms show ?thesis by (simp add: pump_iter_def pump_measure_def)
next
  case (Cons ev rest)
  with assms have "estate s \<noteq> Unloading" by (auto simp: engine_inv_def)
  moreover have "pump_measure (handle_start ev (s\<lparr>queue := rest\<rparr>))
      < 1 + weight ev + sum_list (map weight rest)"
    using handle_start_measure [of "s\<lparr>queue := rest\<rparr>" ev] assms by simp
  ultimately show ?thesis using Cons assms by (simp add: pump_iter_def pump_measure_def)
qed

lemma enqueue_connect_weight:
  "sum_list (map weight (queue (enqueue EvConnect s))) \<le> 2 + sum_list (map weight (queue s))"
  by (auto simp: enqueue_def weight_def)

lemma handle_finish_weight:
  "1 + sum_list (map weight (queue (handle_finish classify ev out s)))
     < weight ev + sum_list (map weight (queue s))"
proof (cases out)
  case None
  then show ?thesis by (cases ev) (simp_all add: weight_def Let_def)
next
  case (Some e)
  then show ?thesis
    using sum_weight_filter [of "\<lambda>q. q = EvDisconnect \<or> q = EvUnload \<or> isTask q" "queue s"]
      enqueue_connect_weight [of "emit (FxOnError ''rews'' e) s"]
    by (cases ev) (auto simp: weight_def)
qed

lemma settle_measure: "pc s = PAwait ev \<Longrightarrow> pump_measure (settle classify out s) < pump_measure s"
  using handle_finish_weight [of classify ev out s] by (simp add: settle_def pump_measure_def)

lemma drain_idle:
  "engine_inv s \<Longrightarrow> pump_measure s \<le> n \<Longrightarrow> pc (drain classify outcome n s) = PIdle"
proof (induction n arbitrary: s)
  case 0
  then show ?case by (auto simp: pump_measure_def weight_def split: pump_pc.splits if_splits)
next
  case (Suc n)
  show ?case
  proof (cases "pc s")
    case PLoop
    with Suc.prems have "pump_measure (pump_iter s) \<le> n"
      using pump_iter_measure [of s] by simp
    with Suc PLoop show ?thesis by (simp add: pump_iter_inv)
  next
    case (PAwait ev)
    with Suc.prems have "pump_measure (settle classify (outcome ev) s) \<le> n"
      using settle_measure [of s ev classify "outcome ev"] by simp
    with Suc PAwait show ?thesis by (simp add: settle_inv)
  qed simp
qed

lemma drain_inv: "engine_inv s \<Longrightarrow> engine_inv (drain classify outcome n s)"
  by (induction n arbitrary: s) (auto split: pump_pc.splits simp: pump_iter_inv settle_inv)

subsection \<open>Queued jobs\<close>

definition task_due :: "nat \<Rightarrow> 'err sync_engine \<Rightarrow> bool" where
  "task_due i s \<longleftrightarrow> estate s \<noteq> Unloading \<and> (EvTask i \<in> set (queue s) \<or> FxRun i \<in> set (calls s))"

lemma set_calls_mono [simp]:
  "c \<in> set (calls s) \<Longrightarrow> c \<in> set (calls (transition ev s))"
  using transition_calls [of ev s] by auto

lemma task_due_pump_iter:
  "engine_inv s \<Longrightarrow> task_due i s \<Longrightarrow> task_due i (pump_iter s)"
proof (cases "queue s")
  case Nil
  assume "task_due i s"
  with Nil show ?thesis by (auto simp: task_due_def pump_iter_def)
next
  case (Cons ev rest)
  assume inv: "engine_inv s" and due: "task_due i s"
  have "ev \<noteq> EvUnload" using inv Cons by (auto simp: engine_inv_def queue_ok_def)
  then have "task_due i (handle_start ev (s\<lparr>queue := rest\<rparr>))"
    using due Cons by (cases ev) (auto simp: task_due_def isTask_def)
  with Cons due show ?thesis by (simp add: pump_iter_def task_due_def)
qed

lemma task_due_failWith: "task_due i s \<Longrightarrow> task_due i (failWith classify w e s)"
  by (auto simp: task_due_def isTask_def) (simp add: failWith_def Let_def)

lemma task_due_enqueue: "task_due i s \<Longrightarrow> ev \<noteq> EvUnload \<Longrightarrow> task_due i (enqueue ev s)"
  by (cases ev) (auto simp: task_due_def enqueue_def)

lemma task_due_settle:
  assumes "task_due i s" "pc s = PAwait ev"
  shows "task_due i (settle classify out s)"
proof -
  have "task_due i (handle_finish classify ev out s)"
  proof (cases out)
    case None
    with assms show ?thesis by (cases ev) (auto simp: task_due_def Let_def)
  next
    case (Some e)
    have "task_due i (emit c s)" for c using assms by (auto simp: task_due_def)
    with assms Some show ?thesis
      by (cases ev) (auto simp: task_due_failWith task_due_enqueue)
  qed
  with assms show ?thesis by (simp add: settle_def task_due_def)
qed

lemma task_due_drain:
  "engine_inv s \<Longrightarrow> task_due i s \<Longrightarrow> task_due i (drain classify outcome n s)"
  by (induction n arbitrary: s)
    (auto split: pump_pc.splits simp: pump_iter_inv settle_inv task_due_pump_iter task_due_settle)

subsection \<open>Properties\<close>



text \<open>
  (C11) Run to completion terminates: from every reachable state the processor, left alone, is idle
  with an empty queue after at most four loop steps per queued event plus four, however its
  effects settle.
\<close>
theorem engine_drains:
  assumes "engine_reach classify s" and "4 * length (queue s) + 4 \<le> n"
  shows "pc (drain classify outcome n s) = PIdle \<and> queue (drain classify outcome n s) = []"
proof -
  have inv: "engine_inv s" using assms(1) by (rule engine_reach_inv)
  have "pump_measure s \<le> n"
    using sum_weight_le [of "queue s"] assms(2)
    by (auto simp: pump_measure_def weight_def split: pump_pc.splits)
  with inv have idle: "pc (drain classify outcome n s) = PIdle" by (rule drain_idle)
  with drain_inv [OF inv] show ?thesis by (auto simp: engine_inv_def)
qed

theorem engine_drains_witness:
  "pc (drain (\<lambda>_. FTransient) (\<lambda>_. Some (0::nat)) 8 (enqueue EvConnect engine_init)) = PIdle
   \<and> queue (drain (\<lambda>_. FTransient) (\<lambda>_. Some (0::nat)) 8 (enqueue EvConnect engine_init)) = []"
proof (rule engine_drains)
  show "engine_reach (\<lambda>_. FTransient) (enqueue EvConnect engine_init :: nat sync_engine)"
    by (rule reach_step [OF reach_init step_enqueue])
  show "4 * length (queue (enqueue EvConnect engine_init :: nat sync_engine)) + 4 \<le> 8"
    by (simp add: enqueue_def engine_init_def)
qed

text \<open>
  (C12) A queued job is never lost to a failure: in every reachable state that is not unloading, a
  job in the queue is executed by the time the processor has drained, whatever the connect,
  reconcile and socket effects do on the way, including failures that drop all queued sync work.
\<close>
theorem engine_runs_tasks:
  assumes "engine_reach classify s" and "estate s \<noteq> Unloading" and "EvTask i \<in> set (queue s)"
    and "4 * length (queue s) + 4 \<le> n"
  shows "FxRun i \<in> set (calls (drain classify outcome n s))"
proof -
  have inv: "engine_inv s" using assms(1) by (rule engine_reach_inv)
  have "pump_measure s \<le> n"
    using sum_weight_le [of "queue s"] assms(4)
    by (auto simp: pump_measure_def weight_def split: pump_pc.splits)
  with inv have "queue (drain classify outcome n s) = []"
    using drain_idle [of s n classify outcome] drain_inv [OF inv, of classify outcome n]
    by (simp add: engine_inv_def)
  moreover have "task_due i (drain classify outcome n s)"
    using assms inv by (intro task_due_drain) (auto simp: task_due_def)
  ultimately show ?thesis by (simp add: task_due_def)
qed

definition failing_run :: "nat sync_engine" where
  "failing_run = enqueue (EvTask 7) (enqueue EvConnect engine_init)"

theorem engine_runs_tasks_witness:
  "FxRun 7 \<in> set (calls (drain (\<lambda>_. FVaultGone) (\<lambda>_. Some 0) 12 failing_run))"
proof (rule engine_runs_tasks)
  have "engine_reach (\<lambda>_. FVaultGone) (enqueue EvConnect engine_init :: nat sync_engine)"
    by (rule reach_step [OF reach_init step_enqueue])
  then show "engine_reach (\<lambda>_. FVaultGone) failing_run"
    unfolding failing_run_def by (rule reach_step [OF _ step_enqueue])
qed (simp_all add: failing_run_def enqueue_def engine_init_def kickPump_def)

text \<open>
  Unloading is final: once the engine has been unloaded, whatever step follows (a connect that
  resolves or fails afterwards included) leaves it unloading with an empty queue and starts no
  connect, no reconcile, no socket dial and no job.
\<close>
theorem engine_unload_final:
  assumes "engine_step classify s t" and "estate s = Unloading" and "queue s = []"
  shows "estate t = Unloading \<and> queue t = [] \<and>
    (\<exists>l. calls t = calls s @ l
       \<and> set l \<inter> ({FxConnect, FxReconcileAll, FxRews} \<union> range FxRun \<union> range (case_prod FxReconcilePath)) = {})"
  using assms
proof (induction rule: engine_step.induct)
  case (step_enqueue s ev)
  then show ?case by (simp add: enqueue_unloading)
next
  case (step_work s ev)
  then show ?case by (simp add: beginReconcile_def transition_def Let_def)
next
  case (step_loop s)
  then show ?case by (simp add: pump_iter_def transition_def Let_def)
next
  case (step_settle s ev out)
  then show ?case
    by (cases out; cases ev)
      (auto simp: settle_def failWith_def transition_def Let_def enqueue_unloading)
qed

theorem engine_unload_final_witness:
  "estate (beginReconcile ((enqueue EvUnload engine_init)\<lparr>pc := PAwait EvConnect\<rparr> :: nat sync_engine)) = Unloading"
proof -
  let ?s = "(enqueue EvUnload engine_init)\<lparr>pc := PAwait EvConnect\<rparr> :: nat sync_engine"
  have "engine_step (\<lambda>_. FTransient) ?s (beginReconcile ?s)"
    by (rule step_work [where ev = EvConnect]) simp
  from engine_unload_final [OF this] show ?thesis by (simp add: enqueue_def engine_init_def)
qed

end
