(* ===== verification/TransportFsm.thy ===== *)
theory TransportFsm
  imports Fsm
begin

text \<open>
  The WebSocket health machine of \<open>client/src/transportstate.ts\<close>, effects as data. The
  specification \<open>openedSinceDial\<close> reads the fork between a re-dial and a full reconnect off the
  event history; the machine implements it with its four states.
\<close>

datatype transport_state = TOffline | TDialing | TLive | TDegraded

datatype transport_event = TDial | TOpened | TErrored | TClosed | TStaleTick | TTeardown

datatype poll_cadence = PollActive | PollIdle
datatype redial_mode = RedialDelayed | RedialNow

record transport_effects =
  tf_poll :: "poll_cadence option"
  tf_redial :: "redial_mode option"
  tf_reconnect :: bool

definition noTransportFx :: transport_effects where
  "noTransportFx = \<lparr>tf_poll = None, tf_redial = None, tf_reconnect = False\<rparr>"

fun transportRules ::
  "transport_state \<Rightarrow> transport_event \<Rightarrow> (transport_state, transport_effects) rule" where
  "transportRules s TTeardown = NextFx TOffline noTransportFx"
| "transportRules s TDial = NextFx TDialing (noTransportFx\<lparr>tf_poll := Some PollActive\<rparr>)"
| "transportRules s TOpened = NextFx TLive (noTransportFx\<lparr>tf_poll := Some PollIdle\<rparr>)"
| "transportRules s TErrored =
     (if s = TLive \<or> s = TDegraded
      then NextFx TDegraded (noTransportFx\<lparr>tf_poll := Some PollActive\<rparr>)
      else NextFx TDialing (noTransportFx\<lparr>tf_poll := Some PollActive\<rparr>))"
| "transportRules s TClosed =
     (if s = TLive \<or> s = TDegraded
      then NextFx TOffline (noTransportFx\<lparr>tf_poll := Some PollActive, tf_redial := Some RedialDelayed\<rparr>)
      else NextFx TOffline (noTransportFx\<lparr>tf_poll := Some PollActive, tf_reconnect := True\<rparr>))"
| "transportRules s TStaleTick =
     (if s = TLive
      then NextFx TDegraded (noTransportFx\<lparr>tf_poll := Some PollActive, tf_redial := Some RedialNow\<rparr>)
      else NextFx s noTransportFx)"

fun transport_kind :: "transport_state \<Rightarrow> string" where
  "transport_kind TOffline = ''offline''"
| "transport_kind TDialing = ''dialing''"
| "transport_kind TLive = ''live''"
| "transport_kind TDegraded = ''degraded''"

fun transport_event_kind :: "transport_event \<Rightarrow> string" where
  "transport_event_kind TDial = ''dial''"
| "transport_event_kind TOpened = ''opened''"
| "transport_event_kind TErrored = ''errored''"
| "transport_event_kind TClosed = ''closed''"
| "transport_event_kind TStaleTick = ''staleTick''"
| "transport_event_kind TTeardown = ''teardown''"

definition transportMachine :: "(transport_state, transport_event, transport_effects) machine_spec" where
  "transportMachine = \<lparr>m_name = ''pmSyncEngine'',
     m_states = [''offline'', ''dialing'', ''live'', ''degraded''],
     m_events = [''dial'', ''opened'', ''errored'', ''closed'', ''staleTick'', ''teardown''],
     m_kindOf = transport_kind, m_eventKindOf = transport_event_kind,
     m_transition = transportRules, m_terminalStates = [], m_terminalExits = [], m_byValue = True\<rparr>"

definition transportTransition ::
  "transport_state \<Rightarrow> transport_event \<Rightarrow> transport_state \<times> transport_effects" where
  "transportTransition s e =
     (let r = machine_step transportMachine s e in
      (st_state r, case st_effects r of Some x \<Rightarrow> x | None \<Rightarrow> noTransportFx))"

definition transport_run :: "transport_state \<Rightarrow> transport_event list \<Rightarrow> transport_state" where
  "transport_run s es = machine_run transportMachine s es"

text \<open>The specification: has the current socket reported open since it was dialled?\<close>

fun openedAfter :: "bool \<Rightarrow> transport_event \<Rightarrow> bool" where
  "openedAfter b TOpened = True"
| "openedAfter b TDial = False"
| "openedAfter b TClosed = False"
| "openedAfter b TTeardown = False"
| "openedAfter b _ = b"

definition openedSinceDial :: "transport_event list \<Rightarrow> bool" where
  "openedSinceDial es = foldl openedAfter False es"

interpretation transport_fsm: fsm transportMachine
proof unfold_locales
  fix s :: transport_state and e :: transport_event
  show "m_kindOf transportMachine s \<in> set (m_states transportMachine)"
    by (cases s) (simp_all add: transportMachine_def)
  show "m_eventKindOf transportMachine e \<in> set (m_events transportMachine)"
    by (cases e) (simp_all add: transportMachine_def)
qed (simp_all add: transportMachine_def)

lemma transport_step:
  "machine_step transportMachine s e =
     (case transportRules s e of NextFx s' x \<Rightarrow>
        \<lparr>st_state = s', st_effects = Some x, st_changed = (s' \<noteq> s)\<rparr>)"
  by (cases e) (simp_all add: machine_step_def transportMachine_def)

lemma transport_abs_step:
  "machine_next transportMachine s e \<in> {TLive, TDegraded} \<longleftrightarrow> openedAfter (s \<in> {TLive, TDegraded}) e"
  by (cases e; cases s) (simp_all add: machine_next_def transport_step)

lemma transport_abs_run:
  "transport_run TOffline es \<in> {TLive, TDegraded} \<longleftrightarrow> openedSinceDial es"
proof (induction es rule: rev_induct)
  case Nil
  show ?case by (simp add: transport_run_def openedSinceDial_def)
next
  case (snoc e es)
  then show ?case
    using transport_abs_step [of "transport_run TOffline es" e]
    by (simp add: transport_run_def openedSinceDial_def)
qed

text \<open>
  The fork on a closed socket is decided by the whole history, not by the last event: after any
  sequence of socket events starting offline, a close asks for a delayed re-dial exactly if the socket
  had reported open since it was dialled (also when it errored or went stale afterwards), and for a
  full reconnect exactly if it had not; in both cases polling goes to the active cadence.
\<close>
theorem transport_close_fork:
  "snd (transportTransition (transport_run TOffline es) TClosed) =
     (if openedSinceDial es
      then noTransportFx\<lparr>tf_poll := Some PollActive, tf_redial := Some RedialDelayed\<rparr>
      else noTransportFx\<lparr>tf_poll := Some PollActive, tf_reconnect := True\<rparr>)"
  using transport_abs_run [of es] by (auto simp: transportTransition_def transport_step)

end
