(* ===== verification/PushPreview.thy ===== *)
theory PushPreview
  imports Merge "HOL-Library.AList"
begin

text \<open>
  The preview of an authoritative push or pull of a plugin's settings, \<open>client/src/pushpreview.ts\<close>: what
  happens to each file, the cheap check that there is nothing to do, and the line diff.
\<close>

datatype push_op = OpOverwrite | OpCreate | OpDelete | OpUnchanged

datatype push_direction = DirectionPush | DirectionPull

record file_change =
  ch_path :: path
  ch_op :: push_op

record side_state =
  sd_present :: bool
  sd_hash :: "hash option"

definition serverProvenanceWho :: "string option \<Rightarrow> string option \<Rightarrow> string option" where
  "serverProvenanceWho author deviceName =
     (case (author, deviceName) of
        (Some a, Some n) \<Rightarrow> if a \<noteq> '''' \<and> n \<noteq> '''' then Some (a @ '' '' @ [CHR 0xB7] @ '' '' @ n) else Some a
      | (Some a, None) \<Rightarrow> Some a
      | (None, n) \<Rightarrow> n)"

definition classifyFile :: "push_direction \<Rightarrow> path \<times> side_state \<times> side_state \<Rightarrow> file_change" where
  "classifyFile direction f =
     (case f of (p, local, server) \<Rightarrow>
        let (src, tgt) = (if direction = DirectionPush then (local, server) else (server, local));
            op = (if sd_present src \<and> \<not> sd_present tgt then OpCreate
                  else if \<not> sd_present src \<and> sd_present tgt then OpDelete
                  else if sd_present src \<and> sd_present tgt then
                    (if sd_hash src \<noteq> None \<and> sd_hash tgt \<noteq> None \<and> sd_hash src = sd_hash tgt then OpUnchanged else OpOverwrite)
                  else OpUnchanged)
        in \<lparr>ch_path = p, ch_op = op\<rparr>)"

definition classifyPushPull :: "(path \<times> side_state \<times> side_state) list \<Rightarrow> push_direction \<Rightarrow> file_change list" where
  "classifyPushPull files direction = map (classifyFile direction) files"

definition countChanges :: "file_change list \<Rightarrow> push_op \<Rightarrow> nat" where
  "countChanges changes = foldl (\<lambda>c ch. c(ch_op ch := c (ch_op ch) + 1)) (\<lambda>_. 0) changes"

definition touchedCount :: "file_change list \<Rightarrow> nat" where
  "touchedCount changes = foldl (\<lambda>n ch. n + (if ch_op ch = OpUnchanged then 0 else 1)) 0 changes"

text \<open>The stamps: the base's entries with optional size and mtime, the local listing with distinct paths.\<close>

definition stampsConverged :: "(path \<times> nat option \<times> nat option) list \<Rightarrow> (path \<times> nat \<times> nat) list \<Rightarrow> bool" where
  "stampsConverged base local =
     (if length base \<noteq> length local then False
      else list_all (\<lambda>(p, size, mtime).
        case map_of local p of
          None \<Rightarrow> False
        | Some (lsize, lmtime) \<Rightarrow>
            if size = None \<or> mtime = None then False else Some lsize = size \<and> Some lmtime = mtime) base)"

datatype diff_kind = DiffAdd | DiffDel | DiffCtx

type_synonym diff_line = "diff_kind \<times> utext"

definition MAX_DIFF_LINES :: nat where
  "MAX_DIFF_LINES = 2000"

fun diffLoop :: "utext list \<Rightarrow> utext list \<Rightarrow> nat \<Rightarrow> nat \<Rightarrow> (nat \<times> nat) list \<Rightarrow> diff_line list" where
  "diffLoop A B ai bi [] = map (Pair DiffDel) (drop ai A) @ map (Pair DiffAdd) (drop bi B)"
| "diffLoop A B ai bi ((a, b) # ps) =
     map (Pair DiffDel) (take (a - ai) (drop ai A)) @ map (Pair DiffAdd) (take (b - bi) (drop bi B))
     @ (DiffCtx, A ! a) # diffLoop A B (a + 1) (b + 1) ps"

definition lineDiff :: "utext \<Rightarrow> utext \<Rightarrow> diff_line list option" where
  "lineDiff oldText newText =
     (let A = splitLines oldText; B = splitLines newText in
      if length A + length B > MAX_DIFF_LINES then None else Some (diffLoop A B 0 0 (lcsPairs A B)))"

subsection \<open>The diff\<close>

definition oldSide :: "diff_line list \<Rightarrow> utext list" where
  "oldSide ds = map snd (filter (\<lambda>x. fst x \<noteq> DiffAdd) ds)"

definition newSide :: "diff_line list \<Rightarrow> utext list" where
  "newSide ds = map snd (filter (\<lambda>x. fst x \<noteq> DiffDel) ds)"

lemma sides_append [simp]: "oldSide (xs @ ys) = oldSide xs @ oldSide ys" "newSide (xs @ ys) = newSide xs @ newSide ys"
  by (simp_all add: oldSide_def newSide_def)

lemma sides_simps [simp]:
  "oldSide [] = []" "newSide [] = []" "oldSide ((k, l) # ds) = (if k = DiffAdd then [] else [l]) @ oldSide ds"
  "newSide ((k, l) # ds) = (if k = DiffDel then [] else [l]) @ newSide ds"
  "oldSide (map (Pair DiffDel) xs) = xs" "oldSide (map (Pair DiffAdd) xs) = []"
  "newSide (map (Pair DiffDel) xs) = []" "newSide (map (Pair DiffAdd) xs) = xs"
  by (simp_all add: oldSide_def newSide_def filter_map comp_def)

lemma take_then_drop: "a \<le> i \<Longrightarrow> i < length xs \<Longrightarrow> take (i - a) (drop a xs) @ xs ! i # drop (Suc i) xs = drop a xs"
  by (metis Cons_nth_drop_Suc append_take_drop_id drop_drop le_add_diff_inverse2)

lemma diffLoop_sides:
  assumes "sorted_wrt (\<lambda>(a, b) (c, d). a < c \<and> b < d) ps" "\<forall>(a, b) \<in> set ps. a < length A \<and> b < length B \<and> A ! a = B ! b"
    and "\<forall>(a, b) \<in> set ps. ai \<le> a \<and> bi \<le> b"
  shows "oldSide (diffLoop A B ai bi ps) = drop ai A \<and> newSide (diffLoop A B ai bi ps) = drop bi B"
  using assms
proof (induction A B ai bi ps rule: diffLoop.induct)
  case (2 A B ai bi a b ps)
  have "oldSide (diffLoop A B (a + 1) (b + 1) ps) = drop (a + 1) A \<and> newSide (diffLoop A B (a + 1) (b + 1) ps) = drop (b + 1) B"
    using 2 by fastforce
  moreover have "a < length A" "b < length B" "A ! a = B ! b" "ai \<le> a" "bi \<le> b" using "2.prems" by auto
  ultimately show ?case
    using take_then_drop [of ai a A] take_then_drop [of bi b B] by simp
qed simp

lemma diffLoop_ctx: "length (filter (\<lambda>x. fst x = DiffCtx) (diffLoop A B ai bi ps)) = length ps"
  by (induction A B ai bi ps rule: diffLoop.induct) (simp_all add: filter_map comp_def)

lemma lineDiff_pairs:
  "\<forall>(a, b) \<in> set (lcsPairs A B). a < length A \<and> b < length B \<and> A ! a = B ! b"
  by (auto simp: lcsPairs_def dest: lcsWalk_pairs)

text \<open>
  The diff shown before an overwrite is a true and shortest account of it: the removed and the kept lines
  are exactly the lines of the text that is replaced, the added and the kept lines those of the text that
  replaces it, in order, and as many lines are shown as kept as a longest common subsequence has. Only
  texts of more than two thousand lines together are not diffed.
\<close>
theorem lineDiff_exact:
  "case lineDiff old new of
     None \<Rightarrow> length (splitLines old) + length (splitLines new) > 2000
   | Some ds \<Rightarrow> oldSide ds = splitLines old \<and> newSide ds = splitLines new
       \<and> length (filter (\<lambda>x. fst x = DiffCtx) ds) = lcsLen (splitLines old) (splitLines new)"
proof -
  let ?A = "splitLines old" and ?B = "splitLines new"
  have "oldSide (diffLoop ?A ?B 0 0 (lcsPairs ?A ?B)) = drop 0 ?A \<and> newSide (diffLoop ?A ?B 0 0 (lcsPairs ?A ?B)) = drop 0 ?B"
    by (rule diffLoop_sides [OF lcsPairs_facts(1) lineDiff_pairs]) simp
  moreover have "length (lcsPairs ?A ?B) = lcsLen ?A ?B"
    using lcsWalk_length [of 0 ?A 0 ?B] by (simp add: lcsPairs_def)
  ultimately show ?thesis
    by (auto simp: lineDiff_def Let_def MAX_DIFF_LINES_def diffLoop_ctx)
qed

subsection \<open>The counts and the convergence check\<close>

lemma countChanges_filter: "countChanges cs op = length (filter (\<lambda>c. ch_op c = op) cs)"
proof -
  have "foldl (\<lambda>c ch. c(ch_op ch := c (ch_op ch) + 1)) f cs op = f op + length (filter (\<lambda>c. ch_op c = op) cs)"
    for f :: "push_op \<Rightarrow> nat"
    by (induction cs arbitrary: f) auto
  then show ?thesis by (simp add: countChanges_def)
qed

lemma touchedCount_filter: "touchedCount cs = length (filter (\<lambda>c. ch_op c \<noteq> OpUnchanged) cs)"
proof -
  have "foldl (\<lambda>n ch. n + (if ch_op ch = OpUnchanged then 0 else 1)) k cs = k + length (filter (\<lambda>c. ch_op c \<noteq> OpUnchanged) cs)" for k :: nat
    by (induction cs arbitrary: k) auto
  then show ?thesis by (simp add: touchedCount_def)
qed

text \<open>The headline number is the sum of the three counts it stands for.\<close>

lemma touched_is_sum:
  "touchedCount cs = countChanges cs OpOverwrite + countChanges cs OpCreate + countChanges cs OpDelete"
proof -
  have "length (filter (\<lambda>c. ch_op c \<noteq> OpUnchanged) cs) = length (filter (\<lambda>c. ch_op c = OpOverwrite) cs)
      + length (filter (\<lambda>c. ch_op c = OpCreate) cs) + length (filter (\<lambda>c. ch_op c = OpDelete) cs)"
  proof (induction cs)
    case (Cons c cs)
    then show ?case by (cases "ch_op c") auto
  qed simp
  then show ?thesis by (simp add: countChanges_filter touchedCount_filter)
qed

text \<open>Converged listings have the same paths with the same stamps.\<close>

lemma stampsConverged_exact:
  assumes "distinct (map fst base)" "distinct (map fst local)" "stampsConverged base local"
  shows "fst ` set base = fst ` set local \<and> (\<forall>(p, size, mtime) \<in> set base. map_of local p = Some (the size, the mtime))"
proof -
  have stamps: "\<forall>(p, size, mtime) \<in> set base. map_of local p = Some (the size, the mtime)"
    using assms(3) by (force simp: stampsConverged_def list_all_iff split: if_splits option.splits)
  then have "fst ` set base \<subseteq> fst ` set local" by (force dest: map_of_SomeD)
  moreover have "card (fst ` set base) = card (fst ` set local)"
    using assms by (metis distinct_card length_map list.set_map stampsConverged_def)
  ultimately show ?thesis using stamps by (metis List.finite_set card_subset_eq finite_imageI)
qed

end
