(* ===== verification/FlipGuard.thy ===== *)
theory FlipGuard
  imports Merge "HOL-Library.AList" "HOL-Library.Char_ord" "HOL-Library.List_Lexorder"
begin

text \<open>
  The breaker of rewrite loops, \<open>client/src/flipguard.ts\<close>: the shape of a text with its timestamps masked,
  and the tracker of the contents that were about to be pushed. A \<open>Map\<close> is an association list; times are
  integers of milliseconds. The regular expression of the timestamps is the matcher \<open>tsToken\<close>: its optional
  parts are greedy and nothing follows them, so taking each where it fits is what the expression does.
\<close>

definition isD :: "nat \<Rightarrow> bool" where "isD c \<longleftrightarrow> 48 \<le> c \<and> c \<le> 57"

definition isWordUnit :: "nat \<Rightarrow> bool" where
  "isWordUnit c \<longleftrightarrow> isD c \<or> (65 \<le> c \<and> c \<le> 90) \<or> (97 \<le> c \<and> c \<le> 122) \<or> c = 95"

text \<open>\<open>\d{n}\<close> and a literal unit, each giving the rest.\<close>

definition dds :: "nat \<Rightarrow> utext \<Rightarrow> utext option" where
  "dds n s = (if n \<le> length s \<and> list_all isD (take n s) then Some (drop n s) else None)"

definition unit1 :: "(nat \<Rightarrow> bool) \<Rightarrow> utext \<Rightarrow> utext option" where
  "unit1 p s = (case s of [] \<Rightarrow> None | c # r \<Rightarrow> if p c then Some r else None)"

definition sepDds :: "nat \<Rightarrow> nat \<Rightarrow> utext \<Rightarrow> utext option" where
  "sepDds c n s = Option.bind (unit1 (\<lambda>x. x = c) s) (dds n)"

text \<open>\<open>(?:m)?\<close>.\<close>

definition optionally :: "(utext \<Rightarrow> utext option) \<Rightarrow> utext \<Rightarrow> utext" where
  "optionally m s = (case m s of Some r \<Rightarrow> r | None \<Rightarrow> s)"

definition fraction :: "utext \<Rightarrow> utext option" where
  "fraction s = Option.bind (unit1 (\<lambda>x. x = 46) s) (\<lambda>r. if r \<noteq> [] \<and> isD (hd r) then Some (dropWhile isD r) else None)"

definition zone :: "utext \<Rightarrow> utext option" where
  "zone s =
     (case unit1 (\<lambda>x. x = 90) s of
        Some r \<Rightarrow> Some r
      | None \<Rightarrow>
          Option.bind (unit1 (\<lambda>x. x = 43 \<or> x = 45) s) (\<lambda>r.
          Option.bind (dds 2 r) (\<lambda>r1. dds 2 (optionally (unit1 (\<lambda>x. x = 58)) r1))))"

definition clockPart :: "utext \<Rightarrow> utext option" where
  "clockPart s =
     Option.bind (unit1 (\<lambda>x. x = 84 \<or> x = 32) s) (\<lambda>r.
     Option.bind (dds 2 r) (\<lambda>r1.
     Option.bind (sepDds 58 2 r1) (\<lambda>r2.
     Some (optionally zone (optionally fraction (optionally (sepDds 58 2) r2))))))"

definition dateToken :: "utext \<Rightarrow> utext option" where
  "dateToken s =
     Option.bind (dds 4 s) (\<lambda>r.
     Option.bind (sepDds 45 2 r) (\<lambda>r1.
     Option.bind (sepDds 45 2 r1) (\<lambda>r2. Some (optionally clockPart r2))))"

definition boundaryAfter :: "utext \<Rightarrow> bool" where
  "boundaryAfter r \<longleftrightarrow> r = [] \<or> \<not> isWordUnit (hd r)"

definition epochToken :: "utext \<Rightarrow> utext option" where
  "epochToken s =
     (let ds = takeWhile isD s; r = dropWhile isD s in
      if 10 \<le> length ds \<and> length ds \<le> 13 \<and> boundaryAfter r then Some r else None)"

definition clockToken :: "utext \<Rightarrow> utext option" where
  "clockToken s =
     Option.bind (case dds 2 s of
          Some r \<Rightarrow> (case sepDds 58 2 r of Some r1 \<Rightarrow> Some r1 | None \<Rightarrow> Option.bind (dds 1 s) (sepDds 58 2))
        | None \<Rightarrow> Option.bind (dds 1 s) (sepDds 58 2)) (\<lambda>r.
     case sepDds 58 2 r of
       Some r1 \<Rightarrow> if boundaryAfter r1 then Some r1 else if boundaryAfter r then Some r else None
     | None \<Rightarrow> if boundaryAfter r then Some r else None)"

definition tsToken :: "nat option \<Rightarrow> utext \<Rightarrow> utext option" where
  "tsToken prev s =
     (case dateToken s of
        Some r \<Rightarrow> Some r
      | None \<Rightarrow>
          if (case prev of None \<Rightarrow> False | Some c \<Rightarrow> isWordUnit c) \<or> s = [] \<or> \<not> isD (hd s) then None
          else (case epochToken s of Some r \<Rightarrow> Some r | None \<Rightarrow> clockToken s))"

definition TS_MASK :: utext where
  "TS_MASK = [0x27E8, 116, 115, 0x27E9]"

text \<open>
  The global replacement, with the unit before the current place; the fuel bounds the number of steps, each
  of which consumes at least one unit.
\<close>

fun maskTs :: "nat \<Rightarrow> nat option \<Rightarrow> utext \<Rightarrow> utext" where
  "maskTs 0 prev s = s"
| "maskTs (Suc k) prev [] = []"
| "maskTs (Suc k) prev (c # s) =
     (case tsToken prev (c # s) of
        Some r \<Rightarrow> TS_MASK @ maskTs k (Some (last (take (length (c # s) - length r) (c # s)))) r
      | None \<Rightarrow> c # maskTs k (Some c) s)"

fun unixEol :: "utext \<Rightarrow> utext" where
  "unixEol (c # d # s) = (if c = CR then NL # unixEol (if d = NL then s else d # s) else c # unixEol (d # s))"
| "unixEol [c] = [if c = CR then NL else c]"
| "unixEol [] = []"

definition shapeOf :: "utext \<Rightarrow> utext" where
  "shapeOf text = (let t = unixEol text in maskTs (length t) None t)"

subsection \<open>The tracker\<close>

record seen =
  sn_hash :: hash
  sn_shape :: "utext option"
  sn_at :: int

record flip_entry =
  fe_hashes :: "seen list"
  fe_last :: "hash option"
  fe_flips :: "int list"
  fe_releasedHash :: "hash option"

record flip_guard =
  fg_limit :: nat
  fg_windowMs :: int
  fg_seen :: "(path \<times> flip_entry) list"

definition newFlipGuard :: flip_guard where
  "newFlipGuard = \<lparr>fg_limit = 6, fg_windowMs = 10 * 60000, fg_seen = []\<rparr>"

definition emptyEntry :: flip_entry where
  "emptyEntry = \<lparr>fe_hashes = [], fe_last = None, fe_flips = [], fe_releasedHash = None\<rparr>"

definition recordEntry :: "nat \<Rightarrow> int \<Rightarrow> flip_entry \<Rightarrow> hash \<Rightarrow> int \<Rightarrow> utext option \<Rightarrow> flip_entry \<times> bool \<times> nat" where
  "recordEntry limit windowMs e0 h now shape =
     (let cutoff = now - windowMs;
          hashes = filter (\<lambda>x. sn_at x \<ge> cutoff) (fe_hashes e0);
          flips = filter (\<lambda>at. at \<ge> cutoff) (fe_flips e0);
          returning = list_ex (\<lambda>x. sn_hash x = h \<or> (shape \<noteq> None \<and> sn_shape x = shape)) hashes;
          changed = (Some h \<noteq> fe_last e0);
          flips1 = (if \<not> changed then flips
                    else if returning then flips @ [now]
                    else if fe_last e0 \<noteq> None \<and> flips \<noteq> [] then [] else flips);
          hashes1 = (if changed then hashes @ [\<lparr>sn_hash = h, sn_shape = shape, sn_at = now\<rparr>] else hashes);
          released = (if flips1 = [] then None else fe_releasedHash e0)
      in (\<lparr>fe_hashes = hashes1, fe_last = Some h, fe_flips = flips1, fe_releasedHash = released\<rparr>,
          limit \<le> length flips1 \<and> released \<noteq> Some h, length flips1))"

definition fg_record :: "path \<Rightarrow> hash \<Rightarrow> int \<Rightarrow> utext option \<Rightarrow> flip_guard \<Rightarrow> (bool \<times> nat) \<times> flip_guard" where
  "fg_record p h now shape g =
     (let e0 = (case map_of (fg_seen g) p of Some e \<Rightarrow> e | None \<Rightarrow> emptyEntry);
          (e, verdict) = recordEntry (fg_limit g) (fg_windowMs g) e0 h now shape
      in (verdict, g\<lparr>fg_seen := AList.update p e (fg_seen g)\<rparr>))"

definition fg_release :: "path \<Rightarrow> flip_guard \<Rightarrow> flip_guard" where
  "fg_release p g =
     (case map_of (fg_seen g) p of
        None \<Rightarrow> g
      | Some e \<Rightarrow>
          if fe_last e = None then g
          else g\<lparr>fg_seen := AList.update p (e\<lparr>fe_releasedHash := fe_last e\<rparr>) (fg_seen g)\<rparr>)"

definition fg_held :: "int \<Rightarrow> flip_guard \<Rightarrow> path list" where
  "fg_held now g =
     sort (map fst (filter (\<lambda>(p, e).
       fg_limit g \<le> length (filter (\<lambda>at. at \<ge> now - fg_windowMs g) (fe_flips e)) \<and> fe_releasedHash e \<noteq> fe_last e) (fg_seen g)))"

subsection \<open>The replacement ends\<close>

lemma dds_shorter: "dds n s = Some r \<Longrightarrow> length r + n = length s"
  by (auto simp: dds_def split: if_splits)

lemma unit1_shorter: "unit1 p s = Some r \<Longrightarrow> length r + 1 = length s"
  by (auto simp: unit1_def split: list.splits if_splits)

lemma sepDds_shorter: "sepDds c n s = Some r \<Longrightarrow> length r + n + 1 = length s"
  by (auto simp: sepDds_def bind_eq_Some_conv dest!: unit1_shorter dds_shorter)

lemma optionally_shorter: "(\<And>r. m s = Some r \<Longrightarrow> length r \<le> length s) \<Longrightarrow> length (optionally m s) \<le> length s"
  by (auto simp: optionally_def split: option.splits)

lemma fraction_shorter: "fraction s = Some r \<Longrightarrow> length r \<le> length s"
proof -
  assume "fraction s = Some r"
  then obtain t where t: "unit1 (\<lambda>x. x = 46) s = Some t" "r = dropWhile isD t"
    by (auto simp: fraction_def bind_eq_Some_conv split: if_splits)
  from unit1_shorter [OF t(1)] show ?thesis unfolding t(2) using length_dropWhile_le [of isD t] by linarith
qed

lemma optional_unit: "length (optionally (unit1 p) t) \<le> length t"
  by (rule optionally_shorter) (auto dest: unit1_shorter)

lemma zone_shorter: "zone s = Some r \<Longrightarrow> length r \<le> length s"
proof (cases "unit1 (\<lambda>x. x = 90) s")
  case None
  assume "zone s = Some r"
  with None obtain t u where "unit1 (\<lambda>x. x = 43 \<or> x = 45) s = Some t" "dds 2 t = Some u"
    "dds 2 (optionally (unit1 (\<lambda>x. x = 58)) u) = Some r"
    by (auto simp: zone_def bind_eq_Some_conv)
  from unit1_shorter [OF this(1)] dds_shorter [OF this(2)] dds_shorter [OF this(3)] optional_unit [of "\<lambda>x. x = 58" u]
  show ?thesis by linarith
next
  case (Some t)
  assume "zone s = Some r"
  with Some show ?thesis using unit1_shorter [OF Some] by (simp add: zone_def)
qed

lemma clockPart_shorter:
  assumes "clockPart s = Some r"
  shows "length r \<le> length s"
proof -
  obtain x y t where t: "unit1 (\<lambda>x. x = 84 \<or> x = 32) s = Some x" "dds 2 x = Some y" "sepDds 58 2 y = Some t"
    "r = optionally zone (optionally fraction (optionally (sepDds 58 2) t))"
    using assms by (auto simp: clockPart_def bind_eq_Some_conv)
  have "length t \<le> length s" using unit1_shorter [OF t(1)] dds_shorter [OF t(2)] sepDds_shorter [OF t(3)] by linarith
  moreover have "length (optionally (sepDds 58 2) t) \<le> length t" by (rule optionally_shorter) (auto dest: sepDds_shorter)
  moreover have "length (optionally fraction u) \<le> length u" "length (optionally zone u) \<le> length u" for u
    by (auto intro!: optionally_shorter dest: fraction_shorter zone_shorter)
  ultimately show ?thesis unfolding t(4) by (meson le_trans)
qed

lemma dateToken_shorter: "dateToken s = Some r \<Longrightarrow> length r < length s"
proof -
  assume "dateToken s = Some r"
  then obtain x y t where t: "dds 4 s = Some x" "sepDds 45 2 x = Some y" "sepDds 45 2 y = Some t" "r = optionally clockPart t"
    by (auto simp: dateToken_def bind_eq_Some_conv)
  have "length t < length s" using dds_shorter [OF t(1)] sepDds_shorter [OF t(2)] sepDds_shorter [OF t(3)] by linarith
  moreover have "length (optionally clockPart t) \<le> length t" by (rule optionally_shorter) (rule clockPart_shorter)
  ultimately show ?thesis unfolding t(4) by linarith
qed

lemma epochToken_shorter: "epochToken s = Some r \<Longrightarrow> length r < length s"
proof -
  assume e: "epochToken s = Some r"
  have "length (takeWhile isD s) + length (dropWhile isD s) = length s"
    by (metis length_append takeWhile_dropWhile_id)
  with e show ?thesis by (auto simp: epochToken_def Let_def split: if_splits)
qed

lemma hours_shorter:
  assumes "(case dds 2 s of
          Some r \<Rightarrow> (case sepDds 58 2 r of Some r1 \<Rightarrow> Some r1 | None \<Rightarrow> Option.bind (dds 1 s) (sepDds 58 2))
        | None \<Rightarrow> Option.bind (dds 1 s) (sepDds 58 2)) = Some t"
  shows "length t < length s"
proof -
  have one: "length u < length s" if "Option.bind (dds 1 s) (sepDds 58 2) = Some u" for u
  proof -
    obtain r where r: "dds 1 s = Some r" "sepDds 58 2 r = Some u" using \<open>_ = Some u\<close> by (auto simp: bind_eq_Some_conv)
    from dds_shorter [OF r(1)] sepDds_shorter [OF r(2)] show ?thesis by linarith
  qed
  have two: "length u < length s" if r: "dds 2 s = Some r" "sepDds 58 2 r = Some u" for r u
    using dds_shorter [OF r(1)] sepDds_shorter [OF r(2)] by linarith
  show ?thesis using assms one two by (auto split: option.splits)
qed

lemma clockToken_shorter:
  assumes "clockToken s = Some r"
  shows "length r < length s"
proof -
  obtain t where t: "length t < length s" "(case sepDds 58 2 t of
       Some r1 \<Rightarrow> if boundaryAfter r1 then Some r1 else if boundaryAfter t then Some t else None
     | None \<Rightarrow> if boundaryAfter t then Some t else None) = Some r"
    using assms unfolding clockToken_def bind_eq_Some_conv by (blast dest: hours_shorter)
  show ?thesis
  proof (cases "sepDds 58 2 t")
    case None
    then show ?thesis using t by (auto split: if_splits)
  next
    case (Some u)
    then show ?thesis using t sepDds_shorter [OF Some] by (auto split: if_splits)
  qed
qed

lemma tsToken_shorter: "tsToken prev s = Some r \<Longrightarrow> length r < length s"
  unfolding tsToken_def
  using dateToken_shorter [of s] epochToken_shorter [of s] clockToken_shorter [of s]
  by (cases "dateToken s"; cases "epochToken s") (simp_all split: if_splits)

lemma maskTs_fuel: "length s \<le> k \<Longrightarrow> maskTs k prev s = maskTs (length s) prev s"
proof (induction k arbitrary: s prev rule: less_induct)
  case (less k)
  show ?case
  proof (cases s)
    case Nil
    then show ?thesis by (cases k) simp_all
  next
    case (Cons c t)
    then obtain k' where k: "k = Suc k'" using less.prems by (cases k) auto
    have shorter: "length r \<le> length t" if "tsToken prev (c # t) = Some r" for r
      using tsToken_shorter [OF that] by simp
    have "maskTs k' q r = maskTs (length t) q r" if "length r \<le> length t" for q r
    proof (cases "length t < k")
      case True
      then show ?thesis using less.IH [of k' r q] less.IH [of "length t" r q] less.prems that k Cons by simp
    qed (use k Cons less.prems in simp)
    then show ?thesis using Cons k shorter by (auto split: option.split)
  qed
qed

subsection \<open>Loops are broken, edits are not\<close>

lemma recordEntry_last: "fe_last (fst (recordEntry limit windowMs e h now shape)) = Some h"
  by (simp add: recordEntry_def Let_def)

fun fg_run :: "path \<Rightarrow> (hash \<times> int \<times> utext option) list \<Rightarrow> flip_guard \<Rightarrow> bool list \<times> flip_guard" where
  "fg_run p [] g = ([], g)"
| "fg_run p ((h, now, shape) # xs) g =
     (let ((hold, _), g1) = fg_record p h now shape g; (hs, g2) = fg_run p xs g1 in (hold # hs, g2))"

lemma fg_run_Cons:
  "fg_run p ((h, now, shape) # xs) g =
     (fst (fst (fg_record p h now shape g)) # fst (fg_run p xs (snd (fg_record p h now shape g))),
      snd (fg_run p xs (snd (fg_record p h now shape g))))"
  by (simp add: case_prod_beta)

definition bounce :: "hash \<Rightarrow> hash \<Rightarrow> nat \<Rightarrow> hash" where
  "bounce a b i = (if even i then a else b)"

text \<open>What the entry of a file holds after \<open>n\<close> pushes that alternate between two contents.\<close>

definition bounced :: "hash \<Rightarrow> hash \<Rightarrow> int \<Rightarrow> nat \<Rightarrow> flip_entry \<Rightarrow> bool" where
  "bounced a b begun n e \<longleftrightarrow>
     fe_releasedHash e = None \<and> fe_last e = (if n = 0 then None else Some (bounce a b (n - 1)))
     \<and> length (fe_flips e) = n - 2 \<and> list_all (\<lambda>at. begun \<le> at) (fe_flips e) \<and> list_all (\<lambda>x. begun \<le> sn_at x) (fe_hashes e)
     \<and> sn_hash ` set (fe_hashes e) = (if n = 0 then {} else if n = 1 then {a} else {a, b})"

lemma bounced_step:
  assumes "bounced a b begun n e" "a \<noteq> b" "begun \<le> now" "now \<le> begun + windowMs"
  shows "bounced a b begun (Suc n) (fst (recordEntry limit windowMs e (bounce a b n) now None))
     \<and> fst (snd (recordEntry limit windowMs e (bounce a b n) now None)) = (limit \<le> n - 1)"
proof -
  have keep: "filter (\<lambda>x. sn_at x \<ge> now - windowMs) (fe_hashes e) = fe_hashes e"
    "filter (\<lambda>at. at \<ge> now - windowMs) (fe_flips e) = fe_flips e"
    using assms(1,4) by (auto simp: bounced_def list_all_iff intro!: filter_True)
  have changed: "Some (bounce a b n) \<noteq> fe_last e"
    using assms(1,2) by (cases n) (auto simp: bounced_def bounce_def)
  have returning: "list_ex (\<lambda>x. sn_hash x = bounce a b n) (fe_hashes e) \<longleftrightarrow> 2 \<le> n"
  proof -
    have "list_ex (\<lambda>x. sn_hash x = bounce a b n) (fe_hashes e) \<longleftrightarrow> bounce a b n \<in> sn_hash ` set (fe_hashes e)"
      by (force simp: list_ex_iff)
    also have "\<dots> \<longleftrightarrow> 2 \<le> n" using assms(1,2) by (auto simp: bounced_def bounce_def elim!: oddE)
    finally show ?thesis .
  qed
  have none: "fe_flips e = []" if "n < 2" using assms(1) that by (simp add: bounced_def)
  have set1: "insert (bounce a b n) (sn_hash ` set (fe_hashes e)) = (if n = 0 then {a} else {a, b})"
    using assms(1) by (auto simp: bounced_def bounce_def elim!: oddE)
  show ?thesis
    using assms(1,3) none returning changed set1
    by (cases "2 \<le> n") (auto simp: recordEntry_def Let_def keep bounced_def insert_commute)
qed

lemma bounced_run:
  assumes "a \<noteq> b" "\<And>i. i < n \<Longrightarrow> begun \<le> t (k + i) \<and> t (k + i) \<le> begun + fg_windowMs g"
    and "bounced a b begun k (case map_of (fg_seen g) p of Some e \<Rightarrow> e | None \<Rightarrow> emptyEntry)"
  shows "fst (fg_run p (map (\<lambda>i. (bounce a b i, t i, None)) [k..<k + n]) g)
     = map (\<lambda>i. fg_limit g \<le> i - 1) [k..<k + n]"
  using assms(2,3)
proof (induction n arbitrary: k g)
  case (Suc n)
  let ?e = "case map_of (fg_seen g) p of Some e \<Rightarrow> e | None \<Rightarrow> emptyEntry"
  obtain e v m where rec: "recordEntry (fg_limit g) (fg_windowMs g) ?e (bounce a b k) (t k) None = (e, v, m)"
    by (cases "recordEntry (fg_limit g) (fg_windowMs g) ?e (bounce a b k) (t k) None")
  have step: "bounced a b begun (Suc k) e" "v = (fg_limit g \<le> k - 1)"
    using bounced_step [OF Suc.prems(2) assms(1), of "t k" "fg_windowMs g" "fg_limit g"] Suc.prems(1) [of 0] rec by auto
  let ?g = "g\<lparr>fg_seen := AList.update p e (fg_seen g)\<rparr>"
  have run: "fg_record p (bounce a b k) (t k) None g = ((v, m), ?g)" by (simp add: fg_record_def rec)
  have "fst (fg_run p (map (\<lambda>i. (bounce a b i, t i, None)) [Suc k..<Suc k + n]) ?g)
      = map (\<lambda>i. fg_limit ?g \<le> i - 1) [Suc k..<Suc k + n]"
    by (rule Suc.IH) (use Suc.prems(1) [of "Suc i" for i] step(1) in \<open>simp_all add: update_conv'\<close>)
  moreover have "[k..<k + Suc n] = k # [Suc k..<Suc k + n]" by (simp add: upt_conv_Cons)
  ultimately show ?case by (simp add: run step(2) case_prod_beta)
qed simp

text \<open>
  A rewrite loop is broken: when a file bounces between two contents within the window, exactly the
  first seven pushes get through and every later one is held, however often the loop goes round.
\<close>
theorem flip_loop_broken:
  assumes "a \<noteq> b" "\<forall>i < n. t 0 \<le> t i \<and> t i \<le> t 0 + 600000"
  shows "fst (fg_run p (map (\<lambda>i. (bounce a b i, t i, None)) [0..<n]) newFlipGuard) = map (\<lambda>i. 7 \<le> i) [0..<n]"
proof -
  have start: "bounced a b (t 0) 0 emptyEntry" by (simp add: bounced_def emptyEntry_def)
  have "fst (fg_run p (map (\<lambda>i. (bounce a b i, t i, None)) [0..<0 + n]) newFlipGuard)
      = map (\<lambda>i. fg_limit newFlipGuard \<le> i - 1) [0..<0 + n]"
    by (rule bounced_run [OF assms(1), where begun = "t 0"]) (use assms(2) start in \<open>auto simp: newFlipGuard_def\<close>)
  then show ?thesis by (auto simp: newFlipGuard_def intro!: map_cong)
qed

theorem flip_loop_broken_witness:
  "fst (fg_run ''a.md'' (map (\<lambda>i. (bounce ''x'' ''y'' i, 0, None)) [0..<9]) newFlipGuard)
     = [False, False, False, False, False, False, False, True, True]"
proof -
  have "[0..<9] = [0, 1, 2, 3, 4, 5, 6, 7, 8::nat]" by (simp add: upt_rec)
  then show ?thesis
    using flip_loop_broken [of "''x''" "''y''" 9 "\<lambda>_. 0" "''a.md''"] by simp
qed

text \<open>
  The breaker never stops an edit: a content whose hash and shape were not seen within the window is
  pushed, in every state the tracker can be in, and it ends a running hold.
\<close>
theorem flip_guard_lets_edits_through:
  assumes "list_all (\<lambda>x. sn_hash x \<noteq> h \<and> (shape = None \<or> sn_shape x \<noteq> shape))
      (case map_of (fg_seen (snd (fg_run q xs newFlipGuard))) p of Some e \<Rightarrow> fe_hashes e | None \<Rightarrow> [])"
    and "(case map_of (fg_seen (snd (fg_run q xs newFlipGuard))) p of Some e \<Rightarrow> fe_last e | None \<Rightarrow> None) \<noteq> Some h"
  shows "fst (fg_record p h now shape (snd (fg_run q xs newFlipGuard))) = (False, 0)"
proof -
  have inv: "fg_limit (snd (fg_run q xs g)) = fg_limit g \<and>
      list_all (\<lambda>(p, e). fe_last e = None \<longrightarrow> fe_flips e = []) (fg_seen (snd (fg_run q xs g)))"
    if "list_all (\<lambda>(p, e). fe_last e = None \<longrightarrow> fe_flips e = []) (fg_seen g)" for g
    using that
  proof (induction xs arbitrary: g)
    case (Cons x xs)
    obtain h now shape where x: "x = (h, now, shape)" by (cases x)
    define r where "r = recordEntry (fg_limit g) (fg_windowMs g)
        (case map_of (fg_seen g) q of Some e \<Rightarrow> e | None \<Rightarrow> emptyEntry) h now shape"
    define v e where "v = snd r" and "e = fst r"
    have rec: "fg_record q h now shape g = (v, g\<lparr>fg_seen := AList.update q e (fg_seen g)\<rparr>)" "fe_last e \<noteq> None"
      by (simp_all add: fg_record_def case_prod_beta Let_def v_def e_def r_def recordEntry_last)
    have upd: "set (AList.update q e l) \<subseteq> insert (q, e) (set l)" for l by (induction l) auto
    have "case x of (p, e) \<Rightarrow> fe_last e = None \<longrightarrow> fe_flips e = []" if "x \<in> set (AList.update q e (fg_seen g))" for x
    proof -
      have "x = (q, e) \<or> x \<in> set (fg_seen g)" using that upd by blast
      then show ?thesis using Cons.prems rec(2) by (auto simp: list_all_iff)
    qed
    then have "list_all (\<lambda>(p, e). fe_last e = None \<longrightarrow> fe_flips e = []) (AList.update q e (fg_seen g))"
      unfolding list_all_iff by blast
    then show ?case using Cons.IH [of "g\<lparr>fg_seen := AList.update q e (fg_seen g)\<rparr>"] by (simp add: x fg_run_Cons rec del: fg_run.simps(2))
  qed simp
  let ?g = "snd (fg_run q xs newFlipGuard)"
  have g: "fg_limit ?g = 6" "list_all (\<lambda>(p, e). fe_last e = None \<longrightarrow> fe_flips e = []) (fg_seen ?g)"
    using inv [of newFlipGuard] by (simp_all add: newFlipGuard_def)
  let ?e = "case map_of (fg_seen ?g) p of Some e \<Rightarrow> e | None \<Rightarrow> emptyEntry"
  have e: "fe_last ?e = None \<Longrightarrow> fe_flips ?e = []"
    using g(2) by (auto simp: list_all_iff emptyEntry_def split: option.splits dest!: map_of_SomeD)
  have fresh: "\<not> list_ex (\<lambda>x. sn_hash x = h \<or> (shape \<noteq> None \<and> sn_shape x = shape)) (filter f (fe_hashes ?e))" for f
    using assms(1) by (auto simp: list_all_iff list_ex_iff emptyEntry_def split: option.splits)
  have changed: "Some h \<noteq> fe_last ?e" using assms(2) by (auto simp: emptyEntry_def split: option.splits)
  show ?thesis
    using e fresh changed g(1) by (auto simp: fg_record_def recordEntry_def Let_def case_prod_beta)
qed

end
