(* ===== verification/Wire.thy ===== *)
theory Wire
  imports JsonValue Effects
begin

text \<open>
  The validation of the server's answers, \<open>client/src/protocol.ts\<close>, and of the sharing answers in
  \<open>client/src/transport.ts\<close>. A validator returns the value it has built from the checked fields, or the
  error it throws. The fields are checked in the order in which the source evaluates them.
\<close>

definition okThen :: "err + 'a \<Rightarrow> ('a \<Rightarrow> err + 'b) \<Rightarrow> err + 'b" where
  "okThen r f = (case r of Inl e \<Rightarrow> Inl e | Inr x \<Rightarrow> f x)"

lemma okThen_simps [simp]: "okThen (Inr x) f = f x" "okThen (Inl e) f = Inl e"
  by (simp_all add: okThen_def)

lemma okThen_Inr: "okThen r f = Inr y \<longleftrightarrow> (\<exists>x. r = Inr x \<and> f x = Inr y)"
  by (cases r) auto

fun okMap :: "('a \<Rightarrow> err + 'b) \<Rightarrow> 'a list \<Rightarrow> err + 'b list" where
  "okMap f [] = Inr []"
| "okMap f (x # xs) = okThen (f x) (\<lambda>y. okThen (okMap f xs) (\<lambda>ys. Inr (y # ys)))"

definition malformed :: "string \<Rightarrow> err + 'a" where
  "malformed what = Inl (newError (''malformed response: '' @ what))"

definition CLIENT_API_VERSION :: int where
  "CLIENT_API_VERSION = 1"

definition asStr :: "jval \<Rightarrow> string \<Rightarrow> err + string" where
  "asStr v f = (case v of VStr u \<Rightarrow> Inr (ofUnits u) | _ \<Rightarrow> malformed (f @ '' not a string''))"

definition asNum :: "jval \<Rightarrow> string \<Rightarrow> err + nat" where
  "asNum v f =
     (case intOf v of
        Some n \<Rightarrow> if n < 0 then malformed (f @ '' not a non-negative integer'') else Inr (nat n)
      | None \<Rightarrow> malformed (f @ '' not a non-negative integer''))"

definition asOptStr :: "jval \<Rightarrow> string \<Rightarrow> err + string option" where
  "asOptStr v f = (if v = VUndef \<or> v = VNull then Inr None else okThen (asStr v f) (\<lambda>s. Inr (Some s)))"

definition asOptNum :: "jval \<Rightarrow> string \<Rightarrow> err + nat option" where
  "asOptNum v f = (if v = VUndef \<or> v = VNull then Inr None else okThen (asNum v f) (\<lambda>n. Inr (Some n)))"

text \<open>\<open>Array.isArray(v)\<close> and \<open>typeof c === "string"\<close> for every element.\<close>

fun stringsOf :: "jval \<Rightarrow> string list option" where
  "stringsOf (VArr xs) =
     (if list_all (\<lambda>x. case x of VStr _ \<Rightarrow> True | _ \<Rightarrow> False) xs then Some (map (strOr '''') xs) else None)"
| "stringsOf _ = None"

definition validateFileMeta :: "jval \<Rightarrow> err + file_meta" where
  "validateFileMeta m =
     (if \<not> isObject m then malformed ''FileMeta not an object''
      else case stringsOf (fieldOf m ''chunks'') of
        None \<Rightarrow> malformed ''FileMeta.chunks not string[]''
      | Some chunks \<Rightarrow>
          okThen (asStr (fieldOf m ''path'') ''path'') (\<lambda>p.
          okThen (asStr (fieldOf m ''hash'') ''hash'') (\<lambda>h.
          okThen (asNum (fieldOf m ''size'') ''size'') (\<lambda>size.
          okThen (asNum (fieldOf m ''mtime'') ''mtime'') (\<lambda>mtime.
          okThen (asNum (fieldOf m ''version'') ''version'') (\<lambda>version.
          okThen (asOptStr (fieldOf m ''author'') ''author'') (\<lambda>author.
          okThen (asOptStr (fieldOf m ''device_id'') ''device_id'') (\<lambda>deviceId.
          okThen (asOptStr (fieldOf m ''device_name'') ''device_name'') (\<lambda>deviceName.
          Inr \<lparr>fm_path = p, fm_hash = h, fm_size = size, fm_mtime = mtime, fm_version = int version, fm_chunks = chunks,
               fm_author = author, fm_deviceId = deviceId, fm_deviceName = deviceName\<rparr>)))))))))"

record status_response =
  st_status :: string
  st_detail :: string
  st_version :: nat
  st_apiVersion :: "nat option"
  st_schemaHash :: "string option"

fun optString :: "jval \<Rightarrow> string option" where
  "optString (VStr u) = Some (ofUnits u)"
| "optString _ = None"

definition validateStatus :: "jval \<Rightarrow> err + status_response" where
  "validateStatus s =
     (if \<not> isObject s then malformed ''StatusResponse not an object''
      else
        okThen (asStr (fieldOf s ''status'') ''status'') (\<lambda>status.
        okThen (asNum (fieldOf s ''version'') ''version'') (\<lambda>version.
        okThen (asOptNum (fieldOf s ''api_version'') ''api_version'') (\<lambda>apiVersion.
        Inr \<lparr>st_status = status, st_detail = strOr '''' (fieldOf s ''detail''), st_version = version,
             st_apiVersion = apiVersion, st_schemaHash = optString (fieldOf s ''schema_hash'')\<rparr>))))"

definition validateDeletion :: "jval \<Rightarrow> err + deletion" where
  "validateDeletion x =
     okThen (asStr (fieldOf x ''path'') ''delete.path'') (\<lambda>p.
     okThen (asNum (fieldOf x ''version'') ''delete.version'') (\<lambda>version.
     okThen (asOptStr (fieldOf x ''author'') ''delete.author'') (\<lambda>author.
     okThen (asOptStr (fieldOf x ''device_id'') ''delete.device_id'') (\<lambda>deviceId.
     okThen (asOptStr (fieldOf x ''device_name'') ''delete.device_name'') (\<lambda>deviceName.
     Inr \<lparr>dl_path = p, dl_version = int version, dl_author = author, dl_deviceId = deviceId, dl_deviceName = deviceName\<rparr>)))))"

definition validateChanges :: "jval \<Rightarrow> err + changes_response" where
  "validateChanges c =
     (if \<not> isObject c then malformed ''ChangesResponse not an object''
      else
        okThen (asNum (fieldOf c ''version'') ''version'') (\<lambda>version.
        case (fieldOf c ''upserts'', fieldOf c ''deletes'') of
          (VArr us, VArr ds) \<Rightarrow>
            okThen (okMap validateFileMeta us) (\<lambda>upserts.
            okThen (okMap validateDeletion ds) (\<lambda>deletes.
            okThen (asOptNum (fieldOf c ''history_floor'') ''history_floor'') (\<lambda>histFloor.
            Inr \<lparr>cr_version = int version, cr_upserts = upserts, cr_deletes = deletes,
                 cr_history_floor = map_option int histFloor\<rparr>)))
        | _ \<Rightarrow> malformed ''upserts/deletes not arrays''))"

subsection \<open>Sharing\<close>

datatype share_perm = PermRead | PermReadWrite

record shared_vault_ref =
  sv_owner :: string
  sv_vault :: string
  sv_perm :: share_perm

record vault_shares =
  vs_vault :: string
  vs_grants :: "(string \<times> share_perm) list"

record share_link_info =
  sl_id :: string
  sl_vault :: string
  sl_perm :: share_perm
  sl_label :: string
  sl_expires_at :: "nat option"
  sl_redeemed_by :: "string option"

definition asArray :: "jval \<Rightarrow> string \<Rightarrow> err + jval list" where
  "asArray v f = (case v of VArr xs \<Rightarrow> Inr xs | _ \<Rightarrow> malformed (f @ '' not an array''))"

definition asPerm :: "jval \<Rightarrow> share_perm" where
  "asPerm v = (if v = VStr (units ''readWrite'') then PermReadWrite else PermRead)"

definition asSharedVaultRef :: "jval \<Rightarrow> string \<Rightarrow> err + shared_vault_ref" where
  "asSharedVaultRef r ctx =
     okThen (asStr (fieldOf r ''owner'') (ctx @ ''.owner'')) (\<lambda>owner.
     okThen (asStr (fieldOf r ''vault'') (ctx @ ''.vault'')) (\<lambda>vault.
     Inr \<lparr>sv_owner = owner, sv_vault = vault, sv_perm = asPerm (fieldOf r ''perm'')\<rparr>))"

definition indexed :: "string \<Rightarrow> nat \<Rightarrow> string" where
  "indexed name i = name @ ''['' @ natStr i @ '']''"

definition validateSharedVaults :: "jval \<Rightarrow> err + shared_vault_ref list" where
  "validateSharedVaults v =
     okThen (asArray v ''shared'') (\<lambda>xs. okMap (\<lambda>(i, x). asSharedVaultRef x (indexed ''shared'' i)) (enumerate 0 xs))"

definition validateRedeemedVault :: "jval \<Rightarrow> err + shared_vault_ref" where
  "validateRedeemedVault v = asSharedVaultRef v ''redeem''"

definition validateRedeemedRegister :: "jval \<Rightarrow> err + shared_vault_ref \<times> string" where
  "validateRedeemedRegister v =
     okThen (asSharedVaultRef v ''redeem'') (\<lambda>ref.
     okThen (asStr (fieldOf v ''token'') ''redeem.token'') (\<lambda>token. Inr (ref, token)))"

definition validateGrant :: "string \<Rightarrow> jval \<Rightarrow> err + string \<times> share_perm" where
  "validateGrant ctx g =
     okThen (asStr (fieldOf g ''grantee'') (ctx @ ''.grantee'')) (\<lambda>grantee. Inr (grantee, asPerm (fieldOf g ''perm'')))"

definition validateVaultShares :: "jval \<Rightarrow> err + vault_shares list" where
  "validateVaultShares v =
     okThen (asArray v ''my vaults'') (\<lambda>xs.
     okMap (\<lambda>(i, r).
       let ctx = indexed ''vaults'' i in
       okThen (asArray (fieldOf r ''grants'') (ctx @ ''.grants'')) (\<lambda>gs.
       okThen (okMap (\<lambda>(j, g). validateGrant (indexed (ctx @ ''.grants'') j) g) (enumerate 0 gs)) (\<lambda>grants.
       okThen (asStr (fieldOf r ''vault'') (ctx @ ''.vault'')) (\<lambda>vault.
       Inr \<lparr>vs_vault = vault, vs_grants = grants\<rparr>)))) (enumerate 0 xs))"

definition validateShareLinks :: "jval \<Rightarrow> err + share_link_info list" where
  "validateShareLinks v =
     okThen (asArray v ''share links'') (\<lambda>xs.
     okMap (\<lambda>(i, r).
       let ctx = indexed ''links'' i in
       okThen (asStr (fieldOf r ''id'') (ctx @ ''.id'')) (\<lambda>lid.
       okThen (asStr (fieldOf r ''vault'') (ctx @ ''.vault'')) (\<lambda>vault.
       okThen (asStr (fieldOf r ''label'') (ctx @ ''.label'')) (\<lambda>label.
       okThen (asOptNum (fieldOf r ''expires_at'') (ctx @ ''.expires_at'')) (\<lambda>expires.
       okThen (asOptStr (fieldOf r ''redeemed_by'') (ctx @ ''.redeemed_by'')) (\<lambda>redeemed.
       Inr \<lparr>sl_id = lid, sl_vault = vault, sl_perm = asPerm (fieldOf r ''perm''), sl_label = label,
            sl_expires_at = expires, sl_redeemed_by = redeemed\<rparr>)))))) (enumerate 0 xs))"

subsection \<open>What passes\<close>

lemma asStr_units [simp]: "asStr (VStr (units s)) f = Inr s"
  by (simp add: asStr_def)

lemma asNum_nat [simp]: "asNum (VNum (Finite (of_nat n))) f = Inr n"
  using intOf_of_int [of "int n"] by (simp add: asNum_def)

lemma asNum_Inr: "asNum v f = Inr n \<longleftrightarrow> v = VNum (Finite (of_nat n))"
proof
  assume "asNum v f = Inr n"
  then obtain k where "intOf v = Some k" "0 \<le> k" "n = nat k"
    by (auto simp: asNum_def malformed_def split: option.splits if_splits)
  then show "v = VNum (Finite (of_nat n))" by (simp add: intOf_Some)
qed simp

lemma asStr_Inr: "asStr v f = Inr s \<longleftrightarrow> (\<exists>u. v = VStr u \<and> s = ofUnits u)"
  by (auto simp: asStr_def malformed_def split: jval.splits)

text \<open>The JSON that the protocol prescribes for a file.\<close>

definition optStrField :: "string \<Rightarrow> string option \<Rightarrow> (string \<times> jval) list" where
  "optStrField k s = (case s of None \<Rightarrow> [] | Some x \<Rightarrow> [(k, VStr (units x))])"

definition metaJson :: "file_meta \<Rightarrow> jval" where
  "metaJson m = VObj ([(''path'', VStr (units (fm_path m))), (''hash'', VStr (units (fm_hash m))),
     (''size'', VNum (Finite (of_nat (fm_size m)))), (''mtime'', VNum (Finite (of_nat (fm_mtime m)))),
     (''version'', VNum (Finite (of_int (fm_version m)))), (''chunks'', VArr (map (\<lambda>c. VStr (units c)) (fm_chunks m)))]
     @ optStrField ''author'' (fm_author m) @ optStrField ''device_id'' (fm_deviceId m) @ optStrField ''device_name'' (fm_deviceName m))"

lemma stringsOf_units: "stringsOf (VArr (map (\<lambda>c. VStr (units c)) xs)) = Some xs"
  by (simp add: list_all_iff comp_def)

lemma validate_metaJson: "0 \<le> fm_version m \<Longrightarrow> validateFileMeta (metaJson m) = Inr m"
proof -
  assume v: "0 \<le> fm_version m"
  have num: "asNum (VNum (Finite (of_int (fm_version m)))) f = Inr (nat (fm_version m))" for f
    using v asNum_nat [of "nat (fm_version m)" f] by simp
  show ?thesis
    using v stringsOf_units [of "fm_chunks m"]
    by (cases "fm_author m"; cases "fm_deviceId m"; cases "fm_deviceName m")
      (simp_all add: validateFileMeta_def metaJson_def optStrField_def asOptStr_def num del: stringsOf.simps)
qed

text \<open>Every object that passes, whatever else it contains, is read like the JSON of its result.\<close>

lemma validated_version: "validateFileMeta v = Inr m \<Longrightarrow> 0 \<le> fm_version m"
  by (auto simp: validateFileMeta_def malformed_def okThen_Inr split: if_splits option.splits)

lemma okMap_Inr: "okMap f xs = Inr ys \<longleftrightarrow> list_all2 (\<lambda>x y. f x = Inr y) xs ys"
proof (induction xs arbitrary: ys)
  case (Cons x xs)
  then show ?case by (cases ys) (auto simp: okThen_Inr)
qed (simp add: eq_commute)

lemma okMap_all: "okMap f xs = Inr ys \<Longrightarrow> (\<And>x y. f x = Inr y \<Longrightarrow> P y) \<Longrightarrow> list_all P ys"
  by (induction xs arbitrary: ys) (auto simp: okThen_Inr)

lemma validated_deletion: "validateDeletion v = Inr x \<Longrightarrow> 0 \<le> dl_version x"
  by (auto simp: validateDeletion_def okThen_Inr)

lemma changes_parts:
  assumes "validateChanges v = Inr r"
  shows "\<exists>us ds n ups dels fl. fieldOf v ''upserts'' = VArr us \<and> fieldOf v ''deletes'' = VArr ds
    \<and> okMap validateFileMeta us = Inr ups \<and> okMap validateDeletion ds = Inr dels
    \<and> r = \<lparr>cr_version = int n, cr_upserts = ups, cr_deletes = dels, cr_history_floor = map_option int fl\<rparr>"
  using assms
  by (cases "fieldOf v ''upserts''"; cases "fieldOf v ''deletes''")
    (auto simp: validateChanges_def malformed_def okThen_Inr split: if_splits)


text \<open>Writing to a shared vault is granted only by the exact permission.\<close>

lemma perm_fails_closed: "asPerm v = PermReadWrite \<longleftrightarrow> v = VStr (units ''readWrite'')"
  by (simp add: asPerm_def)

end
