(* ===== verification/Links.thy ===== *)
theory Links
  imports Wire
begin

text \<open>
  The links that set up a device, invite an account or share a vault: \<open>client/src/connstr.ts\<close>,
  \<open>client/src/invitelink.ts\<close> and \<open>client/src/sharelink.ts\<close>. The host's URL parser is the parameter
  \<open>newURL\<close> (\<^const>\<open>None\<close> where it throws), its UTF-8 codec the parameters \<open>enc\<close> and \<open>dec\<close>;
  \<open>URLSearchParams\<close> is modelled over the codec.
\<close>

record url =
  u_protocol :: string
  u_host :: string
  u_hostname :: string

definition urlIsInsecureRemote :: "url \<Rightarrow> bool" where
  "urlIsInsecureRemote u =
     (if u_protocol u \<noteq> ''http:'' then False
      else
        (let host = toLowerCase (u_hostname u) in
         \<not> (host = ''localhost'' \<or> host = ''127.0.0.1'' \<or> host = ''::1'' \<or> endsWith host ''.localhost'')))"

record server_origin =
  so_href :: string
  so_insecureRemote :: bool

definition parseServerOrigin :: "(string \<Rightarrow> url option) \<Rightarrow> string \<Rightarrow> err + server_origin" where
  "parseServerOrigin newURL server =
     (case newURL server of
        None \<Rightarrow> Inl (newError ''Invalid URL'')
      | Some u \<Rightarrow>
          if u_protocol u \<noteq> ''http:'' \<and> u_protocol u \<noteq> ''https:'' then Inl (newError ''Server must be an http(s) URL'')
          else Inr \<lparr>so_href = u_protocol u @ ''//'' @ u_host u, so_insecureRemote = urlIsInsecureRemote u\<rparr>)"

definition normalizeServer :: "(string \<Rightarrow> url option) \<Rightarrow> string \<Rightarrow> err + string" where
  "normalizeServer newURL server = okThen (parseServerOrigin newURL server) (\<lambda>o1. Inr (so_href o1))"

definition isInsecureRemote :: "(string \<Rightarrow> url option) \<Rightarrow> string \<Rightarrow> bool" where
  "isInsecureRemote newURL server = (case newURL server of None \<Rightarrow> False | Some u \<Rightarrow> urlIsInsecureRemote u)"

subsection \<open>Query strings\<close>

definition hexUpper :: "nat \<Rightarrow> nat" where
  "hexUpper n = (if n < 10 then 48 + n else 55 + n)"

definition formSafe :: "nat \<Rightarrow> bool" where
  "formSafe b \<longleftrightarrow> b = 42 \<or> b = 45 \<or> b = 46 \<or> b = 95 \<or> (48 \<le> b \<and> b \<le> 57) \<or> (65 \<le> b \<and> b \<le> 90) \<or> (97 \<le> b \<and> b \<le> 122)"

definition formByte :: "nat \<Rightarrow> nat list" where
  "formByte b = (if b = 32 then [43] else if formSafe b then [b] else [37, hexUpper (b div 16 mod 16), hexUpper (b mod 16)])"

definition formEncode :: "(utext \<Rightarrow> bytes) \<Rightarrow> string \<Rightarrow> string" where
  "formEncode enc s = ofUnits (concat (map formByte (enc (units s))))"

definition hexValue :: "nat \<Rightarrow> nat option" where
  "hexValue c =
     (if 48 \<le> c \<and> c \<le> 57 then Some (c - 48) else if 65 \<le> c \<and> c \<le> 70 then Some (c - 55)
      else if 97 \<le> c \<and> c \<le> 102 then Some (c - 87) else None)"

fun percentDecode :: "nat list \<Rightarrow> nat list" where
  "percentDecode (c # a # b # s) =
     (if c = 37 \<and> hexValue a \<noteq> None \<and> hexValue b \<noteq> None
      then (the (hexValue a) * 16 + the (hexValue b)) # percentDecode s
      else c # percentDecode (a # b # s))"
| "percentDecode (c # s) = c # percentDecode s"
| "percentDecode [] = []"

definition formDecode :: "(utext \<Rightarrow> bytes) \<Rightarrow> (bytes \<Rightarrow> utext) \<Rightarrow> string \<Rightarrow> string" where
  "formDecode enc dec s = ofUnits (dec (percentDecode (enc (map (\<lambda>c. if c = 43 then 32 else c) (units s)))))"

definition searchString :: "(utext \<Rightarrow> bytes) \<Rightarrow> (string \<times> string) list \<Rightarrow> string" where
  "searchString enc ps = joinWith ''&'' (map (\<lambda>(k, v). formEncode enc k @ ''='' @ formEncode enc v) ps)"

definition splitPair :: "string \<Rightarrow> string \<times> string" where
  "splitPair s = (case indexOf (CHR ''='') s of None \<Rightarrow> (s, '''') | Some i \<Rightarrow> (take i s, drop (Suc i) s))"

definition dropQuery :: "string \<Rightarrow> string" where
  "dropQuery s = (if startsWith s ''?'' then tl s else s)"

definition searchParams :: "(utext \<Rightarrow> bytes) \<Rightarrow> (bytes \<Rightarrow> utext) \<Rightarrow> string \<Rightarrow> (string \<times> string) list" where
  "searchParams enc dec s =
     map (\<lambda>seg. case splitPair seg of (k, v) \<Rightarrow> (formDecode enc dec k, formDecode enc dec v))
       (filter (\<lambda>seg. seg \<noteq> '''') (splitOn (CHR ''&'') s))"

definition queryOf :: "string \<Rightarrow> string" where
  "queryOf s = (case indexOf (CHR ''?'') s of None \<Rightarrow> '''' | Some i \<Rightarrow> drop (Suc i) s)"

definition paramOr :: "(string \<times> string) list \<Rightarrow> string \<Rightarrow> string" where
  "paramOr ps k = (case map_of ps k of None \<Rightarrow> '''' | Some v \<Rightarrow> v)"

subsection \<open>The links\<close>

record setup_link =
  lk_server :: string
  lk_user :: string
  lk_vault :: "string option"

definition encodeSetupLink :: "(string \<Rightarrow> url option) \<Rightarrow> (utext \<Rightarrow> bytes) \<Rightarrow> setup_link \<Rightarrow> err + string" where
  "encodeSetupLink newURL enc l =
     (if lk_user l = '''' then Inl (newError ''username required'')
      else okThen (normalizeServer newURL (lk_server l)) (\<lambda>server.
        Inr (''selfsync://connect?'' @ searchString enc ([(''server'', server), (''user'', lk_user l)]
          @ (case lk_vault l of Some v \<Rightarrow> if v = '''' then [] else [(''vault'', v)] | None \<Rightarrow> [])))))"

definition parseSetupLink ::
  "(string \<Rightarrow> url option) \<Rightarrow> (utext \<Rightarrow> bytes) \<Rightarrow> (bytes \<Rightarrow> utext) \<Rightarrow> string \<Rightarrow> err + setup_link" where
  "parseSetupLink newURL enc dec str =
     (let trimmed = trim str in
      if \<not> startsWith trimmed ''selfsync://'' then Inl (newError ''Not a SelfSync setup link'')
      else
        (let params = searchParams enc dec (queryOf trimmed);
             server = paramOr params ''server''; user = paramOr params ''user''; vault = paramOr params ''vault''
         in if server = '''' \<or> user = '''' then Inl (newError ''Setup link is missing server or username'')
            else okThen (normalizeServer newURL server) (\<lambda>href.
              Inr \<lparr>lk_server = href, lk_user = user, lk_vault = (if vault = '''' then None else Some vault)\<rparr>)))"

record token_link =
  tl_server :: string
  tl_token :: string

text \<open>The share link and the invite link differ in their scheme and messages only.\<close>

definition encodeTokenLink :: "string \<Rightarrow> (string \<Rightarrow> url option) \<Rightarrow> (utext \<Rightarrow> bytes) \<Rightarrow> token_link \<Rightarrow> err + string" where
  "encodeTokenLink head newURL enc l =
     (if tl_token l = '''' then Inl (newError ''token required'')
      else okThen (normalizeServer newURL (tl_server l)) (\<lambda>server.
        Inr (head @ searchString enc [(''server'', server), (''token'', tl_token l)])))"

definition parseTokenLink ::
  "string \<Rightarrow> string \<Rightarrow> string \<Rightarrow> (string \<Rightarrow> url option) \<Rightarrow> (utext \<Rightarrow> bytes) \<Rightarrow> (bytes \<Rightarrow> utext) \<Rightarrow> string \<Rightarrow> err + token_link" where
  "parseTokenLink scheme notOne missing newURL enc dec str =
     (let trimmed = trim str in
      if \<not> startsWith trimmed scheme then Inl (newError notOne)
      else
        (let params = searchParams enc dec (queryOf trimmed);
             server = paramOr params ''server''; token = paramOr params ''token''
         in if server = '''' \<or> token = '''' then
              Inl (newError missing)
            else okThen (normalizeServer newURL server) (\<lambda>href. Inr \<lparr>tl_server = href, tl_token = token\<rparr>)))"

definition encodeShareLink where
  "encodeShareLink = encodeTokenLink ''selfsync-share://redeem?''"

definition parseShareLink where
  "parseShareLink = parseTokenLink ''selfsync-share://'' ''Not a SelfSync share link'' ''Share link is missing server or token''"

definition isShareLink :: "string \<Rightarrow> bool" where
  "isShareLink str = startsWith (trim str) ''selfsync-share://''"

definition encodeInviteLink where
  "encodeInviteLink = encodeTokenLink ''selfsync-invite://register?''"

definition parseInviteLink where
  "parseInviteLink = parseTokenLink ''selfsync-invite://'' ''Not a SelfSync invite link'' ''Invite link is missing server or token''"

definition isInviteLink :: "string \<Rightarrow> bool" where
  "isInviteLink str = startsWith (trim str) ''selfsync-invite://''"

subsection \<open>Grants\<close>

datatype share_grant_status = GrantNotShared | GrantRevoked | GrantActive bool

definition resolveShareGrant :: "(string \<times> string \<times> string) list \<Rightarrow> string \<Rightarrow> string \<Rightarrow> share_grant_status" where
  "resolveShareGrant grants owner vault =
     (if owner = '''' then GrantNotShared
      else case List.find (\<lambda>(o1, v, _). o1 = owner \<and> v = vault) grants of
        None \<Rightarrow> GrantRevoked
      | Some (_, _, perm) \<Rightarrow> GrantActive (perm \<noteq> ''readWrite''))"

definition redeemTargetError :: "(string \<Rightarrow> url option) \<Rightarrow> string \<Rightarrow> string \<Rightarrow> string option" where
  "redeemTargetError newURL linkServer deviceServer =
     (if deviceServer = '''' then
        Some (''Set up SelfSync and sign in to '' @ linkServer @ '' first, then redeem this link.'')
      else case (normalizeServer newURL linkServer, normalizeServer newURL deviceServer) of
        (Inr a, Inr b) \<Rightarrow>
          if a \<noteq> b then Some (''This link is for '' @ a @ '', but you'' @ [CHR 0x27] @ ''re signed in to '' @ b
            @ ''. Set up SelfSync against '' @ a @ '' first, then redeem.'')
          else None
      | _ \<Rightarrow> Some (''This share link'' @ [CHR 0x27] @ ''s server address looks invalid.''))"

subsection \<open>Links survive encoding and parsing\<close>

text \<open>What the links rely on of the UTF-8 codec: bytes, ASCII text unchanged, and decoding what was encoded.\<close>

definition utf8Codec :: "(utext \<Rightarrow> bytes) \<Rightarrow> (bytes \<Rightarrow> utext) \<Rightarrow> bool" where
  "utf8Codec enc dec \<longleftrightarrow>
     (\<forall>s. dec (enc (units s)) = units s) \<and> (\<forall>s. list_all (\<lambda>b. b < 256) (enc (units s)))
     \<and> (\<forall>s. list_all (\<lambda>c. c < 128) (units s) \<longrightarrow> enc (units s) = units s)"

definition queryUnit :: "nat \<Rightarrow> bool" where
  "queryUnit c \<longleftrightarrow> c = 43 \<or> c = 37 \<or> formSafe c"

lemma hexUpper_safe: "n < 16 \<Longrightarrow> formSafe (hexUpper n)"
  by (auto simp: formSafe_def hexUpper_def)

lemma hexValue_hexUpper [simp]: "n < 16 \<Longrightarrow> hexValue (hexUpper n) = Some n"
  by (auto simp: hexValue_def hexUpper_def)

lemma formByte_units: "list_all queryUnit (formByte b)"
  by (simp add: formByte_def queryUnit_def hexUpper_safe)

lemma queryUnit_range: "queryUnit c \<Longrightarrow> 32 < c \<and> c < 128 \<and> c \<noteq> 38 \<and> c \<noteq> 61 \<and> c \<noteq> 63"
  by (auto simp: queryUnit_def formSafe_def)

lemma encoded_units: "list_all queryUnit (concat (map formByte bs))"
  using formByte_units by (auto simp: list_all_iff)

lemma units_ofUnits: "list_all (\<lambda>c. c < 256) u \<Longrightarrow> units (ofUnits u) = u"
  by (induction u) (auto simp: units_def ofUnits_def)

lemma list_all_less: "list_all queryUnit u \<Longrightarrow> list_all (\<lambda>c. c < 256) u"
  by (erule list.pred_mono_strong) (drule queryUnit_range, simp)

lemma units_formEncode: "units (formEncode enc s) = concat (map formByte (enc (units s)))"
  unfolding formEncode_def by (intro units_ofUnits list_all_less encoded_units)

lemma formEncode_units: "list_all queryUnit (units (formEncode enc s))"
  by (simp add: units_formEncode encoded_units)

lemma percentDecode_plain: "c \<noteq> 37 \<Longrightarrow> percentDecode (c # s) = c # percentDecode s"
  by (cases s; cases "tl s") simp_all

lemma percentDecode_formByte:
  "b < 256 \<Longrightarrow> percentDecode (map (\<lambda>c. if c = 43 then 32 else c) (formByte b) @ s) = b # percentDecode s"
proof -
  assume b: "b < 256"
  have h: "hexUpper n \<noteq> 43" if "n < 16" for n
    using that by (auto simp: hexUpper_def)
  have "b div 16 mod 16 * 16 + b mod 16 = b"
    using b by (simp add: less_mult_imp_div_less)
  then show ?thesis
    by (auto simp: formByte_def h percentDecode_plain formSafe_def)
qed

lemma percentDecode_encoded:
  "list_all (\<lambda>b. b < 256) bs \<Longrightarrow> percentDecode (map (\<lambda>c. if c = 43 then 32 else c) (concat (map formByte bs))) = bs"
  by (induction bs) (simp_all add: percentDecode_formByte)

lemma form_roundtrip: "utf8Codec enc dec \<Longrightarrow> formDecode enc dec (formEncode enc s) = s"
proof -
  assume c: "utf8Codec enc dec"
  let ?u = "map (\<lambda>c. if c = 43 then 32 else c) (units (formEncode enc s))"
  have "list_all (\<lambda>c. c < 128) ?u"
    unfolding list.pred_map by (rule list.pred_mono_strong [OF formEncode_units]) (auto dest: queryUnit_range)
  moreover from this have "units (ofUnits ?u) = ?u"
    by (intro units_ofUnits) (erule list.pred_mono_strong, simp)
  moreover have "list_all (\<lambda>c. c < 128) (units (ofUnits ?u)) \<longrightarrow> enc (units (ofUnits ?u)) = units (ofUnits ?u)"
    using c unfolding utf8Codec_def by blast
  ultimately have "enc ?u = ?u"
    by (simp only: simp_thms)
  then show ?thesis
    using c by (simp add: formDecode_def units_formEncode percentDecode_encoded utf8Codec_def)
qed

lemma formEncode_range:
  assumes "c \<in> set (formEncode enc s)"
  shows "32 < (of_char c :: nat) \<and> (of_char c :: nat) < 128 \<and> (of_char c :: nat) \<notin> {38, 61, 63}"
proof -
  have "queryUnit (of_char c)"
    using assms formEncode_units [of enc s] by (simp add: list_all_iff units_def)
  then show ?thesis
    using queryUnit_range by blast
qed

lemma formEncode_free: "of_char c \<in> {38, 61, 63 :: nat} \<Longrightarrow> c \<notin> set (formEncode enc s)"
  using formEncode_range by fastforce

lemma indexOf_append: "c \<notin> set a \<Longrightarrow> indexOf c (a @ c # b) = Some (length a)"
  by (induction a) auto

lemma splitPair_pair: "CHR ''='' \<notin> set k \<Longrightarrow> splitPair (k @ CHR ''='' # v) = (k, v)"
  by (simp add: splitPair_def indexOf_append)

lemma joinWith_chars: "c \<in> set (joinWith sep xs) \<Longrightarrow> c \<in> set sep \<or> (\<exists>x \<in> set xs. c \<in> set x)"
  by (induction sep xs rule: joinWith.induct) auto

definition linkChar :: "char \<Rightarrow> bool" where
  "linkChar c \<longleftrightarrow> (of_char c :: nat) > 32 \<and> (of_char c :: nat) < 128"

lemma searchString_chars: "c \<in> set (searchString enc ps) \<Longrightarrow> linkChar c \<and> c \<noteq> CHR ''?''"
  by (auto simp: searchString_def linkChar_def dest!: joinWith_chars formEncode_range)

lemma search_roundtrip:
  assumes c: "utf8Codec enc dec" and ps: "ps \<noteq> []"
  shows "searchParams enc dec (searchString enc ps) = ps"
proof -
  let ?seg = "\<lambda>(k, v). formEncode enc k @ ''='' @ formEncode enc v"
  have "\<not> startsWith (searchString enc ps) ''?''"
    using searchString_chars [of "CHR ''?''" enc ps] by (auto simp: startsWith_iff)
  moreover have "splitOn (CHR ''&'') (searchString enc ps) = map ?seg ps"
    unfolding searchString_def using ps by (intro split_join) (auto simp: formEncode_free)
  ultimately show ?thesis
    using c by (auto simp: searchParams_def dropQuery_def splitPair_pair formEncode_free form_roundtrip comp_def
        intro!: map_idI split: prod.splits)
qed

lemma trim_link: "list_all linkChar s \<Longrightarrow> trim s = s"
proof -
  assume s: "list_all linkChar s"
  then have "\<not> isJsSpace c" if "c \<in> set s" for c
    using that by (auto simp: isJsSpace_def linkChar_def list_all_iff)
  then have "dropWhile isJsSpace s = s" "dropWhile isJsSpace (rev s) = rev s"
    by (auto simp: dropWhile_eq_self_iff hd_in_set) (metis hd_in_set rev_is_Nil_conv set_rev)
  then show ?thesis
    by (simp add: trim_def trimEndBy_def)
qed

lemma queryOf_link: "CHR ''?'' \<notin> set a \<Longrightarrow> queryOf (a @ CHR ''?'' # q) = q"
  by (simp add: queryOf_def indexOf_append)

lemma link_params:
  assumes c: "utf8Codec enc dec" and ps: "ps \<noteq> []"
    and head: "list_all linkChar head" "CHR ''?'' \<notin> set head"
  shows "searchParams enc dec (queryOf (trim (head @ CHR ''?'' # searchString enc ps))) = ps"
    and "trim (head @ CHR ''?'' # searchString enc ps) = head @ CHR ''?'' # searchString enc ps"
proof -
  have "list_all linkChar (head @ CHR ''?'' # searchString enc ps)"
    using head searchString_chars by (auto simp: list_all_iff linkChar_def)
  then show t: "trim (head @ CHR ''?'' # searchString enc ps) = head @ CHR ''?'' # searchString enc ps"
    by (rule trim_link)
  show "searchParams enc dec (queryOf (trim (head @ CHR ''?'' # searchString enc ps))) = ps"
    using search_roundtrip [OF c ps] head(2) by (simp add: t queryOf_link)
qed

lemma normalized_not_blank: "normalizeServer newURL s = Inr href \<Longrightarrow> href \<noteq> ''''"
  by (auto simp: normalizeServer_def parseServerOrigin_def okThen_def split: option.splits if_splits sum.splits)

text \<open>The origin of a URL is again a URL, with the same scheme and host.\<close>

definition originsParse :: "(string \<Rightarrow> url option) \<Rightarrow> bool" where
  "originsParse newURL \<longleftrightarrow>
     (\<forall>s u. newURL s = Some u \<longrightarrow>
       (\<exists>u'. newURL (u_protocol u @ ''//'' @ u_host u) = Some u' \<and> u_protocol u' = u_protocol u \<and> u_host u' = u_host u))"

lemma normalizeServer_idem:
  assumes o: "originsParse newURL" and n: "normalizeServer newURL s = Inr href"
  shows "normalizeServer newURL href = Inr href"
proof -
  obtain u where u: "newURL s = Some u" and p: "u_protocol u = ''http:'' \<or> u_protocol u = ''https:''"
    and h: "href = u_protocol u @ ''//'' @ u_host u"
    using n by (auto simp: normalizeServer_def parseServerOrigin_def okThen_Inr split: option.splits if_splits)
  obtain u' where "newURL href = Some u'" "u_protocol u' = u_protocol u" "u_host u' = u_host u"
    using o u h unfolding originsParse_def by blast
  then show ?thesis
    using p h by (auto simp: normalizeServer_def parseServerOrigin_def)
qed

lemma setup_link_back:
  assumes c: "utf8Codec enc dec" and o: "originsParse newURL" and e: "encodeSetupLink newURL enc l = Inr s"
  shows "\<exists>href. normalizeServer newURL (lk_server l) = Inr href
    \<and> parseSetupLink newURL enc dec s
        = Inr (l\<lparr>lk_server := href, lk_vault := (if lk_vault l = Some '''' then None else lk_vault l)\<rparr>)"
proof -
  let ?ps = "\<lambda>href. [(''server'', href), (''user'', lk_user l)]
      @ (case lk_vault l of Some v \<Rightarrow> if v = '''' then [] else [(''vault'', v)] | None \<Rightarrow> [])"
  obtain href where h: "normalizeServer newURL (lk_server l) = Inr href" and u: "lk_user l \<noteq> ''''"
    and s: "s = ''selfsync://connect'' @ CHR ''?'' # searchString enc (?ps href)"
    using e by (auto simp: encodeSetupLink_def okThen_Inr split: if_splits)
  note q = link_params [OF c, of "?ps href" "''selfsync://connect''", folded s]
  have "searchParams enc dec (queryOf (trim s)) = ?ps href" "startsWith (trim s) ''selfsync://''"
    using q by (simp_all add: linkChar_def) (simp add: s startsWith_def)
  then have "parseSetupLink newURL enc dec s
      = Inr (l\<lparr>lk_server := href, lk_vault := (if lk_vault l = Some '''' then None else lk_vault l)\<rparr>)"
    using u normalized_not_blank [OF h] normalizeServer_idem [OF o h]
    by (cases l; cases "lk_vault l") (auto simp: parseSetupLink_def paramOr_def)
  then show ?thesis
    using h by blast
qed

lemma token_link_back:
  assumes c: "utf8Codec enc dec" and o: "originsParse newURL"
    and e: "encodeTokenLink (head @ ''?'') newURL enc l = Inr s"
    and head: "list_all linkChar head" "CHR ''?'' \<notin> set head" "startsWith head scheme"
  shows "\<exists>href. normalizeServer newURL (tl_server l) = Inr href
    \<and> parseTokenLink scheme notOne missing newURL enc dec s = Inr (l\<lparr>tl_server := href\<rparr>)
    \<and> startsWith (trim s) scheme"
proof -
  let ?ps = "\<lambda>href. [(''server'', href), (''token'', tl_token l)]"
  obtain href where h: "normalizeServer newURL (tl_server l) = Inr href" and u: "tl_token l \<noteq> ''''"
    and s: "s = head @ CHR ''?'' # searchString enc (?ps href)"
    using e by (auto simp: encodeTokenLink_def okThen_Inr split: if_splits)
  note q = link_params [OF c _ head(1,2), of "?ps href", folded s]
  have w: "startsWith (trim s) scheme"
    using q head(3) by (auto simp: s startsWith_iff)
  have "parseTokenLink scheme notOne missing newURL enc dec s = Inr (l\<lparr>tl_server := href\<rparr>)"
    using w q u normalized_not_blank [OF h] normalizeServer_idem [OF o h]
    by (cases l) (simp add: parseTokenLink_def paramOr_def)
  then show ?thesis
    using h w by blast
qed

lemma share_head: "startsWith ''selfsync-share://redeem'' ''selfsync-share://''"
  by (simp add: startsWith_def)

lemma invite_head: "startsWith ''selfsync-invite://register'' ''selfsync-invite://''"
  by (simp add: startsWith_def)

lemma token_schemes: "\<not> (startsWith s ''selfsync-share://'' \<and> startsWith s ''selfsync-invite://'')"
  by (auto simp: startsWith_iff)


text \<open>UTF-8 on the code units below 256, and a URL parser for one origin: an instance of the assumptions.\<close>

fun latinUtf8 :: "utext \<Rightarrow> bytes" where
  "latinUtf8 [] = []"
| "latinUtf8 (c # u) = (if c < 128 then c # latinUtf8 u else (192 + c div 64) # (128 + c mod 64) # latinUtf8 u)"

fun utf8Latin :: "bytes \<Rightarrow> utext" where
  "utf8Latin (b # c # bs) = (if b < 128 then b # utf8Latin (c # bs) else ((b - 192) * 64 + (c - 128)) # utf8Latin bs)"
| "utf8Latin bs = bs"

lemma utf8Latin_ascii: "b < 128 \<Longrightarrow> utf8Latin (b # bs) = b # utf8Latin bs"
  by (cases bs) simp_all

lemma latin_codec: "utf8Codec latinUtf8 utf8Latin"
proof -
  have "utf8Latin (latinUtf8 u) = u" for u
    by (induction u) (simp_all add: utf8Latin_ascii div_mult_mod_eq)
  moreover have "list_all (\<lambda>b. b < 256) (latinUtf8 (units s))" for s
  proof (induction s)
    case (Cons a s)
    have "(of_char a :: nat) div 64 < 4"
      by (rule less_mult_imp_div_less) simp
    moreover have "(of_char a :: nat) mod 64 < 64"
      by (rule mod_less_divisor) simp
    ultimately have "192 + (of_char a :: nat) div 64 < 256" "128 + (of_char a :: nat) mod 64 < 256"
      by linarith+
    then show ?case
      using Cons by (auto simp: units_def)
  qed (simp add: units_def)
  moreover have "list_all (\<lambda>c. c < 128) u \<longrightarrow> latinUtf8 u = u" for u
    by (induction u) simp_all
  ultimately show ?thesis
    by (simp add: utf8Codec_def)
qed

definition oneOrigin :: "string \<Rightarrow> url option" where
  "oneOrigin s = (if s = ''https://notes.example'' \<or> s = ''https://notes.example/''
     then Some \<lparr>u_protocol = ''https:'', u_host = ''notes.example'', u_hostname = ''notes.example''\<rparr> else None)"


text \<open>
  A grant lets its holder write only if the server lists it for this owner and vault with the permission
  \<open>readWrite\<close>; a grant that is not listed counts as revoked.
\<close>

lemma grant_fails_closed:
  assumes "resolveShareGrant grants owner vault = GrantActive False"
  shows "owner \<noteq> [] \<and> (owner, vault, ''readWrite'') \<in> set grants"
proof -
  let ?P = "\<lambda>(o1, v, _). o1 = owner \<and> v = vault"
  obtain g where o: "owner \<noteq> []" and g: "List.find ?P grants = Some g" and p: "snd (snd g) = ''readWrite''"
    using assms by (auto simp: resolveShareGrant_def split: if_splits option.splits prod.splits)
  have "g \<in> set grants" "?P g"
    using g by (auto simp: find_Some_iff) (metis nth_mem)
  then show ?thesis
    using o p by (cases g) auto
qed

end
