(* ===== verification/WireSignature.thy ===== *)
theory WireSignature
  imports Wire
begin

text \<open>
  The compatibility of the client with its server, \<open>client/src/wiresignature.ts\<close>: the directional
  comparison of the signature this build was made against with the one the server serves. The embedded
  signature, a generated file, is an argument. The reasons shown to the user are the constructors of
  \<open>delta_reason\<close>; their wording is not modelled.
\<close>

record sig_field =
  sf_name :: string
  sf_type :: string
  sf_required :: bool

record signature =
  sg_version :: jnum
  sg_api_version :: jnum
  sg_endpoints :: "string list"
  sg_types :: "(string \<times> sig_field list) list"

record schema_response =
  sr_hash :: string
  sr_signature :: signature

datatype type_role = RoleRequest | RoleResponse

definition TYPE_ROLES :: "(string \<times> type_role) list" where
  "TYPE_ROLES =
     [(''FileMeta'', RoleResponse), (''Deletion'', RoleResponse), (''ChangesResponse'', RoleResponse),
      (''LoginResponse'', RoleResponse), (''MissingResponse'', RoleResponse), (''VaultListResponse'', RoleResponse),
      (''StatusResponse'', RoleResponse), (''SharedVault'', RoleResponse), (''VaultShares'', RoleResponse),
      (''GrantView'', RoleResponse), (''LinkInfo'', RoleResponse), (''LoginRequest'', RoleRequest),
      (''ChangePasswordRequest'', RoleRequest), (''CommitRequest'', RoleRequest), (''MissingRequest'', RoleRequest),
      (''RegisterRequest'', RoleRequest), (''CreateVaultRequest'', RoleRequest)]"

definition NON_GATING_TYPES :: "string list" where
  "NON_GATING_TYPES = [''SharedVault'', ''VaultShares'', ''GrantView'', ''LinkInfo'']"

definition isNonGatingEndpoint :: "string \<Rightarrow> bool" where
  "isNonGatingEndpoint entry =
     (let parts = splitOn (CHR '' '') entry; p = (if 1 < length parts then parts ! 1 else '''') in
      startsWith p ''/api/share'' \<or> startsWith p ''/api/admin'')"

datatype older_side = OlderServer | OlderPlugin | OlderEither

datatype delta_reason =
    EpochChanged jnum jnum | EndpointGone string | TypeGone string | FieldDropped string string
  | FieldRetyped string string string string | FieldOmissible string string | FieldDemanded string string

record delta =
  dt_breaking :: bool
  dt_reason :: delta_reason
  dt_older :: "older_side option"

definition breaks :: "delta_reason \<Rightarrow> older_side option \<Rightarrow> delta" where
  "breaks r side = \<lparr>dt_breaking = True, dt_reason = r, dt_older = side\<rparr>"

definition byName :: "sig_field list \<Rightarrow> (string \<times> sig_field) list" where
  "byName flds = foldl (\<lambda>m f. AList.update (sf_name f) f m) [] flds"

fun numGreater :: "jnum \<Rightarrow> jnum \<Rightarrow> bool" where
  "numGreater (Finite a) (Finite b) = (a > b)"
| "numGreater PosInf b = (b \<noteq> PosInf)"
| "numGreater (Finite a) b = (b = NegInf)"
| "numGreater NegInf b = False"

definition epochDeltas :: "signature \<Rightarrow> signature \<Rightarrow> delta list" where
  "epochDeltas emb srv =
     (if sg_api_version emb \<noteq> sg_api_version srv
      then [breaks (EpochChanged (sg_api_version emb) (sg_api_version srv))
              (Some (if numGreater (sg_api_version srv) (sg_api_version emb) then OlderPlugin else OlderServer))]
      else [])"

definition endpointDeltas :: "signature \<Rightarrow> signature \<Rightarrow> delta list" where
  "endpointDeltas emb srv =
     concat (map (\<lambda>e.
       if isNonGatingEndpoint e then []
       else if e \<notin> set (sg_endpoints srv) then [breaks (EndpointGone e) (Some OlderServer)] else []) (sg_endpoints emb))"

definition readDelta :: "string \<Rightarrow> (string \<times> sig_field) list \<Rightarrow> string \<times> sig_field \<Rightarrow> delta list" where
  "readDelta t sMap x =
     (case x of (name, ef) \<Rightarrow>
        (case map_of sMap name of
           None \<Rightarrow> if sf_required ef then [breaks (FieldDropped t name) (Some OlderServer)] else []
         | Some sf \<Rightarrow>
             if sf_type sf \<noteq> sf_type ef then [breaks (FieldRetyped t name (sf_type ef) (sf_type sf)) None]
             else if sf_required ef \<and> \<not> sf_required sf then [breaks (FieldOmissible t name) (Some OlderPlugin)]
             else []))"

definition sentDelta :: "string \<Rightarrow> (string \<times> sig_field) list \<Rightarrow> string \<times> sig_field \<Rightarrow> delta list" where
  "sentDelta t eMap x =
     (case x of (name, sf) \<Rightarrow>
        (case map_of eMap name of
           None \<Rightarrow> if sf_required sf then [breaks (FieldDemanded t name) (Some OlderPlugin)] else []
         | Some ef \<Rightarrow>
             if sf_required sf \<and> \<not> sf_required ef then [breaks (FieldDemanded t name) (Some OlderPlugin)]
             else if sf_type sf \<noteq> sf_type ef then [breaks (FieldRetyped t name (sf_type ef) (sf_type sf)) None]
             else []))"

definition roleOf :: "string \<Rightarrow> type_role" where
  "roleOf t = (case map_of TYPE_ROLES t of Some r \<Rightarrow> r | None \<Rightarrow> RoleResponse)"

definition typeDeltas :: "signature \<Rightarrow> string \<times> sig_field list \<Rightarrow> delta list" where
  "typeDeltas srv x =
     (case x of (t, eFields) \<Rightarrow>
        if t \<in> set NON_GATING_TYPES then []
        else case map_of (sg_types srv) t of
          None \<Rightarrow> [breaks (TypeGone t) (Some OlderServer)]
        | Some sFields \<Rightarrow>
            let eMap = byName eFields; sMap = byName sFields in
            if roleOf t = RoleResponse then concat (map (readDelta t sMap) eMap)
            else concat (map (sentDelta t eMap) sMap))"

definition diffSignature :: "signature \<Rightarrow> signature \<Rightarrow> delta list" where
  "diffSignature emb srv = epochDeltas emb srv @ endpointDeltas emb srv @ concat (map (typeDeltas srv) (sg_types emb))"

datatype signature_verdict = VerdictOk | VerdictBad "delta_reason list" older_side

definition signatureVerdict :: "signature \<Rightarrow> signature \<Rightarrow> signature_verdict" where
  "signatureVerdict emb srv =
     (let breaking = filter dt_breaking (diffSignature emb srv) in
      if breaking = [] then VerdictOk
      else VerdictBad (map dt_reason breaking)
        (if list_all (\<lambda>d. dt_older d = Some OlderServer) breaking then OlderServer
         else if list_all (\<lambda>d. dt_older d = Some OlderPlugin) breaking then OlderPlugin
         else OlderEither))"

datatype hash_check = HashCompatible | HashNeedsDiff | HashFailClosed

definition hashCheck :: "string option \<Rightarrow> string option \<Rightarrow> hash_check" where
  "hashCheck serverHash verifiedHash =
     (if serverHash = None \<or> serverHash = Some '''' then HashFailClosed
      else if verifiedHash \<noteq> None \<and> serverHash = verifiedHash then HashCompatible
      else HashNeedsDiff)"

subsection \<open>Validation of the served signature\<close>

definition badSignature :: "string \<Rightarrow> err + 'a" where
  "badSignature what = Inl (newError (''malformed signature: '' @ what))"

definition validateField :: "string \<Rightarrow> jval \<Rightarrow> err + sig_field" where
  "validateField name x =
     (case (fieldOf x ''name'', fieldOf x ''type'', fieldOf x ''required'') of
        (VStr n, VStr t, VBool r) \<Rightarrow> Inr \<lparr>sf_name = ofUnits n, sf_type = ofUnits t, sf_required = r\<rparr>
      | _ \<Rightarrow> badSignature (name @ '' field entry invalid''))"

fun validateTypes :: "(string \<times> jval) list \<Rightarrow> (string \<times> sig_field list) list \<Rightarrow> err + (string \<times> sig_field list) list" where
  "validateTypes [] out = Inr out"
| "validateTypes ((name, v) # ts) out =
     (case v of
        VArr fs \<Rightarrow> okThen (okMap (validateField name) fs) (\<lambda>flds. validateTypes ts (recordSet name flds out))
      | _ \<Rightarrow> badSignature (name @ '' fields not an array''))"

definition validateSignature :: "jval \<Rightarrow> err + signature" where
  "validateSignature s =
     (if \<not> isObject s then badSignature ''not an object''
      else case fieldOf s ''version'' of
        VNum version \<Rightarrow>
          (case fieldOf s ''api_version'' of
             VNum apiVersion \<Rightarrow>
               (case stringsOf (fieldOf s ''endpoints'') of
                  None \<Rightarrow> badSignature ''endpoints not string[]''
                | Some endpoints \<Rightarrow>
                    if \<not> isObject (fieldOf s ''types'') then badSignature ''types not an object''
                    else okThen (validateTypes (entriesOf (fieldOf s ''types'')) []) (\<lambda>types.
                      Inr \<lparr>sg_version = version, sg_api_version = apiVersion, sg_endpoints = endpoints, sg_types = types\<rparr>))
           | _ \<Rightarrow> badSignature ''api_version not a number'')
      | _ \<Rightarrow> badSignature ''version not a number'')"

definition validateSchemaResponse :: "jval \<Rightarrow> err + schema_response" where
  "validateSchemaResponse r =
     (if \<not> isObject r then Inl (newError ''malformed schema response: not an object'')
      else case fieldOf r ''hash'' of
        VStr h \<Rightarrow>
          if h = [] then Inl (newError ''malformed schema response: hash not a non-empty string'')
          else okThen (validateSignature (fieldOf r ''signature'')) (\<lambda>sg. Inr \<lparr>sr_hash = ofUnits h, sr_signature = sg\<rparr>)
      | _ \<Rightarrow> Inl (newError ''malformed schema response: hash not a non-empty string''))"

subsection \<open>The verdict is exact\<close>

text \<open>
  What compatibility means, direction by direction: the client can read what the server answers, and the
  server accepts what the client sends.
\<close>

definition readable :: "sig_field list \<Rightarrow> sig_field list \<Rightarrow> bool" where
  "readable eFields sFields \<longleftrightarrow>
     (\<forall>name ef. map_of (byName eFields) name = Some ef \<longrightarrow>
        (case map_of (byName sFields) name of
           None \<Rightarrow> \<not> sf_required ef
         | Some sf \<Rightarrow> sf_type sf = sf_type ef \<and> (sf_required ef \<longrightarrow> sf_required sf)))"

definition acceptable :: "sig_field list \<Rightarrow> sig_field list \<Rightarrow> bool" where
  "acceptable eFields sFields \<longleftrightarrow>
     (\<forall>name sf. map_of (byName sFields) name = Some sf \<longrightarrow>
        (case map_of (byName eFields) name of
           None \<Rightarrow> \<not> sf_required sf
         | Some ef \<Rightarrow> sf_type sf = sf_type ef \<and> (sf_required sf \<longrightarrow> sf_required ef)))"

definition compatible :: "signature \<Rightarrow> signature \<Rightarrow> bool" where
  "compatible emb srv \<longleftrightarrow>
     sg_api_version emb = sg_api_version srv
     \<and> (\<forall>e \<in> set (sg_endpoints emb). isNonGatingEndpoint e \<or> e \<in> set (sg_endpoints srv))
     \<and> (\<forall>(t, eFields) \<in> set (sg_types emb). t \<in> set NON_GATING_TYPES \<or>
          (\<exists>sFields. map_of (sg_types srv) t = Some sFields
             \<and> (if roleOf t = RoleResponse then readable eFields sFields else acceptable eFields sFields)))"

lemma byName_distinct: "distinct (map fst (byName fs))"
proof -
  have "distinct (map fst m) \<Longrightarrow> distinct (map fst (foldl (\<lambda>m f. AList.update (sf_name f) f m) m fs))" for m
    by (induction fs arbitrary: m) (auto simp: distinct_update)
  then show ?thesis by (simp add: byName_def)
qed

lemma byName_all: "(\<forall>x \<in> set (byName fs). P x) \<longleftrightarrow> (\<forall>name f. map_of (byName fs) name = Some f \<longrightarrow> P (name, f))"
  using byName_distinct [of fs] by (auto simp: map_of_eq_Some_iff)

lemma readDelta_Nil:
  "readDelta t sMap (name, ef) = [] \<longleftrightarrow>
     (case map_of sMap name of
        None \<Rightarrow> \<not> sf_required ef
      | Some sf \<Rightarrow> sf_type sf = sf_type ef \<and> (sf_required ef \<longrightarrow> sf_required sf))"
  by (auto simp: readDelta_def split: option.splits)

lemma sentDelta_Nil:
  "sentDelta t eMap (name, sf) = [] \<longleftrightarrow>
     (case map_of eMap name of
        None \<Rightarrow> \<not> sf_required sf
      | Some ef \<Rightarrow> sf_type sf = sf_type ef \<and> (sf_required sf \<longrightarrow> sf_required ef))"
  by (auto simp: sentDelta_def split: option.splits)

lemma typeDeltas_Nil:
  "typeDeltas srv (t, eFields) = [] \<longleftrightarrow>
     t \<in> set NON_GATING_TYPES \<or>
     (\<exists>sFields. map_of (sg_types srv) t = Some sFields
        \<and> (if roleOf t = RoleResponse then readable eFields sFields else acceptable eFields sFields))"
proof (cases "map_of (sg_types srv) t")
  case (Some sFields)
  have "concat (map (readDelta t (byName sFields)) (byName eFields)) = [] \<longleftrightarrow> readable eFields sFields"
    by (simp add: byName_all readDelta_Nil readable_def)
  moreover have "concat (map (sentDelta t (byName eFields)) (byName sFields)) = [] \<longleftrightarrow> acceptable eFields sFields"
    by (simp add: byName_all sentDelta_Nil acceptable_def)
  ultimately show ?thesis using Some by (simp add: typeDeltas_def Let_def)
qed (simp add: typeDeltas_def)

lemma breaks_breaking [simp]: "dt_breaking (breaks r side)"
  by (simp add: breaks_def)

lemma deltas_breaking:
  "list_all dt_breaking (epochDeltas emb srv)" "list_all dt_breaking (endpointDeltas emb srv)"
  "list_all dt_breaking (readDelta t m x)" "list_all dt_breaking (sentDelta t m x)"
  by (auto simp: epochDeltas_def endpointDeltas_def list_all_iff)
    (auto simp: readDelta_def sentDelta_def split: prod.splits option.splits if_splits)

lemma typeDeltas_breaking: "list_all dt_breaking (typeDeltas srv x)"
  using deltas_breaking(3,4) by (auto simp: typeDeltas_def list_all_iff Let_def split: prod.splits option.splits if_splits)

lemma all_breaking: "d \<in> set (diffSignature emb srv) \<Longrightarrow> dt_breaking d"
  using deltas_breaking(1,2) [of emb srv] typeDeltas_breaking [of srv] by (auto simp: diffSignature_def list_all_iff)

lemma diffSignature_Nil: "diffSignature emb srv = [] \<longleftrightarrow> compatible emb srv"
proof -
  have "endpointDeltas emb srv = [] \<longleftrightarrow> (\<forall>e \<in> set (sg_endpoints emb). isNonGatingEndpoint e \<or> e \<in> set (sg_endpoints srv))"
    by (auto simp: endpointDeltas_def)
  moreover have "epochDeltas emb srv = [] \<longleftrightarrow> sg_api_version emb = sg_api_version srv" by (simp add: epochDeltas_def)
  moreover have "concat (map (typeDeltas srv) (sg_types emb)) = [] \<longleftrightarrow>
      (\<forall>(t, eFields) \<in> set (sg_types emb). typeDeltas srv (t, eFields) = [])" by auto
  ultimately show ?thesis by (simp add: diffSignature_def compatible_def typeDeltas_Nil)
qed

text \<open>
  The connection gate is exact: the server is accepted if and only if it is compatible, that is, it keeps
  the epoch and the endpoints the client needs, answers every field the client requires with its type, and
  demands no field that the client does not always send; and a build always accepts the very signature it
  was made against.
\<close>
theorem signature_verdict_exact:
  "(signatureVerdict emb srv = VerdictOk \<longleftrightarrow> compatible emb srv)
   \<and> signatureVerdict (emb\<lparr>sg_types := AList.clearjunk (sg_types emb)\<rparr>) (emb\<lparr>sg_types := AList.clearjunk (sg_types emb)\<rparr>) = VerdictOk"
proof -
  have verdict: "signatureVerdict e s = VerdictOk \<longleftrightarrow> compatible e s" for e s
    using all_breaking [of _ e s] diffSignature_Nil [of e s]
    by (auto simp: signatureVerdict_def Let_def filter_empty_conv)
  let ?s = "emb\<lparr>sg_types := AList.clearjunk (sg_types emb)\<rparr>"
  have "compatible ?s ?s"
    by (auto simp: compatible_def readable_def acceptable_def map_of_eq_Some_iff distinct_clearjunk)
  then show ?thesis using verdict by blast
qed

text \<open>An absent signature is never trusted.\<close>

lemma hashCheck_compatible: "hashCheck h v = HashCompatible \<longleftrightarrow> v = h \<and> h \<noteq> None \<and> h \<noteq> Some ''''"
  by (auto simp: hashCheck_def)

end
