(* ===== verification/Transport.thy ===== *)
theory Transport
  imports Links WireSignature ConnState
begin

text \<open>
  The HTTP transport, \<open>client/src/transport.ts\<close>: every request through the guarded \<open>httpReq\<close>, the typed
  errors, the calls on the account and the vault-scoped calls that the reconciliation sees as its
  \<^typ>\<open>'w sync_api\<close>. The host's \<open>requestUrl\<close> is a parameter: a call changes the world and is answered, is
  rejected, or stalls until the timeout wins the race. A body is the value that \<open>JSON.stringify\<close> is given, or
  bytes. The seconds of a \<open>Retry-After\<close> header are a decimal integer, as the header is specified; another
  spelling counts as absent. With \<open>throw: false\<close> an answer is returned whatever its status; the content type is among the headers.
\<close>

subsection \<open>Requests and answers\<close>

datatype http_body = JsonBody jval | BytesBody bytes

record http_request =
  rq_url :: string
  rq_method :: string
  rq_headers :: "(string \<times> string) list"
  rq_body :: "http_body option"

record http_response =
  rs_status :: nat
  rs_headers :: "(string \<times> string) list"
  rs_text :: "string option"
  rs_json :: "jval option"  \<comment> \<open>\<^const>\<open>None\<close>: the getter throws\<close>
  rs_arrayBuffer :: bytes

datatype net_outcome = Rejected string | Stalled | Answered http_response

record 'w net =
  n_URL :: "string \<Rightarrow> url option"
  n_enc :: "utext \<Rightarrow> bytes"
  n_requestUrl :: "http_request \<Rightarrow> 'w \<Rightarrow> net_outcome \<times> 'w"

text \<open>What a call throws: an error the reconciliation knows, or a \<open>ConnError\<close> with its typed fields.\<close>

datatype http_error = PlainErr err | ConnErr string conn_error_info

type_synonym ('w, 'a) http = "'w \<Rightarrow> (http_error + 'a) \<times> 'w"

definition failH :: "string \<Rightarrow> ('w, 'a) http" where
  "failH m = (\<lambda>w. (Inl (PlainErr (newError m)), w))"

definition retH :: "'a \<Rightarrow> ('w, 'a) http" where
  "retH x = (\<lambda>w. (Inr x, w))"

definition thenH :: "('w, 'a) http \<Rightarrow> ('a \<Rightarrow> ('w, 'b) http) \<Rightarrow> ('w, 'b) http" where
  "thenH m f = (\<lambda>w. case m w of (Inl e, w1) \<Rightarrow> (Inl e, w1) | (Inr x, w1) \<Rightarrow> f x w1)"

text \<open>A validator inside a call: what it throws, the call throws.\<close>

definition checkH :: "err + 'a \<Rightarrow> ('w, 'a) http" where
  "checkH r = (\<lambda>w. (case r of Inl e \<Rightarrow> Inl (PlainErr e) | Inr x \<Rightarrow> Inr x, w))"

definition httpReq :: "'w net \<Rightarrow> http_request \<Rightarrow> ('w, http_response) http" where
  "httpReq net q = (\<lambda>w.
     if isInsecureRemote (n_URL net) (rq_url q) then
       failH ''Refusing to send a request over an unencrypted http:// connection to a remote server - use an https:// address.'' w
     else case n_requestUrl net q w of
       (Answered r, w1) \<Rightarrow> (Inr r, w1)
     | (Rejected m, w1) \<Rightarrow> (Inl (PlainErr (newError m)), w1)
     | (Stalled, w1) \<Rightarrow> (Inl (PlainErr (newError ''request timed out (no response) - treating as offline'')), w1))"

definition textOf :: "http_response \<Rightarrow> string" where
  "textOf r = trim (case rs_text r of None \<Rightarrow> '''' | Some t \<Rightarrow> t)"

definition errText :: "http_response \<Rightarrow> string \<Rightarrow> string" where
  "errText r fallback = (let t = textOf r in if t \<noteq> '''' \<and> length t \<le> 300 then t else fallback)"

definition tryJson :: "http_response \<Rightarrow> jval" where
  "tryJson r = (case rs_json r of None \<Rightarrow> VUndef | Some v \<Rightarrow> v)"

text \<open>The getter itself: it throws on a body that is no JSON text.\<close>

definition jsonGetter :: "http_response \<Rightarrow> err + jval" where
  "jsonGetter r = (case rs_json r of None \<Rightarrow> Inl (newError ''Unexpected token in JSON'') | Some v \<Rightarrow> Inr v)"

definition decimalOf :: "string \<Rightarrow> int option" where
  "decimalOf s =
     (let t = trim s in
      if t \<noteq> [] \<and> list_all isDigit t then Some (foldl (\<lambda>n c. 10 * n + (of_char c - 48)) 0 t) else None)"

definition retryAfter :: "http_response \<Rightarrow> int option" where
  "retryAfter r =
     (let v = (case map_of (rs_headers r) ''retry-after'' of
                 Some s \<Rightarrow> Some s | None \<Rightarrow> map_of (rs_headers r) ''Retry-After'')
      in case Option.bind v decimalOf of None \<Rightarrow> None | Some n \<Rightarrow> if 0 < n then Some n else None)"

definition statusLabel :: "string \<Rightarrow> http_response \<Rightarrow> string" where
  "statusLabel label r = label @ '': HTTP '' @ natStr (rs_status r)"

definition httpFail :: "http_response \<Rightarrow> endpoint \<Rightarrow> bool \<Rightarrow> string \<Rightarrow> http_error" where
  "httpFail r ep login label =
     ConnErr (errText r (statusLabel label r))
       \<lparr>status = Some (int (rs_status r)),
        retryAfterSecs = (if rs_status r = 429 then retryAfter r else None),
        wasLogin = login, endpoint = ep, synthetic = None,
        bodyHint = (let h = take 300 (textOf r) in if h = '''' then None else Some h),
        hasStoredPassword = False\<rparr>"

definition bearer :: "string \<Rightarrow> (string \<times> string) list" where
  "bearer token = [(''authorization'', ''Bearer '' @ token)]"

definition normBase :: "string \<Rightarrow> string" where
  "normBase u = trimEndBy (\<lambda>c. c = CHR ''/'') u"

definition apiJson :: "'w net \<Rightarrow> http_request \<Rightarrow> string \<Rightarrow> endpoint \<Rightarrow> bool \<Rightarrow> ('w, jval) http" where
  "apiJson net q label ep login =
     thenH (httpReq net q) (\<lambda>r.
       if rs_status r \<noteq> 200 then (\<lambda>w. (Inl (httpFail r ep login label), w)) else retH (tryJson r))"

definition apiVoid :: "'w net \<Rightarrow> http_request \<Rightarrow> string \<Rightarrow> ('w, unit) http" where
  "apiVoid net q label =
     thenH (httpReq net q) (\<lambda>r.
       if rs_status r \<noteq> 200 then (\<lambda>w. (Inl (httpFail r OtherEp False label), w)) else retH ())"

definition getReq :: "string \<Rightarrow> (string \<times> string) list \<Rightarrow> http_request" where
  "getReq u hs = \<lparr>rq_url = u, rq_method = ''GET'', rq_headers = hs, rq_body = None\<rparr>"

definition jsonReq :: "string \<Rightarrow> string \<Rightarrow> (string \<times> string) list \<Rightarrow> (string \<times> jval) list \<Rightarrow> http_request" where
  "jsonReq meth u hs fs =
     \<lparr>rq_url = u, rq_method = meth, rq_headers = hs @ [(''content-type'', ''application/json'')],
      rq_body = Some (JsonBody (VObj fs))\<rparr>"

definition jstr :: "string \<Rightarrow> jval" where
  "jstr s = VStr (units s)"

text \<open>Reading a property of a value: of the absent value and of null it throws.\<close>

definition propOf :: "jval \<Rightarrow> string \<Rightarrow> err + jval" where
  "propOf v k =
     (if v = VUndef \<or> v = VNull then Inl (newError (''Cannot read properties of undefined (reading '' @ k @ '')''))
      else Inr (fieldOf v k))"

fun truthy :: "jval \<Rightarrow> bool" where
  "truthy VUndef = False"
| "truthy VNull = False"
| "truthy (VBool b) = b"
| "truthy (VNum n) = (n \<noteq> Finite 0)"
| "truthy (VStr u) = (u \<noteq> [])"
| "truthy _ = True"

definition compSafe :: "nat \<Rightarrow> bool" where
  "compSafe b \<longleftrightarrow> formSafe b \<or> b = 33 \<or> b = 126 \<or> b = 39 \<or> b = 40 \<or> b = 41"

definition compByte :: "nat \<Rightarrow> nat list" where
  "compByte b = (if compSafe b then [b] else [37, hexUpper (b div 16 mod 16), hexUpper (b mod 16)])"

definition encodeURIComponent :: "(utext \<Rightarrow> bytes) \<Rightarrow> string \<Rightarrow> string" where
  "encodeURIComponent enc s = ofUnits (concat (map compByte (enc (units s))))"

subsection \<open>The account\<close>

definition accountUrl :: "string \<Rightarrow> string \<Rightarrow> string" where
  "accountUrl baseUrl p = normBase baseUrl @ p"

text \<open>\<open>testConnection\<close> and \<open>fetchBanner\<close> answer whatever happens; the others may throw.\<close>

definition testConnection :: "'w net \<Rightarrow> string \<Rightarrow> 'w \<Rightarrow> bool \<times> 'w" where
  "testConnection net baseUrl w =
     (case httpReq net (getReq (accountUrl baseUrl ''/health'') []) w of
        (Inr r, w1) \<Rightarrow> (rs_status r = 200, w1)
      | (Inl _, w1) \<Rightarrow> (False, w1))"

definition fetchBanner :: "'w net \<Rightarrow> string \<Rightarrow> 'w \<Rightarrow> string \<times> 'w" where
  "fetchBanner net baseUrl w =
     (case httpReq net (getReq (accountUrl baseUrl ''/health'') []) w of
        (Inr r, w1) \<Rightarrow> (strOr '''' (fieldOf (tryJson r) ''banner''), w1)
      | (Inl _, w1) \<Rightarrow> ('''', w1))"

definition refuseCleartext :: "'w net \<Rightarrow> string \<Rightarrow> string \<Rightarrow> ('w, 'a) http \<Rightarrow> ('w, 'a) http" where
  "refuseCleartext net baseUrl message m = (if isInsecureRemote (n_URL net) baseUrl then failH message else m)"

definition login :: "'w net \<Rightarrow> string \<Rightarrow> string \<Rightarrow> string \<Rightarrow> ('w, jval \<times> bool) http" where
  "login net baseUrl username password =
     refuseCleartext net baseUrl
       ''Refusing to send your password over an unencrypted http:// connection to a remote server - anyone on the network could read it. Use an https:// address (put the server behind a TLS reverse proxy).''
       (thenH (apiJson net (jsonReq ''POST'' (accountUrl baseUrl ''/api/login'') []
                  [(''username'', jstr username), (''password'', jstr password)]) ''login'' Login True) (\<lambda>j.
        thenH (checkH (propOf j ''token'')) (\<lambda>token.
        retH (token, truthy (fieldOf j ''must_change_password'')))))"

definition register :: "'w net \<Rightarrow> string \<Rightarrow> string \<Rightarrow> string \<Rightarrow> string \<Rightarrow> ('w, unit) http" where
  "register net baseUrl username password invite =
     refuseCleartext net baseUrl
       ''Refusing to send a new password over an unencrypted http:// connection to a remote server. Use an https:// address.''
       (apiVoid net (jsonReq ''POST'' (accountUrl baseUrl ''/api/register'') []
          [(''username'', jstr username), (''password'', jstr password), (''invite'', jstr invite)]) ''register'')"

definition listVaults :: "'w net \<Rightarrow> string \<Rightarrow> string \<Rightarrow> ('w, jval) http" where
  "listVaults net baseUrl token =
     thenH (apiJson net (getReq (accountUrl baseUrl ''/api/vaults'') (bearer token)) ''vaults'' OtherEp False) (\<lambda>j.
     checkH (propOf j ''vaults''))"

definition createVault :: "'w net \<Rightarrow> string \<Rightarrow> string \<Rightarrow> string \<Rightarrow> ('w, unit) http" where
  "createVault net baseUrl token name =
     apiVoid net (jsonReq ''POST'' (accountUrl baseUrl ''/api/vaults'') (bearer token) [(''name'', jstr name)]) ''create vault''"

definition listShared :: "'w net \<Rightarrow> string \<Rightarrow> string \<Rightarrow> ('w, shared_vault_ref list) http" where
  "listShared net baseUrl token =
     thenH (apiJson net (getReq (accountUrl baseUrl ''/api/shared'') (bearer token)) ''shared'' OtherEp False) (\<lambda>j.
     checkH (validateSharedVaults j))"

definition leaveShare :: "'w net \<Rightarrow> string \<Rightarrow> string \<Rightarrow> string \<Rightarrow> string \<Rightarrow> ('w, unit) http" where
  "leaveShare net baseUrl token owner vault =
     apiVoid net (jsonReq ''DELETE'' (accountUrl baseUrl ''/api/shared'') (bearer token)
       [(''owner'', jstr owner), (''vault'', jstr vault)]) ''leave share''"

definition changePassword :: "'w net \<Rightarrow> string \<Rightarrow> string \<Rightarrow> string \<Rightarrow> string \<Rightarrow> ('w, jval) http" where
  "changePassword net baseUrl token current newPassword =
     thenH (httpReq net (jsonReq ''POST'' (accountUrl baseUrl ''/api/password'') (bearer token)
       [(''current'', jstr current), (''new_password'', jstr newPassword)])) (\<lambda>r.
     if rs_status r = 401 then failH ''current password is incorrect''
     else if rs_status r \<noteq> 200 then failH (errText r (statusLabel ''change password'' r))
     else checkH (propOf (tryJson r) ''token''))"

definition myVaults :: "'w net \<Rightarrow> string \<Rightarrow> string \<Rightarrow> ('w, vault_shares list) http" where
  "myVaults net baseUrl token =
     thenH (apiJson net (getReq (accountUrl baseUrl ''/api/admin/vaults'') (bearer token)) ''my vaults'' OtherEp False) (\<lambda>j.
     checkH (validateVaultShares j))"

definition shareDelete :: "'w net \<Rightarrow> string \<Rightarrow> string \<Rightarrow> string \<Rightarrow> string \<Rightarrow> ('w, unit) http" where
  "shareDelete net baseUrl token vault grantee =
     apiVoid net (jsonReq ''DELETE'' (accountUrl baseUrl ''/api/admin/shares'') (bearer token)
       [(''vault'', jstr vault), (''grantee'', jstr grantee)]) ''unshare''"

definition permStr :: "share_perm \<Rightarrow> string" where
  "permStr p = (case p of PermRead \<Rightarrow> ''read'' | PermReadWrite \<Rightarrow> ''readWrite'')"

definition createShareLink ::
  "'w net \<Rightarrow> string \<Rightarrow> string \<Rightarrow> string \<Rightarrow> share_perm \<Rightarrow> string \<Rightarrow> nat option \<Rightarrow> ('w, jval) http" where
  "createShareLink net baseUrl token vault perm label ttlSecs =
     thenH (apiJson net (jsonReq ''POST'' (accountUrl baseUrl ''/api/share-links'') (bearer token)
       [(''vault'', jstr vault), (''perm'', jstr (permStr perm)), (''label'', jstr label),
        (''ttl_secs'', case ttlSecs of None \<Rightarrow> VNull | Some n \<Rightarrow> VNum (Finite (of_nat n)))]) ''share link'' OtherEp False) (\<lambda>j.
     checkH (propOf j ''token''))"

definition listShareLinks :: "'w net \<Rightarrow> string \<Rightarrow> string \<Rightarrow> ('w, share_link_info list) http" where
  "listShareLinks net baseUrl token =
     thenH (apiJson net (getReq (accountUrl baseUrl ''/api/share-links'') (bearer token)) ''share links'' OtherEp False) (\<lambda>j.
     checkH (validateShareLinks j))"

definition revokeShareLink :: "'w net \<Rightarrow> string \<Rightarrow> string \<Rightarrow> string \<Rightarrow> ('w, unit) http" where
  "revokeShareLink net baseUrl token lid =
     apiVoid net ((getReq (accountUrl baseUrl (''/api/share-links/'' @ encodeURIComponent (n_enc net) lid)) (bearer token))
       \<lparr>rq_method := ''DELETE''\<rparr>) ''revoke share link''"

definition redeemShareLink :: "'w net \<Rightarrow> string \<Rightarrow> string \<Rightarrow> string \<Rightarrow> ('w, shared_vault_ref) http" where
  "redeemShareLink net baseUrl token linkToken =
     thenH (apiJson net (jsonReq ''POST'' (accountUrl baseUrl ''/api/share-redeem'') (bearer token)
       [(''token'', jstr linkToken)]) ''redeem'' OtherEp False) (\<lambda>j.
     checkH (validateRedeemedVault j))"

definition redeemRegister :: "'w net \<Rightarrow> string \<Rightarrow> string \<Rightarrow> string \<Rightarrow> string \<Rightarrow> ('w, shared_vault_ref \<times> string) http" where
  "redeemRegister net baseUrl linkToken username password =
     refuseCleartext net baseUrl
       ''Refusing to send a new password over an unencrypted http:// connection to a remote server. Use an https:// address.''
       (thenH (apiJson net (jsonReq ''POST'' (accountUrl baseUrl ''/api/share-redeem-register'') []
          [(''token'', jstr linkToken), (''username'', jstr username), (''password'', jstr password)]) ''redeem & register'' OtherEp False) (\<lambda>j.
        checkH (validateRedeemedRegister j)))"

subsection \<open>The vault\<close>

record transport =
  t_baseUrl :: string
  t_token :: string
  t_vault :: string
  t_owner :: string
  t_deviceId :: string
  t_deviceName :: string

definition newTransport :: "'w net \<Rightarrow> transport \<Rightarrow> err + transport" where
  "newTransport net t =
     (if isInsecureRemote (n_URL net) (t_baseUrl t) then
        Inl (newError ''Refusing to sync over an unencrypted http:// connection to a remote server - use an https:// address.'')
      else Inr (t\<lparr>t_baseUrl := normBase (t_baseUrl t)\<rparr>))"

definition vUrl :: "'w net \<Rightarrow> transport \<Rightarrow> string \<Rightarrow> string" where
  "vUrl net t tail =
     t_baseUrl t
     @ (if t_owner t \<noteq> ''''
        then ''/api/u/'' @ encodeURIComponent (n_enc net) (t_owner t) @ ''/'' @ encodeURIComponent (n_enc net) (t_vault t)
        else ''/api/v/'' @ encodeURIComponent (n_enc net) (t_vault t))
     @ tail"

definition vGet :: "'w net \<Rightarrow> transport \<Rightarrow> string \<Rightarrow> http_request" where
  "vGet net t tail = getReq (vUrl net t tail) (bearer (t_token t))"

definition tr_status :: "'w net \<Rightarrow> transport \<Rightarrow> ('w, status_response) http" where
  "tr_status net t = thenH (apiJson net (vGet net t ''/status'') ''status'' VaultStatus False) (\<lambda>j. checkH (validateStatus j))"

definition tr_schema :: "'w net \<Rightarrow> transport \<Rightarrow> ('w, schema_response) http" where
  "tr_schema net t =
     thenH (apiJson net (getReq (t_baseUrl t @ ''/schema'') []) ''schema'' OtherEp False) (\<lambda>j. checkH (validateSchemaResponse j))"

definition intStr :: "int \<Rightarrow> string" where
  "intStr n = (if n < 0 then ''-'' @ natStr (nat (- n)) else natStr (nat n))"

definition tr_changes :: "'w net \<Rightarrow> transport \<Rightarrow> int \<Rightarrow> ('w, changes_response) http" where
  "tr_changes net t version =
     thenH (apiJson net (vGet net t (''/changes?since='' @ intStr version)) ''changes'' OtherEp False) (\<lambda>j.
     checkH (validateChanges j))"

definition tr_fileMeta :: "'w net \<Rightarrow> transport \<Rightarrow> path \<Rightarrow> ('w, file_meta option) http" where
  "tr_fileMeta net t p =
     thenH (httpReq net (vGet net t (''/meta?path='' @ encodeURIComponent (n_enc net) p))) (\<lambda>r.
     if rs_status r = 404 then retH None
     else if rs_status r \<noteq> 200 then failH (errText r (statusLabel ''meta'' r))
     else checkH (okThen (jsonGetter r) (\<lambda>j. okThen (validateFileMeta j) (\<lambda>m. Inr (Some m)))))"

definition tr_missing :: "'w net \<Rightarrow> transport \<Rightarrow> hash list \<Rightarrow> ('w, hash list) http" where
  "tr_missing net t hashes =
     thenH (apiJson net (jsonReq ''POST'' (vUrl net t ''/chunks/missing'') (bearer (t_token t))
       [(''hashes'', VArr (map jstr hashes))]) ''missing'' OtherEp False) (\<lambda>j.
     checkH (okThen (propOf j ''missing'') (\<lambda>m.
       case stringsOf m of None \<Rightarrow> Inl (newError ''missing: malformed response'') | Some hs \<Rightarrow> Inr hs)))"

definition tr_getChunk :: "'w net \<Rightarrow> transport \<Rightarrow> hash \<Rightarrow> ('w, bytes) http" where
  "tr_getChunk net t h =
     thenH (httpReq net (vGet net t (''/chunk/'' @ h))) (\<lambda>r.
     if rs_status r \<noteq> 200 then failH (errText r (statusLabel ''getChunk'' r)) else retH (rs_arrayBuffer r))"

definition tr_putChunk :: "'w net \<Rightarrow> transport \<Rightarrow> hash \<Rightarrow> bytes \<Rightarrow> ('w, unit) http" where
  "tr_putChunk net t h b =
     thenH (httpReq net ((vGet net t (''/chunk/'' @ h))\<lparr>rq_method := ''PUT'', rq_body := Some (BytesBody b)\<rparr>)) (\<lambda>r.
     if rs_status r \<noteq> 200 then failH (errText r (statusLabel ''putChunk'' r)) else retH ())"

definition commitBody :: "transport \<Rightarrow> commit_request \<Rightarrow> (string \<times> jval) list" where
  "commitBody t q =
     [(''path'', jstr (cq_path q)), (''hash'', jstr (cq_hash q)), (''size'', VNum (Finite (of_nat (cq_size q)))),
      (''mtime'', VNum (Finite (of_nat (cq_mtime q)))), (''chunks'', VArr (map jstr (cq_chunks q)))]
     @ (case cq_expectedVersion q of None \<Rightarrow> [] | Some v \<Rightarrow> [(''expected_version'', VNum (Finite (of_int v)))])
     @ (if t_deviceId t = '''' then [] else [(''device_id'', jstr (t_deviceId t))])
     @ (if t_deviceName t = '''' then [] else [(''device_name'', jstr (t_deviceName t))])"

definition quoted :: "string \<Rightarrow> string" where
  "quoted s = [CHR 0x27] @ s @ [CHR 0x27]"

definition throwH :: "err_kind \<Rightarrow> string \<Rightarrow> ('w, 'a) http" where
  "throwH k m = (\<lambda>w. (Inl (PlainErr \<lparr>e_kind = k, e_msg = m\<rparr>), w))"

definition tr_commit :: "'w net \<Rightarrow> transport \<Rightarrow> commit_request \<Rightarrow> ('w, file_meta) http" where
  "tr_commit net t q =
     thenH (httpReq net (jsonReq ''POST'' (vUrl net t ''/commit'') (bearer (t_token t)) (commitBody t q))) (\<lambda>r.
     if rs_status r = 409 then
       throwH CommitConflictError (''commit conflict on '' @ quoted (cq_path q) @ '' (server version advanced)'')
     else if rs_status r = 404 then
       throwH CommitConflictError (''commit for '' @ quoted (cq_path q) @ '' referenced a missing chunk (will re-upload)'')
     else if 400 \<le> rs_status r \<and> rs_status r < 500 then throwH CommitRejectedError (errText r (statusLabel ''commit'' r))
     else if rs_status r \<noteq> 200 then failH (errText r (statusLabel ''commit'' r))
     else checkH (okThen (jsonGetter r) validateFileMeta))"

definition deleteSuffix :: "'w net \<Rightarrow> transport \<Rightarrow> path \<Rightarrow> int option \<Rightarrow> string" where
  "deleteSuffix net t p expectedVersion =
     ''/file?path='' @ encodeURIComponent (n_enc net) p
     @ (case expectedVersion of None \<Rightarrow> '''' | Some v \<Rightarrow> ''&expected_version='' @ intStr v)
     @ (if t_deviceId t = '''' then '''' else ''&device_id='' @ encodeURIComponent (n_enc net) (t_deviceId t))
     @ (if t_deviceName t = '''' then '''' else ''&device_name='' @ encodeURIComponent (n_enc net) (t_deviceName t))"

definition tr_deleteFile :: "'w net \<Rightarrow> transport \<Rightarrow> path \<Rightarrow> int option \<Rightarrow> ('w, unit) http" where
  "tr_deleteFile net t p expectedVersion =
     thenH (httpReq net ((vGet net t (deleteSuffix net t p expectedVersion))\<lparr>rq_method := ''DELETE''\<rparr>)) (\<lambda>r.
     if rs_status r = 409 then throwH CommitConflictError (''delete conflict on '' @ quoted p @ '' (server version advanced)'')
     else if rs_status r \<noteq> 200 \<and> rs_status r \<noteq> 404 then failH (errText r (statusLabel ''deleteFile'' r))
     else retH ())"

text \<open>
  What the reconciliation sees: a \<open>ConnError\<close> is an error of its message. \<open>connectWs\<close> opens the web socket at
  \<open>wsUrl\<close> with the protocols \<open>wsProtocols\<close>; a message it passes on is one whose text parses to an object of
  type \<open>changed\<close>.
\<close>

fun asErr :: "http_error \<Rightarrow> err" where
  "asErr (PlainErr e) = e"
| "asErr (ConnErr m info) = \<lparr>e_kind = ConnError info, e_msg = m\<rparr>"

definition lower :: "('w, 'a) http \<Rightarrow> ('w, 'a) outside" where
  "lower m = (\<lambda>w. case m w of (Inl e, w1) \<Rightarrow> (Inl (asErr e), w1) | (Inr x, w1) \<Rightarrow> (Inr x, w1))"

definition httpTransport :: "'w net \<Rightarrow> transport \<Rightarrow> 'w sync_api" where
  "httpTransport net t =
     \<lparr>api_changes = (\<lambda>v. lower (tr_changes net t v)),
      api_fileMeta = (\<lambda>p. lower (tr_fileMeta net t p)),
      api_missing = (\<lambda>hs. lower (tr_missing net t hs)),
      api_getChunk = (\<lambda>h. lower (tr_getChunk net t h)),
      api_putChunk = (\<lambda>h b. lower (tr_putChunk net t h b)),
      api_commit = (\<lambda>q. lower (tr_commit net t q)),
      api_deleteFile = (\<lambda>p v. lower (tr_deleteFile net t p v))\<rparr>"

definition wsUrl :: "'w net \<Rightarrow> transport \<Rightarrow> string" where
  "wsUrl net t =
     (if startsWith (t_baseUrl t) ''http'' then ''ws'' @ drop 4 (t_baseUrl t) else t_baseUrl t)
     @ ''/api/ws?vault='' @ encodeURIComponent (n_enc net) (t_vault t)
     @ (if t_owner t = '''' then '''' else ''&owner='' @ encodeURIComponent (n_enc net) (t_owner t))"

definition wsProtocols :: "transport \<Rightarrow> string list" where
  "wsProtocols t = [''selfsync.v1'', ''auth.'' @ t_token t]"

definition wsChanged :: "jval option \<Rightarrow> bool" where
  "wsChanged data = (case data of None \<Rightarrow> False | Some v \<Rightarrow> fieldOf v ''type'' = VStr (units ''changed''))"

definition connectWs :: "'w net \<Rightarrow> (string \<Rightarrow> string list \<Rightarrow> 's option) \<Rightarrow> transport \<Rightarrow> 's option" where
  "connectWs net newWebSocket t = newWebSocket (wsUrl net t) (wsProtocols t)"

subsection \<open>Nothing travels in the clear\<close>

lemma httpReq_secure:
  assumes "n_URL net = n_URL net'"
    and "\<And>q. \<not> isInsecureRemote (n_URL net) (rq_url q) \<Longrightarrow> n_requestUrl net q = n_requestUrl net' q"
  shows "httpReq net = httpReq net'"
  using assms(2) unfolding httpReq_def assms(1) [symmetric] by (intro ext) simp

lemmas account_defs = testConnection_def fetchBanner_def login_def register_def listVaults_def createVault_def listShared_def
  leaveShare_def changePassword_def myVaults_def shareDelete_def createShareLink_def listShareLinks_def revokeShareLink_def
  redeemShareLink_def redeemRegister_def refuseCleartext_def apiJson_def apiVoid_def

lemmas vault_defs = tr_status_def tr_schema_def tr_changes_def tr_fileMeta_def tr_missing_def tr_getChunk_def tr_putChunk_def
  tr_commit_def tr_deleteFile_def vGet_def vUrl_def deleteSuffix_def apiJson_def apiVoid_def

text \<open>
  (C37) No call of the transport sends a request over plain \<open>http\<close> to a host other than this machine: two networks
  that agree on all other requests cannot be told apart by any call on the account or on a vault, whatever the
  address the user or the settings give.
\<close>

theorem transport_never_cleartext:
  assumes url: "n_URL net = n_URL net'" and enc: "n_enc net = n_enc net'"
    and secure: "\<And>q. \<not> isInsecureRemote (n_URL net) (rq_url q) \<Longrightarrow> n_requestUrl net q = n_requestUrl net' q"
  shows "httpTransport net t = httpTransport net' t \<and> tr_status net t = tr_status net' t \<and> tr_schema net t = tr_schema net' t
    \<and> testConnection net = testConnection net' \<and> fetchBanner net = fetchBanner net'
    \<and> login net = login net' \<and> register net = register net' \<and> listVaults net = listVaults net'
    \<and> createVault net = createVault net' \<and> listShared net = listShared net' \<and> leaveShare net = leaveShare net'
    \<and> changePassword net = changePassword net' \<and> myVaults net = myVaults net' \<and> shareDelete net = shareDelete net'
    \<and> createShareLink net = createShareLink net' \<and> listShareLinks net = listShareLinks net'
    \<and> revokeShareLink net = revokeShareLink net' \<and> redeemShareLink net = redeemShareLink net'
    \<and> redeemRegister net = redeemRegister net'"
proof -
  have "httpReq net = httpReq net'"
    by (rule httpReq_secure [OF url]) (rule secure)
  then show ?thesis
    by (intro conjI ext) (simp_all only: httpTransport_def account_defs vault_defs url enc)
qed

definition silentNet :: "unit net" where
  "silentNet = \<lparr>n_URL = (\<lambda>s. Some \<lparr>u_protocol = ''http:'', u_host = ''h'', u_hostname = ''h''\<rparr>), n_enc = id,
     n_requestUrl = (\<lambda>q w. (Stalled, w))\<rparr>"

theorem transport_never_cleartext_witness:
  "login silentNet = login (silentNet\<lparr>n_requestUrl := (\<lambda>q w. (Rejected (rq_url q), w))\<rparr>)"
  using transport_never_cleartext [of silentNet "silentNet\<lparr>n_requestUrl := (\<lambda>q w. (Rejected (rq_url q), w))\<rparr>"]
  by (simp add: silentNet_def isInsecureRemote_def urlIsInsecureRemote_def toLowerCase_def lowerChar_def endsWith_def)

subsection \<open>Requests reach the vault and the file they name\<close>

lemma compSafe_range: "compSafe c \<Longrightarrow> 32 < c \<and> c < 128 \<and> c \<noteq> 38 \<and> c \<noteq> 47 \<and> c \<noteq> 37"
  by (auto simp: compSafe_def formSafe_def)

definition compUnit :: "nat \<Rightarrow> bool" where
  "compUnit c \<longleftrightarrow> c = 37 \<or> compSafe c"

lemma compByte_units: "list_all compUnit (compByte b)"
  by (simp add: compByte_def compUnit_def hexUpper_safe compSafe_def)

lemma units_component: "units (encodeURIComponent enc s) = concat (map compByte (enc (units s)))"
proof -
  have "list_all compUnit (concat (map compByte bs))" for bs
    using compByte_units by (auto simp: list_all_iff)
  then have "list_all (\<lambda>c. c < 256) (concat (map compByte (enc (units s))))"
    by (rule list.pred_mono_strong) (auto simp: compUnit_def dest: compSafe_range)
  then show ?thesis
    unfolding encodeURIComponent_def by (rule units_ofUnits)
qed

lemma component_chars: "c \<in> set (encodeURIComponent enc s) \<Longrightarrow> of_char c \<notin> {38, 47 :: nat}"
proof -
  assume "c \<in> set (encodeURIComponent enc s)"
  then have "of_char c \<in> set (units (encodeURIComponent enc s))"
    by (simp add: units_def)
  then obtain b where "of_char c \<in> set (compByte b)"
    by (auto simp: units_component)
  then have "compUnit (of_char c)"
    using compByte_units [of b] by (simp add: list_all_iff)
  then show ?thesis
    by (auto simp: compUnit_def dest: compSafe_range)
qed

lemma percentDecode_compByte: "b < 256 \<Longrightarrow> percentDecode (compByte b @ s) = b # percentDecode s"
proof -
  assume b: "b < 256"
  have "b div 16 mod 16 * 16 + b mod 16 = b"
    using b by (simp add: less_mult_imp_div_less)
  then show ?thesis
    by (auto simp: compByte_def percentDecode_plain dest: compSafe_range)
qed

lemma component_inj:
  assumes c: "utf8Codec enc dec" and e: "encodeURIComponent enc a = encodeURIComponent enc b"
  shows "a = b"
proof -
  have d: "list_all (\<lambda>b. b < 256) bs \<Longrightarrow> percentDecode (concat (map compByte bs)) = bs" for bs
    by (induction bs) (simp_all add: percentDecode_compByte)
  have "enc (units a) = enc (units b)"
    using e c d [of "enc (units a)"] d [of "enc (units b)"] units_component [of enc a] units_component [of enc b]
    by (simp add: utf8Codec_def)
  then show ?thesis
    using c unfolding utf8Codec_def by (metis units_inj)
qed

lemma cut_at:
  assumes "c \<notin> set a" "c \<notin> set b" "x = [] \<or> hd x = c" "y = [] \<or> hd y = c" and eq: "a @ x = b @ y"
  shows "a = b \<and> x = y"
proof -
  have "takeWhile (\<lambda>z. z \<noteq> c) (a @ x) = a" "takeWhile (\<lambda>z. z \<noteq> c) (b @ y) = b"
    using assms(1-4) by (auto simp: takeWhile_append takeWhile_eq_Nil_iff)
  then show ?thesis
    using eq by simp
qed

definition decValue :: "string \<Rightarrow> nat" where
  "decValue s = foldl (\<lambda>n c. 10 * n + (of_char c - 48)) 0 s"

lemma decValue_natStr: "decValue (natStr n) = n"
proof (induction n rule: natStr.induct)
  case (1 n)
  have d: "of_char (digitChar k) - 48 = (k :: nat)" if "k < 10" for k
    using that by (simp add: digitChar_def)
  show ?case
    using 1 d [of n] d [of "n mod 10"] by (subst natStr.simps) (auto simp: decValue_def)
qed

lemma natStr_no_sign: "c \<in> set (natStr n) \<Longrightarrow> isDigit c"
  using natStr_digits by (simp add: list_all_iff)

lemma natStr_inj: "natStr a = natStr b \<longleftrightarrow> a = b"
  by (metis decValue_natStr)

lemma minus_natStr: "natStr a \<noteq> CHR ''-'' # s" "CHR ''-'' # s \<noteq> natStr a"
proof -
  show n: "natStr a \<noteq> CHR ''-'' # s"
    using natStr_no_sign [of "CHR ''-''" a] by (auto simp: isDigit_def)
  then show "CHR ''-'' # s \<noteq> natStr a"
    by (rule not_sym)
qed

lemma intStr_inj: "intStr a = intStr b \<Longrightarrow> a = b"
  by (auto simp: intStr_def natStr_inj minus_natStr split: if_splits)

lemma intStr_chars: "CHR ''&'' \<notin> set (intStr n)"
  using natStr_no_sign [of "CHR ''&''"] by (auto simp: intStr_def isDigit_def)

definition deviceParams :: "'w net \<Rightarrow> transport \<Rightarrow> string" where
  "deviceParams net t =
     (if t_deviceId t = '''' then '''' else ''&device_id='' @ encodeURIComponent (n_enc net) (t_deviceId t))
     @ (if t_deviceName t = '''' then '''' else ''&device_name='' @ encodeURIComponent (n_enc net) (t_deviceName t))"

lemma deviceParams_head: "deviceParams net t = [] \<or> (\<exists>r. deviceParams net t = CHR ''&'' # CHR ''d'' # r)"
  by (auto simp: deviceParams_def)

lemma delete_addressed:
  assumes c: "utf8Codec (n_enc net) dec" and eq: "deleteSuffix net t p v = deleteSuffix net u q v'"
  shows "p = q \<and> v = v'"
proof -
  let ?cas = "\<lambda>v. case v of None \<Rightarrow> [] | Some v \<Rightarrow> ''&expected_version='' @ intStr v"
  let ?E = "encodeURIComponent (n_enc net)"
  have amp: "?cas v @ deviceParams net t = [] \<or> hd (?cas v @ deviceParams net t) = CHR ''&''" for v t
    using deviceParams_head [of net t] by (auto split: option.splits)
  have free: "CHR ''&'' \<notin> set (?E s)" for s
    using component_chars [of "CHR ''&''"] by force
  have "?E p @ ?cas v @ deviceParams net t = ?E q @ ?cas v' @ deviceParams net u"
    using eq by (simp add: deleteSuffix_def deviceParams_def)
  then have E: "?E p = ?E q" and rest: "?cas v @ deviceParams net t = ?cas v' @ deviceParams net u"
    using cut_at [OF free free amp amp] by blast+
  have "v = v'"
  proof (cases "v = None \<or> v' = None")
    case True
    then show ?thesis
      using rest deviceParams_head [of net t] deviceParams_head [of net u] by (auto split: option.splits)
  next
    case False
    then obtain a b where ab: "v = Some a" "v' = Some b"
      by auto
    have "intStr a = intStr b"
      using rest cut_at [OF intStr_chars intStr_chars, of "deviceParams net t" "deviceParams net u" a b]
        deviceParams_head [of net t] deviceParams_head [of net u] by (auto simp: ab)
    then show ?thesis
      by (simp add: ab intStr_inj)
  qed
  with component_inj [OF c E] show ?thesis
    by simp
qed

lemma vault_addressed:
  assumes c: "utf8Codec (n_enc net) dec" and b: "t_baseUrl t = t_baseUrl u"
    and eq: "vUrl net t x = vUrl net u y" and x: "startsWith x ''/''" "startsWith y ''/''"
  shows "t_owner t = t_owner u \<and> t_vault t = t_vault u \<and> x = y"
proof -
  let ?E = "encodeURIComponent (n_enc net)"
  have free: "CHR ''/'' \<notin> set (?E s)" for s
    using component_chars [of "CHR ''/''"] by force
  have h: "x = [] \<or> hd x = CHR ''/''" "y = [] \<or> hd y = CHR ''/''"
    using x by (auto simp: startsWith_iff)
  have slash: "CHR ''/'' # s = [] \<or> hd (CHR ''/'' # s) = CHR ''/''" for s
    by simp
  show ?thesis
  proof (cases "t_owner t = []")
    case True
    then have "t_owner u = []" and "?E (t_vault t) @ x = ?E (t_vault u) @ y"
      using eq b by (auto simp: vUrl_def split: if_splits)
    then show ?thesis
      using True cut_at [OF free free h] component_inj [OF c, of "t_vault t" "t_vault u"] by simp
  next
    case False
    then have o: "t_owner u \<noteq> []"
      and e: "?E (t_owner t) @ CHR ''/'' # ?E (t_vault t) @ x = ?E (t_owner u) @ CHR ''/'' # ?E (t_vault u) @ y"
      using eq b by (auto simp: vUrl_def split: if_splits)
    have "?E (t_owner t) = ?E (t_owner u)" and r: "?E (t_vault t) @ x = ?E (t_vault u) @ y"
      using cut_at [OF free free slash slash e] by auto
    then show ?thesis
      using cut_at [OF free free h r] component_inj [OF c, of "t_owner t" "t_owner u"]
        component_inj [OF c, of "t_vault t" "t_vault u"] by simp
  qed
qed

text \<open>
  Requests to the same server that have the same URL name the same vault of the same owner; two deletions
  with the same URL name the same file and expect the same version. So no name of a vault, an owner or a file
  can be chosen to make a request reach another one.
\<close>

theorem requests_addressed:
  assumes c: "utf8Codec (n_enc net) dec" and b: "t_baseUrl t = t_baseUrl u"
  shows "(vUrl net t (deleteSuffix net t p v) = vUrl net u (deleteSuffix net u q v') \<longrightarrow>
        t_owner t = t_owner u \<and> t_vault t = t_vault u \<and> p = q \<and> v = v')
    \<and> (\<forall>x y. vUrl net t x = vUrl net u y \<and> startsWith x ''/'' \<and> startsWith y ''/'' \<longrightarrow>
        t_owner t = t_owner u \<and> t_vault t = t_vault u \<and> x = y)"
proof (intro conjI allI impI)
  have "startsWith (deleteSuffix net t p v) ''/''" for t p v
    by (simp add: deleteSuffix_def startsWith_def)
  note d = vault_addressed [OF c b _ this this]
  assume eq: "vUrl net t (deleteSuffix net t p v) = vUrl net u (deleteSuffix net u q v')"
  from d [OF eq] show "t_owner t = t_owner u" "t_vault t = t_vault u"
    by simp_all
  from d [OF eq] show "p = q" "v = v'"
    using delete_addressed [OF c] by blast+
qed (use vault_addressed [OF c b] in auto)

theorem requests_addressed_witness:
  "vUrl (silentNet\<lparr>n_enc := latinUtf8\<rparr>) \<lparr>t_baseUrl = ''https://h'', t_token = ''t'', t_vault = ''v'', t_owner = [],
       t_deviceId = [], t_deviceName = []\<rparr>
     (deleteSuffix (silentNet\<lparr>n_enc := latinUtf8\<rparr>) \<lparr>t_baseUrl = ''https://h'', t_token = ''t'', t_vault = ''v'', t_owner = [],
       t_deviceId = [], t_deviceName = []\<rparr> ''a&expected_version=1'' None)
   \<noteq> vUrl (silentNet\<lparr>n_enc := latinUtf8\<rparr>) \<lparr>t_baseUrl = ''https://h'', t_token = ''t'', t_vault = ''v'', t_owner = [],
       t_deviceId = [], t_deviceName = []\<rparr>
     (deleteSuffix (silentNet\<lparr>n_enc := latinUtf8\<rparr>) \<lparr>t_baseUrl = ''https://h'', t_token = ''t'', t_vault = ''v'', t_owner = [],
       t_deviceId = [], t_deviceName = []\<rparr> ''a'' (Some 1))"
  using requests_addressed [of "silentNet\<lparr>n_enc := latinUtf8\<rparr>" utf8Latin
      "\<lparr>t_baseUrl = ''https://h'', t_token = ''t'', t_vault = ''v'', t_owner = [], t_deviceId = [], t_deviceName = []\<rparr>"
      "\<lparr>t_baseUrl = ''https://h'', t_token = ''t'', t_vault = ''v'', t_owner = [], t_deviceId = [], t_deviceName = []\<rparr>"
      "''a&expected_version=1''" None "''a''" "Some 1"] latin_codec
  by auto

subsection \<open>What a failed connection means\<close>

text \<open>The connection machine is told the typed fields of a \<open>ConnError\<close>, and of another error nothing.\<close>

fun connInfo :: "http_error \<Rightarrow> conn_error_info option" where
  "connInfo (PlainErr _) = None"
| "connInfo (ConnErr _ info) = Some info"

definition failureOf :: "bool \<Rightarrow> http_error + 'a \<Rightarrow> failure_class option" where
  "failureOf stored r =
     (case r of Inr _ \<Rightarrow> None | Inl e \<Rightarrow> Some (classifyConnectError (toConnErrorInfo (connInfo e) stored)))"

text \<open>The meaning of an answer other than 200 to the sign-in and to the status request of a vault.\<close>

definition answerMeans :: "bool \<Rightarrow> bool \<Rightarrow> http_response \<Rightarrow> failure_class" where
  "answerMeans signIn stored r =
     (let s = rs_status r; hint = take 300 (textOf r) in
      if s = 429 then FLockedOut (case retryAfter r of Some n \<Rightarrow> n | None \<Rightarrow> 60)
      else if s = 503 then FServerDegraded
      else if s = 408 \<or> 500 \<le> s then FTransient
      else if s = 404 then (if signIn then FTransient else FVaultGone)
      else if s = 403 then (if hint \<noteq> [] \<and> passwordChangeHint hint then FMustChangePassword else FForbidden)
      else if s = 401 then
        (if \<not> signIn then if stored then FAuthRejected else FSessionExpired
         else if hint \<noteq> [] \<and> mfaHint hint then FMfaRequired else FAuthRejected)
      else FServerDegraded)"

lemma httpFail_class:
  "classifyConnectError (toConnErrorInfo (connInfo (httpFail r ep signIn label)) stored)
    = (if ep = VaultStatus \<and> \<not> signIn \<or> ep \<noteq> VaultStatus \<and> signIn then answerMeans signIn stored r
       else classifyConnectError (toConnErrorInfo (connInfo (httpFail r ep signIn label)) stored))"
  by (auto simp: httpFail_def answerMeans_def toConnErrorInfo_def classifyConnectError_def SLOW_RETRY_SECS_def Let_def
      split: option.splits)

lemma plain_transient: "classifyConnectError (toConnErrorInfo None stored) = FTransient"
  by (simp add: toConnErrorInfo_def classifyConnectError_def)

lemma retryAfter_pos: "retryAfter r = Some n \<Longrightarrow> 0 < n"
  by (auto simp: retryAfter_def Let_def split: option.splits if_splits)

lemma then_check: "thenH (checkH r) f w = (case r of Inl e \<Rightarrow> (Inl (PlainErr e), w) | Inr x \<Rightarrow> f x w)"
  by (simp add: thenH_def checkH_def split: sum.splits)

lemma apiJson_cases:
  assumes "\<not> isInsecureRemote (n_URL net) (rq_url q)"
  shows "fst (thenH (apiJson net q label ep signIn) f w) =
    (case n_requestUrl net q w of
       (Answered r, w1) \<Rightarrow> if rs_status r = 200 then fst (f (tryJson r) w1) else Inl (httpFail r ep signIn label)
     | (Rejected m, w1) \<Rightarrow> Inl (PlainErr (newError m))
     | (Stalled, w1) \<Rightarrow> Inl (PlainErr (newError ''request timed out (no response) - treating as offline'')))"
  using assms by (simp add: apiJson_def thenH_def httpReq_def retH_def split: prod.splits net_outcome.splits)

text \<open>
  The transport's errors reach the connection machine with their meaning: what it makes of a failed status
  request of a vault and of a failed sign-in is decided by the answer alone, by the table \<open>answerMeans\<close>; a
  request that is rejected or times out, and an answer of 200 that cannot be used, is a transient failure.
  A lockout always has a positive number of seconds to wait.
\<close>

theorem failures_classified:
  assumes "\<not> isInsecureRemote (n_URL net) baseUrl"
    and "\<not> isInsecureRemote (n_URL net) (accountUrl baseUrl ''/api/login'')"
    and "\<not> isInsecureRemote (n_URL net) (vUrl net t ''/status'')"
  shows "failureOf stored (fst (tr_status net t w)) =
      (case n_requestUrl net (vGet net t ''/status'') w of
         (Answered r, _) \<Rightarrow>
           if rs_status r \<noteq> 200 then Some (answerMeans False stored r)
           else if \<exists>s. validateStatus (tryJson r) = Inr s then None else Some FTransient
       | _ \<Rightarrow> Some FTransient)
    \<and> failureOf stored (fst (login net baseUrl user password w)) =
      (case n_requestUrl net (jsonReq ''POST'' (accountUrl baseUrl ''/api/login'') []
              [(''username'', jstr user), (''password'', jstr password)]) w of
         (Answered r, _) \<Rightarrow>
           if rs_status r \<noteq> 200 then Some (answerMeans True stored r)
           else if tryJson r = VUndef \<or> tryJson r = VNull then Some FTransient else None
       | _ \<Rightarrow> Some FTransient)
    \<and> (\<forall>r n. answerMeans signIn stored r = FLockedOut n \<longrightarrow> 0 < n)"
proof (intro conjI allI impI)
  have "rq_url (vGet net t ''/status'') = vUrl net t ''/status''"
    by (simp add: vGet_def getReq_def)
  then show "failureOf stored (fst (tr_status net t w)) =
      (case n_requestUrl net (vGet net t ''/status'') w of
         (Answered r, _) \<Rightarrow>
           if rs_status r \<noteq> 200 then Some (answerMeans False stored r)
           else if \<exists>s. validateStatus (tryJson r) = Inr s then None else Some FTransient
       | _ \<Rightarrow> Some FTransient)"
    using assms(3) httpFail_class [of _ VaultStatus False]
    by (simp add: tr_status_def apiJson_cases failureOf_def checkH_def plain_transient split: prod.splits net_outcome.splits sum.splits)
  have "rq_url (jsonReq ''POST'' (accountUrl baseUrl ''/api/login'') [] fs) = accountUrl baseUrl ''/api/login''" for fs
    by (simp add: jsonReq_def)
  then show "failureOf stored (fst (login net baseUrl user password w)) =
      (case n_requestUrl net (jsonReq ''POST'' (accountUrl baseUrl ''/api/login'') []
              [(''username'', jstr user), (''password'', jstr password)]) w of
         (Answered r, _) \<Rightarrow>
           if rs_status r \<noteq> 200 then Some (answerMeans True stored r)
           else if tryJson r = VUndef \<or> tryJson r = VNull then Some FTransient else None
       | _ \<Rightarrow> Some FTransient)"
    using assms(1,2) httpFail_class [of _ Login True]
    by (simp add: login_def refuseCleartext_def apiJson_cases failureOf_def then_check propOf_def retH_def
        plain_transient split: prod.splits net_outcome.splits sum.splits)
  show "0 < n" if "answerMeans signIn stored r = FLockedOut n" for r n
    using that retryAfter_pos by (auto simp: answerMeans_def Let_def split: option.splits if_splits)
qed

theorem failures_classified_witness:
  "failureOf False (fst (login (silentNet\<lparr>n_URL := (\<lambda>s. None)\<rparr>) ''https://h'' ''u'' ''p'' ())) = Some FTransient"
  using failures_classified [of "silentNet\<lparr>n_URL := (\<lambda>s. None)\<rparr>" "''https://h''"
      "\<lparr>t_baseUrl = ''https://h'', t_token = ''t'', t_vault = ''v'', t_owner = '''', t_deviceId = '''', t_deviceName = ''''\<rparr>" False "()" "''u''" "''p''"]
  by (simp add: silentNet_def isInsecureRemote_def)

end
