(* ===== verification/Recipe.thy ===== *)
theory Recipe
  imports Links Mounts
begin

text \<open>
  Composition recipes, \<open>client/src/composition-recipe.ts\<close>: a list of mounts as a link that carries no
  credentials, and the reader's plan for importing it. The host's \<open>JSON.jparse\<close> and \<open>JSON.stringify\<close> are the
  parameters \<open>jparse\<close> (\<^const>\<open>None\<close> where it throws) and \<open>stringify\<close>.
\<close>

definition SCHEME :: string where
  "SCHEME = ''selfsync-recipe://''"

definition MAX_MOUNTS :: nat where
  "MAX_MOUNTS = 200"

definition canonAccount :: "string \<Rightarrow> string" where
  "canonAccount s = toLowerCase (trim s)"

definition dirStr :: "mount_direction \<Rightarrow> string" where
  "dirStr d = (case d of DirPull \<Rightarrow> ''pull'' | DirSync \<Rightarrow> ''sync'')"

definition recipeEntry :: "string \<Rightarrow> mount \<Rightarrow> jval" where
  "recipeEntry selfAccount m =
     (let src = mt_source m in
      VObj [(''owner'', VStr (units (canonAccount (if ms_owner src = '''' then selfAccount else ms_owner src)))),
            (''vaultId'', VStr (units (ms_vaultId src))),
            (''sourcePath'', VStr (units (ms_sourcePath src))),
            (''mountPoint'', VStr (units (mt_mountPoint m))),
            (''direction'', VStr (units (dirStr (mt_direction m))))])"

definition encodeCompositionRecipe ::
  "(string \<Rightarrow> url option) \<Rightarrow> (utext \<Rightarrow> bytes) \<Rightarrow> (jval \<Rightarrow> string) \<Rightarrow> mount list \<Rightarrow> string \<Rightarrow> string \<Rightarrow> err + string" where
  "encodeCompositionRecipe newURL enc stringify mounts server selfAccount =
     (let payload = map (recipeEntry selfAccount) mounts in
      if payload = [] then Inl (newError ''There are no active mounts to put in a recipe.'')
      else if selfAccount = '''' then
        Inl (newError ''Sign in first - a recipe needs your account to name the vaults you own.'')
      else okThen (normalizeServer newURL server) (\<lambda>href.
        Inr (SCHEME @ ''import?'' @ searchString enc [(''server'', href), (''mounts'', stringify (VArr payload))])))"

definition isCompositionRecipe :: "string \<Rightarrow> bool" where
  "isCompositionRecipe str = startsWith (trim str) SCHEME"

record parsed_recipe =
  pr_server :: string
  pr_mounts :: "mount list"

definition recipeMount :: "jval \<Rightarrow> mount option" where
  "recipeMount m =
     (if \<not> isObject m then None
      else
        let owner = strOr '''' (fieldOf m ''owner'');
            vaultId = strOr '''' (fieldOf m ''vaultId'');
            mountPoint = normMountFolder (strOr '''' (fieldOf m ''mountPoint''))
        in if owner = '''' \<or> vaultId = '''' \<or> mountPoint = '''' then None
           else Some
             \<lparr>mt_source = \<lparr>ms_owner = owner, ms_vaultId = vaultId,
                ms_sourcePath = normMountFolder (strOr '''' (fieldOf m ''sourcePath''))\<rparr>,
              mt_mountPoint = mountPoint,
              mt_direction = (if fieldOf m ''direction'' = VStr (units ''sync'') then DirSync else DirPull)\<rparr>)"

fun recipeMountsFrom :: "jval \<Rightarrow> mount list" where
  "recipeMountsFrom (VArr es) = List.map_filter recipeMount es"
| "recipeMountsFrom _ = []"

definition parseCompositionRecipe ::
  "(string \<Rightarrow> url option) \<Rightarrow> (utext \<Rightarrow> bytes) \<Rightarrow> (bytes \<Rightarrow> utext) \<Rightarrow> (string \<Rightarrow> jval option) \<Rightarrow> string \<Rightarrow> err + parsed_recipe" where
  "parseCompositionRecipe newURL enc dec jparse str =
     (let trimmed = trim str in
      if \<not> startsWith trimmed SCHEME then
        Inl (newError (''That doesn'' @ [CHR 0x27] @ ''t look like a SelfSync composition recipe.''))
      else
        (let params = searchParams enc dec (queryOf trimmed); server = paramOr params ''server''
         in case jparse (paramOr params ''mounts'') of
              None \<Rightarrow> Inl (newError (''This composition recipe is malformed and can'' @ [CHR 0x27] @ ''t be read.''))
            | Some raw \<Rightarrow>
                (let mounts = recipeMountsFrom raw in
                 if mounts = [] then Inl (newError ''This composition recipe contains no valid mounts.'')
                 else if length mounts > MAX_MOUNTS then
                   Inl (newError (''This composition recipe is unexpectedly large (over '' @ natStr MAX_MOUNTS
                     @ '' mounts) - it may be corrupt.''))
                 else okThen (if server = '''' then Inr '''' else normalizeServer newURL server) (\<lambda>href.
                   Inr \<lparr>pr_server = href, pr_mounts = mounts\<rparr>))))"

subsection \<open>The plan of an import\<close>

datatype recipe_status = ItemReady | ItemNoAccess | ItemSelfPrimary | ItemDuplicate

record plan_item =
  pi_recipe :: mount
  pi_localSource :: mount_source
  pi_status :: recipe_status
  pi_writable :: bool
  pi_suggested :: mount_direction

record reader_ctx =
  rc_myAccount :: string
  rc_primaryOwner :: string
  rc_primaryVault :: string
  rc_grants :: "(string \<times> string \<times> string) list"
  rc_existing :: "mount list"

definition findGrant :: "reader_ctx \<Rightarrow> string \<Rightarrow> string \<Rightarrow> (string \<times> string \<times> string) option" where
  "findGrant ctx owner vault = List.find (\<lambda>(o1, v, _). canonAccount o1 = owner \<and> v = vault) (rc_grants ctx)"

definition sameMount :: "(string \<Rightarrow> string) \<Rightarrow> mount_source \<Rightarrow> path \<Rightarrow> mount \<Rightarrow> bool" where
  "sameMount nfc src mountPoint o1 \<longleftrightarrow>
     canonAccount (ms_owner (mt_source o1)) = ms_owner src \<and> ms_vaultId (mt_source o1) = ms_vaultId src
     \<and> canonFolder nfc (ms_sourcePath (mt_source o1)) = canonFolder nfc (ms_sourcePath src)
     \<and> canonFolder nfc (mt_mountPoint o1) = canonFolder nfc mountPoint"

definition planItem :: "(string \<Rightarrow> string) \<Rightarrow> reader_ctx \<Rightarrow> mount \<Rightarrow> plan_item" where
  "planItem nfc ctx m =
     (let myAccount = canonAccount (rc_myAccount ctx);
          primaryOwner = canonAccount (rc_primaryOwner ctx);
          recipeOwner = canonAccount (ms_owner (mt_source m));
          isOwn = (myAccount \<noteq> '''' \<and> recipeOwner = myAccount);
          localOwner = (if isOwn then '''' else recipeOwner);
          localSource = \<lparr>ms_owner = localOwner, ms_vaultId = ms_vaultId (mt_source m), ms_sourcePath = ms_sourcePath (mt_source m)\<rparr>;
          grant = findGrant ctx recipeOwner (ms_vaultId (mt_source m));
          accessible = (isOwn \<or> grant \<noteq> None);
          writable = (isOwn \<or> (case grant of None \<Rightarrow> False | Some (_, _, perm) \<Rightarrow> perm = ''readWrite''));
          suggested = (if isOwn \<and> mt_direction m = DirSync then DirSync else DirPull);
          status = (if \<not> accessible then ItemNoAccess
                    else if localOwner = primaryOwner \<and> ms_vaultId (mt_source m) = rc_primaryVault ctx then ItemSelfPrimary
                    else if list_ex (sameMount nfc localSource (mt_mountPoint m)) (rc_existing ctx) then ItemDuplicate
                    else ItemReady)
      in \<lparr>pi_recipe = m, pi_localSource = localSource, pi_status = status, pi_writable = writable, pi_suggested = suggested\<rparr>)"

definition planRecipeImport :: "(string \<Rightarrow> string) \<Rightarrow> mount list \<Rightarrow> reader_ctx \<Rightarrow> plan_item list" where
  "planRecipeImport nfc mounts ctx = map (planItem nfc ctx) mounts"

definition mountFromPlanItem :: "plan_item \<Rightarrow> string \<Rightarrow> mount_direction \<Rightarrow> mount" where
  "mountFromPlanItem item mountPoint direction =
     \<lparr>mt_source = (pi_localSource item)\<lparr>ms_sourcePath := normMountFolder (ms_sourcePath (pi_localSource item))\<rparr>,
      mt_mountPoint = normMountFolder mountPoint,
      mt_direction = (if direction = DirSync \<and> pi_writable item then DirSync else DirPull)\<rparr>"

subsection \<open>An import takes no rights\<close>

lemma findGrant_Some: "findGrant ctx owner vault = Some g \<Longrightarrow> g \<in> set (rc_grants ctx) \<and> canonAccount (fst g) = owner \<and> fst (snd g) = vault"
  unfolding findGrant_def by (auto simp: find_Some_iff) (metis nth_mem)

lemmas planItem_simps = planItem_def Let_def

definition ownVault :: "reader_ctx \<Rightarrow> mount \<Rightarrow> bool" where
  "ownVault ctx m \<longleftrightarrow> canonAccount (rc_myAccount ctx) \<noteq> '''' \<and> canonAccount (ms_owner (mt_source m)) = canonAccount (rc_myAccount ctx)"

definition granted :: "reader_ctx \<Rightarrow> mount \<Rightarrow> string \<Rightarrow> bool" where
  "granted ctx m perm \<longleftrightarrow>
     (\<exists>owner. canonAccount owner = canonAccount (ms_owner (mt_source m)) \<and> (owner, ms_vaultId (mt_source m), perm) \<in> set (rc_grants ctx))"

lemma findGrant_granted: "findGrant ctx (canonAccount (ms_owner (mt_source m))) (ms_vaultId (mt_source m)) = Some (a, b, perm) \<Longrightarrow> granted ctx m perm"
  using findGrant_Some by (fastforce simp: granted_def)

lemma planItem_writable: "pi_writable (planItem nfc ctx m) \<Longrightarrow> ownVault ctx m \<or> granted ctx m ''readWrite''"
  using findGrant_granted by (fastforce simp: planItem_simps ownVault_def split: option.splits)

lemma planItem_access:
  "pi_status (planItem nfc ctx m) \<noteq> ItemNoAccess \<Longrightarrow> ownVault ctx m \<or> (\<exists>perm. granted ctx m perm)"
proof (cases "findGrant ctx (canonAccount (ms_owner (mt_source m))) (ms_vaultId (mt_source m))")
  case None
  then show "pi_status (planItem nfc ctx m) \<noteq> ItemNoAccess \<Longrightarrow> ownVault ctx m \<or> (\<exists>perm. granted ctx m perm)"
    by (auto simp: planItem_simps ownVault_def split: if_splits)
next
  case (Some g)
  then show "pi_status (planItem nfc ctx m) \<noteq> ItemNoAccess \<Longrightarrow> ownVault ctx m \<or> (\<exists>perm. granted ctx m perm)"
    using findGrant_granted by (cases g) blast
qed

lemma planItem_local:
  "pi_localSource (planItem nfc ctx m) = (mt_source m)\<lparr>ms_owner := (if ownVault ctx m then '''' else canonAccount (ms_owner (mt_source m)))\<rparr>"
  by (cases "mt_source m") (auto simp: planItem_simps ownVault_def)

lemma planItem_ready:
  "pi_status (planItem nfc ctx m) = ItemReady \<Longrightarrow>
     \<not> (ms_owner (pi_localSource (planItem nfc ctx m)) = canonAccount (rc_primaryOwner ctx) \<and> ms_vaultId (mt_source m) = rc_primaryVault ctx)
     \<and> (\<forall>o1 \<in> set (rc_existing ctx). \<not> sameMount nfc (pi_localSource (planItem nfc ctx m)) (mt_mountPoint m) o1)"
  by (auto simp: planItem_simps list_ex_iff split: if_splits)

lemma planItem_suggested: "pi_suggested (planItem nfc ctx m) = DirSync \<Longrightarrow> ownVault ctx m \<and> mt_direction m = DirSync"
  by (auto simp: planItem_simps ownVault_def split: if_splits)

text \<open>
  A recipe gives its reader no rights. Whatever folder and direction the reader picks for an item of the plan,
  the mount syncs back only if the reader asked for it and owns the vault or holds a read-write grant for it;
  syncing is suggested only for the reader's own vaults; an item is offered only with a grant or the vault of the
  reader's own account, never for the vault that is open here and never for a mount that already exists; and the
  vault of the owner that the recipe names is the one mounted, with the reader's own account as the empty owner.
\<close>

theorem recipe_import_fails_closed:
  assumes item: "item \<in> set (planRecipeImport nfc mounts ctx)"
  shows "pi_recipe item \<in> set mounts
    \<and> (mt_direction (mountFromPlanItem item folder dir) = DirSync \<longrightarrow>
        dir = DirSync \<and> (ownVault ctx (pi_recipe item) \<or> granted ctx (pi_recipe item) ''readWrite''))
    \<and> (pi_suggested item = DirSync \<longrightarrow> ownVault ctx (pi_recipe item) \<and> mt_direction (pi_recipe item) = DirSync)
    \<and> (pi_status item = ItemReady \<longrightarrow> (ownVault ctx (pi_recipe item) \<or> (\<exists>perm. granted ctx (pi_recipe item) perm))
        \<and> \<not> (ms_owner (pi_localSource item) = canonAccount (rc_primaryOwner ctx)
             \<and> ms_vaultId (pi_localSource item) = rc_primaryVault ctx)
        \<and> (\<forall>o1 \<in> set (rc_existing ctx). \<not> sameMount nfc (pi_localSource item) (mt_mountPoint (pi_recipe item)) o1))
    \<and> ms_vaultId (pi_localSource item) = ms_vaultId (mt_source (pi_recipe item))
    \<and> ms_owner (pi_localSource item)
        = (if ownVault ctx (pi_recipe item) then '''' else canonAccount (ms_owner (mt_source (pi_recipe item))))"
proof -
  obtain m where m: "m \<in> set mounts" and i: "item = planItem nfc ctx m"
    using item by (auto simp: planRecipeImport_def)
  have r: "pi_recipe item = m"
    by (simp add: i planItem_simps)
  have "mt_direction (mountFromPlanItem item folder dir) = DirSync \<Longrightarrow> dir = DirSync \<and> pi_writable item"
    by (auto simp: mountFromPlanItem_def split: if_splits)
  then show ?thesis
    using m r planItem_writable [of nfc ctx m] planItem_access [of nfc ctx m] planItem_ready [of nfc ctx m]
      planItem_suggested [of nfc ctx m] planItem_local [of nfc ctx m] by (simp flip: i)
qed

theorem recipe_import_fails_closed_witness:
  "mt_direction (mountFromPlanItem
      (planItem id \<lparr>rc_myAccount = ''me'', rc_primaryOwner = '''', rc_primaryVault = ''main'', rc_grants = [(''bob'', ''notes'', ''read'')], rc_existing = []\<rparr>
        \<lparr>mt_source = \<lparr>ms_owner = ''bob'', ms_vaultId = ''notes'', ms_sourcePath = ''''\<rparr>, mt_mountPoint = ''Bob'', mt_direction = DirSync\<rparr>)
      ''Bob'' DirSync) \<noteq> DirSync"
  using recipe_import_fails_closed [where nfc = id and folder = "''Bob''" and dir = DirSync
      and ctx = "\<lparr>rc_myAccount = ''me'', rc_primaryOwner = '''', rc_primaryVault = ''main'', rc_grants = [(''bob'', ''notes'', ''read'')], rc_existing = []\<rparr>"
      and mounts = "[\<lparr>mt_source = \<lparr>ms_owner = ''bob'', ms_vaultId = ''notes'', ms_sourcePath = ''''\<rparr>, mt_mountPoint = ''Bob'', mt_direction = DirSync\<rparr>]"
      and item = "planItem id \<lparr>rc_myAccount = ''me'', rc_primaryOwner = '''', rc_primaryVault = ''main'', rc_grants = [(''bob'', ''notes'', ''read'')], rc_existing = []\<rparr>
        \<lparr>mt_source = \<lparr>ms_owner = ''bob'', ms_vaultId = ''notes'', ms_sourcePath = ''''\<rparr>, mt_mountPoint = ''Bob'', mt_direction = DirSync\<rparr>"]
  by (auto simp: planRecipeImport_def planItem_simps ownVault_def granted_def canonAccount_def toLowerCase_def lowerChar_def
      trim_def trimEndBy_def isJsSpace_def)

subsection \<open>A recipe is read back\<close>

lemma lowerChar_space: "isJsSpace (lowerChar c) = isJsSpace c"
  by (auto simp: isJsSpace_def lowerChar_def Let_def)

lemma trim_lower: "trim (toLowerCase s) = toLowerCase (trim s)"
proof -
  have "dropWhile isJsSpace (map lowerChar xs) = map lowerChar (dropWhile isJsSpace xs)" for xs
    by (induction xs) (simp_all add: lowerChar_space)
  then show ?thesis
    by (simp add: trim_def trimEndBy_def toLowerCase_def rev_map)
qed

lemma trim_trim: "trim (trim s) = trim s"
proof -
  let ?u = "dropWhile isJsSpace s"
  have d: "dropWhile isJsSpace (dropWhile isJsSpace xs) = dropWhile isJsSpace xs" for xs
    by (rule dropWhile_idem)
  have "dropWhile isJsSpace (rev (dropWhile isJsSpace (rev ?u))) = rev (dropWhile isJsSpace (rev ?u))"
  proof (cases ?u)
    case (Cons c r)
    then have "\<not> isJsSpace c"
      using hd_dropWhile [of isJsSpace s] by force
    moreover have "\<exists>r'. rev (dropWhile isJsSpace (rev (c # r))) = c # r'"
      using \<open>\<not> isJsSpace c\<close> by (cases "\<forall>x \<in> set (rev r). isJsSpace x") (auto simp: dropWhile_append intro: exI [of _ "rev (dropWhile isJsSpace (rev r))"])
    ultimately show ?thesis
      using Cons by auto
  qed (simp only: rev.simps dropWhile.simps)
  then show ?thesis
    by (simp add: trim_def trimEndBy_def d)
qed

lemma canonAccount_idem: "canonAccount (canonAccount s) = canonAccount s"
  unfolding canonAccount_def trim_lower trim_trim by simp

definition absolute :: "string \<Rightarrow> mount \<Rightarrow> mount" where
  "absolute selfAccount m =
     m\<lparr>mt_source := (mt_source m)\<lparr>ms_owner := canonAccount (if ms_owner (mt_source m) = '''' then selfAccount else ms_owner (mt_source m))\<rparr>\<rparr>"

text \<open>A mount as the settings keep it: with a source vault and normal folders.\<close>

definition keptMount :: "mount \<Rightarrow> bool" where
  "keptMount m \<longleftrightarrow> ms_vaultId (mt_source m) \<noteq> '''' \<and> mt_mountPoint m \<noteq> ''''
     \<and> normMountFolder (mt_mountPoint m) = mt_mountPoint m
     \<and> normMountFolder (ms_sourcePath (mt_source m)) = ms_sourcePath (mt_source m)"

lemma recipeMount_entry:
  assumes "keptMount m" and "canonAccount (if ms_owner (mt_source m) = '''' then selfAccount else ms_owner (mt_source m)) \<noteq> ''''"
  shows "recipeMount (recipeEntry selfAccount m) = Some (absolute selfAccount m)"
  using assms by (cases m; cases "mt_source m"; cases "mt_direction m")
    (auto simp: recipeMount_def recipeEntry_def Let_def keptMount_def absolute_def dirStr_def)

lemma recipeMounts_entries:
  assumes "list_all (\<lambda>m. keptMount m \<and> canonAccount (if ms_owner (mt_source m) = '''' then selfAccount else ms_owner (mt_source m)) \<noteq> '''') mounts"
  shows "recipeMountsFrom (VArr (map (recipeEntry selfAccount) mounts)) = map (absolute selfAccount) mounts"
  using assms by (induction mounts) (auto simp: List.map_filter_simps recipeMount_entry)

text \<open>
  A recipe of up to 200 mounts is read back to the same mounts, in order, with the exporter's account in place
  of the empty owner; and read on another device of the same account, the plan maps every vault of that
  account back to the empty owner.
\<close>

theorem recipe_roundtrip:
  assumes codec: "utf8Codec enc dec" "originsParse newURL" and server: "normalizeServer newURL server = Inr href"
    and json: "jparse (stringify (VArr (map (recipeEntry self) mounts))) = Some (VArr (map (recipeEntry self) mounts))"
    and mounts: "mounts \<noteq> []" "length mounts \<le> 200"
    and kept: "list_all (\<lambda>m. keptMount m \<and> canonAccount (if ms_owner (mt_source m) = '''' then self else ms_owner (mt_source m)) \<noteq> '''') mounts"
    and self: "canonAccount self \<noteq> ''''"
  shows "(\<exists>s. encodeCompositionRecipe newURL enc stringify mounts server self = Inr s \<and> isCompositionRecipe s
      \<and> parseCompositionRecipe newURL enc dec jparse s = Inr \<lparr>pr_server = href, pr_mounts = map (absolute self) mounts\<rparr>)
    \<and> (rc_myAccount ctx = self \<longrightarrow>
        list_all2 (\<lambda>m it. ms_owner (mt_source m) = '''' \<longrightarrow> pi_localSource it = mt_source m)
          mounts (planRecipeImport nfc (map (absolute self) mounts) ctx))"
proof (intro conjI impI)
  let ?ps = "[(''server'', href), (''mounts'', stringify (VArr (map (recipeEntry self) mounts)))]"
  obtain s where s: "s = ''selfsync-recipe://import'' @ CHR ''?'' # searchString enc ?ps"
    by blast
  have "self \<noteq> ''''"
    using self by (auto simp: canonAccount_def trim_def trimEndBy_def toLowerCase_def)
  then have e: "encodeCompositionRecipe newURL enc stringify mounts server self = Inr s"
    using mounts server by (simp add: encodeCompositionRecipe_def SCHEME_def s)
  have ps: "searchParams enc dec (queryOf (trim s)) = ?ps" and t: "trim s = s"
    using link_params [OF codec(1), of ?ps "''selfsync-recipe://import''", folded s] by (simp_all add: linkChar_def)
  have c: "isCompositionRecipe s"
    unfolding isCompositionRecipe_def t by (simp add: SCHEME_def startsWith_def s)
  have "map (absolute self) mounts \<noteq> []" "\<not> length (map (absolute self) mounts) > MAX_MOUNTS"
    using mounts by (simp_all add: MAX_MOUNTS_def)
  then have "parseCompositionRecipe newURL enc dec jparse s = Inr \<lparr>pr_server = href, pr_mounts = map (absolute self) mounts\<rparr>"
    using c json normalized_not_blank [OF server] normalizeServer_idem [OF codec(2) server] recipeMounts_entries [OF kept]
    by (simp add: parseCompositionRecipe_def Let_def ps isCompositionRecipe_def paramOr_def del: length_map)
  with e c show "\<exists>s. encodeCompositionRecipe newURL enc stringify mounts server self = Inr s \<and> isCompositionRecipe s
      \<and> parseCompositionRecipe newURL enc dec jparse s = Inr \<lparr>pr_server = href, pr_mounts = map (absolute self) mounts\<rparr>"
    by blast
  assume my: "rc_myAccount ctx = self"
  have "ownVault ctx (absolute self m)" if "ms_owner (mt_source m) = ''''" for m
    using that my self canonAccount_idem by (simp add: ownVault_def absolute_def)
  then show "list_all2 (\<lambda>m it. ms_owner (mt_source m) = '''' \<longrightarrow> pi_localSource it = mt_source m)
      mounts (planRecipeImport nfc (map (absolute self) mounts) ctx)"
    by (auto simp: planRecipeImport_def list_all2_map2 planItem_local absolute_def intro!: list_all2_refl)
qed

end
