(* ===== verification/ConfigWalk.thy ===== *)
theory ConfigWalk
  imports Prelude "HOL-Library.Multiset"
begin

text \<open>
  The bounded parallel walk of the settings folder, \<open>client/src/configwalk.ts\<close>, as a step relation: each
  outstanding call of the adapter waits for a slot of the semaphore, holds one while it runs, and then gives it
  to the first waiter or back; its continuation runs at some later moment. Calls finish and continuations run
  in any order. The adapter is an argument and does not change during the walk; a call that throws is
  \<^const>\<open>None\<close>.
\<close>

record walk_stat =
  wt_mtime :: "nat option"
  wt_size :: "nat option"
  wt_ctime :: "nat option"

record walk_adapter =
  wa_list :: "path \<Rightarrow> (path list \<times> path list) option"
  wa_stat :: "path \<Rightarrow> walk_stat option option"  \<comment> \<open>the inner \<^const>\<open>None\<close> is null\<close>

record walk_entry =
  we_mtime :: nat
  we_size :: nat
  we_ctime :: "nat option"

datatype walk_call = ListDir path | StatFile path

record walk_state =
  w_avail :: nat
  w_queue :: "walk_call list"
  w_running :: "walk_call list"
  w_returned :: "walk_call list"
  w_entries :: "path \<rightharpoonup> walk_entry"
  w_dirs :: nat
  w_files :: nat
  w_errors :: "path list"

subsection \<open>The semaphore\<close>

definition acquire :: "walk_call \<Rightarrow> walk_state \<Rightarrow> walk_state" where
  "acquire c s =
     (if w_avail s = 0 then s\<lparr>w_queue := w_queue s @ [c]\<rparr>
      else s\<lparr>w_avail := w_avail s - 1, w_running := w_running s @ [c]\<rparr>)"

definition release :: "walk_state \<Rightarrow> walk_state" where
  "release s =
     (case w_queue s of
        [] \<Rightarrow> s\<lparr>w_avail := w_avail s + 1\<rparr>
      | c # q \<Rightarrow> s\<lparr>w_queue := q, w_running := w_running s @ [c]\<rparr>)"

subsection \<open>The walk\<close>

definition entryOf :: "walk_stat option \<Rightarrow> walk_entry" where
  "entryOf st =
     (case st of
        None \<Rightarrow> \<lparr>we_mtime = 0, we_size = 0, we_ctime = None\<rparr>
      | Some x \<Rightarrow> \<lparr>we_mtime = (case wt_mtime x of None \<Rightarrow> 0 | Some n \<Rightarrow> n),
                  we_size = (case wt_size x of None \<Rightarrow> 0 | Some n \<Rightarrow> n), we_ctime = wt_ctime x\<rparr>)"

definition startStat :: "walk_state \<Rightarrow> path \<Rightarrow> walk_state" where
  "startStat s f = acquire (StatFile f) (s\<lparr>w_files := w_files s + 1\<rparr>)"

definition startWalk :: "walk_state \<Rightarrow> path \<Rightarrow> walk_state" where
  "startWalk s d = acquire (ListDir d) (s\<lparr>w_dirs := w_dirs s + 1\<rparr>)"

fun continueCall :: "walk_adapter \<Rightarrow> (path \<Rightarrow> bool) \<Rightarrow> walk_call \<Rightarrow> walk_state \<Rightarrow> walk_state" where
  "continueCall a passes (ListDir d) s =
     (case wa_list a d of
        None \<Rightarrow> s\<lparr>w_errors := w_errors s @ [d]\<rparr>
      | Some (files, folders) \<Rightarrow> foldl startWalk (foldl startStat s (filter passes files)) folders)"
| "continueCall a passes (StatFile f) s =
     (case wa_stat a f of
        None \<Rightarrow> s
      | Some st \<Rightarrow> s\<lparr>w_entries := (w_entries s)(f \<mapsto> entryOf st)\<rparr>)"

definition initialWalk :: "nat \<Rightarrow> path \<Rightarrow> walk_state" where
  "initialWalk limit root =
     startWalk \<lparr>w_avail = max 1 limit, w_queue = [], w_running = [], w_returned = [], w_entries = Map.empty,
       w_dirs = 0, w_files = 0, w_errors = []\<rparr> root"

inductive walk_step :: "walk_adapter \<Rightarrow> (path \<Rightarrow> bool) \<Rightarrow> walk_state \<Rightarrow> walk_state \<Rightarrow> bool" for a passes where
  finish: "w_running s = xs @ c # ys \<Longrightarrow>
     walk_step a passes s (release (s\<lparr>w_running := xs @ ys, w_returned := w_returned s @ [c]\<rparr>))"
| resume: "w_returned s = xs @ c # ys \<Longrightarrow>
     walk_step a passes s (continueCall a passes c (s\<lparr>w_returned := xs @ ys\<rparr>))"

definition walkDone :: "walk_state \<Rightarrow> bool" where
  "walkDone s \<longleftrightarrow> w_running s = [] \<and> w_returned s = [] \<and> w_queue s = []"

subsection \<open>The sequential walk\<close>

text \<open>
  The reference: depth first, one call after the other. The result lists the files found and the folders that
  could not be listed and counts the calls; the fuel is the height of the tree of folders.
\<close>

record walk_result =
  wr_found :: "path list"
  wr_errors :: "path list"
  wr_dirs :: nat
  wr_files :: nat

definition noResult :: walk_result where
  "noResult = \<lparr>wr_found = [], wr_errors = [], wr_dirs = 0, wr_files = 0\<rparr>"

definition join :: "walk_result \<Rightarrow> walk_result \<Rightarrow> walk_result" where
  "join r s = \<lparr>wr_found = wr_found r @ wr_found s, wr_errors = wr_errors r @ wr_errors s,
     wr_dirs = wr_dirs r + wr_dirs s, wr_files = wr_files r + wr_files s\<rparr>"

definition statResult :: "walk_adapter \<Rightarrow> path \<Rightarrow> walk_result" where
  "statResult a f = noResult\<lparr>wr_found := (if wa_stat a f = None then [] else [f]), wr_files := 1\<rparr>"

definition joinAll :: "walk_result list \<Rightarrow> walk_result" where
  "joinAll rs = foldr join rs noResult"

fun seqWalk :: "walk_adapter \<Rightarrow> (path \<Rightarrow> bool) \<Rightarrow> nat \<Rightarrow> path \<Rightarrow> walk_result" where
  "seqWalk a passes 0 d = noResult"
| "seqWalk a passes (Suc n) d =
     (case wa_list a d of
        None \<Rightarrow> noResult\<lparr>wr_errors := [d], wr_dirs := 1\<rparr>
      | Some (files, folders) \<Rightarrow>
          join (noResult\<lparr>wr_dirs := 1\<rparr>)
            (join (joinAll (map (statResult a) (filter passes files))) (joinAll (map (seqWalk a passes n) folders))))"

fun heightBelow :: "walk_adapter \<Rightarrow> nat \<Rightarrow> path \<Rightarrow> bool" where
  "heightBelow a 0 d = False"
| "heightBelow a (Suc n) d =
     (case wa_list a d of None \<Rightarrow> True | Some (files, folders) \<Rightarrow> list_all (heightBelow a n) folders)"

subsection \<open>The slots\<close>

definition pending :: "walk_state \<Rightarrow> walk_call list" where
  "pending s = w_queue s @ w_running s @ w_returned s"

text \<open>No slot is lost or made, and calls wait only while all slots are taken.\<close>

definition slotsOk :: "nat \<Rightarrow> walk_state \<Rightarrow> bool" where
  "slotsOk limit s \<longleftrightarrow> length (w_running s) + w_avail s = max 1 limit \<and> (w_queue s = [] \<or> w_avail s = 0)"

lemma slotsOk_acquire: "slotsOk limit s \<Longrightarrow> slotsOk limit (acquire c s)"
  by (auto simp: slotsOk_def acquire_def)

lemma slotsOk_foldl: "(\<And>s x. slotsOk limit s \<Longrightarrow> slotsOk limit (f s x)) \<Longrightarrow> slotsOk limit s \<Longrightarrow> slotsOk limit (foldl f s xs)"
  by (induction xs arbitrary: s) auto

lemma slotsOk_start:
  assumes "slotsOk limit s"
  shows "slotsOk limit (startStat s f)" "slotsOk limit (startWalk s d)"
  unfolding startStat_def startWalk_def using assms by (intro slotsOk_acquire; simp add: slotsOk_def)+

lemma slotsOk_continue: "slotsOk limit s \<Longrightarrow> slotsOk limit (continueCall a passes c s)"
proof (cases c)
  case (ListDir d)
  assume s: "slotsOk limit s"
  then have "slotsOk limit (foldl startWalk (foldl startStat s fs) ds)" for fs ds
    by (intro slotsOk_foldl slotsOk_start)
  then show ?thesis
    using s ListDir by (auto simp: slotsOk_def split: option.splits)
qed (auto simp: slotsOk_def split: option.splits)

lemma slotsOk_step: "walk_step a passes s s' \<Longrightarrow> slotsOk limit s \<Longrightarrow> slotsOk limit s'"
proof (induction rule: walk_step.induct)
  case (finish s xs c ys)
  then show ?case
    by (auto simp: slotsOk_def release_def split: list.splits)
next
  case (resume s xs c ys)
  then show ?case
    by (intro slotsOk_continue) (simp add: slotsOk_def)
qed

lemma slotsOk_initial: "slotsOk limit (initialWalk limit root)"
  unfolding initialWalk_def by (intro slotsOk_start) (simp add: slotsOk_def)

lemma walk_progress: "slotsOk limit s \<Longrightarrow> \<not> walkDone s \<Longrightarrow> \<exists>s'. walk_step a passes s s'"
proof -
  assume "slotsOk limit s" "\<not> walkDone s"
  then have "w_running s \<noteq> [] \<or> w_returned s \<noteq> []"
    by (auto simp: slotsOk_def walkDone_def)
  then show ?thesis
    using walk_step.intros by (metis append_Nil neq_Nil_conv)
qed

subsection \<open>The outstanding work\<close>

definition load :: "(walk_call \<Rightarrow> 'a :: comm_monoid_add) \<Rightarrow> walk_state \<Rightarrow> 'a" where
  "load f s = sum_list (map f (pending s))"

lemma load_acquire: "load f (acquire c s) = load f s + f c"
  by (simp add: load_def pending_def acquire_def ac_simps)

lemma load_release: "load f (release s) = load f s"
  by (simp add: load_def pending_def release_def ac_simps split: list.splits)

lemma load_counted [simp]: "load f (s\<lparr>w_files := n\<rparr>) = load f s" "load f (s\<lparr>w_dirs := n\<rparr>) = load f s"
  by (simp_all add: load_def pending_def)

lemma load_startStat: "load f (foldl startStat s fs) = load f s + sum_list (map (\<lambda>x. f (StatFile x)) fs)"
  by (induction fs arbitrary: s) (simp_all add: startStat_def load_acquire ac_simps)

lemma load_startWalk: "load f (foldl startWalk s ds) = load f s + sum_list (map (\<lambda>x. f (ListDir x)) ds)"
  by (induction ds arbitrary: s) (simp_all add: startWalk_def load_acquire ac_simps)

lemma acquire_fields [simp]:
  "w_entries (acquire c s) = w_entries s" "w_dirs (acquire c s) = w_dirs s" "w_files (acquire c s) = w_files s"
  "w_errors (acquire c s) = w_errors s" "w_returned (acquire c s) = w_returned s"
  by (simp_all add: acquire_def)

lemma release_fields [simp]:
  "w_entries (release s) = w_entries s" "w_dirs (release s) = w_dirs s" "w_files (release s) = w_files s"
  "w_errors (release s) = w_errors s" "w_returned (release s) = w_returned s"
  by (simp_all add: release_def split: list.splits)

lemma startStat_fields [simp]:
  "w_entries (foldl startStat s fs) = w_entries s" "w_dirs (foldl startStat s fs) = w_dirs s"
  "w_files (foldl startStat s fs) = w_files s + length fs" "w_errors (foldl startStat s fs) = w_errors s"
  "w_returned (foldl startStat s fs) = w_returned s"
  by (induction fs arbitrary: s) (simp_all add: startStat_def)

lemma startWalk_fields [simp]:
  "w_entries (foldl startWalk s ds) = w_entries s" "w_dirs (foldl startWalk s ds) = w_dirs s + length ds"
  "w_files (foldl startWalk s ds) = w_files s" "w_errors (foldl startWalk s ds) = w_errors s"
  "w_returned (foldl startWalk s ds) = w_returned s"
  by (induction ds arbitrary: s) (simp_all add: startWalk_def)

subsection \<open>The height of the tree\<close>

declare heightBelow.simps(2) [simp del] seqWalk.simps(2) [simp del]

lemma heightBelow_Suc: "heightBelow a n d \<Longrightarrow> heightBelow a (Suc n) d"
proof (induction n arbitrary: d)
  case (Suc n)
  show ?case
    using Suc.prems [unfolded heightBelow.simps(2)] Suc.IH
    by (subst heightBelow.simps(2)) (auto simp: list_all_iff split: option.splits)
qed simp

lemma seqWalk_Suc: "heightBelow a n d \<Longrightarrow> seqWalk a passes (Suc n) d = seqWalk a passes n d"
proof (induction n arbitrary: d)
  case (Suc n)
  have "map (seqWalk a passes (Suc n)) folders = map (seqWalk a passes n) folders" if "wa_list a d = Some (files, folders)" for files folders
    using that Suc.prems by (intro map_cong refl Suc.IH) (auto simp: list_all_iff heightBelow.simps(2))
  then show ?case
    by (subst (1 2) seqWalk.simps(2)) (auto split: option.splits cong: map_cong)
qed simp

subsection \<open>What a call will still contribute\<close>

lemma joinAll_fields [simp]:
  "wr_found (joinAll rs) = concat (map wr_found rs)" "wr_errors (joinAll rs) = concat (map wr_errors rs)"
  "wr_dirs (joinAll rs) = sum_list (map wr_dirs rs)" "wr_files (joinAll rs) = sum_list (map wr_files rs)"
  by (induction rs) (simp_all add: joinAll_def join_def noResult_def)

lemma join_fields [simp]:
  "wr_found (join r s) = wr_found r @ wr_found s" "wr_errors (join r s) = wr_errors r @ wr_errors s"
  "wr_dirs (join r s) = wr_dirs r + wr_dirs s" "wr_files (join r s) = wr_files r + wr_files s"
  by (simp_all add: join_def)

lemma noResult_fields [simp]: "wr_found noResult = []" "wr_errors noResult = []" "wr_dirs noResult = 0" "wr_files noResult = 0"
  by (simp_all add: noResult_def)

fun resultOf :: "walk_adapter \<Rightarrow> (path \<Rightarrow> bool) \<Rightarrow> nat \<Rightarrow> walk_call \<Rightarrow> walk_result" where
  "resultOf a passes n (ListDir d) = seqWalk a passes n d"
| "resultOf a passes n (StatFile f) = statResult a f"

definition opens :: "(walk_call \<Rightarrow> 'a :: comm_monoid_add) \<Rightarrow> path list \<Rightarrow> path list \<Rightarrow> 'a" where
  "opens f files folders = sum_list (map (\<lambda>x. f (StatFile x)) files) + sum_list (map (\<lambda>x. f (ListDir x)) folders)"

lemma resultOf_opens:
  assumes h: "heightBelow a n d" and l: "wa_list a d = Some (files, folders)"
  shows "list_all (heightBelow a n) folders"
    and "mset (wr_found (seqWalk a passes n d)) = opens (\<lambda>c. mset (wr_found (resultOf a passes n c))) (filter passes files) folders"
    and "mset (wr_errors (seqWalk a passes n d)) = opens (\<lambda>c. mset (wr_errors (resultOf a passes n c))) (filter passes files) folders"
    and "wr_dirs (seqWalk a passes n d) = Suc (opens (\<lambda>c. wr_dirs (resultOf a passes n c)) (filter passes files) folders)"
    and "wr_files (seqWalk a passes n d) = opens (\<lambda>c. wr_files (resultOf a passes n c)) (filter passes files) folders"
proof -
  obtain k where n: "n = Suc k"
    using h by (cases n) auto
  have k: "list_all (heightBelow a k) folders"
    using h l by (simp add: n heightBelow.simps(2))
  then show "list_all (heightBelow a n) folders"
    by (auto simp: n list_all_iff intro: heightBelow_Suc)
  have m: "map (seqWalk a passes k) folders = map (seqWalk a passes n) folders"
    using k by (simp add: n list_all_iff seqWalk_Suc)
  have s: "seqWalk a passes n d = join (noResult\<lparr>wr_dirs := 1\<rparr>)
      (join (joinAll (map (statResult a) (filter passes files))) (joinAll (map (seqWalk a passes n) folders)))"
    using l by (subst n) (simp only: seqWalk.simps(2) option.case prod.case m)
  show "mset (wr_found (seqWalk a passes n d)) = opens (\<lambda>c. mset (wr_found (resultOf a passes n c))) (filter passes files) folders"
    "mset (wr_errors (seqWalk a passes n d)) = opens (\<lambda>c. mset (wr_errors (resultOf a passes n c))) (filter passes files) folders"
    "wr_dirs (seqWalk a passes n d) = Suc (opens (\<lambda>c. wr_dirs (resultOf a passes n c)) (filter passes files) folders)"
    "wr_files (seqWalk a passes n d) = opens (\<lambda>c. wr_files (resultOf a passes n c)) (filter passes files) folders"
    by (simp_all add: s opens_def mset_concat comp_def)
qed

lemma load_returned:
  "w_returned s = xs @ c # ys \<Longrightarrow> load f s = f c + load f (s\<lparr>w_returned := xs @ ys\<rparr>)"
  by (simp add: load_def pending_def ac_simps)

lemma load_finish:
  "w_running s = xs @ c # ys \<Longrightarrow> load f (release (s\<lparr>w_running := xs @ ys, w_returned := w_returned s @ [c]\<rparr>)) = load f s"
  by (simp add: load_release) (simp add: load_def pending_def ac_simps)

lemma load_continue:
  "load f (continueCall a passes c s) =
     load f s + (case c of StatFile _ \<Rightarrow> 0 | ListDir d \<Rightarrow>
       (case wa_list a d of None \<Rightarrow> 0 | Some (files, folders) \<Rightarrow> opens f (filter passes files) folders))"
  by (cases c) (simp_all add: load_startStat load_startWalk opens_def ac_simps split: option.splits,
    simp_all add: load_def pending_def)

subsection \<open>The walk finds what the sequential walk finds\<close>

definition dirCount :: "walk_call \<Rightarrow> nat" where
  "dirCount c = (case c of ListDir _ \<Rightarrow> 1 | StatFile _ \<Rightarrow> 0)"

definition fileCount :: "walk_call \<Rightarrow> nat" where
  "fileCount c = (case c of ListDir _ \<Rightarrow> 0 | StatFile _ \<Rightarrow> 1)"

definition heightOk :: "walk_adapter \<Rightarrow> nat \<Rightarrow> walk_call \<Rightarrow> bool" where
  "heightOk a n c = (case c of ListDir d \<Rightarrow> heightBelow a n d | StatFile _ \<Rightarrow> True)"

text \<open>What is done and what is outstanding add up to the sequential walk.\<close>

definition walkInv :: "walk_adapter \<Rightarrow> (path \<Rightarrow> bool) \<Rightarrow> nat \<Rightarrow> walk_result \<Rightarrow> walk_state \<Rightarrow> bool" where
  "walkInv a passes n r s \<longleftrightarrow>
     (\<forall>c \<in># load (\<lambda>c. {#c#}) s. heightOk a n c)
     \<and> dom (w_entries s) \<union> set_mset (load (\<lambda>c. mset (wr_found (resultOf a passes n c))) s) = set (wr_found r)
     \<and> (\<forall>f e. w_entries s f = Some e \<longrightarrow> (\<exists>st. wa_stat a f = Some st \<and> e = entryOf st))
     \<and> mset (w_errors s) + load (\<lambda>c. mset (wr_errors (resultOf a passes n c))) s = mset (wr_errors r)
     \<and> w_dirs s + load (\<lambda>c. wr_dirs (resultOf a passes n c)) s = wr_dirs r + load dirCount s
     \<and> w_files s + load (\<lambda>c. wr_files (resultOf a passes n c)) s = wr_files r + load fileCount s"

lemma opens_counts [simp]: "opens dirCount fs ds = length ds" "opens fileCount fs ds = length fs"
  by (simp_all add: opens_def dirCount_def fileCount_def sum_list_triv)

lemma opens_calls: "set_mset (opens (\<lambda>c. {#c#}) fs ds) = StatFile ` set fs \<union> ListDir ` set ds"
proof -
  have "sum_list (map (\<lambda>x. {#g x#}) xs) = mset (map g xs)" for g :: "path \<Rightarrow> walk_call" and xs
    by (induction xs) simp_all
  then show ?thesis
    by (simp add: opens_def)
qed

lemma walkInv_finish:
  assumes "walkInv a passes n r s" and "w_running s = xs @ c # ys"
  shows "walkInv a passes n r (release (s\<lparr>w_running := xs @ ys, w_returned := w_returned s @ [c]\<rparr>))"
  using assms(1) by (simp add: walkInv_def load_finish [OF assms(2)])

lemma seqWalk_error: "wa_list a d = None \<Longrightarrow> heightBelow a n d \<Longrightarrow> seqWalk a passes n d = noResult\<lparr>wr_errors := [d], wr_dirs := 1\<rparr>"
  by (cases n) (simp_all add: seqWalk.simps(2))

lemma walkInv_continue_list:
  assumes inv: "walkInv a passes n r s" and c: "w_returned s = xs @ ListDir d # ys" and l: "wa_list a d = Some (files, folders)"
  shows "walkInv a passes n r (continueCall a passes (ListDir d) (s\<lparr>w_returned := xs @ ys\<rparr>))"
proof -
  note L = load_returned [OF c]
  have h: "heightBelow a n d"
    using inv by (simp add: walkInv_def L heightOk_def)
  note o = resultOf_opens [OF h l]
  have o1: "\<forall>c \<in># opens (\<lambda>c. {#c#}) (filter passes files) folders. heightOk a n c"
    using o(1) by (auto simp: opens_calls heightOk_def list_all_iff)
  show ?thesis
    using inv o1 l unfolding walkInv_def load_continue
    by (simp add: L o(2-5) dirCount_def [of "ListDir d"] fileCount_def [of "ListDir d"] ac_simps) (auto simp: ball_Un)
qed

lemma walkInv_continue_error:
  assumes inv: "walkInv a passes n r s" and c: "w_returned s = xs @ ListDir d # ys" and l: "wa_list a d = None"
  shows "walkInv a passes n r (continueCall a passes (ListDir d) (s\<lparr>w_returned := xs @ ys\<rparr>))"
proof -
  note L = load_returned [OF c]
  have h: "heightBelow a n d"
    using inv by (simp add: walkInv_def L heightOk_def)
  show ?thesis
    using inv l seqWalk_error [OF l h] unfolding walkInv_def load_continue
    by (simp add: L dirCount_def [of "ListDir d"] fileCount_def [of "ListDir d"])
qed

lemma walkInv_continue_stat:
  assumes inv: "walkInv a passes n r s" and c: "w_returned s = xs @ StatFile f # ys"
  shows "walkInv a passes n r (continueCall a passes (StatFile f) (s\<lparr>w_returned := xs @ ys\<rparr>))"
proof (cases "wa_stat a f")
  case None
  then show ?thesis
    using inv unfolding walkInv_def load_continue
    by (simp add: load_returned [OF c] statResult_def dirCount_def [of "StatFile f"] fileCount_def [of "StatFile f"])
next
  case (Some st)
  then show ?thesis
    using inv unfolding walkInv_def load_continue
    by (simp add: load_returned [OF c] statResult_def dirCount_def [of "StatFile f"] fileCount_def [of "StatFile f"])
qed

lemma walkInv_step: "walk_step a passes s s' \<Longrightarrow> walkInv a passes n r s \<Longrightarrow> walkInv a passes n r s'"
proof (induction rule: walk_step.induct)
  case (finish s xs c ys)
  then show ?case
    by (intro walkInv_finish)
next
  case (resume s xs c ys)
  then show ?case
    using walkInv_continue_list walkInv_continue_error walkInv_continue_stat by (cases c) (metis option.exhaust surj_pair)+
qed

definition remaining :: "walk_adapter \<Rightarrow> (path \<Rightarrow> bool) \<Rightarrow> nat \<Rightarrow> walk_state \<Rightarrow> int" where
  "remaining a passes n s =
     2 * int (load (\<lambda>c. wr_dirs (resultOf a passes n c)) s + load (\<lambda>c. wr_files (resultOf a passes n c)) s) - int (length (w_returned s))"

lemma remaining_step:
  "walk_step a passes s s' \<Longrightarrow> walkInv a passes n r s \<Longrightarrow> remaining a passes n s' = remaining a passes n s - 1"
proof (induction rule: walk_step.induct)
  case (finish s xs c ys)
  then show ?case
    by (simp add: remaining_def load_finish)
next
  case (resume s xs c ys)
  note L = load_returned [OF resume(1)]
  show ?case
  proof (cases c)
    case (ListDir d)
    then have h: "heightBelow a n d"
      using resume by (simp add: walkInv_def L heightOk_def)
    show ?thesis
    proof (cases "wa_list a d")
      case None
      then show ?thesis
        using seqWalk_error [OF None h] resume(1) ListDir unfolding remaining_def load_continue by (simp add: L)
    next
      case (Some l)
      then obtain files folders where l: "wa_list a d = Some (files, folders)"
        by (cases l) simp
      show ?thesis
        using resume(1) ListDir l resultOf_opens(4,5) [OF h l, of passes] unfolding remaining_def load_continue by (simp add: L)
    qed
  next
    case (StatFile f)
    then show ?thesis
      using resume(1) unfolding remaining_def load_continue by (simp add: L statResult_def split: option.splits)
  qed
qed

lemma initial_load: "load f (initialWalk limit root) = f (ListDir root)"
  by (simp add: initialWalk_def startWalk_def load_acquire) (simp add: load_def pending_def)

lemma initial_fields [simp]:
  "w_entries (initialWalk limit root) = Map.empty" "w_dirs (initialWalk limit root) = 1" "w_files (initialWalk limit root) = 0"
  "w_errors (initialWalk limit root) = []" "w_returned (initialWalk limit root) = []"
  by (simp_all add: initialWalk_def startWalk_def)

lemma walkInv_initial:
  "heightBelow a n root \<Longrightarrow> walkInv a passes n (seqWalk a passes n root) (initialWalk limit root)"
  by (simp add: walkInv_def initial_load heightOk_def dirCount_def fileCount_def)

lemma run_inv:
  assumes "heightBelow a n root" and "(walk_step a passes ^^ k) (initialWalk limit root) s"
  shows "slotsOk limit s \<and> walkInv a passes n (seqWalk a passes n root) s
    \<and> remaining a passes n s = 2 * int (wr_dirs (seqWalk a passes n root) + wr_files (seqWalk a passes n root)) - int k"
  using assms(2)
proof (induction k arbitrary: s)
  case 0
  then have "s = initialWalk limit root"
    by simp
  then show ?case
    using assms(1) by (simp add: slotsOk_initial walkInv_initial remaining_def initial_load)
next
  case (Suc k)
  then obtain s1 where "(walk_step a passes ^^ k) (initialWalk limit root) s1" and step: "walk_step a passes s1 s"
    by auto
  with Suc.IH show ?case
    using slotsOk_step [OF step] walkInv_step [OF step] remaining_step [OF step] by fastforce
qed

lemma calls_positive: "heightOk a n c \<Longrightarrow> 1 \<le> wr_dirs (resultOf a passes n c) + wr_files (resultOf a passes n c)"
proof (cases c)
  case (ListDir d)
  moreover assume "heightOk a n c"
  ultimately show ?thesis
    using seqWalk_error [of a d n passes] resultOf_opens(4) [of a n d _ _ passes]
    by (cases "wa_list a d") (auto simp: heightOk_def)
qed (simp add: statResult_def)

lemma load_list: "load (\<lambda>c. {#c#}) s = mset (pending s)"
proof -
  have "sum_list (map (\<lambda>c. {#c#}) xs) = mset xs" for xs :: "walk_call list"
    by (induction xs) simp_all
  then show ?thesis
    by (simp add: load_def)
qed

lemma remaining_done: "walkInv a passes n r s \<Longrightarrow> 0 \<le> remaining a passes n s \<and> (remaining a passes n s = 0 \<longleftrightarrow> walkDone s)"
proof -
  assume inv: "walkInv a passes n r s"
  have "length xs \<le> sum_list (map (\<lambda>c. wr_dirs (resultOf a passes n c)) xs) + sum_list (map (\<lambda>c. wr_files (resultOf a passes n c)) xs)"
    if "\<forall>c \<in> set xs. heightOk a n c" for xs
    using that by (induction xs) (auto dest!: calls_positive [where passes = passes])
  then have le: "length (pending s) \<le> load (\<lambda>c. wr_dirs (resultOf a passes n c)) s + load (\<lambda>c. wr_files (resultOf a passes n c)) s"
    using inv unfolding walkInv_def load_list by (simp add: load_def)
  have "0 < remaining a passes n s" if nd: "\<not> walkDone s"
  proof -
    have "pending s \<noteq> []"
      using nd by (simp add: walkDone_def pending_def) blast
    then have "1 \<le> length (pending s)"
      by (simp add: Suc_le_eq)
    moreover have "length (w_returned s) \<le> length (pending s)"
      by (simp add: pending_def)
    ultimately show ?thesis
      using le by (simp add: remaining_def)
  qed
  moreover have "remaining a passes n s = 0" if "walkDone s"
    using that by (simp add: remaining_def walkDone_def load_def pending_def)
  ultimately show ?thesis
    by force
qed

text \<open>
  (C38) For every adapter whose tree of folders has a finite height, and however its calls finish: at most the given
  number of calls (at least one) runs at a time; the walk is never stuck before it is done; it is done after
  exactly two steps for each call of the sequential walk, so it always ends; and then it has found the files of
  the sequential walk with the right stamps, reported the same unlistable folders, and counted the same calls.
\<close>

theorem parallel_walk_exact:
  assumes "heightBelow a n root" and "(walk_step a passes ^^ k) (initialWalk limit root) s"
  shows "length (w_running s) \<le> max 1 limit
    \<and> (walkDone s \<or> (\<exists>s'. walk_step a passes s s'))
    \<and> k \<le> 2 * (wr_dirs (seqWalk a passes n root) + wr_files (seqWalk a passes n root))
    \<and> (walkDone s \<longleftrightarrow> k = 2 * (wr_dirs (seqWalk a passes n root) + wr_files (seqWalk a passes n root)))
    \<and> (walkDone s \<longrightarrow> dom (w_entries s) = set (wr_found (seqWalk a passes n root))
        \<and> (\<forall>f \<in> dom (w_entries s). \<exists>st. wa_stat a f = Some st \<and> w_entries s f = Some (entryOf st))
        \<and> mset (w_errors s) = mset (wr_errors (seqWalk a passes n root))
        \<and> w_dirs s = wr_dirs (seqWalk a passes n root) \<and> w_files s = wr_files (seqWalk a passes n root))"
proof -
  note i = run_inv [OF assms]
  have r: "0 \<le> remaining a passes n s" "remaining a passes n s = 0 \<longleftrightarrow> walkDone s"
    using remaining_done i by blast+
  have "load f s = 0" if "walkDone s" for f :: "walk_call \<Rightarrow> nat"
    using that by (simp add: walkDone_def load_def pending_def)
  moreover have "load f s = {#}" if "walkDone s" for f :: "walk_call \<Rightarrow> path multiset"
    using that by (simp add: walkDone_def load_def pending_def)
  ultimately have "walkDone s \<longrightarrow> dom (w_entries s) = set (wr_found (seqWalk a passes n root))
        \<and> (\<forall>f \<in> dom (w_entries s). \<exists>st. wa_stat a f = Some st \<and> w_entries s f = Some (entryOf st))
        \<and> mset (w_errors s) = mset (wr_errors (seqWalk a passes n root))
        \<and> w_dirs s = wr_dirs (seqWalk a passes n root) \<and> w_files s = wr_files (seqWalk a passes n root)"
    using i by (auto simp: walkInv_def dom_def)
  moreover have "length (w_running s) \<le> max 1 limit"
    using i by (auto simp: slotsOk_def)
  moreover have "walkDone s \<or> (\<exists>s'. walk_step a passes s s')"
    using i walk_progress by blast
  moreover have "k \<le> 2 * (wr_dirs (seqWalk a passes n root) + wr_files (seqWalk a passes n root))"
    "walkDone s \<longleftrightarrow> k = 2 * (wr_dirs (seqWalk a passes n root) + wr_files (seqWalk a passes n root))"
    using i r by linarith+
  ultimately show ?thesis
    by blast
qed

definition lockedAdapter :: walk_adapter where
  "lockedAdapter = \<lparr>wa_list = (\<lambda>d. None), wa_stat = (\<lambda>f. None)\<rparr>"

definition lockedEnd :: walk_state where
  "lockedEnd = \<lparr>w_avail = 4, w_queue = [], w_running = [], w_returned = [], w_entries = Map.empty,
     w_dirs = 1, w_files = 0, w_errors = [''.obsidian'']\<rparr>"

theorem parallel_walk_exact_witness:
  "(walk_step lockedAdapter (\<lambda>p. True) ^^ 2) (initialWalk 4 ''.obsidian'') lockedEnd
   \<and> walkDone lockedEnd \<and> mset (w_errors lockedEnd) = {#''.obsidian''#}"
proof -
  define s0 where "s0 = initialWalk 4 ''.obsidian''"
  define s1 where "s1 = release (s0\<lparr>w_running := [], w_returned := [ListDir ''.obsidian'']\<rparr>)"
  have "walk_step lockedAdapter (\<lambda>p. True) s0 s1"
    using walk_step.finish [of s0 "[]" "ListDir ''.obsidian''" "[]" lockedAdapter]
    by (simp add: s0_def s1_def initialWalk_def startWalk_def acquire_def)
  moreover have "walk_step lockedAdapter (\<lambda>p. True) s1 lockedEnd"
    using walk_step.resume [of s1 "[]" "ListDir ''.obsidian''" "[]" lockedAdapter "\<lambda>p. True"]
    by (simp add: s0_def s1_def initialWalk_def startWalk_def acquire_def release_def lockedAdapter_def lockedEnd_def)
  ultimately have run: "(walk_step lockedAdapter (\<lambda>p. True) ^^ 2) (initialWalk 4 ''.obsidian'') lockedEnd"
    unfolding s0_def [symmetric] numeral_2_eq_2 by (auto intro!: relcomppI)
  moreover have "heightBelow lockedAdapter 1 ''.obsidian''"
    by (simp add: lockedAdapter_def heightBelow.simps)
  moreover have "seqWalk lockedAdapter (\<lambda>p. True) 1 ''.obsidian'' = noResult\<lparr>wr_errors := [''.obsidian''], wr_dirs := 1\<rparr>"
    by (simp add: lockedAdapter_def seqWalk.simps)
  ultimately show ?thesis
    using parallel_walk_exact [where a = lockedAdapter and n = 1 and root = "''.obsidian''" and passes = "\<lambda>p. True" and k = 2
        and limit = 4 and s = lockedEnd] by simp
qed

end
