(* ===== verification/Session.thy ===== *)
theory Session
  imports Transport Recipe Passes SyncEngine
begin

text \<open>
  The session of the plugin, in \<open>client/src/main.ts\<close>: tokens and silent sign-in, the compatibility check of
  the server, the grants of shared vaults, the phase of a connect that establishes a session, and the actions
  on the account; with the decisions of \<open>connectdecisions.ts\<close>, \<open>wizardsteps.ts\<close> and \<open>stall.ts\<close>.

  The state is the plugin's: its settings, the state of the synchronisation, and the fields that the session
  uses (of the notices, those that it raises itself). What is written to \<open>data.json\<close> is \<open>cl_saved\<close>, and what the engine is asked to do is \<open>cl_enqueued\<close>,
  both newest first. For the token, the owner and the key of
  the base, \<open>undefined\<close> is the empty string, which every reader treats alike. An issue shown to the user is a
  value of a datatype in place of its wording. One operation runs at a time, as on the engine's queue, so the
  sharing of a sign-in that is under way does not appear. The server's token is a text; of another value in
  its place nothing is used.
\<close>

subsection \<open>Decisions of a connect\<close>

definition vaultKeyMismatch :: "string \<Rightarrow> string \<Rightarrow> string \<Rightarrow> bool" where
  "vaultKeyMismatch storedKey currentKey historyKey =
     (if CHR ''|'' \<in> set storedKey then storedKey \<noteq> currentKey else storedKey \<noteq> historyKey)"

definition switchAlreadyApplied :: "switch_mode option \<Rightarrow> string \<Rightarrow> string \<Rightarrow> bool \<Rightarrow> bool" where
  "switchAlreadyApplied pendingSwitch baseVaultKey currentKey baseNonEmpty \<longleftrightarrow>
     pendingSwitch \<noteq> None \<and> baseVaultKey = currentKey \<and> baseNonEmpty"

datatype resume_action = ResumeConnect | ResumeReassess

definition resumeAction :: "engine_state \<Rightarrow> resume_action" where
  "resumeAction st = (if st = Disconnected then ResumeConnect else ResumeReassess)"

datatype stall_verdict = StallNone | StallThrottled | StallStalled

definition stallVerdict :: "int \<Rightarrow> bool \<Rightarrow> int \<Rightarrow> stall_verdict" where
  "stallVerdict lateMs windowHidden warnMs =
     (if lateMs < warnMs then StallNone else if windowHidden then StallThrottled else StallStalled)"

subsection \<open>Settings and state\<close>

record settings =
  se_serverUrl :: string
  se_username :: string
  se_password :: string
  se_storePassword :: bool
  se_authToken :: string
  se_deviceId :: string
  se_vaultId :: string
  se_vaultOwner :: string
  se_vaultReadOnly :: bool
  se_pendingSwitch :: "switch_mode option"
  se_baseVaultKey :: string
  se_historyFloors :: "(string \<times> int) list"
  se_lastVersions :: "(string \<times> int) list"
  se_mounts :: "mount list"

datatype wire_refusal =
    NoSignature | SignatureUnavailable | HashSkew string string | IncompatibleWire "delta_reason list" older_side

datatype issue =
    AccessRemoved string string | ServerSays string | WireRefused wire_refusal | VaultDamaged | Unreachable string
  | MergingSafely | HistoryReset "path list" | DeletionsHeld nat

record 'w client =
  cl_settings :: settings
  cl_sync :: "'w sync_state"
  cl_api :: "transport option"
  cl_sessionToken :: string
  cl_verifiedWireHash :: "string option"
  cl_lastIssue :: "issue option"
  cl_toasts :: "issue list"
  cl_versionNoticeShown :: bool
  cl_shareRevokedNotified :: bool
  cl_sourceGrants :: "(string \<times> share_perm) list"
  cl_vaultIsPrivate :: bool
  cl_setupOpen :: bool
  cl_pendingBulkDeletes :: "(string \<times> path list) list"
  cl_lastConfigScanAt :: int
  cl_lastFullScanAt :: int
  cl_enqueued :: "engine_event list"
  cl_saved :: "settings list"

text \<open>What the plugin is given: the network, the signature it was compiled against, and its device's names.\<close>

record 'w shell =
  sh_net :: "'w net"
  sh_embedded :: signature
  sh_randomUuid :: "'w \<Rightarrow> string \<times> 'w"
  sh_deviceLabel :: string

type_synonym ('w, 'a) act = "('w client, 'a) http"

definition modC :: "('w client \<Rightarrow> 'w client) \<Rightarrow> ('w, unit) act" where
  "modC f = (\<lambda>c. (Inr (), f c))"

definition modSet :: "(settings \<Rightarrow> settings) \<Rightarrow> ('w, unit) act" where
  "modSet f = modC (\<lambda>c. c\<lparr>cl_settings := f (cl_settings c)\<rparr>)"

definition getC :: "('w client \<Rightarrow> 'a) \<Rightarrow> ('w, 'a) act" where
  "getC f = (\<lambda>c. (Inr (f c), c))"

definition getSet :: "(settings \<Rightarrow> 'a) \<Rightarrow> ('w, 'a) act" where
  "getSet f = getC (\<lambda>c. f (cl_settings c))"

definition catchC :: "('w, 'a) act \<Rightarrow> (http_error \<Rightarrow> ('w, 'a) act) \<Rightarrow> ('w, 'a) act" where
  "catchC m h = (\<lambda>c. case m c of (Inr x, c1) \<Rightarrow> (Inr x, c1) | (Inl e, c1) \<Rightarrow> h e c1)"

definition throwC :: "http_error \<Rightarrow> ('w, 'a) act" where
  "throwC e = (\<lambda>c. (Inl e, c))"

text \<open>A call of the transport, and a pass of the reconciliation, within the plugin's state.\<close>

definition onWorld :: "('w, 'a) http \<Rightarrow> ('w, 'a) act" where
  "onWorld m = (\<lambda>c. case m (world (cl_sync c)) of (r, w) \<Rightarrow> (r, c\<lparr>cl_sync := (cl_sync c)\<lparr>world := w\<rparr>\<rparr>))"

fun ofErr :: "err \<Rightarrow> http_error" where
  "ofErr e = (case e_kind e of ConnError info \<Rightarrow> ConnErr (e_msg e) info | _ \<Rightarrow> PlainErr e)"

definition onSync :: "('w, 'a) prog \<Rightarrow> ('w, 'a) act" where
  "onSync m = (\<lambda>c. case m (cl_sync c) of
     (Inr x, s) \<Rightarrow> (Inr x, c\<lparr>cl_sync := s\<rparr>) | (Inl e, s) \<Rightarrow> (Inl (ofErr e), c\<lparr>cl_sync := s\<rparr>))"

definition saveSettings :: "('w, unit) act" where
  "saveSettings = modC (\<lambda>c. c\<lparr>cl_saved := cl_settings c # cl_saved c\<rparr>)"

text \<open>\<open>log\<close> of an issue that is also shown on the card; the flag asks for a toast.\<close>

definition raiseIssue :: "issue \<Rightarrow> bool \<Rightarrow> ('w, unit) act" where
  "raiseIssue i toast = modC (\<lambda>c. c\<lparr>cl_lastIssue := Some i, cl_toasts := (if toast then i # cl_toasts c else cl_toasts c)\<rparr>)"

subsection \<open>Tokens\<close>

definition typedErr :: "string \<Rightarrow> synthetic_kind option \<Rightarrow> endpoint \<Rightarrow> http_error" where
  "typedErr m syn ep =
     ConnErr m \<lparr>status = None, retryAfterSecs = None, wasLogin = False, endpoint = ep, synthetic = syn, bodyHint = None,
       hasStoredPassword = False\<rparr>"

definition tokenText :: "jval \<Rightarrow> string" where
  "tokenText v = (case v of VStr u \<Rightarrow> ofUnits u | _ \<Rightarrow> '''')"

definition openSetup :: "('w, unit) act" where
  "openSetup = modC (\<lambda>c. c\<lparr>cl_setupOpen := True\<rparr>)"

definition setAuthToken :: "string \<Rightarrow> ('w, unit) act" where
  "setAuthToken token = thenH (modSet (\<lambda>s. s\<lparr>se_authToken := token\<rparr>)) (\<lambda>_. saveSettings)"

definition loginRemote :: "'w shell \<Rightarrow> ('w, string) act" where
  "loginRemote sh =
     thenH (getSet id) (\<lambda>s.
     thenH (onWorld (login (sh_net sh) (se_serverUrl s) (se_username s) (se_password s))) (\<lambda>(token, _).
     retH (tokenText token)))"

definition freshLogin :: "'w shell \<Rightarrow> ('w, string) act" where
  "freshLogin sh =
     thenH (getSet se_password) (\<lambda>password.
     if password = '''' then
       thenH openSetup (\<lambda>_.
       throwC (typedErr ''session expired - please re-enter your password in setup'' (Some SynSessionExpired) OtherEp))
     else
       thenH (loginRemote sh) (\<lambda>token.
       thenH (modSet (\<lambda>s. if se_storePassword s then s else s\<lparr>se_password := ''''\<rparr>)) (\<lambda>_.
       thenH (setAuthToken token) (\<lambda>_. retH token))))"

definition acquireToken :: "'w shell \<Rightarrow> ('w, string) act" where
  "acquireToken sh =
     thenH (getSet se_authToken) (\<lambda>token. if token \<noteq> '''' then retH token else freshLogin sh)"

fun isAuthError :: "http_error \<Rightarrow> bool" where
  "isAuthError (ConnErr m info) \<longleftrightarrow> status info = Some 401"
| "isAuthError (PlainErr e) \<longleftrightarrow> searchBy (\<lambda>r. startsWith r ''HTTP 401'') (e_msg e)"

definition storedPassword :: "settings \<Rightarrow> bool" where
  "storedPassword s \<longleftrightarrow> se_storePassword s \<and> se_password s \<noteq> ''''"

definition withAuth :: "'w shell \<Rightarrow> (string \<Rightarrow> ('w, 'a) act) \<Rightarrow> ('w, 'a) act" where
  "withAuth sh f =
     thenH (acquireToken sh) (\<lambda>token.
     catchC (f token) (\<lambda>e.
       if \<not> isAuthError e then throwC e
       else
         thenH (modSet (\<lambda>s. s\<lparr>se_authToken := ''''\<rparr>)) (\<lambda>_.
         thenH (freshLogin sh) f)))"

definition deviceIdC :: "'w shell \<Rightarrow> ('w, string) act" where
  "deviceIdC sh =
     thenH (getSet se_deviceId) (\<lambda>d.
     if d \<noteq> '''' then retH d
     else
       thenH (onWorld (\<lambda>w. case sh_randomUuid sh w of (u, w1) \<Rightarrow> (Inr u, w1))) (\<lambda>u.
       thenH (modSet (\<lambda>s. s\<lparr>se_deviceId := u\<rparr>)) (\<lambda>_.
       thenH saveSettings (\<lambda>_. retH u))))"

definition buildApi :: "'w shell \<Rightarrow> string \<Rightarrow> ('w, transport) act" where
  "buildApi sh token =
     thenH (deviceIdC sh) (\<lambda>d.
     thenH (getSet id) (\<lambda>s.
     checkH (newTransport (sh_net sh)
       \<lparr>t_baseUrl = se_serverUrl s, t_token = token, t_vault = (if se_vaultId s = '''' then ''default'' else se_vaultId s),
        t_owner = se_vaultOwner s, t_deviceId = d, t_deviceName = sh_deviceLabel sh\<rparr>)))"

definition useApi :: "'w shell \<Rightarrow> string \<Rightarrow> ('w, transport) act" where
  "useApi sh token =
     thenH (buildApi sh token) (\<lambda>t. thenH (modC (\<lambda>c. c\<lparr>cl_api := Some t\<rparr>)) (\<lambda>_. retH t))"

definition withSyncRelogin :: "'w shell \<Rightarrow> ('w, 'a) act \<Rightarrow> ('w, 'a) act" where
  "withSyncRelogin sh f =
     catchC f (\<lambda>e.
       thenH (getSet storedPassword) (\<lambda>stored.
       if \<not> isAuthError e \<or> \<not> stored then throwC e
       else
         thenH (modSet (\<lambda>s. s\<lparr>se_authToken := ''''\<rparr>)) (\<lambda>_.
         thenH (freshLogin sh) (\<lambda>t.
         thenH (useApi sh t) (\<lambda>_. f)))))"

subsection \<open>Grants\<close>

definition isOwnAccount :: "settings \<Rightarrow> string \<Rightarrow> bool" where
  "isOwnAccount s owner =
     (let a = toLowerCase (trim owner) in a \<noteq> '''' \<and> a = toLowerCase (trim (se_username s)))"

definition grantTriples :: "shared_vault_ref list \<Rightarrow> (string \<times> string \<times> string) list" where
  "grantTriples refs = map (\<lambda>r. (sv_owner r, sv_vault r, permStr (sv_perm r))) refs"

definition refreshShareGrant :: "'w shell \<Rightarrow> string \<Rightarrow> ('w, unit) act" where
  "refreshShareGrant sh token =
     thenH (getSet id) (\<lambda>s.
     if se_vaultOwner s = '''' then retH ()
     else if isOwnAccount s (se_vaultOwner s) then
       thenH (modSet (\<lambda>s. s\<lparr>se_vaultOwner := '''', se_vaultReadOnly := False\<rparr>)) (\<lambda>_. saveSettings)
     else
       thenH (onWorld (listShared (sh_net sh) (se_serverUrl s) token)) (\<lambda>grants.
       case resolveShareGrant (grantTriples grants) (se_vaultOwner s) (se_vaultId s) of
         GrantRevoked \<Rightarrow>
           thenH (getC cl_shareRevokedNotified) (\<lambda>notified.
           thenH (raiseIssue (AccessRemoved (se_vaultOwner s) (se_vaultId s)) (\<not> notified)) (\<lambda>_.
           thenH (modC (\<lambda>c. c\<lparr>cl_shareRevokedNotified := True\<rparr>)) (\<lambda>_.
           failH ''share access revoked'')))
       | g \<Rightarrow>
           thenH (modC (\<lambda>c. c\<lparr>cl_shareRevokedNotified := False\<rparr>)) (\<lambda>_.
           case g of
             GrantActive readOnly \<Rightarrow>
               if readOnly \<noteq> se_vaultReadOnly s then
                 thenH (modSet (\<lambda>s. s\<lparr>se_vaultReadOnly := readOnly\<rparr>)) (\<lambda>_. saveSettings)
               else retH ()
           | _ \<Rightarrow> retH ())))"

definition grantKey :: "string \<Rightarrow> string \<Rightarrow> string" where
  "grantKey owner vault = owner @ ''/'' @ vault"

definition refreshSourceGrants :: "'w shell \<Rightarrow> string \<Rightarrow> ('w, unit) act" where
  "refreshSourceGrants sh token =
     thenH (getSet id) (\<lambda>s.
     if \<not> list_ex (\<lambda>m. ms_owner (mt_source m) \<noteq> '''') (se_mounts s)
     then modC (\<lambda>c. c\<lparr>cl_sourceGrants := []\<rparr>)
     else
       catchC
         (thenH (onWorld (listShared (sh_net sh) (se_serverUrl s) token)) (\<lambda>grants.
          modC (\<lambda>c. c\<lparr>cl_sourceGrants :=
            foldl (\<lambda>m g. AList.update (grantKey (sv_owner g) (sv_vault g)) (sv_perm g) m) [] grants\<rparr>)))
         (\<lambda>_. retH ()))"

definition mountSourceReadOnly :: "'w client \<Rightarrow> mount \<Rightarrow> bool" where
  "mountSourceReadOnly c m =
     (if ms_owner (mt_source m) = '''' then False
      else map_of (cl_sourceGrants c) (grantKey (ms_owner (mt_source m)) (ms_vaultId (mt_source m))) \<noteq> Some PermReadWrite)"

subsection \<open>The wire contract\<close>

datatype compat = CompatOk | CompatRefused wire_refusal

definition checkWireCompat :: "'w shell \<Rightarrow> transport \<Rightarrow> string option \<Rightarrow> ('w, compat) act" where
  "checkWireCompat sh t serverHash =
     thenH (getC cl_verifiedWireHash) (\<lambda>verified.
     case hashCheck serverHash verified of
       HashCompatible \<Rightarrow> retH CompatOk
     | HashFailClosed \<Rightarrow> retH (CompatRefused NoSignature)
     | HashNeedsDiff \<Rightarrow>
         thenH
           (catchC (thenH (onWorld (tr_schema (sh_net sh) t)) (\<lambda>sr. retH (Some sr))) (\<lambda>_. retH None)) (\<lambda>got.
           case got of
             None \<Rightarrow> retH (CompatRefused SignatureUnavailable)
           | Some sr \<Rightarrow>
               if Some (sr_hash sr) \<noteq> serverHash
               then retH (CompatRefused (HashSkew (sr_hash sr) (case serverHash of Some h \<Rightarrow> h | None \<Rightarrow> [])))
               else case signatureVerdict (sh_embedded sh) (sr_signature sr) of
                 VerdictOk \<Rightarrow>
                   thenH (modC (\<lambda>c. c\<lparr>cl_verifiedWireHash := serverHash\<rparr>)) (\<lambda>_. retH CompatOk)
               | VerdictBad reasons older \<Rightarrow> retH (CompatRefused (IncompatibleWire reasons older))))"

fun refusalDetail :: "wire_refusal \<Rightarrow> string" where
  "refusalDetail NoSignature = ''server advertises no wire signature''"
| "refusalDetail SignatureUnavailable = ''wire signature unavailable or malformed''"
| "refusalDetail (HashSkew schema stat) = ''wire signature hash skew (/schema '' @ schema @ '' vs /status '' @ stat @ '')''"
| "refusalDetail (IncompatibleWire reasons older) = ''incompatible wire contract''"

subsection \<open>Establishing a session\<close>

fun errMessage :: "http_error \<Rightarrow> string" where
  "errMessage (PlainErr e) = e_msg e"
| "errMessage (ConnErr m info) = m"

fun errStatus :: "http_error \<Rightarrow> int option" where
  "errStatus (PlainErr e) = None"
| "errStatus (ConnErr m info) = status info"

definition startSession :: "'w shell \<Rightarrow> string \<Rightarrow> ('w, transport) act" where
  "startSession sh token =
     thenH (useApi sh token) (\<lambda>t.
     thenH (modC (\<lambda>c. c\<lparr>cl_sessionToken := token\<rparr>)) (\<lambda>_. retH t))"

definition vaultHealth :: "'w shell \<Rightarrow> string \<Rightarrow> ('w, string \<times> transport \<times> status_response) act" where
  "vaultHealth sh token =
     thenH (startSession sh token) (\<lambda>t.
     catchC (thenH (onWorld (tr_status (sh_net sh) t)) (\<lambda>h. retH (token, t, h))) (\<lambda>e.
       if errStatus e = Some 503 then
         thenH (modC (\<lambda>c. c\<lparr>cl_lastIssue := Some (ServerSays (errMessage e))\<rparr>)) (\<lambda>_.
         throwC (typedErr (errMessage e) (Some SynServerDegraded) VaultStatus))
       else if \<not> isAuthError e then throwC e
       else
         thenH (modSet (\<lambda>s. s\<lparr>se_authToken := []\<rparr>)) (\<lambda>_.
         thenH (freshLogin sh) (\<lambda>fresh.
         thenH (startSession sh fresh) (\<lambda>t1.
         thenH (onWorld (tr_status (sh_net sh) t1)) (\<lambda>h. retH (fresh, t1, h)))))))"

definition requireCompat :: "'w shell \<Rightarrow> transport \<Rightarrow> status_response \<Rightarrow> ('w, unit) act" where
  "requireCompat sh t health =
     thenH (checkWireCompat sh t (st_schemaHash health)) (\<lambda>compat.
     case compat of
       CompatRefused why \<Rightarrow>
         thenH (getC cl_versionNoticeShown) (\<lambda>shown.
         thenH (raiseIssue (WireRefused why) (\<not> shown)) (\<lambda>_.
         thenH (modC (\<lambda>c. c\<lparr>cl_versionNoticeShown := True\<rparr>)) (\<lambda>_.
         throwC (typedErr (refusalDetail why) (Some SynVersionMismatch) OtherEp))))
     | CompatOk \<Rightarrow> modC (\<lambda>c. c\<lparr>cl_versionNoticeShown := False\<rparr>))"

definition requireReady :: "status_response \<Rightarrow> ('w, unit) act" where
  "requireReady health =
     (if st_status health \<noteq> ''ready'' then
        thenH (raiseIssue VaultDamaged False) (\<lambda>_.
        throwC (typedErr ''server vault not ready (reindex needed)'' (Some SynServerDegraded) OtherEp))
      else retH ())"

definition establishSession :: "'w shell \<Rightarrow> ('w, unit) act" where
  "establishSession sh =
     thenH (acquireToken sh) (\<lambda>token.
     thenH (vaultHealth sh token) (\<lambda>(active, t, health).
     thenH (requireCompat sh t health) (\<lambda>_.
     thenH (requireReady health) (\<lambda>_.
     thenH (refreshShareGrant sh active) (\<lambda>_.
     refreshSourceGrants sh active)))))"

subsection \<open>The account\<close>

definition enqueueC :: "engine_event \<Rightarrow> ('w, unit) act" where
  "enqueueC e = modC (\<lambda>c. c\<lparr>cl_enqueued := e # cl_enqueued c\<rparr>)"

definition reconnect :: "('w, unit) act" where
  "reconnect = enqueueC EvConnect"

definition disconnect :: "('w, unit) act" where
  "disconnect =
     thenH (modSet (\<lambda>s. s\<lparr>se_vaultId := ''''\<rparr>)) (\<lambda>_.
     thenH (modC (\<lambda>c. c\<lparr>cl_lastIssue := None\<rparr>)) (\<lambda>_.
     thenH saveSettings (\<lambda>_. enqueueC EvDisconnect)))"

definition signOut :: "('w, unit) act" where
  "signOut = thenH (modSet (\<lambda>s. s\<lparr>se_authToken := '''', se_password := ''''\<rparr>)) (\<lambda>_. disconnect)"

definition onServer :: "'w shell \<Rightarrow> ('w net \<Rightarrow> string \<Rightarrow> string \<Rightarrow> ('w, 'a) http) \<Rightarrow> ('w, 'a) act" where
  "onServer sh call =
     withAuth sh (\<lambda>t. thenH (getSet se_serverUrl) (\<lambda>url. onWorld (call (sh_net sh) url t)))"

definition currentVaults :: "'w shell \<Rightarrow> ('w, jval) act" where
  "currentVaults sh = onServer sh listVaults"

definition createRemoteVault :: "'w shell \<Rightarrow> string \<Rightarrow> ('w, unit) act" where
  "createRemoteVault sh name = onServer sh (\<lambda>net url t. createVault net url t name)"

definition switchToVault :: "string \<Rightarrow> switch_mode \<Rightarrow> string \<Rightarrow> bool \<Rightarrow> ('w, unit) act" where
  "switchToVault name mode owner readOnly =
     thenH (modSet (\<lambda>s. s\<lparr>se_vaultId := name, se_vaultOwner := owner, se_vaultReadOnly := readOnly,
       se_pendingSwitch := Some mode\<rparr>)) (\<lambda>_.
     thenH saveSettings (\<lambda>_. reconnect))"

definition forkVault :: "'w shell \<Rightarrow> string \<Rightarrow> ('w, unit) act" where
  "forkVault sh name =
     thenH (createRemoteVault sh name) (\<lambda>_. switchToVault name SwitchUpload '''' False)"

definition listSharedVaults :: "'w shell \<Rightarrow> ('w, shared_vault_ref list) act" where
  "listSharedVaults sh = onServer sh listShared"

definition changeOwnPassword :: "'w shell \<Rightarrow> string \<Rightarrow> string \<Rightarrow> ('w, unit) act" where
  "changeOwnPassword sh current newPassword =
     thenH (acquireToken sh) (\<lambda>token.
     thenH (getSet se_serverUrl) (\<lambda>url.
     thenH (onWorld (changePassword (sh_net sh) url token current newPassword)) (\<lambda>fresh.
     thenH (modSet (\<lambda>s. s\<lparr>se_authToken := tokenText fresh\<rparr>)) (\<lambda>_.
     thenH (modSet (\<lambda>s. if se_storePassword s then s\<lparr>se_password := newPassword\<rparr> else s)) (\<lambda>_.
     saveSettings)))))"

definition myVaultShares :: "'w shell \<Rightarrow> ('w, vault_shares list) act" where
  "myVaultShares sh = onServer sh myVaults"

definition ownShareLinks :: "'w shell \<Rightarrow> ('w, share_link_info list) act" where
  "ownShareLinks sh = onServer sh listShareLinks"

definition refreshVaultPrivacy :: "'w shell \<Rightarrow> ('w, unit) act" where
  "refreshVaultPrivacy sh =
     thenH (getSet se_vaultOwner) (\<lambda>owner.
     if owner \<noteq> '''' then modC (\<lambda>c. c\<lparr>cl_vaultIsPrivate := False\<rparr>)
     else
       catchC
         (thenH (myVaultShares sh) (\<lambda>shares.
          thenH (getSet se_vaultId) (\<lambda>vault.
          let hasRwGrant = (case List.find (\<lambda>v. vs_vault v = vault) shares of
                              None \<Rightarrow> False | Some v \<Rightarrow> list_ex (\<lambda>(_, perm). perm = PermReadWrite) (vs_grants v)) in
          thenH (ownShareLinks sh) (\<lambda>links.
          thenH (getSet se_vaultId) (\<lambda>vault.
          let hasRwLink = list_ex (\<lambda>l. sl_vault l = vault \<and> sl_perm l = PermReadWrite) links in
          modC (\<lambda>c. c\<lparr>cl_vaultIsPrivate := \<not> hasRwGrant \<and> \<not> hasRwLink\<rparr>))))))
         (\<lambda>_. modC (\<lambda>c. c\<lparr>cl_vaultIsPrivate := False\<rparr>)))"

definition unshareVault :: "'w shell \<Rightarrow> string \<Rightarrow> string \<Rightarrow> ('w, unit) act" where
  "unshareVault sh vault grantee =
     thenH (onServer sh (\<lambda>net url t. shareDelete net url t vault grantee)) (\<lambda>_. refreshVaultPrivacy sh)"

definition makeShareLink :: "'w shell \<Rightarrow> string \<Rightarrow> share_perm \<Rightarrow> string \<Rightarrow> nat option \<Rightarrow> ('w, string) act" where
  "makeShareLink sh vault perm label ttlSecs =
     thenH (onServer sh (\<lambda>net url t. createShareLink net url t vault perm label ttlSecs)) (\<lambda>linkToken.
     thenH (refreshVaultPrivacy sh) (\<lambda>_.
     thenH (getSet se_serverUrl) (\<lambda>url.
     checkH (encodeShareLink (n_URL (sh_net sh)) (n_enc (sh_net sh))
       \<lparr>tl_server = url, tl_token = tokenText linkToken\<rparr>))))"

definition dropShareLink :: "'w shell \<Rightarrow> string \<Rightarrow> ('w, unit) act" where
  "dropShareLink sh lid =
     thenH (onServer sh (\<lambda>net url t. revokeShareLink net url t lid)) (\<lambda>_. refreshVaultPrivacy sh)"

definition redeemLink :: "'w shell \<Rightarrow> (bytes \<Rightarrow> utext) \<Rightarrow> string \<Rightarrow> ('w, shared_vault_ref) act" where
  "redeemLink sh dec shareLink =
     thenH (checkH (parseShareLink (n_URL (sh_net sh)) (n_enc (sh_net sh)) dec shareLink)) (\<lambda>parsed.
     thenH (getSet se_serverUrl) (\<lambda>url.
     case redeemTargetError (n_URL (sh_net sh)) (tl_server parsed) url of
       Some m \<Rightarrow> failH m
     | None \<Rightarrow> onServer sh (\<lambda>net url t. redeemShareLink net url t (tl_token parsed))))"

definition leaveSharedVault :: "'w shell \<Rightarrow> string \<Rightarrow> string \<Rightarrow> ('w, unit) act" where
  "leaveSharedVault sh owner vault =
     thenH (onServer sh (\<lambda>net url t. leaveShare net url t owner vault)) (\<lambda>_.
     thenH (getSet id) (\<lambda>s.
     if se_vaultOwner s = owner \<and> se_vaultId s = vault then disconnect else retH ()))"

definition recreateVault :: "'w shell \<Rightarrow> ('w, unit) act" where
  "recreateVault sh =
     thenH (getSet se_vaultId) (\<lambda>vault.
     catchC (thenH (createRemoteVault sh vault) (\<lambda>_. reconnect)) (\<lambda>_. retH ()))"

text \<open>Whether there is something local: what the listing gives, and nothing when it fails.\<close>

definition hasLocalData :: "'w vault_io \<Rightarrow> ('w, bool) act" where
  "hasLocalData io = catchC (thenH (onWorld (\<lambda>w. case io_list io w of
     (Inl e, w1) \<Rightarrow> (Inl (ofErr e), w1) | (Inr fs, w1) \<Rightarrow> (Inr fs, w1))) (\<lambda>fs. retH (fs \<noteq> []))) (\<lambda>_. retH False)"

subsection \<open>The setup wizard\<close>

definition sanitizeVaultName :: "string \<Rightarrow> string" where
  "sanitizeVaultName name = toLowerCase (trim name)"

definition vaultChar :: "char \<Rightarrow> bool" where
  "vaultChar c \<longleftrightarrow> isDigit c \<or> (CHR ''a'' \<le> c \<and> c \<le> CHR ''z'') \<or> c \<in> set ''._-''"

definition isValidVaultName :: "string \<Rightarrow> bool" where
  "isValidVaultName name \<longleftrightarrow>
     list_all vaultChar name \<and> 1 \<le> length name \<and> length name \<le> 64 \<and> name \<noteq> ''.'' \<and> name \<noteq> ''..''"

record wizard =
  wz_server :: string
  wz_username :: string
  wz_password :: string
  wz_loggedIn :: bool
  wz_vaults :: "string list"
  wz_chosenVault :: string
  wz_newVault :: string
  wz_token :: string

definition canLogIn :: "wizard \<Rightarrow> bool" where
  "canLogIn s \<longleftrightarrow> wz_server s \<noteq> '''' \<and> wz_username s \<noteq> '''' \<and> wz_password s \<noteq> ''''"

definition canFinish :: "wizard \<Rightarrow> bool" where
  "canFinish s \<longleftrightarrow> wz_loggedIn s \<and> (wz_chosenVault s \<noteq> '''' \<or> trim (wz_newVault s) \<noteq> '''')"

record credentials =
  cr_serverUrl :: string
  cr_username :: string
  cr_password :: string
  cr_vaultId :: string
  cr_authToken :: string

definition wizardCredentials :: "wizard \<Rightarrow> string \<Rightarrow> string \<Rightarrow> bool \<Rightarrow> credentials" where
  "wizardCredentials s vault token storePassword =
     \<lparr>cr_serverUrl = wz_server s, cr_username = wz_username s,
      cr_password = (if storePassword then wz_password s else ''''), cr_vaultId = vault, cr_authToken = token\<rparr>"

definition persistSession :: "wizard \<Rightarrow> ('w, unit) act" where
  "persistSession wz = modSet (\<lambda>s. s\<lparr>se_serverUrl := wz_server wz, se_username := toLowerCase (trim (wz_username wz)),
     se_authToken := wz_token wz, se_password := (if se_storePassword s then wz_password wz else '''')\<rparr>)"

definition adoptRedeemed :: "'w vault_io \<Rightarrow> shared_vault_ref \<Rightarrow> ('w, unit) act" where
  "adoptRedeemed io ref =
     thenH (getSet (\<lambda>s. isOwnAccount s (sv_owner ref))) (\<lambda>own.
     let owner = (if own then '''' else sv_owner ref);
         readOnly = (if own then False else sv_perm ref = PermRead) in
     thenH (hasLocalData io) (\<lambda>local.
     if local then switchToVault (sv_vault ref) SwitchMerge owner readOnly
     else
       thenH (modSet (\<lambda>s. s\<lparr>se_vaultId := sv_vault ref, se_vaultOwner := owner, se_vaultReadOnly := readOnly\<rparr>)) (\<lambda>_.
       thenH saveSettings (\<lambda>_. reconnect))))"

definition finishRedeem :: "'w shell \<Rightarrow> (bytes \<Rightarrow> utext) \<Rightarrow> 'w vault_io \<Rightarrow> string \<Rightarrow> wizard \<Rightarrow> ('w, unit) act" where
  "finishRedeem sh dec io shareLink wz =
     thenH (persistSession wz) (\<lambda>_.
     thenH saveSettings (\<lambda>_.
     catchC (thenH (redeemLink sh dec shareLink) (adoptRedeemed io)) (\<lambda>_. retH ())))"

text \<open>The name the wizard ends with: the new vault's, created, or the chosen one; \<^const>\<open>None\<close> when it stays open.\<close>

definition wizardVault :: "'w shell \<Rightarrow> wizard \<Rightarrow> ('w, string option) act" where
  "wizardVault sh wz =
     (if wz_newVault wz \<noteq> '''' then
        let name = sanitizeVaultName (wz_newVault wz) in
        if \<not> isValidVaultName name then retH None
        else thenH (onWorld (createVault (sh_net sh) (wz_server wz) (wz_token wz) name)) (\<lambda>_. retH (Some name))
      else if wz_chosenVault wz = '''' then retH None else retH (Some (wz_chosenVault wz)))"

text \<open>With its name the vault is adopted: merged when this device has files of another vault, else taken as it is.\<close>

definition wizardAdopt :: "'w vault_io \<Rightarrow> wizard \<Rightarrow> string \<Rightarrow> ('w, unit) act" where
  "wizardAdopt io wz vault =
     thenH (getSet id) (\<lambda>st.
     let cred = wizardCredentials wz vault (wz_token wz) (se_storePassword st);
         vaultChanged = (se_vaultId st \<noteq> [] \<and>
           (se_vaultId st \<noteq> cr_vaultId cred \<or> se_serverUrl st \<noteq> cr_serverUrl cred)) in
     thenH (modSet (\<lambda>s. s\<lparr>se_serverUrl := cr_serverUrl cred, se_username := toLowerCase (trim (cr_username cred)),
       se_password := cr_password cred, se_authToken := cr_authToken cred\<rparr>)) (\<lambda>_.
     thenH (if vaultChanged then hasLocalData io else retH False) (\<lambda>merging.
     if merging then
       thenH saveSettings (\<lambda>_. switchToVault (cr_vaultId cred) SwitchMerge [] False)
     else
       thenH (modSet (\<lambda>s. s\<lparr>se_vaultId := cr_vaultId cred\<rparr>)) (\<lambda>_.
       thenH saveSettings (\<lambda>_. reconnect)))))"

definition wizardFinish :: "'w shell \<Rightarrow> 'w vault_io \<Rightarrow> wizard \<Rightarrow> ('w, unit) act" where
  "wizardFinish sh io wz =
     (if \<not> wz_loggedIn wz then retH ()
      else
        catchC
          (thenH (wizardVault sh wz) (\<lambda>got.
           case got of None \<Rightarrow> retH () | Some vault \<Rightarrow> wizardAdopt io wz vault))
          (\<lambda>_. retH ()))"

definition setStorePassword :: "bool \<Rightarrow> ('w, unit) act" where
  "setStorePassword v =
     thenH (modSet (\<lambda>s. s\<lparr>se_storePassword := v\<rparr>)) (\<lambda>_.
     thenH (if v then retH () else modSet (\<lambda>s. s\<lparr>se_password := []\<rparr>)) (\<lambda>_. saveSettings))"

subsection \<open>What an action keeps\<close>

text \<open>
  \<open>keepsC P m\<close>: whatever the network answers, \<open>m\<close> leaves the plugin in a state with \<open>P\<close>, also when it throws. The
  rules follow the structure of an action, so that only its own changes of the state are left to show.
\<close>

definition keepsC :: "('w client \<Rightarrow> bool) \<Rightarrow> ('w, 'a) act \<Rightarrow> bool" where
  "keepsC P m \<longleftrightarrow> (\<forall>c. P c \<longrightarrow> P (snd (m c)))"

named_theorems keepsC_rules

lemma keepsC_D: "keepsC P m \<Longrightarrow> P c \<Longrightarrow> m c = (r, c') \<Longrightarrow> P c'"
  by (force simp: keepsC_def)

lemma keepsC_pure [keepsC_rules]:
  "keepsC P (retH x)" "keepsC P (throwC e)" "keepsC P (failH t)" "keepsC P (checkH r)" "keepsC P (getC g)" "keepsC P (getSet h)"
  by (simp_all add: keepsC_def retH_def throwC_def failH_def checkH_def getC_def getSet_def)

lemma keepsC_then [keepsC_rules]: "keepsC P m \<Longrightarrow> (\<And>x. keepsC P (f x)) \<Longrightarrow> keepsC P (thenH m f)"
  by (auto simp: keepsC_def thenH_def split: prod.splits sum.splits)

lemma keepsC_catch [keepsC_rules]: "keepsC P m \<Longrightarrow> (\<And>e. keepsC P (h e)) \<Longrightarrow> keepsC P (catchC m h)"
  by (auto simp: keepsC_def catchC_def split: prod.splits sum.splits)

lemma keepsC_modC [keepsC_rules]: "(\<And>c. P c \<Longrightarrow> P (f c)) \<Longrightarrow> keepsC P (modC f)"
  by (simp add: keepsC_def modC_def)

lemma keepsC_onWorld [keepsC_rules]:
  "(\<And>c w. P c \<Longrightarrow> P (c\<lparr>cl_sync := (cl_sync c)\<lparr>world := w\<rparr>\<rparr>)) \<Longrightarrow> keepsC P (onWorld m)"
  by (simp add: keepsC_def onWorld_def split: prod.splits)

lemma keepsC_onSync: "(\<And>c s. P c \<Longrightarrow> P (c\<lparr>cl_sync := s\<rparr>)) \<Longrightarrow> keepsC P (onSync m)"
  by (auto simp: keepsC_def onSync_def split: prod.splits sum.splits)

lemma keepsC_cases [keepsC_rules]:
  "(b \<Longrightarrow> keepsC P m) \<Longrightarrow> (\<not> b \<Longrightarrow> keepsC P n) \<Longrightarrow> keepsC P (if b then m else n)"
  "(\<And>x y. p = (x, y) \<Longrightarrow> keepsC P (k x y)) \<Longrightarrow> keepsC P (case p of (x, y) \<Rightarrow> k x y)"
  "(o1 = None \<Longrightarrow> keepsC P m) \<Longrightarrow> (\<And>z. o1 = Some z \<Longrightarrow> keepsC P (q z)) \<Longrightarrow>
     keepsC P (case o1 of None \<Rightarrow> m | Some z \<Rightarrow> q z)"
  by (simp_all split: option.splits prod.splits)

lemma then_Inr: "thenH m f c = (Inr y, c') \<longleftrightarrow> (\<exists>x c1. m c = (Inr x, c1) \<and> f x c1 = (Inr y, c'))"
  by (auto simp: thenH_def split: prod.splits sum.splits)

lemma onWorld_Inr: "onWorld m c = (Inr x, c') \<longleftrightarrow>
   (\<exists>w. m (world (cl_sync c)) = (Inr x, w) \<and> c' = c\<lparr>cl_sync := (cl_sync c)\<lparr>world := w\<rparr>\<rparr>)"
  by (auto simp: onWorld_def split: prod.splits)

lemmas act_Inr = then_Inr onWorld_Inr getC_def getSet_def modC_def modSet_def retH_def throwC_def failH_def

lemmas session_defs = saveSettings_def raiseIssue_def openSetup_def setAuthToken_def modSet_def enqueueC_def

text \<open>An interface of the settings that every action keeps: what the updates of the session have to respect.\<close>

locale settings_policy =
  fixes ok :: "settings \<Rightarrow> bool"
  assumes ok_token: "ok s \<Longrightarrow> ok (s\<lparr>se_authToken := t\<rparr>)"
    and ok_forget: "ok s \<Longrightarrow> ok (s\<lparr>se_password := []\<rparr>)"
    and ok_stored: "ok s \<Longrightarrow> se_storePassword s \<Longrightarrow> ok (s\<lparr>se_password := p\<rparr>)"
    and ok_optIn: "ok s \<Longrightarrow> ok (s\<lparr>se_storePassword := True\<rparr>)"
    and ok_optOut: "ok s \<Longrightarrow> ok (s\<lparr>se_storePassword := False, se_password := []\<rparr>)"
    and ok_mint: "ok s \<Longrightarrow> se_deviceId s = [] \<Longrightarrow> ok (s\<lparr>se_deviceId := d\<rparr>)"
    and ok_account: "ok s \<Longrightarrow> ok (s\<lparr>se_serverUrl := url, se_username := u\<rparr>)"
    and ok_vault: "ok s \<Longrightarrow> ok (s\<lparr>se_vaultId := v, se_vaultOwner := own, se_vaultReadOnly := r, se_pendingSwitch := m\<rparr>)"
    and ok_base: "ok s \<Longrightarrow> ok (s\<lparr>se_baseVaultKey := key, se_historyFloors := fl, se_lastVersions := lv\<rparr>)"
begin

definition policed :: "'w client \<Rightarrow> bool" where
  "policed c \<longleftrightarrow> ok (cl_settings c) \<and> list_all ok (cl_saved c)"

abbreviation compliant :: "('w, 'a) act \<Rightarrow> bool" where
  "compliant m \<equiv> keepsC policed m"

lemma compliant_modSet [keepsC_rules]: "(\<And>s. ok s \<Longrightarrow> ok (f s)) \<Longrightarrow> compliant (modSet f)"
  by (simp add: keepsC_def modSet_def modC_def policed_def)

lemma compliant_save [keepsC_rules]: "compliant saveSettings"
  by (simp add: keepsC_def saveSettings_def modC_def policed_def)

lemma compliant_modC [keepsC_rules]:
  "(\<And>c. cl_settings (f c) = cl_settings c \<and> cl_saved (f c) = cl_saved c) \<Longrightarrow> compliant (modC f)"
  by (rule keepsC_modC) (simp add: policed_def)

lemma compliant_onWorld [keepsC_rules]: "compliant (onWorld m)"
  by (rule keepsC_onWorld) (simp add: policed_def)

lemma compliant_onSync [keepsC_rules]: "compliant (onSync m)"
  by (rule keepsC_onSync) (simp add: policed_def)

lemma ok_parts:
  "ok s \<Longrightarrow> ok (s\<lparr>se_vaultId := v\<rparr>)"
  "ok s \<Longrightarrow> ok (s\<lparr>se_vaultOwner := own\<rparr>)"
  "ok s \<Longrightarrow> ok (s\<lparr>se_vaultReadOnly := r\<rparr>)"
  "ok s \<Longrightarrow> ok (s\<lparr>se_pendingSwitch := m\<rparr>)"
  using ok_vault [where s = s and v = v and own = "se_vaultOwner s" and r = "se_vaultReadOnly s" and m = "se_pendingSwitch s"]
    ok_vault [where s = s and v = "se_vaultId s" and own = own and r = "se_vaultReadOnly s" and m = "se_pendingSwitch s"]
    ok_vault [where s = s and v = "se_vaultId s" and own = "se_vaultOwner s" and r = r and m = "se_pendingSwitch s"]
    ok_vault [where s = s and v = "se_vaultId s" and own = "se_vaultOwner s" and r = "se_vaultReadOnly s" and m = m]
  by simp_all

lemma ok_cond: "ok s \<Longrightarrow> ok (if se_storePassword s then s else s\<lparr>se_password := []\<rparr>)"
  "ok s \<Longrightarrow> ok (if se_storePassword s then s\<lparr>se_password := p\<rparr> else s)"
  by (simp_all add: ok_forget ok_stored)

lemma getSet_then:
  "(\<And>c. policed c \<Longrightarrow> policed (snd (f (g (cl_settings c)) c))) \<Longrightarrow> compliant (thenH (getSet g) f)"
  by (simp add: keepsC_def thenH_def getSet_def getC_def)

lemma getSet_modSet:
  assumes "\<And>s. ok s \<Longrightarrow> ok (F s s)" "\<And>x y. compliant (k x y)"
  shows "compliant (thenH (getSet id) (\<lambda>st. thenH (modSet (F st)) (k st)))"
  using assms by (auto simp: keepsC_def thenH_def getSet_def getC_def modSet_def modC_def policed_def)

lemma compliant_device [keepsC_rules]: "compliant (deviceIdC sh)"
proof -
  have "compliant (thenH (onWorld (\<lambda>w. case sh_randomUuid sh w of (u, w1) \<Rightarrow> (Inr u, w1))) (\<lambda>u.
      thenH (modSet (\<lambda>s. if se_deviceId s = [] then s\<lparr>se_deviceId := u\<rparr> else s)) (\<lambda>_. thenH saveSettings (\<lambda>_. retH u))))"
    by (auto intro!: keepsC_rules simp: ok_mint)
  then show ?thesis
    by (force simp: keepsC_def deviceIdC_def thenH_def getSet_def getC_def onWorld_def modSet_def modC_def retH_def
        split: prod.splits)
qed

lemmas sessions = freshLogin_def loginRemote_def setAuthToken_def openSetup_def

lemma compliant_freshLogin [keepsC_rules]: "compliant (freshLogin sh)"
  by (auto simp: sessions intro!: keepsC_rules ok_cond ok_token split: prod.splits)

lemma compliant_acquireToken [keepsC_rules]: "compliant (acquireToken sh)"
  by (auto simp: acquireToken_def intro!: keepsC_rules)

lemma compliant_withAuth [keepsC_rules]: "(\<And>t. compliant (f t)) \<Longrightarrow> compliant (withAuth sh f)"
  by (auto simp: withAuth_def intro!: keepsC_rules ok_token)

lemma compliant_onServer [keepsC_rules]: "compliant (onServer sh call)"
  by (auto simp: onServer_def intro!: keepsC_rules)

lemma compliant_useApi [keepsC_rules]: "compliant (useApi sh t)"
  by (auto simp: useApi_def buildApi_def intro!: keepsC_rules)

lemma compliant_relogin: "compliant f \<Longrightarrow> compliant (withSyncRelogin sh f)"
  by (auto simp: withSyncRelogin_def intro!: keepsC_rules ok_token)

lemma compliant_grant [keepsC_rules]: "compliant (refreshShareGrant sh t)"
  unfolding refreshShareGrant_def raiseIssue_def
  by (auto intro!: keepsC_rules ok_parts split: share_grant_status.splits)

lemma compliant_sources [keepsC_rules]: "compliant (refreshSourceGrants sh t)"
  unfolding refreshSourceGrants_def by (auto intro!: keepsC_rules)

lemma compliant_wire [keepsC_rules]: "compliant (checkWireCompat sh t h)"
  unfolding checkWireCompat_def
  by (auto intro!: keepsC_rules split: hash_check.splits signature_verdict.splits)

lemma compliant_requires [keepsC_rules]: "compliant (requireCompat sh t h)" "compliant (requireReady h)"
  unfolding requireCompat_def requireReady_def raiseIssue_def by (auto intro!: keepsC_rules split: compat.splits)

lemma compliant_health [keepsC_rules]: "compliant (vaultHealth sh t)"
  unfolding vaultHealth_def startSession_def by (auto intro!: keepsC_rules ok_token)

lemma compliant_establishSession [keepsC_rules]: "compliant (establishSession sh)"
  unfolding establishSession_def by (auto intro!: keepsC_rules)

lemma compliant_disconnect [keepsC_rules]: "compliant disconnect" "compliant reconnect"
  unfolding disconnect_def reconnect_def enqueueC_def by (auto intro!: keepsC_rules ok_parts)

lemma ok_signOut: "ok s \<Longrightarrow> ok (s\<lparr>se_authToken := [], se_password := []\<rparr>)"
  using ok_forget [OF ok_token [of s "[]"]] by simp

lemma compliant_signOut [keepsC_rules]: "compliant signOut"
  unfolding signOut_def by (auto intro!: keepsC_rules ok_signOut)

lemma compliant_switch [keepsC_rules]: "compliant (switchToVault v m own r)"
  unfolding switchToVault_def by (auto intro!: keepsC_rules ok_parts)

lemma compliant_fork [keepsC_rules]: "compliant (forkVault sh v)"
  unfolding forkVault_def createRemoteVault_def by (auto intro!: keepsC_rules)

lemma compliant_changePassword [keepsC_rules]: "compliant (changeOwnPassword sh p q)"
  unfolding changeOwnPassword_def by (auto intro!: keepsC_rules ok_token ok_cond)

lemma compliant_privacy [keepsC_rules]: "compliant (refreshVaultPrivacy sh)"
  unfolding refreshVaultPrivacy_def myVaultShares_def ownShareLinks_def Let_def by (auto intro!: keepsC_rules)

lemma compliant_shares [keepsC_rules]:
  "compliant (unshareVault sh v g)" "compliant (makeShareLink sh v p l n)" "compliant (dropShareLink sh i)"
  "compliant (redeemLink sh dec k)" "compliant (leaveSharedVault sh g v)" "compliant (recreateVault sh)"
  unfolding unshareVault_def makeShareLink_def dropShareLink_def redeemLink_def leaveSharedVault_def recreateVault_def
    createRemoteVault_def
  by (auto intro!: keepsC_rules)

lemma compliant_localData [keepsC_rules]: "compliant (hasLocalData io)"
  unfolding hasLocalData_def by (auto intro!: keepsC_rules)

lemma ok_signedIn: "ok s \<Longrightarrow> ok (s\<lparr>se_serverUrl := url, se_username := u, se_authToken := t,
    se_password := (if se_storePassword s then p else [])\<rparr>)"
  using ok_account [where s = s and url = url and u = u]
  by (simp add: ok_token ok_stored ok_forget)

lemma compliant_redeemed [keepsC_rules]: "compliant (persistSession wz)" "compliant (finishRedeem sh dec io k wz)"
  unfolding finishRedeem_def persistSession_def adoptRedeemed_def Let_def
  by (auto intro!: keepsC_rules ok_signedIn ok_parts)

lemma ok_wizard: "ok s \<Longrightarrow> ok (s\<lparr>se_serverUrl := cr_serverUrl (wizardCredentials wz v t (se_storePassword s)),
    se_username := u, se_password := cr_password (wizardCredentials wz v t (se_storePassword s)),
    se_authToken := cr_authToken (wizardCredentials wz v t (se_storePassword s))\<rparr>)"
  using ok_account [where s = s and url = "wz_server wz" and u = u]
  by (auto simp: wizardCredentials_def intro!: ok_token ok_stored ok_forget)

lemma compliant_adopt [keepsC_rules]: "compliant (wizardAdopt io wz v)"
  unfolding wizardAdopt_def Let_def by (rule getSet_modSet) (auto intro!: keepsC_rules ok_parts ok_wizard)

lemma compliant_wizard [keepsC_rules]: "compliant (wizardFinish sh io wz)"
  unfolding wizardFinish_def wizardVault_def Let_def by (auto intro!: keepsC_rules)

lemma compliant_storePassword [keepsC_rules]: "compliant (setStorePassword v)"
proof (cases v)
  case False
  have "compliant (thenH (modSet (\<lambda>s. s\<lparr>se_storePassword := False, se_password := []\<rparr>)) (\<lambda>_. saveSettings))"
    by (auto intro!: keepsC_rules ok_optOut)
  with False show ?thesis
    by (simp add: setStorePassword_def keepsC_def thenH_def modSet_def modC_def saveSettings_def)
qed (auto simp: setStorePassword_def intro!: keepsC_rules ok_optIn)

end

text \<open>Two policies: the password is not kept without the user's consent, and a device keeps its identity.\<close>

definition tokenOnly :: "settings \<Rightarrow> bool" where
  "tokenOnly s \<longleftrightarrow> se_storePassword s \<or> se_password s = []"

interpretation tokens: settings_policy tokenOnly
  by unfold_locales (auto simp: tokenOnly_def)

definition deviceIs :: "string \<Rightarrow> settings \<Rightarrow> bool" where
  "deviceIs d s \<longleftrightarrow> d \<noteq> [] \<and> se_deviceId s = d"

interpretation device: settings_policy "deviceIs d" for d
  by unfold_locales (auto simp: deviceIs_def)

subsection \<open>The gate before the first pass\<close>

lemma catch_Inr: "catchC m h c = (Inr x, c') \<longleftrightarrow>
   m c = (Inr x, c') \<or> (\<exists>e c1. m c = (Inl e, c1) \<and> h e c1 = (Inr x, c'))"
  by (auto simp: catchC_def split: prod.splits sum.splits)

text \<open>What does not read the session's own fields is not changed by its actions.\<close>

locale session_frame =
  fixes P :: "'w client \<Rightarrow> bool"
  assumes fr_settings: "P c \<Longrightarrow> P (c\<lparr>cl_settings := s\<rparr>)"
    and fr_saved: "P c \<Longrightarrow> P (c\<lparr>cl_saved := ss\<rparr>)"
    and fr_setup: "P c \<Longrightarrow> P (c\<lparr>cl_setupOpen := b\<rparr>)"
    and fr_world: "P c \<Longrightarrow> P (c\<lparr>cl_sync := (cl_sync c)\<lparr>world := w\<rparr>\<rparr>)"
    and fr_api: "P c \<Longrightarrow> P (c\<lparr>cl_api := a\<rparr>)"
    and fr_token: "P c \<Longrightarrow> P (c\<lparr>cl_sessionToken := t\<rparr>)"
    and fr_issue: "P c \<Longrightarrow> P (c\<lparr>cl_lastIssue := i\<rparr>)"
    and fr_toast: "P c \<Longrightarrow> P (c\<lparr>cl_toasts := is\<rparr>)"
    and fr_shown: "P c \<Longrightarrow> P (c\<lparr>cl_versionNoticeShown := b\<rparr>)"
    and fr_notified: "P c \<Longrightarrow> P (c\<lparr>cl_shareRevokedNotified := b\<rparr>)"
    and fr_sources: "P c \<Longrightarrow> P (c\<lparr>cl_sourceGrants := g\<rparr>)"
begin

lemmas frames = fr_settings fr_saved fr_setup fr_world fr_api fr_token fr_issue fr_toast fr_shown fr_notified fr_sources

lemma fr_login [keepsC_rules]: "keepsC P (freshLogin sh)"
  unfolding freshLogin_def loginRemote_def session_defs by (auto intro!: keepsC_rules frames)

lemma fr_acquire [keepsC_rules]: "keepsC P (acquireToken sh)"
  unfolding acquireToken_def by (auto intro!: keepsC_rules)

lemma fr_start [keepsC_rules]: "keepsC P (startSession sh t)"
  unfolding startSession_def useApi_def buildApi_def deviceIdC_def session_defs by (auto intro!: keepsC_rules frames)

lemma fr_health [keepsC_rules]: "keepsC P (vaultHealth sh t)"
  unfolding vaultHealth_def session_defs by (auto intro!: keepsC_rules frames)

lemma fr_ready [keepsC_rules]: "keepsC P (requireReady h)"
  unfolding requireReady_def raiseIssue_def by (auto intro!: keepsC_rules frames)

lemma fr_grants [keepsC_rules]: "keepsC P (refreshShareGrant sh t)" "keepsC P (refreshSourceGrants sh t)"
  unfolding refreshShareGrant_def refreshSourceGrants_def session_defs
  by (auto intro!: keepsC_rules frames split: share_grant_status.splits)

end

locale session_frame_wire = session_frame +
  assumes fr_wire: "P c \<Longrightarrow> P (c\<lparr>cl_verifiedWireHash := h\<rparr>)"
begin

lemma fr_session: "keepsC P (establishSession sh)"
  unfolding establishSession_def requireCompat_def checkWireCompat_def session_defs
  by (auto intro!: keepsC_rules frames fr_wire split: hash_check.splits signature_verdict.splits compat.splits)

end

text \<open>The verified hash; and the synchronisation, which a session changes in nothing but the outside.\<close>

interpretation wire: session_frame "\<lambda>c. cl_verifiedWireHash c = h" for h
  by unfold_locales auto

definition untouched :: "'w sync_state \<Rightarrow> 'w client \<Rightarrow> bool" where
  "untouched s c \<longleftrightarrow> (\<exists>w. cl_sync c = s\<lparr>world := w\<rparr>)"

interpretation quiet: session_frame_wire "untouched s" for s :: "'w sync_state"
  by unfold_locales (auto simp: untouched_def)

definition wireVerified :: "'w shell \<Rightarrow> 'w client \<Rightarrow> bool" where
  "wireVerified sh c \<longleftrightarrow> (\<forall>h. cl_verifiedWireHash c = Some h \<longrightarrow>
     (\<exists>t w sr w'. tr_schema (sh_net sh) t w = (Inr sr, w') \<and> sr_hash sr = h
        \<and> compatible (sh_embedded sh) (sr_signature sr)))"

interpretation verified: session_frame "wireVerified sh" for sh :: "'w shell"
  by unfold_locales (auto simp: wireVerified_def)

lemma verdict_compatible: "signatureVerdict emb srv = VerdictOk \<Longrightarrow> compatible emb srv"
  using all_breaking [of _ emb srv] diffSignature_Nil [of emb srv]
  by (auto simp: signatureVerdict_def Let_def filter_empty_conv split: if_splits)

lemma startSession_Inr:
  "startSession sh tok c = (Inr t, c') \<Longrightarrow> cl_api c' = Some t \<and> cl_sessionToken c' = tok \<and> t_token t = tok"
  by (auto simp: startSession_def useApi_def buildApi_def act_Inr checkH_def newTransport_def split: sum.splits if_splits)

lemma vaultHealth_Inr:
  assumes "vaultHealth sh tok c = (Inr (tok', t, h), c')"
  shows "cl_api c' = Some t \<and> cl_sessionToken c' = tok' \<and> t_token t = tok' \<and> (\<exists>w w'. tr_status (sh_net sh) t w = (Inr h, w'))"
  using assms by (auto simp: vaultHealth_def act_Inr catch_Inr dest!: startSession_Inr split: if_splits)

lemma checkWireCompat_ok:
  assumes "checkWireCompat sh t h c = (Inr CompatOk, c')" and "wireVerified sh c"
  shows "wireVerified sh c' \<and> cl_verifiedWireHash c' = h \<and> h \<noteq> None
    \<and> cl_api c' = cl_api c \<and> cl_sessionToken c' = cl_sessionToken c"
proof (cases "hashCheck h (cl_verifiedWireHash c)")
  case HashCompatible
  then have "c' = c"
    using assms(1) by (simp add: checkWireCompat_def act_Inr)
  with HashCompatible assms(2) show ?thesis
    by (auto simp: hashCheck_compatible)
next
  case HashNeedsDiff
  then obtain sr w where sr: "tr_schema (sh_net sh) t (world (cl_sync c)) = (Inr sr, w)" "Some (sr_hash sr) = h"
      "signatureVerdict (sh_embedded sh) (sr_signature sr) = VerdictOk"
    and c': "c' = c\<lparr>cl_sync := (cl_sync c)\<lparr>world := w\<rparr>, cl_verifiedWireHash := h\<rparr>"
    using assms(1) by (auto simp: checkWireCompat_def act_Inr catch_Inr split: if_splits signature_verdict.splits)
  show ?thesis
    using sr verdict_compatible [OF sr(3)] unfolding c' wireVerified_def by auto
qed (use assms(1) in \<open>simp add: checkWireCompat_def act_Inr\<close>)

lemma requireCompat_Inr:
  assumes "requireCompat sh t h c = (Inr u, c')" and "wireVerified sh c"
  shows "wireVerified sh c' \<and> cl_verifiedWireHash c' = st_schemaHash h \<and> st_schemaHash h \<noteq> None
    \<and> cl_api c' = cl_api c \<and> cl_sessionToken c' = cl_sessionToken c"
proof -
  from assms(1) obtain x c1 where x: "checkWireCompat sh t (st_schemaHash h) c = (Inr x, c1)"
    "(case x of CompatRefused why \<Rightarrow> False | CompatOk \<Rightarrow> c' = c1\<lparr>cl_versionNoticeShown := False\<rparr>)"
    by (fastforce simp: requireCompat_def act_Inr split: compat.splits)
  then have r: "checkWireCompat sh t (st_schemaHash h) c = (Inr CompatOk, c1)"
    and c': "c' = c1\<lparr>cl_versionNoticeShown := False\<rparr>"
    by (cases x; simp)+
  show ?thesis
    using checkWireCompat_ok [OF r assms(2)] unfolding c' by (simp add: wireVerified_def)
qed

definition grantHolds :: "'w shell \<Rightarrow> string \<Rightarrow> settings \<Rightarrow> bool" where
  "grantHolds sh token s \<longleftrightarrow> se_vaultOwner s = [] \<or>
     (\<exists>grants w w'. listShared (sh_net sh) (se_serverUrl s) token w = (Inr grants, w')
        \<and> resolveShareGrant (grantTriples grants) (se_vaultOwner s) (se_vaultId s) = GrantActive (se_vaultReadOnly s))"

lemma refreshShareGrant_Inr:
  assumes r: "refreshShareGrant sh tok c = (Inr u, c')"
  shows "grantHolds sh tok (cl_settings c') \<and> cl_api c' = cl_api c \<and> cl_sessionToken c' = cl_sessionToken c"
proof (cases "se_vaultOwner (cl_settings c) = [] \<or> isOwnAccount (cl_settings c) (se_vaultOwner (cl_settings c))")
  case True
  then show ?thesis
    using r by (auto simp: refreshShareGrant_def act_Inr grantHolds_def saveSettings_def split: if_splits)
next
  case False
  let ?s = "cl_settings c"
  let ?g = "\<lambda>grants. resolveShareGrant (grantTriples grants) (se_vaultOwner ?s) (se_vaultId ?s)"
  note unfold = refreshShareGrant_def thenH_def onWorld_def getSet_def getC_def modC_def modSet_def retH_def failH_def
    raiseIssue_def saveSettings_def
  obtain lr w where l: "listShared (sh_net sh) (se_serverUrl ?s) tok (world (cl_sync c)) = (lr, w)"
    by (cases "listShared (sh_net sh) (se_serverUrl ?s) tok (world (cl_sync c))")
  with False r obtain grants where lr: "lr = Inr grants"
    by (cases lr) (simp_all add: unfold)
  have "?g grants \<noteq> GrantNotShared" and "?g grants \<noteq> GrantRevoked"
    using False r l lr by (auto simp: resolveShareGrant_def unfold split: option.splits)
  then obtain ro where ro: "?g grants = GrantActive ro"
    by (cases "?g grants") simp_all
  have "cl_settings c' = ?s\<lparr>se_vaultReadOnly := ro\<rparr> \<and> cl_api c' = cl_api c \<and> cl_sessionToken c' = cl_sessionToken c"
    using False r l lr ro by (auto simp: unfold split: if_splits)
  then show ?thesis
    using l lr ro by (auto simp: grantHolds_def)
qed

lemma refreshSourceGrants_Inr:
  "refreshSourceGrants sh tok c = (r, c') \<Longrightarrow>
   cl_settings c' = cl_settings c \<and> cl_api c' = cl_api c \<and> cl_sessionToken c' = cl_sessionToken c"
  by (auto simp: refreshSourceGrants_def thenH_def catchC_def onWorld_def getSet_def getC_def modC_def retH_def
      split: if_splits prod.splits sum.splits)

text \<open>
  (C7) Before the first pass: a session is established only with a token that the status request of this very
  transport accepted, for a vault the server reports ready, with a wire contract whose hash belongs to a
  signature that was fetched and is compatible with the plugin's own, and, for the vault of another account,
  with a grant in the list the server answered, whose permission is the one the settings now say. Whatever
  happens, also when it throws, a session touches neither the base nor the cursor nor a file.
\<close>
theorem session_gate:
  assumes v: "wireVerified sh c"
  shows "(\<forall>c'. establishSession sh c = (Inr (), c') \<longrightarrow>
       (\<exists>t health w w'. cl_api c' = Some t \<and> t_token t = cl_sessionToken c'
          \<and> tr_status (sh_net sh) t w = (Inr health, w') \<and> st_status health = ''ready''
          \<and> st_schemaHash health = cl_verifiedWireHash c' \<and> cl_verifiedWireHash c' \<noteq> None)
       \<and> wireVerified sh c' \<and> grantHolds sh (cl_sessionToken c') (cl_settings c'))
    \<and> untouched (cl_sync c) (snd (establishSession sh c))"
proof (intro conjI allI impI)
  have "untouched (cl_sync c) c"
    unfolding untouched_def by (rule exI [of _ "world (cl_sync c)"]) simp
  then show "untouched (cl_sync c) (snd (establishSession sh c))"
    using quiet.fr_session [of "cl_sync c" sh] unfolding keepsC_def by blast
next
  fix c'
  assume "establishSession sh c = (Inr (), c')"
  then obtain tok c1 act t h c2 c3 c4 where run: "acquireToken sh c = (Inr tok, c1)"
      "vaultHealth sh tok c1 = (Inr (act, t, h), c2)" "requireCompat sh t h c2 = (Inr (), c3)"
      "requireReady h c3 = (Inr (), c3)" "st_status h = ''ready''"
      "refreshShareGrant sh act c3 = (Inr (), c4)" "refreshSourceGrants sh act c4 = (Inr (), c')"
    by (auto simp: establishSession_def act_Inr requireReady_def split: if_splits)
  note health = vaultHealth_Inr [OF run(2)]
  have v2: "wireVerified sh c2"
    using keepsC_D [OF verified.fr_health keepsC_D [OF verified.fr_acquire v run(1)] run(2)] .
  note compat = requireCompat_Inr [OF run(3) v2]
  note grant = refreshShareGrant_Inr [OF run(6)] and src = refreshSourceGrants_Inr [OF run(7)]
  have hash: "cl_verifiedWireHash c' = st_schemaHash h"
    using keepsC_D [OF wire.fr_grants(2) keepsC_D [OF wire.fr_grants(1) _ run(6)] run(7)] compat by blast
  show "\<exists>t health w w'. cl_api c' = Some t \<and> t_token t = cl_sessionToken c'
      \<and> tr_status (sh_net sh) t w = (Inr health, w') \<and> st_status health = ''ready''
      \<and> st_schemaHash health = cl_verifiedWireHash c' \<and> cl_verifiedWireHash c' \<noteq> None"
    using health compat grant src hash run(5) by auto
  show "wireVerified sh c'"
    using keepsC_D [OF verified.fr_grants(2) keepsC_D [OF verified.fr_grants(1) _ run(6)] run(7)] compat by blast
  show "grantHolds sh (cl_sessionToken c') (cl_settings c')"
    using grant src compat health by auto
qed

text \<open>A server that answers: the vault is ready, the contract is the plugin's, and there is one read grant.\<close>

definition plainSignature :: signature where
  "plainSignature = \<lparr>sg_version = Finite 1, sg_api_version = Finite 1, sg_endpoints = [], sg_types = []\<rparr>"

definition readyAnswer :: "string \<Rightarrow> jval" where
  "readyAnswer u =
     (if endsWith u ''/status'' then
        VObj [(''status'', jstr ''ready''), (''version'', VNum (Finite 0)), (''schema_hash'', jstr ''abc'')]
      else if endsWith u ''/schema'' then
        VObj [(''hash'', jstr ''abc''), (''signature'', VObj [(''version'', VNum (Finite 1)), (''api_version'', VNum (Finite 1)),
          (''endpoints'', VArr []), (''types'', VObj [])])]
      else if endsWith u ''/shared'' then
        VArr [VObj [(''owner'', jstr ''bob''), (''vault'', jstr ''notes''), (''perm'', jstr ''read'')]]
      else VObj [])"

definition readyNet :: "unit net" where
  "readyNet = \<lparr>n_URL = (\<lambda>s. None), n_enc = (\<lambda>u. u),
     n_requestUrl = (\<lambda>q w. (Answered \<lparr>rs_status = 200, rs_headers = [], rs_text = None,
        rs_json = Some (readyAnswer (rq_url q)), rs_arrayBuffer = []\<rparr>, w))\<rparr>"

definition readyShell :: "unit shell" where
  "readyShell = \<lparr>sh_net = readyNet, sh_embedded = plainSignature, sh_randomUuid = (\<lambda>w. (''u1'', w)), sh_deviceLabel = ''Laptop''\<rparr>"

definition startSettings :: settings where
  "startSettings = \<lparr>se_serverUrl = ''https://h'', se_username = ''alice'', se_password = '''', se_storePassword = False,
     se_authToken = ''t'', se_deviceId = ''d1'', se_vaultId = ''notes'', se_vaultOwner = '''', se_vaultReadOnly = False,
     se_pendingSwitch = None, se_baseVaultKey = '''', se_historyFloors = [], se_lastVersions = [], se_mounts = []\<rparr>"

definition startClient :: "settings \<Rightarrow> 'w sync_state \<Rightarrow> 'w client" where
  "startClient s st = \<lparr>cl_settings = s, cl_sync = st, cl_api = None, cl_sessionToken = '''', cl_verifiedWireHash = None,
     cl_lastIssue = None, cl_toasts = [], cl_versionNoticeShown = False, cl_shareRevokedNotified = False, cl_sourceGrants = [],
     cl_vaultIsPrivate = False, cl_setupOpen = False, cl_pendingBulkDeletes = [], cl_lastConfigScanAt = 0, cl_lastFullScanAt = 0,
     cl_enqueued = [], cl_saved = []\<rparr>"

definition bobsVault :: settings where
  "bobsVault = startSettings\<lparr>se_vaultOwner := ''bob''\<rparr>"

definition idleState :: "unit sync_state" where
  "idleState = \<lparr>world = (), base = baseStore [], cache = [], cursor = 0, budget = None, rejected = None, ambiguous = None, log = []\<rparr>"

lemma ready_api: "apiJson readyNet q l ep b w = (Inr (readyAnswer (rq_url q)), w)"
  by (simp add: apiJson_def httpReq_def isInsecureRemote_def thenH_def retH_def tryJson_def readyNet_def)

definition readyHealth :: status_response where
  "readyHealth = \<lparr>st_status = ''ready'', st_detail = [], st_version = 0, st_apiVersion = None, st_schemaHash = Some ''abc''\<rparr>"

lemma ready_status: "tr_status readyNet t w = (Inr readyHealth, w)"
proof -
  have "readyAnswer (rq_url (vGet readyNet t ''/status'')) = readyAnswer ''/status''"
    by (simp add: readyAnswer_def vGet_def getReq_def vUrl_def endsWith_def)
  moreover have "validateStatus (readyAnswer ''/status'') = Inr readyHealth"
    by code_simp
  ultimately show ?thesis
    by (simp add: tr_status_def thenH_def ready_api checkH_def)
qed

lemma ready_schema: "tr_schema readyNet t w = (Inr \<lparr>sr_hash = ''abc'', sr_signature = plainSignature\<rparr>, w)"
proof -
  have "readyAnswer (rq_url (getReq (t_baseUrl t @ ''/schema'') [])) = readyAnswer ''/schema''"
    by (simp add: readyAnswer_def getReq_def endsWith_def)
  moreover have "validateSchemaResponse (readyAnswer ''/schema'') = Inr \<lparr>sr_hash = ''abc'', sr_signature = plainSignature\<rparr>"
    by code_simp
  ultimately show ?thesis
    by (simp add: tr_schema_def thenH_def ready_api checkH_def)
qed

lemma ready_grants: "listShared readyNet url tok w = (Inr [\<lparr>sv_owner = ''bob'', sv_vault = ''notes'', sv_perm = PermRead\<rparr>], w)"
proof -
  have "readyAnswer (rq_url (getReq (accountUrl url ''/api/shared'') (bearer tok))) = readyAnswer ''/shared''"
    by (simp add: readyAnswer_def getReq_def endsWith_def accountUrl_def)
  moreover have "validateSharedVaults (readyAnswer ''/shared'') = Inr [\<lparr>sv_owner = ''bob'', sv_vault = ''notes'', sv_perm = PermRead\<rparr>]"
    by code_simp
  ultimately show ?thesis
    by (simp add: listShared_def thenH_def ready_api checkH_def)
qed

lemma ready_facts:
  "\<not> isInsecureRemote (n_URL readyNet) u"
  "signatureVerdict plainSignature plainSignature = VerdictOk"
  "resolveShareGrant (grantTriples [\<lparr>sv_owner = ''bob'', sv_vault = ''notes'', sv_perm = PermRead\<rparr>]) ''bob'' ''notes'' = GrantActive True"
  "\<not> isOwnAccount bobsVault ''bob''"
proof -
  show "\<not> isInsecureRemote (n_URL readyNet) u"
    by (simp add: isInsecureRemote_def readyNet_def)
qed code_simp+

lemma ready_session:
  "\<exists>c'. establishSession readyShell (startClient bobsVault idleState) = (Inr (), c') \<and> se_vaultReadOnly (cl_settings c')
     \<and> cl_verifiedWireHash c' = Some ''abc''"
proof -
  have s: "se_authToken bobsVault = ''t''" "se_deviceId bobsVault = ''d1''" "se_vaultOwner bobsVault = ''bob''"
      "se_vaultId bobsVault = ''notes''" "\<not> se_vaultReadOnly bobsVault" "se_mounts bobsVault = []"
    by (simp_all add: bobsVault_def startSettings_def)
  show ?thesis
    by (simp add: establishSession_def acquireToken_def vaultHealth_def startSession_def useApi_def buildApi_def deviceIdC_def
      thenH_def getSet_def getC_def retH_def modC_def modSet_def catchC_def onWorld_def checkH_def startClient_def
      s newTransport_def readyShell_def ready_status ready_schema ready_grants ready_facts saveSettings_def
      requireCompat_def checkWireCompat_def hashCheck_def requireReady_def readyHealth_def refreshShareGrant_def refreshSourceGrants_def)
qed

theorem session_gate_witness:
  "\<exists>c'. establishSession readyShell (startClient bobsVault idleState) = (Inr (), c')
     \<and> grantHolds readyShell (cl_sessionToken c') (cl_settings c') \<and> untouched idleState c'"
proof -
  obtain c' where r: "establishSession readyShell (startClient bobsVault idleState) = (Inr (), c')"
    using ready_session by blast
  have "wireVerified readyShell (startClient bobsVault idleState)" "cl_sync (startClient bobsVault idleState) = idleState"
    by (simp_all add: wireVerified_def startClient_def)
  then show ?thesis
    using session_gate [of readyShell "startClient bobsVault idleState"] r by auto
qed

end
