(* ===== verification/Connect.thy ===== *)
theory Connect
  imports Session Decide
begin

text \<open>
  Connecting and polling, in \<open>client/src/main.ts\<close>: the identity of the vault that the base belongs to, the
  guard against a base of another vault, the resolution of a pending switch, the full pass of a connect, the
  poll, the watch on the server's deletion history, and the review of held deletions; then what the whole
  plugin guarantees over any sequence of its actions.

  \<open>deps()\<close> is the argument \<open>d0\<close>, which holds what does not come from the session, with the session's transport
  and the permission of the vault put in. The reload of synced plugins, the web socket, the timers and the
  passes over mounts that a pass starts at its end are not part of it; the lists that the callbacks of a pass
  fill are read off the events it recorded. The refresh of the privacy flag, which a connect starts without
  waiting for it, runs as its last step.
\<close>

subsection \<open>Which vault the base belongs to\<close>

definition historyFloorKey :: "settings \<Rightarrow> string" where
  "historyFloorKey s = se_vaultOwner s @ ''/'' @ se_vaultId s"

definition serverHost :: "'w shell \<Rightarrow> settings \<Rightarrow> string" where
  "serverHost sh s =
     (case n_URL (sh_net sh) (se_serverUrl s) of
        Some u \<Rightarrow> toLowerCase (u_host u)
      | None \<Rightarrow> toLowerCase (se_serverUrl s))"

definition vaultIdentityKey :: "'w shell \<Rightarrow> settings \<Rightarrow> string" where
  "vaultIdentityKey sh s = serverHost sh s @ ''|'' @ se_vaultOwner s @ ''/'' @ se_vaultId s"

subsection \<open>The deletion history\<close>

definition historyResetDetected :: "settings \<Rightarrow> int \<Rightarrow> int option \<Rightarrow> bool" where
  "historyResetDetected s version histFloor =
     (let key = historyFloorKey s; sf = map_of (se_historyFloors s) key; sv = map_of (se_lastVersions s) key in
      (case (sf, histFloor) of (Some a, Some b) \<Rightarrow> b > a | _ \<Rightarrow> False)
      \<or> (case sv of Some v \<Rightarrow> version < v | None \<Rightarrow> False))"

definition noteHistory :: "int \<Rightarrow> int option \<Rightarrow> path list \<Rightarrow> ('w, unit) act" where
  "noteHistory version histFloor kept =
     thenH (getSet id) (\<lambda>s.
     let reset = (kept \<noteq> [] \<and> historyResetDetected s version histFloor);
         key = historyFloorKey s;
         floorChanged = (histFloor \<noteq> None \<and> map_of (se_historyFloors s) key \<noteq> histFloor);
         versionChanged = (map_of (se_lastVersions s) key \<noteq> Some version)
     in
     thenH (modSet (\<lambda>s. s\<lparr>
       se_historyFloors := (case histFloor of
          Some f \<Rightarrow> if floorChanged then AList.update key f (se_historyFloors s) else se_historyFloors s
        | None \<Rightarrow> se_historyFloors s),
       se_lastVersions := (if versionChanged then AList.update key version (se_lastVersions s) else se_lastVersions s)\<rparr>)) (\<lambda>_.
     thenH (if floorChanged \<or> versionChanged then saveSettings else retH ()) (\<lambda>_.
     if reset then modC (\<lambda>c. c\<lparr>cl_toasts := HistoryReset kept # cl_toasts c\<rparr>) else retH ())))"

subsection \<open>Held deletions\<close>

definition heldOf :: "string \<Rightarrow> (string \<times> path list) list \<Rightarrow> path list" where
  "heldOf scope m = (case map_of m scope of Some ps \<Rightarrow> ps | None \<Rightarrow> [])"

definition putHeld :: "string \<Rightarrow> path list \<Rightarrow> (string \<times> path list) list \<Rightarrow> (string \<times> path list) list" where
  "putHeld scope ps m = (if ps \<noteq> [] then AList.update scope ps m else AList.delete scope m)"

definition setPendingBulk :: "string \<Rightarrow> path list \<Rightarrow> bool \<Rightarrow> ('w, unit) act" where
  "setPendingBulk scope heldPaths authoritative =
     thenH (getC (\<lambda>c. heldOf scope (cl_pendingBulkDeletes c))) (\<lambda>cur.
     let next = (if authoritative then heldPaths else jsDistinct (cur @ heldPaths)) in
     thenH (modC (\<lambda>c. c\<lparr>cl_pendingBulkDeletes := putHeld scope next (cl_pendingBulkDeletes c)\<rparr>)) (\<lambda>_.
     if length next > length cur then
       modC (\<lambda>c. let n = sum_list (map (\<lambda>(_, ps). length ps) (cl_pendingBulkDeletes c)) in
         if n > 0 then c\<lparr>cl_toasts := DeletionsHeld n # cl_toasts c\<rparr> else c)
     else retH ()))"

definition clearHeldPaths :: "string \<Rightarrow> path list \<Rightarrow> (string \<times> path list) list \<Rightarrow> (string \<times> path list) list" where
  "clearHeldPaths scope applied m = putHeld scope (filter (\<lambda>p. p \<notin> set applied) (heldOf scope m)) m"

subsection \<open>The dependencies and the lists of a pass\<close>

definition plugDeps :: "'w shell \<Rightarrow> 'w deps \<Rightarrow> 'w client \<Rightarrow> 'w deps" where
  "plugDeps sh d0 c =
     (case cl_api c of
        Some t \<Rightarrow> d0\<lparr>c_api := httpTransport (sh_net sh) t, d_readOnly := se_vaultReadOnly (cl_settings c)\<rparr>
      | None \<Rightarrow> d0\<lparr>d_readOnly := se_vaultReadOnly (cl_settings c)\<rparr>)"

definition newEvents :: "'w sync_state \<Rightarrow> 'w sync_state \<Rightarrow> event list" where
  "newEvents before after = rev (take (length (log after) - length (log before)) (log after))"

definition keptAbsent :: "event list \<Rightarrow> path list" where
  "keptAbsent evs = concat (map (\<lambda>e. case e of Callback (OnKeptAbsent p) \<Rightarrow> [p] | _ \<Rightarrow> []) evs)"

definition guarded :: "event list \<Rightarrow> path list" where
  "guarded evs = concat (map (\<lambda>e. case e of Callback (OnGuard p) \<Rightarrow> [p] | _ \<Rightarrow> []) evs)"

text \<open>A pass with the events it recorded.\<close>

definition runPass :: "('w client \<Rightarrow> ('w, 'a) prog) \<Rightarrow> ('w, 'a \<times> event list) act" where
  "runPass pass =
     thenH (getC id) (\<lambda>c0.
     thenH (onSync (pass c0)) (\<lambda>x.
     thenH (getC (\<lambda>c. newEvents (cl_sync c0) (cl_sync c))) (\<lambda>evs. retH (x, evs))))"

definition reconcileFull :: "'w shell \<Rightarrow> 'w deps \<Rightarrow> ('w, unit) act" where
  "reconcileFull sh d0 =
     thenH (runPass (\<lambda>c. reconcileAll (plugDeps sh d0 c))) (\<lambda>(resp, evs).
     thenH (noteHistory (cr_version resp) (cr_history_floor resp) (keptAbsent evs)) (\<lambda>_.
     setPendingBulk ''primary'' (guarded evs) True))"

subsection \<open>Connecting\<close>

definition baseNonEmpty :: "'w client \<Rightarrow> bool" where
  "baseNonEmpty c \<longleftrightarrow> base_paths (base (cl_sync c)) \<noteq> []"

text \<open>The guard against a base of another vault: a merge is forced when no switch is pending.\<close>

definition guardForeignBase :: "'w shell \<Rightarrow> ('w, unit) act" where
  "guardForeignBase sh =
     thenH (getC id) (\<lambda>c.
     let s = cl_settings c in
     if se_pendingSwitch s = None \<and> se_baseVaultKey s \<noteq> [] \<and> baseNonEmpty c
        \<and> vaultKeyMismatch (se_baseVaultKey s) (vaultIdentityKey sh s) (historyFloorKey s)
     then thenH (modC (\<lambda>c. c\<lparr>cl_toasts := MergingSafely # cl_toasts c\<rparr>)) (\<lambda>_.
          modSet (\<lambda>s. s\<lparr>se_pendingSwitch := Some SwitchMerge\<rparr>))
     else retH ())"

definition dropAppliedSwitch :: "'w shell \<Rightarrow> ('w, unit) act" where
  "dropAppliedSwitch sh =
     thenH (getC id) (\<lambda>c.
     let s = cl_settings c in
     if switchAlreadyApplied (se_pendingSwitch s) (se_baseVaultKey s) (vaultIdentityKey sh s) (baseNonEmpty c)
     then thenH (modSet (\<lambda>s. s\<lparr>se_pendingSwitch := None\<rparr>)) (\<lambda>_. saveSettings)
     else retH ())"

definition resolveAndApplySwitch :: "'w shell \<Rightarrow> 'w deps \<Rightarrow> ('w, unit) act" where
  "resolveAndApplySwitch sh d0 =
     thenH (guardForeignBase sh) (\<lambda>_.
     thenH (dropAppliedSwitch sh) (\<lambda>_.
     thenH (getSet se_pendingSwitch) (\<lambda>switchMode.
     case switchMode of
       Some mode \<Rightarrow>
         thenH (runPass (\<lambda>c. switchTo (plugDeps sh d0 c) mode)) (\<lambda>_.
         thenH (modSet (\<lambda>s. s\<lparr>se_pendingSwitch := None\<rparr>)) (\<lambda>_. saveSettings))
     | None \<Rightarrow> reconcileFull sh d0)))"

definition finishConnect :: "'w shell \<Rightarrow> ('w \<Rightarrow> int) \<Rightarrow> ('w, unit) act" where
  "finishConnect sh now =
     thenH (modC (\<lambda>c. c\<lparr>cl_lastConfigScanAt := now (world (cl_sync c)), cl_lastFullScanAt := now (world (cl_sync c)),
       cl_lastIssue := None\<rparr>)) (\<lambda>_.
     thenH (modSet (\<lambda>s. s\<lparr>se_baseVaultKey := vaultIdentityKey sh s\<rparr>)) (\<lambda>_.
     refreshVaultPrivacy sh))"

fun isSynthetic :: "http_error \<Rightarrow> bool" where
  "isSynthetic (ConnErr m info) \<longleftrightarrow> synthetic info \<noteq> None"
| "isSynthetic (PlainErr e) \<longleftrightarrow> False"

definition doConnect :: "'w shell \<Rightarrow> 'w deps \<Rightarrow> ('w \<Rightarrow> int) \<Rightarrow> ('w, unit) act" where
  "doConnect sh d0 now =
     thenH (modC (\<lambda>c. c\<lparr>cl_lastIssue := None\<rparr>)) (\<lambda>_.
     catchC
       (thenH (establishSession sh) (\<lambda>_.
        thenH (resolveAndApplySwitch sh d0) (\<lambda>_.
        finishConnect sh now)))
       (\<lambda>e. thenH (if isSynthetic e then retH ()
                   else modC (\<lambda>c. c\<lparr>cl_lastIssue := Some (Unreachable (errMessage e))\<rparr>)) (\<lambda>_. throwC e)))"

subsection \<open>Polling\<close>

definition CONFIG_SCAN_INTERVAL_MS :: int where
  "CONFIG_SCAN_INTERVAL_MS = 30000"

definition FULL_SCAN_INTERVAL_MS :: int where
  "FULL_SCAN_INTERVAL_MS = 900000"

definition pollPass :: "'w deps \<Rightarrow> reconcile_mode \<Rightarrow> changes_response \<Rightarrow> ('w, unit) prog" where
  "pollPass d mode delta =
     (if mode = ModeFull then andThen (reconcileAll d) (\<lambda>_. ret ())
      else
        andThen (reconcileDelta d delta) (\<lambda>_.
        if mode = ModeDeltaConfig then reconcileLocalConfig d else ret ()))"

definition reconcileAllOnce :: "'w shell \<Rightarrow> 'w deps \<Rightarrow> ('w \<Rightarrow> int) \<Rightarrow> bool \<Rightarrow> ('w, unit) act" where
  "reconcileAllOnce sh d0 nowMs configEnabled =
     thenH (getC id) (\<lambda>c.
     case cl_api c of
       None \<Rightarrow> failH ''not connected''
     | Some t \<Rightarrow>
         let now = nowMs (world (cl_sync c));
             forceConfigScan = (configEnabled \<and> now - cl_lastConfigScanAt c \<ge> CONFIG_SCAN_INTERVAL_MS);
             forceFullScan = (now - cl_lastFullScanAt c \<ge> FULL_SCAN_INTERVAL_MS) in
         thenH (onWorld (tr_changes (sh_net sh) t (cursor (cl_sync c)))) (\<lambda>delta.
         thenH (getC id) (\<lambda>c.
         let reset = historyResetDetected (cl_settings c) (cr_version delta) (cr_history_floor delta);
             noChange = (cr_upserts delta = [] \<and> cr_deletes delta = [] \<and> cr_version delta = cursor (cl_sync c));
             mode = decideReconcileMode forceConfigScan forceFullScan reset noChange in
         if mode = ModeNoop then noteHistory (cr_version delta) (cr_history_floor delta) []
         else
           thenH (runPass (\<lambda>c. pollPass (plugDeps sh d0 c) mode delta)) (\<lambda>(_, evs).
           thenH (modC (\<lambda>c. c\<lparr>cl_lastConfigScanAt := (if forceConfigScan then now else cl_lastConfigScanAt c),
             cl_lastFullScanAt := (if forceFullScan then now else cl_lastFullScanAt c)\<rparr>)) (\<lambda>_.
           thenH (getC (\<lambda>c. cursor (cl_sync c))) (\<lambda>v.
           thenH (noteHistory v (cr_history_floor delta) (keptAbsent evs)) (\<lambda>_.
           setPendingBulk ''primary'' (guarded evs) (mode = ModeFull))))))))"

definition doReconcileAll :: "'w shell \<Rightarrow> 'w deps \<Rightarrow> ('w \<Rightarrow> int) \<Rightarrow> bool \<Rightarrow> ('w, unit) act" where
  "doReconcileAll sh d0 nowMs configEnabled = withSyncRelogin sh (reconcileAllOnce sh d0 nowMs configEnabled)"

subsection \<open>The review of held deletions\<close>

text \<open>For the primary vault; while the plugin unloads nothing is asked.\<close>

definition acceptBulkDeletions :: "'w shell \<Rightarrow> 'w deps \<Rightarrow> ('w, unit) act" where
  "acceptBulkDeletions sh d0 =
     thenH (getC (\<lambda>c. heldOf ''primary'' (cl_pendingBulkDeletes c))) (\<lambda>paths.
     if paths = [] then retH ()
     else
       thenH (runPass (\<lambda>c. applyHeldDeletions (plugDeps sh d0 c) paths)) (\<lambda>_.
       thenH (modC (\<lambda>c. c\<lparr>cl_pendingBulkDeletes := clearHeldPaths ''primary'' paths (cl_pendingBulkDeletes c)\<rparr>)) (\<lambda>_.
       saveSettings)))"

definition keepBulkDeletions :: "('w, unit) act" where
  "keepBulkDeletions =
     thenH (getC (\<lambda>c. heldOf ''primary'' (cl_pendingBulkDeletes c))) (\<lambda>paths.
     if paths = [] then retH ()
     else
       thenH (runPass (\<lambda>c. keepHeldDeletions paths)) (\<lambda>_.
       thenH (modC (\<lambda>c. c\<lparr>cl_pendingBulkDeletes := clearHeldPaths ''primary'' paths (cl_pendingBulkDeletes c)\<rparr>)) (\<lambda>_.
       thenH saveSettings (\<lambda>_.
       thenH (modC (\<lambda>c. c\<lparr>cl_lastFullScanAt := 0\<rparr>)) (\<lambda>_. enqueueC EvRemote)))))"

subsection \<open>A base of another vault is never used\<close>

definition sameVault :: "'w shell \<Rightarrow> settings \<Rightarrow> settings \<Rightarrow> bool" where
  "sameVault sh s s0 \<longleftrightarrow> serverHost sh s = serverHost sh s0 \<and> se_vaultOwner s = se_vaultOwner s0 \<and> se_vaultId s = se_vaultId s0"

text \<open>A host name has no bar and an account name no slash.\<close>

definition namesPlain :: "'w shell \<Rightarrow> settings \<Rightarrow> bool" where
  "namesPlain sh s \<longleftrightarrow> CHR ''|'' \<notin> set (serverHost sh s) \<and> CHR ''/'' \<notin> set (se_vaultOwner s)"

lemma identity_sameVault:
  assumes "namesPlain sh s" "namesPlain sh s0"
  shows "vaultIdentityKey sh s = vaultIdentityKey sh s0 \<longleftrightarrow> sameVault sh s s0"
proof
  assume eq: "vaultIdentityKey sh s = vaultIdentityKey sh s0"
  have "serverHost sh s = serverHost sh s0 \<and> CHR ''|'' # se_vaultOwner s @ ''/'' @ se_vaultId s = CHR ''|'' # se_vaultOwner s0 @ ''/'' @ se_vaultId s0"
    using assms eq by (intro cut_at [of "CHR ''|''"]) (auto simp: namesPlain_def vaultIdentityKey_def)
  moreover have "se_vaultOwner s = se_vaultOwner s0 \<and> CHR ''/'' # se_vaultId s = CHR ''/'' # se_vaultId s0"
    using assms calculation by (intro cut_at [of "CHR ''/''"]) (auto simp: namesPlain_def)
  ultimately show "sameVault sh s s0"
    by (simp add: sameVault_def)
qed (simp add: sameVault_def vaultIdentityKey_def)

lemma stamped_mismatch:
  assumes "namesPlain sh s" "namesPlain sh s0"
  shows "vaultKeyMismatch (vaultIdentityKey sh s0) (vaultIdentityKey sh s) (historyFloorKey s) \<longleftrightarrow> \<not> sameVault sh s s0"
  using identity_sameVault [OF assms] by (auto simp: vaultKeyMismatch_def vaultIdentityKey_def)

text \<open>What is left to do once the resolution is known.\<close>

definition applySwitch :: "'w shell \<Rightarrow> 'w deps \<Rightarrow> switch_mode \<Rightarrow> ('w, unit) act" where
  "applySwitch sh d0 mode =
     thenH (runPass (\<lambda>c. switchTo (plugDeps sh d0 c) mode)) (\<lambda>_.
     thenH (modSet (\<lambda>s. s\<lparr>se_pendingSwitch := None\<rparr>)) (\<lambda>_. saveSettings))"

definition pendingIs :: "switch_mode option \<Rightarrow> 'w client \<Rightarrow> 'w client" where
  "pendingIs m c = c\<lparr>cl_settings := (cl_settings c)\<lparr>se_pendingSwitch := m\<rparr>\<rparr>"

lemmas plain_steps = thenH_def getC_def getSet_def retH_def modC_def modSet_def saveSettings_def


text \<open>A switch that is interrupted stays pending: an action that throws leaves the settings as they were.\<close>

lemma keepsC_runPass: "(\<And>c s. P c \<Longrightarrow> P (c\<lparr>cl_sync := s\<rparr>)) \<Longrightarrow> keepsC P (runPass pass)"
  unfolding runPass_def by (auto intro!: keepsC_rules keepsC_onSync)

lemma applySwitch_throws:
  assumes "applySwitch sh d0 m c = (Inl e, c')"
  shows "cl_settings c' = cl_settings c \<and> cl_saved c' = cl_saved c"
proof -
  have "runPass (\<lambda>c. switchTo (plugDeps sh d0 c) m) c = (Inl e, c')"
    using assms by (auto simp: applySwitch_def plain_steps split: prod.splits sum.splits)
  from keepsC_D [OF keepsC_runPass [where P = "\<lambda>x. cl_settings x = cl_settings c \<and> cl_saved x = cl_saved c"] _ this]
  show ?thesis
    by simp
qed

lemma identity_inert:
  "se_serverUrl s' = se_serverUrl s \<Longrightarrow> se_vaultOwner s' = se_vaultOwner s \<Longrightarrow> se_vaultId s' = se_vaultId s \<Longrightarrow>
   vaultIdentityKey sh s' = vaultIdentityKey sh s"
  by (simp add: vaultIdentityKey_def serverHost_def split: option.splits)

definition connectedTo :: "'w shell \<Rightarrow> 'w client \<Rightarrow> bool" where
  "connectedTo sh c \<longleftrightarrow> se_baseVaultKey (cl_settings c) = vaultIdentityKey sh (cl_settings c)
     \<and> se_pendingSwitch (cl_settings c) = None \<and> cl_lastIssue c = None"

lemma connectedTo_privacy: "keepsC (connectedTo sh) (refreshVaultPrivacy sh')"
proof -
  have "keepsC (connectedTo sh) (modSet (\<lambda>s. s\<lparr>se_authToken := t\<rparr>))"
    "keepsC (connectedTo sh) (modSet (\<lambda>s. if se_storePassword s then s else s\<lparr>se_password := []\<rparr>))" for t
    by (auto simp: keepsC_def modSet_def modC_def connectedTo_def cong: identity_inert intro!: identity_inert)
  then show ?thesis
    unfolding refreshVaultPrivacy_def myVaultShares_def ownShareLinks_def onServer_def withAuth_def acquireToken_def
      freshLogin_def loginRemote_def setAuthToken_def saveSettings_def openSetup_def Let_def
    by (auto intro!: keepsC_rules simp: connectedTo_def)
qed

lemma settle_pending:
  assumes "resolveAndApplySwitch sh d0 c = (Inr (), c')"
  shows "se_pendingSwitch (cl_settings c') = None"
proof -
  obtain c1 c2 where s: "guardForeignBase sh c = (Inr (), c1)" "dropAppliedSwitch sh c1 = (Inr (), c2)"
    and r: "(case se_pendingSwitch (cl_settings c2) of Some mode \<Rightarrow> applySwitch sh d0 mode c2 | None \<Rightarrow> reconcileFull sh d0 c2) = (Inr (), c')"
    using assms by (auto simp: resolveAndApplySwitch_def applySwitch_def act_Inr split: option.splits)
  have keep: "keepsC (\<lambda>c. se_pendingSwitch (cl_settings c) = None) (reconcileFull sh d0)"
    unfolding reconcileFull_def noteHistory_def setPendingBulk_def Let_def modSet_def saveSettings_def
    by (auto intro!: keepsC_rules keepsC_runPass)
  show ?thesis
  proof (cases "se_pendingSwitch (cl_settings c2)")
    case None
    with r have "reconcileFull sh d0 c2 = (Inr (), c')"
      by simp
    from keepsC_D [OF keep None this] show ?thesis .
  next
    case (Some m)
    then show ?thesis
      using r by (auto simp: applySwitch_def act_Inr saveSettings_def)
  qed
qed

text \<open>
  A connect that succeeds leaves no switch pending and no issue shown, and the base is stamped with the vault it was
  reconciled with. One that fails with anything but a failure the plugin diagnosed itself shows that the server
  cannot be reached, with the message of that failure.
\<close>
theorem connect_outcome:
  "case doConnect sh d0 now c of
     (Inr _, c') \<Rightarrow> connectedTo sh c'
   | (Inl e, c') \<Rightarrow> if isSynthetic e then True else cl_lastIssue c' = Some (Unreachable (errMessage e))"
proof (cases "doConnect sh d0 now c")
  case (Pair r c')
  show ?thesis
  proof (cases r)
    case (Inl e)
    with Pair show ?thesis
      by (auto simp: doConnect_def thenH_def catchC_def modC_def throwC_def retH_def split: prod.splits sum.splits if_splits)
  next
    case (Inr u)
    with Pair obtain c1 c2 where r: "resolveAndApplySwitch sh d0 c1 = (Inr (), c2)" "finishConnect sh now c2 = (Inr (), c')"
      by (auto simp: doConnect_def act_Inr catch_Inr split: if_splits)
    let ?c = "c2\<lparr>cl_lastConfigScanAt := now (world (cl_sync c2)), cl_lastFullScanAt := now (world (cl_sync c2)), cl_lastIssue := None,
      cl_settings := (cl_settings c2)\<lparr>se_baseVaultKey := vaultIdentityKey sh (cl_settings c2)\<rparr>\<rparr>"
    have "connectedTo sh ?c"
      using settle_pending [OF r(1)] by (auto simp: connectedTo_def intro!: identity_inert)
    moreover have "refreshVaultPrivacy sh ?c = (Inr (), c')"
      using r(2) by (simp add: finishConnect_def act_Inr)
    ultimately have "connectedTo sh c'"
      using keepsC_D [OF connectedTo_privacy] by blast
    with Pair Inr show ?thesis
      by simp
  qed
qed

subsection \<open>Any sequence of actions\<close>

inductive client_step :: "'w shell \<Rightarrow> 'w deps \<Rightarrow> ('w \<Rightarrow> int) \<Rightarrow> (bytes \<Rightarrow> utext) \<Rightarrow> 'w client \<Rightarrow> 'w client \<Rightarrow> bool"
  for sh d0 now dec where
  step_outside: "client_step sh d0 now dec c (c\<lparr>cl_sync := (cl_sync c)\<lparr>world := w\<rparr>\<rparr>)"
| step_setupClosed: "client_step sh d0 now dec c (c\<lparr>cl_setupOpen := False\<rparr>)"
| step_connect: "client_step sh d0 now dec c (snd (doConnect sh d0 now c))"
| step_poll: "client_step sh d0 now dec c (snd (doReconcileAll sh d0 now enabled c))"
| step_disconnect: "client_step sh d0 now dec c (snd (disconnect c))"
| step_signOut: "client_step sh d0 now dec c (snd (signOut c))"
| step_switch: "client_step sh d0 now dec c (snd (switchToVault v m own r c))"
| step_fork: "client_step sh d0 now dec c (snd (forkVault sh v c))"
| step_recreate: "client_step sh d0 now dec c (snd (recreateVault sh c))"
| step_changePassword: "client_step sh d0 now dec c (snd (changeOwnPassword sh p q c))"
| step_storePassword: "client_step sh d0 now dec c (snd (setStorePassword b c))"
| step_unshare: "client_step sh d0 now dec c (snd (unshareVault sh v g c))"
| step_makeLink: "client_step sh d0 now dec c (snd (makeShareLink sh v perm label ttl c))"
| step_dropLink: "client_step sh d0 now dec c (snd (dropShareLink sh i c))"
| step_leave: "client_step sh d0 now dec c (snd (leaveSharedVault sh own v c))"
| step_redeem: "client_step sh d0 now dec c (snd (finishRedeem sh dec (c_io d0) k wz c))"
| step_wizard: "client_step sh d0 now dec c (snd (wizardFinish sh (c_io d0) wz c))"
| step_accept: "client_step sh d0 now dec c (snd (acceptBulkDeletions sh d0 c))"
| step_keep: "client_step sh d0 now dec c (snd (keepBulkDeletions c))"

context settings_policy
begin

lemma compliant_pass [keepsC_rules]: "compliant (runPass pass)"
  by (rule keepsC_runPass) (simp add: policed_def)

lemma ok_bases:
  "ok s \<Longrightarrow> ok (s\<lparr>se_baseVaultKey := key\<rparr>)"
  "ok s \<Longrightarrow> ok (s\<lparr>se_historyFloors := fl, se_lastVersions := lv\<rparr>)"
  using ok_base [where s = s and key = key and fl = "se_historyFloors s" and lv = "se_lastVersions s"]
    ok_base [where s = s and key = "se_baseVaultKey s" and fl = fl and lv = lv]
  by simp_all

lemma compliant_history [keepsC_rules]: "compliant (noteHistory v f kept)"
  unfolding noteHistory_def Let_def by (auto intro!: keepsC_rules ok_bases split: option.splits)

lemma compliant_bulk [keepsC_rules]: "compliant (setPendingBulk scope ps a)"
  unfolding setPendingBulk_def Let_def by (auto intro!: keepsC_rules)

lemma compliant_full [keepsC_rules]: "compliant (reconcileFull sh d0)"
  unfolding reconcileFull_def by (auto intro!: keepsC_rules)

lemma compliant_resolve [keepsC_rules]: "compliant (resolveAndApplySwitch sh d0)"
  unfolding resolveAndApplySwitch_def guardForeignBase_def dropAppliedSwitch_def Let_def
  by (auto intro!: keepsC_rules ok_parts)

lemma compliant_connect [keepsC_rules]: "compliant (doConnect sh d0 now)"
  unfolding doConnect_def finishConnect_def by (auto intro!: keepsC_rules ok_bases)

lemma compliant_poll [keepsC_rules]: "compliant (doReconcileAll sh d0 now b)"
  unfolding doReconcileAll_def
  by (rule compliant_relogin) (auto simp: reconcileAllOnce_def Let_def intro!: keepsC_rules)

lemma compliant_review [keepsC_rules]: "compliant (acceptBulkDeletions sh d0)" "compliant keepBulkDeletions"
  unfolding acceptBulkDeletions_def keepBulkDeletions_def enqueueC_def by (auto intro!: keepsC_rules)

lemma policed_snd: "compliant m \<Longrightarrow> policed c \<Longrightarrow> policed (snd (m c))"
  by (simp add: keepsC_def)

lemma policed_step: "client_step sh d0 now dec c c' \<Longrightarrow> policed c \<Longrightarrow> policed c'"
  by (induction rule: client_step.induct) (auto intro!: policed_snd keepsC_rules simp: policed_def [of "c\<lparr>cl_sync := _\<rparr>" for c]
      policed_def [of "c\<lparr>cl_setupOpen := _\<rparr>" for c], auto simp: policed_def)

lemma policed_steps: "(client_step sh d0 now dec)\<^sup>*\<^sup>* c c' \<Longrightarrow> policed c \<Longrightarrow> policed c'"
  by (induction rule: rtranclp_induct) (auto intro: policed_step)

end

lemma freshLogin_tokenOnly:
  assumes "freshLogin sh c = (Inr t, c')"
  shows "tokenOnly (cl_settings c') \<and> (\<exists>rest. cl_saved c' = cl_settings c' # rest)"
  using assms by (auto simp: freshLogin_def setAuthToken_def saveSettings_def act_Inr tokenOnly_def split: if_splits)

text \<open>
  (C28) The password at rest: in any sequence of the plugin's actions, with anything happening outside in between,
  every state that is written to \<open>data.json\<close> holds the password only when the user chose to store it, if that
  held at the start; and whatever the start, it holds from the first silent sign-in on. The identity under
  which a device commits, once minted, is in every state that is written.
\<close>
theorem password_at_rest:
  assumes run: "(client_step sh d0 now dec)\<^sup>*\<^sup>* c c'"
  shows "(tokenOnly (cl_settings c) \<and> list_all tokenOnly (cl_saved c) \<longrightarrow>
       tokenOnly (cl_settings c') \<and> list_all tokenOnly (cl_saved c'))
    \<and> (deviceIs d (cl_settings c) \<and> list_all (deviceIs d) (cl_saved c) \<longrightarrow> list_all (deviceIs d) (cl_saved c'))
    \<and> (\<forall>t c''. freshLogin sh c' = (Inr t, c'') \<longrightarrow> tokenOnly (hd (cl_saved c'')))"
proof (intro conjI allI impI)
  assume "tokenOnly (cl_settings c) \<and> list_all tokenOnly (cl_saved c)"
  then have "tokens.policed c'"
    using tokens.policed_steps [OF run] by (simp add: tokens.policed_def)
  then show "tokenOnly (cl_settings c')" "list_all tokenOnly (cl_saved c')"
    by (simp_all add: tokens.policed_def)
next
  assume "deviceIs d (cl_settings c) \<and> list_all (deviceIs d) (cl_saved c)"
  then show "list_all (deviceIs d) (cl_saved c')"
    using device.policed_steps [OF run, of d] by (simp add: device.policed_def)
next
  fix t c''
  assume "freshLogin sh c' = (Inr t, c'')"
  then show "tokenOnly (hd (cl_saved c''))"
    using freshLogin_tokenOnly by force
qed

definition storeAndForget :: "'w client \<Rightarrow> 'w client" where
  "storeAndForget c = snd (setStorePassword False (snd (setStorePassword True c)))"

theorem password_at_rest_witness:
  "\<forall>(sh :: unit shell) d0 now dec.
     (client_step sh d0 now dec)\<^sup>*\<^sup>* (startClient startSettings idleState) (storeAndForget (startClient startSettings idleState))
     \<and> list_all tokenOnly (cl_saved (storeAndForget (startClient startSettings idleState)))
     \<and> list_all (deviceIs ''d1'') (cl_saved (storeAndForget (startClient startSettings idleState)))"
proof (intro allI)
  fix sh :: "unit shell" and d0 now dec
  let ?c = "startClient startSettings idleState"
  have run: "(client_step sh d0 now dec)\<^sup>*\<^sup>* ?c (storeAndForget ?c)"
    unfolding storeAndForget_def by (meson step_storePassword converse_rtranclp_into_rtranclp rtranclp.rtrancl_refl)
  have "tokenOnly startSettings" "deviceIs ''d1'' startSettings" "cl_settings ?c = startSettings" "cl_saved ?c = []"
    by (simp_all add: tokenOnly_def deviceIs_def startSettings_def startClient_def)
  then show "(client_step sh d0 now dec)\<^sup>*\<^sup>* ?c (storeAndForget ?c) \<and> list_all tokenOnly (cl_saved (storeAndForget ?c))
      \<and> list_all (deviceIs ''d1'') (cl_saved (storeAndForget ?c))"
    using password_at_rest [OF run, of "''d1''"] run by simp
qed

text \<open>A device with one note, whose base was stamped for another vault than the one the settings name.\<close>

definition movedClient :: "unit client" where
  "movedClient =
     startClient (startSettings\<lparr>se_vaultId := ''work'', se_baseVaultKey := vaultIdentityKey readyShell startSettings\<rparr>)
       (idleState\<lparr>base := base_set ''a.md'' \<lparr>be_hash = ''x'', be_text = None, be_size = None, be_mtime = None\<rparr> (baseStore [])\<rparr>)"


subsection \<open>Where the guard and the wizard fall short\<close>

text \<open>
  The stamp is not withdrawn when a switch starts. A switch from the vault of \<open>s0\<close> that is interrupted after it
  adopted a file leaves entries of the other vault under the stamp of the first; when the user then goes back to
  the first vault, the switch counts as already applied and the pass runs against the other vault's base.
\<close>

lemma switch_back_uses_foreign_base:
  assumes stamped: "se_baseVaultKey (cl_settings c) = vaultIdentityKey sh s0" "se_serverUrl (cl_settings c) = se_serverUrl s0"
    and interrupted: "applySwitch sh d0 m (snd (switchToVault other m own r c)) = (Inl e, c1)" "baseNonEmpty c1"
  shows "\<exists>c2. resolveAndApplySwitch sh d0 (snd (switchToVault (se_vaultId s0) SwitchMerge (se_vaultOwner s0) r0 c1))
      = reconcileFull sh d0 c2 \<and> cl_sync c2 = cl_sync c1"
proof -
  let ?c = "snd (switchToVault (se_vaultId s0) SwitchMerge (se_vaultOwner s0) r0 c1)"
  have c1: "se_baseVaultKey (cl_settings c1) = vaultIdentityKey sh s0" "se_serverUrl (cl_settings c1) = se_serverUrl s0"
    using stamped applySwitch_throws [OF interrupted(1)] by (simp_all add: switchToVault_def reconnect_def enqueueC_def plain_steps)
  have c: "cl_sync ?c = cl_sync c1" "se_pendingSwitch (cl_settings ?c) = Some SwitchMerge"
      "se_baseVaultKey (cl_settings ?c) = vaultIdentityKey sh s0" "vaultIdentityKey sh (cl_settings ?c) = vaultIdentityKey sh s0"
    using c1 by (auto simp: switchToVault_def reconnect_def enqueueC_def plain_steps intro!: identity_inert)
  then have "guardForeignBase sh ?c = (Inr (), ?c)"
    and "dropAppliedSwitch sh ?c = (Inr (), (pendingIs None ?c)\<lparr>cl_saved := cl_settings (pendingIs None ?c) # cl_saved ?c\<rparr>)"
    using interrupted(2) by (simp_all add: guardForeignBase_def dropAppliedSwitch_def plain_steps Let_def switchAlreadyApplied_def
        baseNonEmpty_def pendingIs_def)
  then have "resolveAndApplySwitch sh d0 ?c = reconcileFull sh d0 ((pendingIs None ?c)\<lparr>cl_saved := cl_settings (pendingIs None ?c) # cl_saved ?c\<rparr>)"
    by (simp add: resolveAndApplySwitch_def thenH_def getSet_def getC_def pendingIs_def)
  moreover have "cl_sync ((pendingIs None ?c)\<lparr>cl_saved := cl_settings (pendingIs None ?c) # cl_saved ?c\<rparr>) = cl_sync c1"
    using c(1) by (simp add: pendingIs_def)
  ultimately show ?thesis
    by blast
qed

text \<open>
  A device that was disconnected from the vault of another account, and is then set up again with a vault of the
  account's own, goes on addressing the other account: the wizard replaces the vault but not its owner.
\<close>

lemma wizard_keeps_owner:
  assumes "wz_loggedIn wz" "wz_newVault wz = []" "wz_chosenVault wz \<noteq> []"
  shows "se_vaultId (cl_settings (snd (wizardFinish sh io wz (snd (disconnect c))))) = wz_chosenVault wz
    \<and> se_vaultOwner (cl_settings (snd (wizardFinish sh io wz (snd (disconnect c))))) = se_vaultOwner (cl_settings c)"
  using assms
  by (simp add: wizardFinish_def wizardVault_def wizardAdopt_def wizardCredentials_def disconnect_def reconnect_def enqueueC_def
      plain_steps catchC_def Let_def)

text \<open>
  The message that names a withdrawn grant is replaced, in the same attempt to connect, by the one for a server
  that cannot be reached.
\<close>

lemma revocation_shown_as_unreachable:
  assumes "establishSession sh (c\<lparr>cl_lastIssue := None\<rparr>) = (Inl (PlainErr (newError ''share access revoked'')), c1)"
  shows "cl_lastIssue (snd (doConnect sh d0 now c)) = Some (Unreachable ''share access revoked'')"
  using assms by (simp add: doConnect_def plain_steps catchC_def throwC_def newError_def)

lemma revocation_example:
  "cl_lastIssue (snd (establishSession readyShell (startClient (startSettings\<lparr>se_vaultOwner := ''carol''\<rparr>) idleState)))
     = Some (AccessRemoved ''carol'' ''notes'')
   \<and> cl_lastIssue (snd (doConnect readyShell d0 now (startClient (startSettings\<lparr>se_vaultOwner := ''carol''\<rparr>) idleState)))
     = Some (Unreachable ''share access revoked'')"
proof -
  let ?s = "startSettings\<lparr>se_vaultOwner := ''carol''\<rparr>"
  have s: "se_authToken ?s = ''t''" "se_deviceId ?s = ''d1''" "se_vaultOwner ?s = ''carol''"
      "se_vaultId ?s = ''notes''" "\<not> se_vaultReadOnly ?s" "se_mounts ?s = []"
    by (simp_all add: startSettings_def)
  have o: "\<not> isOwnAccount ?s ''carol''"
    and g: "resolveShareGrant (grantTriples [\<lparr>sv_owner = ''bob'', sv_vault = ''notes'', sv_perm = PermRead\<rparr>]) ''carol'' ''notes'' = GrantRevoked"
    by code_simp+
  have i: "(startClient ?s idleState)\<lparr>cl_lastIssue := None\<rparr> = startClient ?s idleState"
    by (simp add: startClient_def)
  have "\<exists>c1. establishSession readyShell (startClient ?s idleState) = (Inl (PlainErr (newError ''share access revoked'')), c1)
      \<and> cl_lastIssue c1 = Some (AccessRemoved ''carol'' ''notes'')"
    by (simp add: establishSession_def acquireToken_def vaultHealth_def startSession_def useApi_def buildApi_def deviceIdC_def
      plain_steps catchC_def onWorld_def checkH_def startClient_def failH_def raiseIssue_def
      s o g newTransport_def readyShell_def ready_status ready_schema ready_grants ready_facts
      requireCompat_def checkWireCompat_def hashCheck_def requireReady_def readyHealth_def refreshShareGrant_def)
  then show ?thesis
    using revocation_shown_as_unreachable [of readyShell "startClient ?s idleState"] i by auto
qed

subsection \<open>The watch on the deletion history\<close>

text \<open>
  What a pass records of the server's history is what the next answer is compared with: the same answer again is no
  reset, a later one is a reset exactly when its version is lower or its floor higher, for this vault, while what is known of other
  vaults stays. The user is told of a reset exactly when one is detected and files were kept because of it.
\<close>
theorem history_watched:
  "let c' = snd (noteHistory version (Some f) kept c); s = cl_settings c; s' = cl_settings c' in
     \<not> historyResetDetected s' version (Some f)
   \<and> (historyResetDetected s' v' f' \<longleftrightarrow> v' < version \<or> (case f' of Some b \<Rightarrow> f < b | None \<Rightarrow> False))
   \<and> (if key = historyFloorKey s then True
      else map_of (se_historyFloors s') key = map_of (se_historyFloors s) key
        \<and> map_of (se_lastVersions s') key = map_of (se_lastVersions s) key)
   \<and> cl_toasts c' = (if kept \<noteq> [] \<and> historyResetDetected s version (Some f) then HistoryReset kept # cl_toasts c else cl_toasts c)
   \<and> cl_saved c' = (if map_of (se_historyFloors s) (historyFloorKey s) = Some f \<and> map_of (se_lastVersions s) (historyFloorKey s) = Some version
        then cl_saved c else s' # cl_saved c)"
proof -
  let ?s = "cl_settings c" and ?c' = "snd (noteHistory version (Some f) kept c)"
  let ?k = "historyFloorKey ?s"
  let ?fl = "if map_of (se_historyFloors ?s) ?k \<noteq> Some f then AList.update ?k f (se_historyFloors ?s) else se_historyFloors ?s"
  let ?lv = "if map_of (se_lastVersions ?s) ?k \<noteq> Some version then AList.update ?k version (se_lastVersions ?s) else se_lastVersions ?s"
  have s': "cl_settings ?c' = ?s\<lparr>se_historyFloors := ?fl, se_lastVersions := ?lv\<rparr>"
    and toasts: "cl_toasts ?c' = (if kept \<noteq> [] \<and> historyResetDetected ?s version (Some f) then HistoryReset kept # cl_toasts c else cl_toasts c)"
    and saved: "cl_saved ?c' = (if map_of (se_historyFloors ?s) ?k = Some f \<and> map_of (se_lastVersions ?s) ?k = Some version
        then cl_saved c else cl_settings ?c' # cl_saved c)"
    by (simp_all add: noteHistory_def plain_steps Let_def)
  have k: "historyFloorKey (cl_settings ?c') = ?k"
    by (simp add: s' historyFloorKey_def)
  have fl: "map_of ?fl key = (if key = ?k then Some f else map_of (se_historyFloors ?s) key)" for key
    by (simp add: update_conv')
  have lv: "map_of ?lv key = (if key = ?k then Some version else map_of (se_lastVersions ?s) key)" for key
    by (simp add: update_conv')
  have det: "historyResetDetected (cl_settings ?c') v' f' \<longleftrightarrow> v' < version \<or> (case f' of Some b \<Rightarrow> f < b | None \<Rightarrow> False)" for v' f'
    unfolding historyResetDetected_def k unfolding s' using fl [of ?k] lv [of ?k] by (auto simp: Let_def split: option.splits)
  show ?thesis
    unfolding Let_def using det [of version "Some f"] det [of v' f'] toasts saved fl [of key] lv [of key]
    by (simp add: s')
qed

end
