(* ===== verification/EditClaims.thy ===== *)
theory EditClaims
  imports StatusLight MountFsm PathIdentity ExcludedFolders
begin

text \<open>
  What the status light of \<open>client/src/main.ts\<close> is told: the record of local edits that the server has not
  seen, the phase that the light is given, and the wall clock that releases a held display. The engine's phase and the states of the mounts
  are arguments of every step, as they are read when a step paints; painting itself, the log and the
  timers' prompts are not part of the state. A \<open>settle\<close> of the display's timer is a step of its own.
\<close>

definition SYNCING_MIN_SHOW_MS :: int where
  "SYNCING_MIN_SHOW_MS = 2500"

definition UNSYNCED_EDIT_MAX_MS :: int where
  "UNSYNCED_EDIT_MAX_MS = 15000"

definition CLAIM_STALE_WARN_MS :: int where
  "CLAIM_STALE_WARN_MS = 60000"

record claim =
  ck_at :: int
  ck_onDisk :: bool
  ck_path :: path
  ck_warned :: bool

record light_state =
  ls_unsyncedEdits :: "(string \<times> claim) list"
  ls_syncPending :: int
  ls_localWork :: int
  ls_display :: light_display
  ls_heldSince :: int

text \<open>What the plugin knows of its device and its scope.\<close>

record light_env =
  le_nfc :: "string \<Rightarrow> string"
  le_fs :: path_fs
  le_inScope :: "path \<Rightarrow> bool"
  le_excludedFolders :: "string list"

text \<open>What is read at a step: the clock, the engine's phase and the mounts.\<close>

record moment =
  mo_now :: int
  mo_phase :: phase
  mo_mounts :: "(string \<times> mount_state) list"

definition mountStatusSummary :: "(string \<times> mount_state) list \<Rightarrow> (health \<times> string) option" where
  "mountStatusSummary scopes =
     (if scopes = [] then None
      else
        let agg = aggregateStatus HIdle scopes in
        if fst agg = HError \<or> fst agg = HOffline \<or> fst agg = HDiverged then Some agg else None)"

definition pendingWork :: "light_state \<Rightarrow> int" where
  "pendingWork st = ls_syncPending st + ls_localWork st"

text \<open>Reading the claims drops those of a buffer that was never written, and marks the old ones of a file.\<close>

definition unsyncedEditCount :: "int \<Rightarrow> light_state \<Rightarrow> nat \<times> light_state" where
  "unsyncedEditCount now st =
     (if ls_unsyncedEdits st = [] then (0, st)
      else
        let open_claims = filter (\<lambda>(_, e). ck_onDisk e \<or> ck_at e \<ge> now - UNSYNCED_EDIT_MAX_MS) (ls_unsyncedEdits st);
            marked = map (\<lambda>(k, e). (k, if ck_onDisk e \<and> ck_at e < now - CLAIM_STALE_WARN_MS then e\<lparr>ck_warned := True\<rparr> else e)) open_claims
        in (length marked, st\<lparr>ls_unsyncedEdits := marked\<rparr>))"

definition displayPhase :: "moment \<Rightarrow> light_state \<Rightarrow> phase \<times> light_state" where
  "displayPhase mo st =
     (let p = effectivePhase (mo_phase mo) (pendingWork st) in
      if p = Pidle then
        (case unsyncedEditCount (mo_now mo) st of (n, st1) \<Rightarrow> (if n > 0 then Psyncing else p, st1))
      else (p, st))"

definition effectiveLightPhase :: "moment \<Rightarrow> light_state \<Rightarrow> phase \<times> light_state" where
  "effectiveLightPhase mo st =
     (case displayPhase mo st of (primary, st1) \<Rightarrow>
        (if primary = Pidle \<or> primary = Poff \<or> primary = Psyncing then
           case mountStatusSummary (mo_mounts mo) of
             Some (h, _) \<Rightarrow> if h = HError then Pblocked else Pretrying
           | None \<Rightarrow> primary
         else primary, st1))"

definition applyLightAction :: "int \<Rightarrow> light_action \<Rightarrow> light_state \<Rightarrow> light_state" where
  "applyLightAction now act st =
     st\<lparr>ls_display := la_state act, ls_heldSince := (if la_arm act then now else ls_heldSince st)\<rparr>"

definition dispatchLight :: "int \<Rightarrow> light_event \<Rightarrow> light_state \<Rightarrow> light_state" where
  "dispatchLight now e st =
     (let st1 = (if e \<noteq> Settle \<and> held (ls_display st) \<and> now - ls_heldSince st \<ge> SYNCING_MIN_SHOW_MS
                 then applyLightAction now (nextLightDisplay (ls_display st) Settle) st else st)
      in applyLightAction now (nextLightDisplay (ls_display st1) e) st1)"

definition renderLight :: "moment \<Rightarrow> light_state \<Rightarrow> light_state" where
  "renderLight mo st =
     (case effectiveLightPhase mo st of (p, st1) \<Rightarrow> dispatchLight (mo_now mo) (PhaseEv p) st1)"

subsection \<open>The facts that are recorded\<close>

definition claimKey :: "light_env \<Rightarrow> path \<Rightarrow> string" where
  "claimKey env p = identityKey (le_nfc env) p (le_fs env)"

definition noteLocalChange :: "light_env \<Rightarrow> moment \<Rightarrow> path \<Rightarrow> bool \<Rightarrow> light_state \<Rightarrow> light_state" where
  "noteLocalChange env mo p onDisk st =
     (if \<not> le_inScope env p then st
      else if isExcluded p (le_excludedFolders env) then st
      else
        let k = claimKey env p; prev = map_of (ls_unsyncedEdits st) k;
            e = \<lparr>ck_at = mo_now mo, ck_onDisk = onDisk \<or> (case prev of Some c \<Rightarrow> ck_onDisk c | None \<Rightarrow> False),
                 ck_path = p, ck_warned = False\<rparr>;
            st1 = st\<lparr>ls_unsyncedEdits := AList.update k e (ls_unsyncedEdits st)\<rparr>
        in if prev = None then renderLight mo st1 else st1)"

definition noteEditorEdit :: "light_env \<Rightarrow> moment \<Rightarrow> path \<Rightarrow> light_state \<Rightarrow> light_state" where
  "noteEditorEdit env mo p st = (if p = '''' then st else noteLocalChange env mo p False st)"

definition notePathSettled :: "light_env \<Rightarrow> moment \<Rightarrow> path \<Rightarrow> light_state \<Rightarrow> light_state" where
  "notePathSettled env mo p st =
     (if map_of (ls_unsyncedEdits st) (claimKey env p) \<noteq> None
      then renderLight mo (st\<lparr>ls_unsyncedEdits := AList.delete (claimKey env p) (ls_unsyncedEdits st)\<rparr>)
      else st)"

definition settleUnsyncedBefore :: "moment \<Rightarrow> int \<Rightarrow> light_state \<Rightarrow> light_state" where
  "settleUnsyncedBefore mo cutoff st =
     (let rest = filter (\<lambda>(_, e). \<not> ck_at e \<le> cutoff) (ls_unsyncedEdits st) in
      if rest \<noteq> ls_unsyncedEdits st then renderLight mo (st\<lparr>ls_unsyncedEdits := rest\<rparr>) else st)"

definition notePathWork :: "moment \<Rightarrow> bool \<Rightarrow> bool \<Rightarrow> light_state \<Rightarrow> light_state" where
  "notePathWork mo busy failed st =
     (let st1 = st\<lparr>ls_localWork := max 0 (ls_localWork st + (if busy then 1 else - 1))\<rparr> in
      if failed then st1 else renderLight mo st1)"

definition noteProgress :: "moment \<Rightarrow> int \<Rightarrow> light_state \<Rightarrow> light_state" where
  "noteProgress mo pending st =
     (if pending = ls_syncPending st then st else renderLight mo (st\<lparr>ls_syncPending := max 0 pending\<rparr>))"

datatype light_op =
    OpLocal path bool | OpEditor path | OpSettled path | OpSweep int | OpWork bool bool | OpProgress int | OpRender | OpTimer

fun lightStep :: "light_env \<Rightarrow> moment \<Rightarrow> light_op \<Rightarrow> light_state \<Rightarrow> light_state" where
  "lightStep env mo (OpLocal p onDisk) st = noteLocalChange env mo p onDisk st"
| "lightStep env mo (OpEditor p) st = noteEditorEdit env mo p st"
| "lightStep env mo (OpSettled p) st = notePathSettled env mo p st"
| "lightStep env mo (OpSweep cutoff) st = settleUnsyncedBefore mo cutoff st"
| "lightStep env mo (OpWork busy failed) st = notePathWork mo busy failed st"
| "lightStep env mo (OpProgress n) st = noteProgress mo n st"
| "lightStep env mo OpRender st = renderLight mo st"
| "lightStep env mo OpTimer st = dispatchLight (mo_now mo) Settle st"

fun lightTrace :: "light_env \<Rightarrow> (moment \<times> light_op) list \<Rightarrow> light_state \<Rightarrow> light_state" where
  "lightTrace env [] st = st"
| "lightTrace env ((mo, op) # rest) st = lightTrace env rest (lightStep env mo op st)"

definition lightStart :: light_state where
  "lightStart = \<lparr>ls_unsyncedEdits = [], ls_syncPending = 0, ls_localWork = 0, ls_display = lightDisplayInit Poff, ls_heldSince = 0\<rparr>"

subsection \<open>The light is honest\<close>

definition honest :: "light_state \<Rightarrow> bool" where
  "honest st \<longleftrightarrow>
     (held (ls_display st) \<longrightarrow> shown (ls_display st) = Psyncing)
     \<and> (ls_unsyncedEdits st \<noteq> [] \<longrightarrow> shown (ls_display st) \<noteq> Pidle \<and> deferred (ls_display st) \<noteq> Some Pidle)"

lemma dispatch_claims [simp]: "ls_unsyncedEdits (dispatchLight now e st) = ls_unsyncedEdits st"
  by (simp add: dispatchLight_def applyLightAction_def Let_def)

definition heldOk :: "light_state \<Rightarrow> bool" where
  "heldOk st \<longleftrightarrow> (held (ls_display st) \<longrightarrow> shown (ls_display st) = Psyncing)"

lemma honest_settle:
  assumes "honest st"
  shows "honest (applyLightAction now (nextLightDisplay (ls_display st) Settle) st)"
  using assms by (auto simp: honest_def applyLightAction_def split: option.splits)

lemma honest_phase:
  assumes "heldOk st" "ls_unsyncedEdits st \<noteq> [] \<longrightarrow> p \<noteq> Pidle"
  shows "honest (applyLightAction now (nextLightDisplay (ls_display st) (PhaseEv p)) st)"
  using assms by (auto simp: honest_def heldOk_def applyLightAction_def isAttention_def)

lemma honest_dispatch:
  assumes "heldOk st" "ls_unsyncedEdits st \<noteq> [] \<longrightarrow> p \<noteq> Pidle"
  shows "honest (dispatchLight now (PhaseEv p) st)"
proof -
  let ?settled = "applyLightAction now (nextLightDisplay (ls_display st) Settle) st"
  have "heldOk ?settled" "ls_unsyncedEdits ?settled = ls_unsyncedEdits st"
    by (auto simp: heldOk_def applyLightAction_def split: option.splits)
  then show ?thesis
    using assms unfolding dispatchLight_def Let_def
    by (auto intro!: honest_phase simp del: nextLightDisplay.simps)
qed

lemma displayPhase_honest:
  "displayPhase mo st = (p, st1) \<Longrightarrow> ls_display st1 = ls_display st \<and> (ls_unsyncedEdits st1 \<noteq> [] \<longrightarrow> p \<noteq> Pidle)"
  by (auto simp: displayPhase_def unsyncedEditCount_def Let_def split: if_splits prod.splits)

lemma effectiveLightPhase_idle:
  "displayPhase mo st = (p, st1) \<Longrightarrow> \<exists>q. effectiveLightPhase mo st = (q, st1) \<and> (q = Pidle \<longrightarrow> p = Pidle)"
  by (auto simp: effectiveLightPhase_def split: option.splits)

lemma honest_render:
  assumes "heldOk st"
  shows "honest (renderLight mo st)"
proof -
  obtain p st1 where p: "displayPhase mo st = (p, st1)"
    by fastforce
  then obtain q where q: "effectiveLightPhase mo st = (q, st1)" "q = Pidle \<longrightarrow> p = Pidle"
    using effectiveLightPhase_idle by blast
  show ?thesis
    using displayPhase_honest [OF p] assms q unfolding renderLight_def
    by (auto intro!: honest_dispatch simp: heldOk_def)
qed

lemma honest_heldOk: "honest st \<Longrightarrow> heldOk st"
  by (simp add: honest_def heldOk_def)

lemma heldOk_frames [simp]:
  "heldOk (st\<lparr>ls_unsyncedEdits := cs\<rparr>) = heldOk st" "heldOk (st\<lparr>ls_localWork := n\<rparr>) = heldOk st"
  "heldOk (st\<lparr>ls_syncPending := n\<rparr>) = heldOk st"
  by (simp_all add: heldOk_def)

lemma honest_change:
  assumes "honest st"
  shows "honest (noteLocalChange env mo p onDisk st)"
proof (cases "map_of (ls_unsyncedEdits st) (claimKey env p)")
  case None
  then show ?thesis
    using assms honest_heldOk [OF assms] by (auto simp: noteLocalChange_def Let_def intro!: honest_render)
next
  case (Some e)
  then have "ls_unsyncedEdits st \<noteq> []"
    by auto
  then have "honest (st\<lparr>ls_unsyncedEdits := cs\<rparr>)" for cs
    using assms by (simp add: honest_def)
  then show ?thesis
    using assms Some by (simp add: noteLocalChange_def Let_def)
qed

lemma honest_step:
  assumes "honest st"
  shows "honest (lightStep env mo op st)"
proof -
  note ok = honest_heldOk [OF assms] and still = assms
  have work: "honest (st\<lparr>ls_localWork := n\<rparr>)" for n
    using assms by (simp add: honest_def)
  show ?thesis
    by (cases op) (use ok still work honest_change [OF assms] honest_settle [OF assms] in
      \<open>auto simp: noteEditorEdit_def notePathSettled_def settleUnsyncedBefore_def notePathWork_def noteProgress_def dispatchLight_def
         Let_def simp del: nextLightDisplay.simps intro!: honest_render\<close>)
qed

lemma honest_trace: "honest st \<Longrightarrow> honest (lightTrace env ops st)"
  by (induction env ops st rule: lightTrace.induct) (auto simp: honest_step)

subsection \<open>What settles a claim\<close>

text \<open>A claim on a file is ended by the pass over that file, or by a whole pass that began no earlier.\<close>

definition diskClaim :: "string \<Rightarrow> int \<Rightarrow> light_state \<Rightarrow> bool" where
  "diskClaim k t st \<longleftrightarrow> (\<exists>e. map_of (ls_unsyncedEdits st) k = Some e \<and> ck_onDisk e \<and> ck_at e \<ge> t)"

fun settles :: "light_env \<Rightarrow> string \<Rightarrow> int \<Rightarrow> light_op \<Rightarrow> bool" where
  "settles env k t (OpSettled p) \<longleftrightarrow> claimKey env p = k"
| "settles env k t (OpSweep cutoff) \<longleftrightarrow> cutoff \<ge> t"
| "settles env k t _ \<longleftrightarrow> False"

definition keyed :: "light_state \<Rightarrow> bool" where
  "keyed st \<longleftrightarrow> distinct (map fst (ls_unsyncedEdits st))"

lemma diskClaim_set:
  "keyed st \<Longrightarrow> diskClaim k t st \<longleftrightarrow> (\<exists>e. (k, e) \<in> set (ls_unsyncedEdits st) \<and> ck_onDisk e \<and> t \<le> ck_at e)"
  by (auto simp: diskClaim_def keyed_def map_of_eq_Some_iff)

lemma count_claims:
  assumes "keyed st"
  shows "keyed (snd (unsyncedEditCount now st)) \<and> (diskClaim k t st \<longrightarrow> diskClaim k t (snd (unsyncedEditCount now st)))"
proof -
  let ?old = "\<lambda>e. ck_onDisk e \<or> ck_at e \<ge> now - UNSYNCED_EDIT_MAX_MS"
  let ?mark = "\<lambda>e. if ck_onDisk e \<and> ck_at e < now - CLAIM_STALE_WARN_MS then e\<lparr>ck_warned := True\<rparr> else e"
  let ?cs = "map (\<lambda>(k, e). (k, ?mark e)) (filter (\<lambda>(_, e). ?old e) (ls_unsyncedEdits st))"
  have d: "distinct (map fst ?cs)"
    using assms by (simp add: keyed_def comp_def case_prod_unfold distinct_map_filter)
  moreover have "\<exists>e. map_of ?cs k = Some e \<and> ck_onDisk e \<and> t \<le> ck_at e" if claim: "diskClaim k t st"
  proof -
    obtain e where e: "(k, e) \<in> set (ls_unsyncedEdits st)" "ck_onDisk e" "t \<le> ck_at e"
      using claim diskClaim_set [OF assms, of k t] by auto
    then have "(k, ?mark e) \<in> set ?cs"
      by force
    then show ?thesis
      using e d by (auto intro!: exI [of _ "?mark e"] simp: map_of_eq_Some_iff)
  qed
  ultimately show ?thesis
    using assms by (auto simp: unsyncedEditCount_def Let_def keyed_def diskClaim_def)
qed

lemma render_claims:
  assumes "keyed st"
  shows "keyed (renderLight mo st) \<and> (diskClaim k t st \<longrightarrow> diskClaim k t (renderLight mo st))"
proof -
  obtain p st1 where p: "displayPhase mo st = (p, st1)"
    by fastforce
  then obtain q where q: "effectiveLightPhase mo st = (q, st1)"
    using effectiveLightPhase_idle by blast
  have "st1 = st \<or> st1 = snd (unsyncedEditCount (mo_now mo) st)"
    using p by (auto simp: displayPhase_def Let_def split: if_splits prod.splits)
  then show ?thesis
    using count_claims [OF assms, of "mo_now mo" k t] assms q unfolding renderLight_def
    by (auto simp: keyed_def diskClaim_def)
qed

lemma claim_frames [simp]:
  "keyed (st\<lparr>ls_localWork := n\<rparr>) = keyed st" "keyed (st\<lparr>ls_syncPending := n\<rparr>) = keyed st"
  "diskClaim k t (st\<lparr>ls_localWork := n\<rparr>) = diskClaim k t st" "diskClaim k t (st\<lparr>ls_syncPending := n\<rparr>) = diskClaim k t st"
  by (simp_all add: keyed_def diskClaim_def)

lemma change_claims:
  assumes "keyed st" "t \<le> mo_now mo"
  shows "keyed (noteLocalChange env mo p onDisk st)
    \<and> (diskClaim k t st \<longrightarrow> diskClaim k t (noteLocalChange env mo p onDisk st))
    \<and> (onDisk \<and> le_inScope env p \<and> \<not> isExcluded p (le_excludedFolders env) \<longrightarrow>
        diskClaim (claimKey env p) t (noteLocalChange env mo p onDisk st))"
proof -
  let ?prev = "map_of (ls_unsyncedEdits st) (claimKey env p)"
  let ?e = "\<lparr>ck_at = mo_now mo, ck_onDisk = onDisk \<or> (case ?prev of Some c \<Rightarrow> ck_onDisk c | None \<Rightarrow> False), ck_path = p, ck_warned = False\<rparr>"
  let ?st = "st\<lparr>ls_unsyncedEdits := AList.update (claimKey env p) ?e (ls_unsyncedEdits st)\<rparr>"
  have k: "keyed ?st"
    using assms by (simp add: keyed_def distinct_update)
  have old: "diskClaim k t st \<longrightarrow> diskClaim k t ?st"
    using assms(2) by (auto simp: diskClaim_def update_conv')
  have new: "onDisk \<longrightarrow> diskClaim (claimKey env p) t ?st"
    using assms(2) by (simp add: diskClaim_def update_conv')
  show ?thesis
    using assms(1) k old new render_claims [OF k, of mo k t] render_claims [OF k, of mo "claimKey env p" t]
    by (auto simp: noteLocalChange_def Let_def)
qed

lemma step_claims:
  assumes "keyed st" "t \<le> mo_now mo"
  shows "keyed (lightStep env mo op st)
    \<and> (diskClaim k t st \<and> \<not> settles env k t op \<longrightarrow> diskClaim k t (lightStep env mo op st))"
proof (cases op)
  case (OpSettled p)
  let ?st = "st\<lparr>ls_unsyncedEdits := AList.delete (claimKey env p) (ls_unsyncedEdits st)\<rparr>"
  have k: "keyed ?st"
    using assms by (simp add: keyed_def distinct_delete)
  have "diskClaim k t st \<and> claimKey env p \<noteq> k \<longrightarrow> diskClaim k t ?st"
    by (auto simp: diskClaim_def delete_conv')
  with OpSettled show ?thesis
    using assms(1) k render_claims [OF k, of mo k t] by (auto simp: notePathSettled_def)
next
  case (OpSweep cutoff)
  let ?st = "st\<lparr>ls_unsyncedEdits := filter (\<lambda>(_, e). \<not> ck_at e \<le> cutoff) (ls_unsyncedEdits st)\<rparr>"
  have k: "keyed ?st"
    using assms by (simp add: keyed_def distinct_map_filter)
  have "diskClaim k t ?st" if claim: "diskClaim k t st" and late: "cutoff < t"
  proof -
    obtain e where e: "(k, e) \<in> set (ls_unsyncedEdits st)" "ck_onDisk e" "t \<le> ck_at e"
      using claim diskClaim_set [OF assms(1), of k t] by auto
    with late have "(k, e) \<in> set (ls_unsyncedEdits ?st)"
      by auto
    with e k show ?thesis
      using diskClaim_set [OF k, of k t] by auto
  qed
  with OpSweep show ?thesis
    using assms(1) k render_claims [OF k, of mo k t] by (auto simp: settleUnsyncedBefore_def Let_def)
next
  case (OpTimer)
  then show ?thesis
    using assms(1) by (simp add: keyed_def diskClaim_def)
next
  case (OpWork busy failed)
  have "keyed (st\<lparr>ls_localWork := n\<rparr>)" for n
    using assms(1) by simp
  from render_claims [where mo = mo and k = k and t = t, OF this] OpWork assms(1) show ?thesis
    by (simp add: notePathWork_def Let_def)
next
  case (OpProgress n)
  have "keyed (st\<lparr>ls_syncPending := n\<rparr>)" for n
    using assms(1) by simp
  from render_claims [where mo = mo and k = k and t = t, OF this] OpProgress assms(1) show ?thesis
    by (simp add: noteProgress_def)
qed (use change_claims [OF assms, of env] render_claims [OF assms(1)] assms(1) in \<open>auto simp: noteEditorEdit_def\<close>)

lemma trace_keyed: "keyed st \<Longrightarrow> keyed (lightTrace env ops st)"
  by (induction env ops st rule: lightTrace.induct) (use step_claims [OF _ order_refl] in auto)

lemma trace_claims:
  assumes "keyed st" "diskClaim k t st" "list_all (\<lambda>(mo, op). t \<le> mo_now mo \<and> \<not> settles env k t op) ops"
  shows "diskClaim k t (lightTrace env ops st)"
  using assms
proof (induction env ops st rule: lightTrace.induct)
  case (2 env mo op rest st)
  then show ?case
    using step_claims [of st t mo env op k] by auto
qed simp

lemma start_honest: "honest lightStart" "keyed lightStart"
  by (simp_all add: honest_def keyed_def lightStart_def lightDisplayInit_def)


definition plainEnv :: light_env where
  "plainEnv = \<lparr>le_nfc = (\<lambda>s. s), le_fs = EXACT_FS, le_inScope = (\<lambda>p. True), le_excludedFolders = []\<rparr>"

definition at :: "int \<Rightarrow> phase \<Rightarrow> moment" where
  "at t p = \<lparr>mo_now = t, mo_phase = p, mo_mounts = []\<rparr>"


subsection \<open>Where a claim is settled too early\<close>

text \<open>
  The end of a connect settles with the time at its end, not the time its pass began, so an edit that lands while
  the pass runs, after its file was listed, is taken as seen by the server: the light shows idle. The poll, which
  settles with the time its pass began, keeps the claim.
\<close>

lemma connect_settles_late_edit:
  "shown (ls_display (lightTrace plainEnv [(at 5 Pconnecting, OpLocal ''a.md'' True), (at 9000 Pidle, OpSweep 9000)] lightStart)) = Pidle"
  "shown (ls_display (lightTrace plainEnv [(at 5 Pconnecting, OpLocal ''a.md'' True), (at 9000 Pidle, OpSweep 0), (at 9000 Pidle, OpRender)] lightStart)) = Psyncing"
  by code_simp+

end
