(* ===== verification/PluginGate.thy ===== *)
theory PluginGate
  imports Session
begin

text \<open>
  The gate before plugin code that arrived by synchronisation is run without a restart, \<open>applyPluginCodeChange\<close>
  of \<open>client/src/main.ts\<close>. The host's plugin manager is a parameter: which plugins run, and the calls
  \<open>loadManifests\<close> and \<open>enablePlugin\<close>, which may be missing and may throw. The notices to the user are left out.
\<close>

record 'w plugin_host =
  ph_loaded :: "string \<Rightarrow> 'w \<Rightarrow> bool"
  ph_loadManifests :: "('w, unit) outside option"
  ph_enablePlugin :: "(string \<Rightarrow> ('w, unit) outside) option"

definition hostCall :: "('w, 'a) outside \<Rightarrow> ('w, 'a) act" where
  "hostCall m = onWorld (\<lambda>w. case m w of (Inl e, w1) \<Rightarrow> (Inl (ofErr e), w1) | (Inr x, w1) \<Rightarrow> (Inr x, w1))"

text \<open>The loop over the plugins to enable: those that were, and those that failed.\<close>

fun enableAll :: "(string \<Rightarrow> ('w, unit) outside) \<Rightarrow> string list \<Rightarrow> ('w, string list \<times> string list) act" where
  "enableAll enable [] = retH ([], [])"
| "enableAll enable (i # ids) =
     thenH (catchC (thenH (hostCall (enable i)) (\<lambda>_. retH True)) (\<lambda>_. retH False)) (\<lambda>ok.
     thenH (enableAll enable ids) (\<lambda>(hot, failed).
     retH (if ok then (i # hot, failed) else (hot, i # failed))))"

definition mayHotLoad :: "'w client \<Rightarrow> (string \<times> string) list \<Rightarrow> string \<Rightarrow> bool" where
  "mayHotLoad c authors i =
     (case map_of authors i of
        Some author \<Rightarrow> isOwnAccount (cl_settings c) author \<or> (author = '''' \<and> cl_vaultIsPrivate c)
      | None \<Rightarrow> cl_vaultIsPrivate c)"

text \<open>The result: the plugins that were enabled, and those that wait for a restart.\<close>

definition hotLoad :: "'w plugin_host \<Rightarrow> string list \<Rightarrow> string list \<Rightarrow> ('w, string list \<times> string list) act" where
  "hotLoad pm hotLoadable needRestart =
     (case (ph_loadManifests pm, ph_enablePlugin pm) of
        (Some loadManifests, Some enable) \<Rightarrow>
          if hotLoadable = [] then retH ([], needRestart)
          else
            thenH (catchC (thenH (hostCall loadManifests) (\<lambda>_. retH True)) (\<lambda>_. retH False)) (\<lambda>ok.
            if ok then
              thenH (enableAll enable hotLoadable) (\<lambda>(hot, failed). retH (hot, needRestart @ failed))
            else retH ([], needRestart @ hotLoadable))
      | _ \<Rightarrow> retH ([], needRestart @ hotLoadable))"

definition applyPluginCodeChange ::
  "'w shell \<Rightarrow> 'w plugin_host \<Rightarrow> (string \<times> string) list \<Rightarrow> string list \<Rightarrow> ('w, string list \<times> string list) act" where
  "applyPluginCodeChange sh pm authors ids =
     thenH (getC (\<lambda>c. filter (\<lambda>i. ph_loaded pm i (world (cl_sync c))) ids)) (\<lambda>running.
     thenH (getC (\<lambda>c. filter (\<lambda>i. \<not> ph_loaded pm i (world (cl_sync c))) ids)) (\<lambda>newlyArrived.
     thenH (if newlyArrived \<noteq> [] \<and> ph_loadManifests pm \<noteq> None \<and> ph_enablePlugin pm \<noteq> None
            then refreshVaultPrivacy sh else retH ()) (\<lambda>_.
     thenH (getC (\<lambda>c. if cl_vaultIsPrivate c then filter (mayHotLoad c authors) newlyArrived else [])) (\<lambda>hotLoadable.
     hotLoad pm hotLoadable (running @ filter (\<lambda>i. i \<notin> set hotLoadable) newlyArrived)))))"

subsection \<open>Nobody else's code is run\<close>

text \<open>The vault is the account's own, and the server, asked now, names no one else who may write to it.\<close>

definition noWriterIn :: "vault_shares list \<Rightarrow> string \<Rightarrow> bool" where
  "noWriterIn shares vault =
     (case List.find (\<lambda>v. vs_vault v = vault) shares of
        Some v \<Rightarrow> \<not> list_ex (\<lambda>(_, perm). perm = PermReadWrite) (vs_grants v) | None \<Rightarrow> True)"

definition noWriteLinkIn :: "share_link_info list \<Rightarrow> string \<Rightarrow> bool" where
  "noWriteLinkIn links vault = (\<not> list_ex (\<lambda>l. sl_vault l = vault \<and> sl_perm l = PermReadWrite) links)"

definition provenPrivate :: "'w shell \<Rightarrow> settings \<Rightarrow> bool" where
  "provenPrivate sh s \<longleftrightarrow> se_vaultOwner s = []
     \<and> (\<exists>t w shares w'. myVaults (sh_net sh) (se_serverUrl s) t w = (Inr shares, w') \<and> noWriterIn shares (se_vaultId s))
     \<and> (\<exists>t w links w'. listShareLinks (sh_net sh) (se_serverUrl s) t w = (Inr links, w') \<and> noWriteLinkIn links (se_vaultId s))"

text \<open>The fields of the vault, which no call on the account changes.\<close>

definition vaultFields :: "settings \<Rightarrow> settings \<Rightarrow> bool" where
  "vaultFields s s' \<longleftrightarrow> se_serverUrl s' = se_serverUrl s \<and> se_vaultId s' = se_vaultId s \<and> se_vaultOwner s' = se_vaultOwner s
     \<and> se_username s' = se_username s"

lemma vaultFields_token [simp]: "vaultFields s (s'\<lparr>se_authToken := t\<rparr>) = vaultFields s s'"
  by (simp add: vaultFields_def)

lemma vaultFields_login: "keepsC (\<lambda>c. vaultFields s (cl_settings c)) (freshLogin sh)"
  unfolding freshLogin_def loginRemote_def setAuthToken_def saveSettings_def openSetup_def modSet_def
  by (auto intro!: keepsC_rules simp: vaultFields_def)

lemma vaultFields_onServer: "keepsC (\<lambda>c. vaultFields s (cl_settings c)) (onServer sh call)"
  unfolding onServer_def withAuth_def acquireToken_def modSet_def
  by (auto intro!: keepsC_rules vaultFields_login)

lemma onServer_Inr:
  assumes "onServer sh call c = (Inr x, c')"
  shows "vaultFields (cl_settings c) (cl_settings c') \<and> (\<exists>t w w'. call (sh_net sh) (se_serverUrl (cl_settings c)) t w = (Inr x, w'))"
proof -
  have refl: "vaultFields (cl_settings c) (cl_settings c)"
    by (simp add: vaultFields_def)
  have url: "se_serverUrl s' = se_serverUrl s" if "vaultFields s s'" for s s'
    using that by (simp add: vaultFields_def)
  have call: "\<exists>t w w'. call (sh_net sh) (se_serverUrl (cl_settings c1)) t w = (Inr x, w')"
    if "thenH (getSet se_serverUrl) (\<lambda>url. onWorld (call (sh_net sh) url t)) c1 = (Inr x, c2)" for c1 c2 t
    using that by (auto simp: act_Inr)
  obtain t c1 where t: "acquireToken sh c = (Inr t, c1)"
    and r: "catchC (thenH (getSet se_serverUrl) (\<lambda>url. onWorld (call (sh_net sh) url t))) (\<lambda>e. if \<not> isAuthError e then throwC e
       else thenH (modSet (\<lambda>s. s\<lparr>se_authToken := []\<rparr>)) (\<lambda>_. thenH (freshLogin sh)
         (\<lambda>t. thenH (getSet se_serverUrl) (\<lambda>url. onWorld (call (sh_net sh) url t))))) c1 = (Inr x, c')"
    using assms by (auto simp: onServer_def withAuth_def then_Inr)
  have acq: "keepsC (\<lambda>c1. vaultFields (cl_settings c) (cl_settings c1)) (acquireToken sh)"
    unfolding acquireToken_def by (auto intro!: keepsC_rules vaultFields_login)
  note c1 = keepsC_D [OF acq refl t]
  have "\<exists>t w w'. call (sh_net sh) (se_serverUrl (cl_settings c)) t w = (Inr x, w')"
  proof (cases "thenH (getSet se_serverUrl) (\<lambda>url. onWorld (call (sh_net sh) url t)) c1")
    case (Pair q c2)
    show ?thesis
    proof (cases q)
      case (Inr y)
      then show ?thesis
        using r Pair call [of t c1 c'] url [OF c1] by (simp add: catchC_def)
    next
      case (Inl e)
      have c2: "cl_settings c2 = cl_settings c1"
        using Pair by (auto simp: thenH_def getSet_def getC_def onWorld_def split: prod.splits)
      from r Inl Pair obtain t3 c3 where f: "freshLogin sh (c2\<lparr>cl_settings := (cl_settings c2)\<lparr>se_authToken := []\<rparr>\<rparr>) = (Inr t3, c3)"
        and k: "thenH (getSet se_serverUrl) (\<lambda>url. onWorld (call (sh_net sh) url t3)) c3 = (Inr x, c')"
        by (auto simp: catchC_def then_Inr modSet_def modC_def throwC_def split: if_splits)
      have "vaultFields (cl_settings c) (cl_settings c3)"
        using keepsC_D [OF vaultFields_login [of "cl_settings c"] _ f] c1 c2 by (simp add: vaultFields_def)
      then show ?thesis
        using call [OF k] url by simp
    qed
  qed
  then show ?thesis
    using keepsC_D [OF vaultFields_onServer refl assms] by blast
qed

lemma privacy_proven:
  assumes "refreshVaultPrivacy sh c = (r, c')" "cl_vaultIsPrivate c'"
  shows "provenPrivate sh (cl_settings c') \<and> vaultFields (cl_settings c) (cl_settings c')"
proof (cases "se_vaultOwner (cl_settings c) = []")
  case False
  then show ?thesis
    using assms by (auto simp: refreshVaultPrivacy_def thenH_def getSet_def getC_def modC_def)
next
  case True
  let ?s = "cl_settings c"
  from True assms obtain shares c1 links c2 where m: "onServer sh myVaults c = (Inr shares, c1)"
      and l: "onServer sh listShareLinks c1 = (Inr links, c2)"
      and c': "c' = c2\<lparr>cl_vaultIsPrivate := True\<rparr>"
      and g: "noWriterIn shares (se_vaultId (cl_settings c1))" "noWriteLinkIn links (se_vaultId (cl_settings c2))"
    by (auto simp: refreshVaultPrivacy_def myVaultShares_def ownShareLinks_def Let_def thenH_def catchC_def getSet_def getC_def modC_def
        noWriterIn_def noWriteLinkIn_def split: prod.splits sum.splits option.splits)
  note c1 = onServer_Inr [OF m] and c2 = onServer_Inr [OF l]
  have f: "vaultFields ?s (cl_settings c2)" "se_vaultId (cl_settings c1) = se_vaultId (cl_settings c2)"
      "se_serverUrl (cl_settings c1) = se_serverUrl ?s"
    using c1 c2 by (simp_all add: vaultFields_def)
  have "\<exists>t w w'. myVaults (sh_net sh) (se_serverUrl ?s) t w = (Inr shares, w')"
      "\<exists>t w w'. listShareLinks (sh_net sh) (se_serverUrl ?s) t w = (Inr links, w')"
    using c1 c2 f(3) by simp_all
  moreover have "se_serverUrl (cl_settings c2) = se_serverUrl ?s" "se_vaultOwner (cl_settings c2) = []"
    using f(1) True by (simp_all add: vaultFields_def)
  ultimately show ?thesis
    using g f unfolding c' provenPrivate_def by auto
qed

lemma enableAll_sound:
  "enableAll enable ids c = (Inr (hot, failed), c') \<Longrightarrow> set hot \<union> set failed = set ids \<and> cl_settings c' = cl_settings c"
proof (induction ids arbitrary: hot failed c)
  case (Cons i ids)
  then obtain ok c1 hot1 failed1 where k: "catchC (thenH (hostCall (enable i)) (\<lambda>_. retH True)) (\<lambda>_. retH False) c = (Inr ok, c1)"
    and r: "enableAll enable ids c1 = (Inr (hot1, failed1), c')"
    and h: "(hot, failed) = (if ok then (i # hot1, failed1) else (hot1, i # failed1))"
    by (auto simp: then_Inr retH_def)
  have "cl_settings c1 = cl_settings c"
    using k by (auto simp: catchC_def thenH_def hostCall_def onWorld_def retH_def split: prod.splits sum.splits)
  then show ?case
    using Cons.IH [OF r] h by (auto split: if_splits)
qed (simp add: retH_def)

lemma try_settings:
  "catchC (thenH (hostCall m) (\<lambda>_. retH True)) (\<lambda>_. retH False) c = (r, c') \<Longrightarrow> cl_settings c' = cl_settings c \<and> (\<exists>b. r = Inr b)"
  by (auto simp: catchC_def thenH_def hostCall_def onWorld_def retH_def split: prod.splits sum.splits)

lemma getC_then: "thenH (getC g) f c = f (g c) c"
  by (simp add: thenH_def getC_def)

lemma hotLoad_sound:
  assumes "hotLoad pm hl wait c = (Inr (hot, needRestart), c')"
  shows "set hot \<union> set needRestart = set wait \<union> set hl \<and> set hot \<subseteq> set hl \<and> cl_settings c' = cl_settings c
    \<and> (hot \<noteq> [] \<longrightarrow> ph_loadManifests pm \<noteq> None \<and> ph_enablePlugin pm \<noteq> None)"
proof (cases "ph_loadManifests pm = None \<or> ph_enablePlugin pm = None \<or> hl = []")
  case True
  then show ?thesis
    using assms by (auto simp: hotLoad_def retH_def split: option.splits)
next
  case False
  then obtain lm en where pm: "ph_loadManifests pm = Some lm" "ph_enablePlugin pm = Some en" "hl \<noteq> []"
    by auto
  with assms obtain ok c1 where t: "catchC (thenH (hostCall lm) (\<lambda>_. retH True)) (\<lambda>_. retH False) c = (Inr ok, c1)"
    and r: "(if ok then thenH (enableAll en hl) (\<lambda>(hot, failed). retH (hot, wait @ failed)) else retH ([], wait @ hl)) c1
       = (Inr (hot, needRestart), c')"
    by (auto simp: hotLoad_def then_Inr)
  show ?thesis
  proof (cases ok)
    case True
    with r obtain failed where "enableAll en hl c1 = (Inr (hot, failed), c')" and n: "needRestart = wait @ failed"
      by (auto simp: then_Inr retH_def)
    from enableAll_sound [OF this(1)] show ?thesis
      using try_settings [OF t] pm n by auto
  next
    case False
    with r show ?thesis
      using try_settings [OF t] by (auto simp: retH_def)
  qed
qed

text \<open>
  (C19) Plugin code that arrived by synchronisation is run without a restart only for a plugin that was not running, in a
  vault that is the account's own and into which, by what the server answered in this very call, nobody else can
  write, and only when the recorded author of the code is this account or unknown. Every other plugin waits for
  a restart, and none is forgotten.
\<close>
theorem plugin_code_gated:
  assumes run: "applyPluginCodeChange sh pm authors ids c = (Inr (hot, needRestart), c')"
  shows "set hot \<union> set needRestart = set ids
    \<and> (hot \<noteq> [] \<longrightarrow> provenPrivate sh (cl_settings c'))
    \<and> list_all (\<lambda>i. \<not> ph_loaded pm i (world (cl_sync c))
        \<and> (case map_of authors i of Some a \<Rightarrow> a = [] \<or> isOwnAccount (cl_settings c') a | None \<Rightarrow> True)) hot"
proof -
  let ?new = "filter (\<lambda>i. \<not> ph_loaded pm i (world (cl_sync c))) ids" and ?run = "filter (\<lambda>i. ph_loaded pm i (world (cl_sync c))) ids"
  let ?api = "?new \<noteq> [] \<and> ph_loadManifests pm \<noteq> None \<and> ph_enablePlugin pm \<noteq> None"
  have "thenH (if ?api then refreshVaultPrivacy sh else retH ()) (\<lambda>_.
      thenH (getC (\<lambda>c. if cl_vaultIsPrivate c then filter (mayHotLoad c authors) ?new else [])) (\<lambda>hl.
      hotLoad pm hl (?run @ filter (\<lambda>i. i \<notin> set hl) ?new))) c = (Inr (hot, needRestart), c')"
    using run unfolding applyPluginCodeChange_def getC_then .
  then obtain u c1 where p: "(if ?api then refreshVaultPrivacy sh else retH ()) c = (Inr u, c1)"
    and r: "thenH (getC (\<lambda>c. if cl_vaultIsPrivate c then filter (mayHotLoad c authors) ?new else [])) (\<lambda>hl.
      hotLoad pm hl (?run @ filter (\<lambda>i. i \<notin> set hl) ?new)) c1 = (Inr (hot, needRestart), c')"
    unfolding then_Inr [where f = "\<lambda>_ :: unit. _"] by blast
  define hl where "hl = (if cl_vaultIsPrivate c1 then filter (mayHotLoad c1 authors) ?new else [])"
  note h = hotLoad_sound [OF r [unfolded getC_then, folded hl_def]]
  have hsub: "set hot \<subseteq> set hl" and hset: "cl_settings c' = cl_settings c1"
    using h by (rule conjunct1 [OF conjunct2], rule conjunct1 [OF conjunct2 [OF conjunct2]])
  have sub: "set hl \<subseteq> set ?new" and priv: "hl \<noteq> [] \<longrightarrow> cl_vaultIsPrivate c1"
    by (auto simp: hl_def)
  have "provenPrivate sh (cl_settings c')" if "hot \<noteq> []"
  proof -
    have "set hot \<noteq> {}"
      using that by simp
    then have "set hl \<noteq> {}"
      using hsub by (metis subset_empty)
    moreover from this have "set ?new \<noteq> {}"
      using sub by (metis subset_empty)
    ultimately have hl: "hl \<noteq> []" and api: "?api"
      using h that by (simp_all del: set_filter)
    have "refreshVaultPrivacy sh c = (Inr u, c1)"
      using p unfolding if_P [OF api] .
    from privacy_proven [OF this] have "provenPrivate sh (cl_settings c1)"
      using hl priv by simp
    then show ?thesis
      unfolding hset .
  qed
  moreover have "list_all (\<lambda>i. \<not> ph_loaded pm i (world (cl_sync c))
      \<and> (case map_of authors i of Some a \<Rightarrow> a = [] \<or> isOwnAccount (cl_settings c1) a | None \<Rightarrow> True)) hl"
    by (auto simp: hl_def list_all_iff mayHotLoad_def split: option.splits)
  moreover have "set hot \<union> set needRestart = set ids"
    using h sub by auto
  ultimately show ?thesis
    unfolding hset using hsub by (simp add: list_all_iff subset_iff)
qed

text \<open>In a vault of one's own that is shared with nobody, a plugin of this account is enabled at once.\<close>

definition ownNet :: "unit net" where
  "ownNet = \<lparr>n_URL = (\<lambda>s. None), n_enc = (\<lambda>u. u),
     n_requestUrl = (\<lambda>q w. (Answered \<lparr>rs_status = 200, rs_headers = [], rs_text = None, rs_json = Some (VArr []),
        rs_arrayBuffer = []\<rparr>, w))\<rparr>"

definition obliging :: "unit plugin_host" where
  "obliging = \<lparr>ph_loaded = (\<lambda>i w. i = ''old''), ph_loadManifests = Some (\<lambda>w. (Inr (), w)),
     ph_enablePlugin = Some (\<lambda>i w. (Inr (), w))\<rparr>"

lemma own_api: "apiJson ownNet q l ep b w = (Inr (VArr []), w)"
  by (simp add: apiJson_def httpReq_def isInsecureRemote_def thenH_def retH_def tryJson_def ownNet_def)

lemma own_lists: "myVaults ownNet url t w = (Inr [], w)" "listShareLinks ownNet url t w = (Inr [], w)"
proof -
  have "validateVaultShares (VArr []) = Inr []" "validateShareLinks (VArr []) = Inr []"
    by code_simp+
  then show "myVaults ownNet url t w = (Inr [], w)" "listShareLinks ownNet url t w = (Inr [], w)"
    by (simp_all add: myVaults_def listShareLinks_def thenH_def own_api checkH_def)
qed

theorem plugin_code_gated_witness:
  "\<exists>c'. applyPluginCodeChange (readyShell\<lparr>sh_net := ownNet\<rparr>) obliging [(''mine'', ''Alice''), (''theirs'', ''bob'')] [''old'', ''mine'', ''theirs'']
       (startClient startSettings idleState) = (Inr ([''mine''], [''old'', ''theirs'']), c')
     \<and> provenPrivate (readyShell\<lparr>sh_net := ownNet\<rparr>) (cl_settings c')"
proof -
  have own: "isOwnAccount startSettings ''Alice''" "\<not> isOwnAccount startSettings ''bob''"
    by code_simp+
  have s: "se_authToken startSettings = ''t''" "se_vaultOwner startSettings = []"
    by (simp_all add: startSettings_def)
  have "\<exists>c'. applyPluginCodeChange (readyShell\<lparr>sh_net := ownNet\<rparr>) obliging [(''mine'', ''Alice''), (''theirs'', ''bob'')] [''old'', ''mine'', ''theirs'']
       (startClient startSettings idleState) = (Inr ([''mine''], [''old'', ''theirs'']), c')"
    by (simp add: applyPluginCodeChange_def getC_then hotLoad_def obliging_def refreshVaultPrivacy_def myVaultShares_def
        ownShareLinks_def onServer_def withAuth_def acquireToken_def thenH_def getSet_def getC_def retH_def modC_def catchC_def
        onWorld_def own_lists startClient_def s own mayHotLoad_def hostCall_def Let_def)
  then show ?thesis
    using plugin_code_gated by fastforce
qed

end
