(* ===== verification/PluginSync.thy ===== *)
theory PluginSync
  imports PluginGate PushPreview ConfigWalk ForeignTools SampleWorld
begin

text \<open>
  Community plugins and the settings folder in the plugin shell, \<open>client/src/main.ts\<close>: the surfaces and the
  allowlist of plugins, the autopilot that adds plugins to it by itself, the forced push and pull of one plugin with
  its preview, the removal of a plugin from the server, and the queue of diverging settings files.

  The state is the session's with the fields these operations use. Sets and maps of the source are lists in
  insertion order. A notice is a value of a datatype in place of its wording. What is written to \<open>data.json\<close> is
  \<open>ps_saves\<close>, newest first; a resolution that the source starts without waiting for it is noted in
  \<open>ps_started\<close>. The repainting of the settings tab is left out, and the display name of a plugin is its identifier.
\<close>

datatype plugin_notice =
    ConnectFirst | OnlyPull | InvalidPluginId string | NotSelfSync
  | ForceStopped side_choice string nat nat | Forced side_choice string nat | ReopenToLoad
  | PeerAdded string string
  | ForeignOnServer nat | NotSyncedHere nat nat | ConfigDiffers path | AutoResolved path side_choice

datatype saved = SavedSettings config_sync "string list option" "path list" | SavedBase base_store

record 'w plugin_state =
  ps_client :: "'w client"
  ps_configSync :: config_sync
  ps_autoSyncNewPlugins :: bool
  ps_autopilotSeen :: "string list option"
  ps_configConflicts :: "path list"
  ps_pendingConfigDir :: "(config_surface \<times> config_direction) list"
  ps_serverPluginIds :: "string list"
  ps_serverPluginAuthors :: "(string \<times> string option) list"
  ps_pendingPeerPlugins :: "(string \<times> string) list"
  ps_peerPluginToasted :: "string list"
  ps_autopilotBusy :: bool
  ps_declinedSig :: "string list \<times> bool"
  ps_foreignOnServerSig :: "path list"
  ps_notices :: "plugin_notice list"
  ps_saves :: "saved list"
  ps_started :: "(path \<times> side_choice) list"

type_synonym ('w, 'a) pact = "('w plugin_state, 'a) http"

definition modP :: "('w plugin_state \<Rightarrow> 'w plugin_state) \<Rightarrow> ('w, unit) pact" where
  "modP f = (\<lambda>s. (Inr (), f s))"

definition getP :: "('w plugin_state \<Rightarrow> 'a) \<Rightarrow> ('w, 'a) pact" where
  "getP f = (\<lambda>s. (Inr (f s), s))"

definition catchP :: "('w, 'a) pact \<Rightarrow> (http_error \<Rightarrow> ('w, 'a) pact) \<Rightarrow> ('w, 'a) pact" where
  "catchP m h = (\<lambda>s. case m s of (Inr x, s1) \<Rightarrow> (Inr x, s1) | (Inl e, s1) \<Rightarrow> h e s1)"

definition onClient :: "('w, 'a) act \<Rightarrow> ('w, 'a) pact" where
  "onClient m = (\<lambda>s. case m (ps_client s) of (r, c) \<Rightarrow> (r, s\<lparr>ps_client := c\<rparr>))"

definition toast :: "plugin_notice \<Rightarrow> ('w, unit) pact" where
  "toast n = modP (\<lambda>s. s\<lparr>ps_notices := n # ps_notices s\<rparr>)"

definition saveP :: "('w, unit) pact" where
  "saveP =
     thenH (onClient saveSettings) (\<lambda>_.
     modP (\<lambda>s. s\<lparr>ps_saves := SavedSettings (ps_configSync s) (ps_autopilotSeen s) (ps_configConflicts s) # ps_saves s\<rparr>))"

definition persistBase :: "('w, unit) pact" where
  "persistBase = modP (\<lambda>s. s\<lparr>ps_saves := SavedBase (base (cl_sync (ps_client s))) # ps_saves s\<rparr>)"

abbreviation readOnlyVault :: "'w plugin_state \<Rightarrow> bool" where
  "readOnlyVault s \<equiv> se_vaultReadOnly (cl_settings (ps_client s))"

abbreviation hasApi :: "'w plugin_state \<Rightarrow> bool" where
  "hasApi s \<equiv> cl_api (ps_client s) \<noteq> None"

subsection \<open>The plugin's own folder\<close>

definition isSep :: "char \<Rightarrow> bool" where
  "isSep c \<longleftrightarrow> c = CHR ''/'' \<or> c = CHR 0x5C"

text \<open>The last segment of a folder, after the separators at its end are cut off.\<close>

definition lastSegment :: "string \<Rightarrow> string" where
  "lastSegment dir = rev (takeWhile (\<lambda>c. \<not> isSep c) (dropWhile isSep (rev dir)))"

definition selfFolderId :: "string option \<Rightarrow> string \<Rightarrow> string" where
  "selfFolderId manifestDir manifestId =
     (case manifestDir of
        None \<Rightarrow> manifestId
      | Some dir \<Rightarrow> if dir \<noteq> '''' \<and> lastSegment dir \<noteq> '''' then lastSegment dir else manifestId)"

text \<open>The host of the plugin: its own manifest, the installed plugins, the adapter.\<close>

record 'w plugin_env =
  pe_dir :: "string option"
  pe_id :: string
  pe_manifests :: "'w \<Rightarrow> string list"
  pe_adapter :: "'w \<Rightarrow> walk_adapter"

definition selfId :: "('w, 'x) plugin_env_scheme \<Rightarrow> string" where
  "selfId env = selfFolderId (pe_dir env) (pe_id env)"

subsection \<open>Surfaces and the allowlist\<close>

definition applyConfigSyncChange :: "('w, unit) pact" where
  "applyConfigSyncChange =
     thenH saveP (\<lambda>_.
     thenH (getP hasApi) (\<lambda>on.
     if \<not> on then retH ()
     else onClient (modC (\<lambda>c. c\<lparr>cl_lastConfigScanAt := 0, cl_enqueued := EvRemote # cl_enqueued c\<rparr>))))"

fun setSurface :: "config_surface \<Rightarrow> bool \<Rightarrow> config_sync \<Rightarrow> config_sync" where
  "setSurface SCore on cs = cs\<lparr>cs_core := on\<rparr>"
| "setSurface SHotkeys on cs = cs\<lparr>cs_hotkeys := on\<rparr>"
| "setSurface SAppearance on cs = cs\<lparr>cs_appearance := on\<rparr>"
| "setSurface SSnippets on cs = cs\<lparr>cs_snippets := on\<rparr>"
| "setSurface SCommunity on cs = cs\<lparr>cs_community := on\<rparr>"

definition markPendingConfigDir :: "config_surface \<Rightarrow> config_direction \<Rightarrow> ('w, unit) pact" where
  "markPendingConfigDir surface dir =
     modP (\<lambda>s. s\<lparr>ps_pendingConfigDir := AList.update surface (if readOnlyVault s then Download else dir) (ps_pendingConfigDir s)\<rparr>)"

definition setConfigSurface :: "config_surface \<Rightarrow> bool \<Rightarrow> config_direction option \<Rightarrow> ('w, unit) pact" where
  "setConfigSurface surface on dir =
     thenH (modP (\<lambda>s. s\<lparr>ps_configSync := setSurface surface on (ps_configSync s)\<rparr>)) (\<lambda>_.
     thenH (case dir of
              Some d \<Rightarrow> if on then markPendingConfigDir surface d
                        else modP (\<lambda>s. s\<lparr>ps_pendingConfigDir := AList.delete surface (ps_pendingConfigDir s)\<rparr>)
            | None \<Rightarrow> modP (\<lambda>s. s\<lparr>ps_pendingConfigDir := AList.delete surface (ps_pendingConfigDir s)\<rparr>)) (\<lambda>_.
     applyConfigSyncChange))"

definition communityConfigDir :: "'w plugin_state \<Rightarrow> config_direction option" where
  "communityConfigDir s = map_of (ps_pendingConfigDir s) SCommunity"

definition setAdd :: "'a \<Rightarrow> 'a list \<Rightarrow> 'a list" where
  "setAdd x xs = (if x \<in> set xs then xs else xs @ [x])"

definition pluginDirFor :: "'w plugin_state \<Rightarrow> config_direction option \<Rightarrow> config_direction" where
  "pluginDirFor s dir =
     (if readOnlyVault s then Download
      else case dir of Some d \<Rightarrow> d | None \<Rightarrow> (case communityConfigDir s of Some d \<Rightarrow> d | None \<Rightarrow> Download))"

definition setPluginSync :: "string \<Rightarrow> bool \<Rightarrow> config_direction option \<Rightarrow> ('w, unit) pact" where
  "setPluginSync pid on dir =
     thenH (modP (\<lambda>s.
       let cs = ps_configSync s;
           allow = jsDistinct (cs_pluginAllow cs);
           cs1 = cs\<lparr>cs_pluginAllow := (if on then setAdd pid allow else removeAll pid allow)\<rparr>
       in s\<lparr>ps_configSync := (if on then cs1\<lparr>cs_pluginDir := AList.update pid (pluginDirFor s dir) (cs_pluginDir cs1)\<rparr> else cs1)\<rparr>)) (\<lambda>_.
     applyConfigSyncChange)"

subsection \<open>The plugins on the server\<close>

definition setServerPlugins :: "string \<Rightarrow> (string \<times> string option) list \<Rightarrow> ('w, unit) pact" where
  "setServerPlugins self plugins =
     modP (\<lambda>s.
       let kept = filter (\<lambda>(i, _). i \<noteq> '''' \<and> i \<noteq> self) plugins;
           ids = jsDistinct (map fst kept);
           authors = foldl (\<lambda>m (i, a). AList.update i a m) [] kept
       in s\<lparr>ps_serverPluginAuthors := authors,
            ps_serverPluginIds := (if length ids = length (ps_serverPluginIds s) \<and> list_all (\<lambda>i. i \<in> set (ps_serverPluginIds s)) ids
                                   then ps_serverPluginIds s else ids)\<rparr>)"

fun forEachP :: "'a list \<Rightarrow> ('a \<Rightarrow> ('w, unit) pact) \<Rightarrow> ('w, unit) pact" where
  "forEachP [] f = retH ()"
| "forEachP (x # xs) f = thenH (f x) (\<lambda>_. forEachP xs f)"

definition installAllServerPlugins :: "('w, unit) pact" where
  "installAllServerPlugins =
     thenH (getP ps_serverPluginIds) (\<lambda>ids. forEachP ids (\<lambda>pid. setPluginSync pid True (Some Download)))"

subsection \<open>The autopilot\<close>

text \<open>
  A run has two parts, before and after the call that asks the server who may write to the vault, since other
  operations can run while it waits. What the source holds in local variables over that call is a record.
\<close>

record autopilot_locals =
  al_allow :: "string list"
  al_before :: nat
  al_seen :: "string list"
  al_installed :: "string list"
  al_server :: "string list"

definition addLocal :: "bool \<Rightarrow> string list \<Rightarrow> string list \<times> (string \<times> config_direction) list \<Rightarrow> string
    \<Rightarrow> string list \<times> (string \<times> config_direction) list" where
  "addLocal readOnly seen = (\<lambda>(allow, dirs) pid.
     if pid \<notin> set allow \<and> pid \<notin> set seen
     then (allow @ [pid], AList.update pid (if readOnly then Download else Upload) dirs) else (allow, dirs))"

definition autopilotBegin :: "('w, 'x) plugin_env_scheme \<Rightarrow> ('w, autopilot_locals option) pact" where
  "autopilotBegin env = (\<lambda>s.
     if \<not> ps_autoSyncNewPlugins s \<or> \<not> hasApi s \<or> ps_autopilotBusy s \<or> \<not> cs_community (ps_configSync s) then (Inr None, s)
     else
       let cs = ps_configSync s;
           allow = jsDistinct (cs_pluginAllow cs);
           seen = jsDistinct (case ps_autopilotSeen s of None \<Rightarrow> [] | Some xs \<Rightarrow> xs);
           installed = filter (\<lambda>i. \<not> isSelfPluginId i (selfId env)) (pe_manifests env (world (cl_sync (ps_client s))));
           server = filter (\<lambda>i. \<not> isSelfPluginId i (selfId env)) (ps_serverPluginIds s);
           (allow1, dirs1) = foldl (addLocal (readOnlyVault s) seen) (allow, cs_pluginDir cs) installed
       in (Inr (Some \<lparr>al_allow = allow1, al_before = length allow, al_seen = seen, al_installed = installed, al_server = server\<rparr>),
           s\<lparr>ps_autopilotBusy := True, ps_configSync := cs\<lparr>cs_pluginDir := dirs1\<rparr>\<rparr>))"

definition authorOf :: "'w plugin_state \<Rightarrow> string \<Rightarrow> string option" where
  "authorOf s pid = (case map_of (ps_serverPluginAuthors s) pid of None \<Rightarrow> None | Some a \<Rightarrow> a)"

definition noAuthor :: "string option \<Rightarrow> bool" where
  "noAuthor a \<longleftrightarrow> a = None \<or> a = Some ''''"

definition needsPrivacy :: "autopilot_locals \<Rightarrow> 'w plugin_state \<Rightarrow> bool" where
  "needsPrivacy al s \<longleftrightarrow> list_ex (\<lambda>i. i \<notin> set (al_allow al) \<and> noAuthor (authorOf s i)) (al_server al)"

definition isMine :: "'w plugin_state \<Rightarrow> string \<Rightarrow> bool" where
  "isMine s pid \<longleftrightarrow>
     isOwnAccount (cl_settings (ps_client s)) (case authorOf s pid of None \<Rightarrow> '''' | Some a \<Rightarrow> a)
     \<or> (noAuthor (authorOf s pid) \<and> cl_vaultIsPrivate (ps_client s))"

text \<open>The loop over the plugins on the server, with the local variables and the list that waits for approval.\<close>

definition classifyServer :: "autopilot_locals \<times> (string \<times> string) list \<times> 'w plugin_state \<Rightarrow> string
    \<Rightarrow> autopilot_locals \<times> (string \<times> string) list \<times> 'w plugin_state" where
  "classifyServer = (\<lambda>(al, asks, s) pid.
     if pid \<in> set (al_allow al) then (al, asks, s)
     else if isMine s pid then
       (if pid \<notin> set (al_seen al) then
          (al\<lparr>al_allow := al_allow al @ [pid], al_seen := setAdd pid (al_seen al)\<rparr>, asks,
           s\<lparr>ps_configSync := (ps_configSync s)\<lparr>cs_pluginDir := AList.update pid Download (cs_pluginDir (ps_configSync s))\<rparr>\<rparr>)
        else (al, asks, s))
     else
       (let who = (case authorOf s pid of None \<Rightarrow> ''someone else'' | Some a \<Rightarrow> a) in
        (al, AList.update pid who asks,
         if pid \<in> set (ps_peerPluginToasted s) then s
         else s\<lparr>ps_peerPluginToasted := ps_peerPluginToasted s @ [pid], ps_notices := PeerAdded who pid # ps_notices s\<rparr>)))"

definition autopilotFinish :: "autopilot_locals \<Rightarrow> ('w, unit) pact" where
  "autopilotFinish al0 = (\<lambda>s0.
     let (al, asks, s) = foldl classifyServer (al0, [], s0) (al_server al0);
         s1 = s\<lparr>ps_pendingPeerPlugins := asks,
                ps_autopilotSeen := Some (foldl (\<lambda>xs i. setAdd i xs) (al_seen al) (al_installed al))\<rparr>
     in if length (al_allow al) \<noteq> al_before al
        then applyConfigSyncChange (s1\<lparr>ps_configSync := (ps_configSync s1)\<lparr>cs_pluginAllow := al_allow al\<rparr>\<rparr>)
        else saveP s1)"

definition endAutopilot :: "('w, unit) pact" where
  "endAutopilot = modP (\<lambda>s. s\<lparr>ps_autopilotBusy := False\<rparr>)"

definition runPluginAutopilot :: "('w, 'x) plugin_env_scheme \<Rightarrow> 'w shell \<Rightarrow> ('w, unit) pact" where
  "runPluginAutopilot env sh =
     thenH (autopilotBegin env) (\<lambda>r.
     case r of
       None \<Rightarrow> retH ()
     | Some al \<Rightarrow>
         thenH (catchP
           (thenH (getP (needsPrivacy al)) (\<lambda>ask.
            thenH (if ask then onClient (refreshVaultPrivacy sh) else retH ()) (\<lambda>_.
            autopilotFinish al)))
           (\<lambda>e. thenH endAutopilot (\<lambda>_. (\<lambda>s. (Inl e, s))))) (\<lambda>_. endAutopilot))"

subsection \<open>Forcing a plugin to one side\<close>

definition isAlnum :: "char \<Rightarrow> bool" where
  "isAlnum c \<longleftrightarrow> c \<in> set ''ABCDEFGHIJKLMNOPQRSTUVWXYZabcdefghijklmnopqrstuvwxyz0123456789''"

text \<open>The pattern \<open>^[A-Za-z0-9][A-Za-z0-9._-]*$\<close>.\<close>

definition validPluginId :: "string \<Rightarrow> bool" where
  "validPluginId pid \<longleftrightarrow>
     (case pid of [] \<Rightarrow> False | c # cs \<Rightarrow> isAlnum c \<and> list_all (\<lambda>x. isAlnum x \<or> x \<in> set ''._-'') cs)"

text \<open>The loop: how many files were done, and the failure that stopped it.\<close>

fun forceLoop :: "('w, 'x) deps_scheme \<Rightarrow> side_choice \<Rightarrow> path list \<Rightarrow> nat \<Rightarrow> ('w, nat \<times> err option) prog" where
  "forceLoop d choice [] done = ret (done, None)"
| "forceLoop d choice (p # ps) done =
     andThen (tryCatch (andThen (resolveConfigConflict d p choice) (\<lambda>_. ret None)) (\<lambda>e. ret (Some e))) (\<lambda>failed.
     case failed of None \<Rightarrow> forceLoop d choice ps (done + 1) | Some e \<Rightarrow> ret (done, Some e))"

definition onSyncP :: "('w, 'a) prog \<Rightarrow> ('w, 'a) pact" where
  "onSyncP m = onClient (onSync m)"

definition pluginPaths :: "('w, 'x) deps_scheme \<Rightarrow> string \<Rightarrow> ('w, path list) prog" where
  "pluginPaths d pid =
     andThen (outside (io_list (c_io d))) (\<lambda>files.
     andThen (outside (api_changes (c_api d) 0)) (\<lambda>resp.
     ret (pluginFilePaths (map fst files) (map fm_path (cr_upserts resp)) pid)))"

definition forcePlugin :: "('w, 'y) plugin_env_scheme \<Rightarrow> ('w, 'x) deps_scheme \<Rightarrow> string \<Rightarrow> side_choice \<Rightarrow> ('w, nat) pact" where
  "forcePlugin env d pid choice =
     thenH (getP hasApi) (\<lambda>api.
     thenH (getP readOnlyVault) (\<lambda>readOnly.
     if \<not> api then thenH (toast ConnectFirst) (\<lambda>_. retH 0)
     else if choice = KeepLocal \<and> readOnly then thenH (toast OnlyPull) (\<lambda>_. retH 0)
     else if \<not> validPluginId pid then thenH (toast (InvalidPluginId pid)) (\<lambda>_. retH 0)
     else if isSelfPluginId pid (selfId env) then thenH (toast NotSelfSync) (\<lambda>_. retH 0)
     else
       thenH (onSyncP (pluginPaths d pid)) (\<lambda>paths.
       thenH (onSyncP (forceLoop d choice paths 0)) (\<lambda>(done, failed).
       thenH persistBase (\<lambda>_.
       if failed \<noteq> None then thenH (toast (ForceStopped choice pid done (length paths))) (\<lambda>_. retH done)
       else
         thenH (toast (Forced choice pid (length paths))) (\<lambda>_.
         thenH (if choice = TakeRemote then toast ReopenToLoad else retH ()) (\<lambda>_. retH done)))))))"

definition pushPlugin :: "('w, 'y) plugin_env_scheme \<Rightarrow> ('w, 'x) deps_scheme \<Rightarrow> string \<Rightarrow> ('w, nat) pact" where
  "pushPlugin env d pid = forcePlugin env d pid KeepLocal"

definition pullPlugin :: "('w, 'y) plugin_env_scheme \<Rightarrow> ('w, 'x) deps_scheme \<Rightarrow> string \<Rightarrow> ('w, nat) pact" where
  "pullPlugin env d pid = forcePlugin env d pid TakeRemote"

subsection \<open>Removing a plugin from the server\<close>

definition pluginPrefix :: "string \<Rightarrow> string" where
  "pluginPrefix pid = ''.obsidian/plugins/'' @ pid @ ''/''"

definition deleteOnServer :: "('w, 'x) deps_scheme \<Rightarrow> string \<Rightarrow> ('w, nat) prog" where
  "deleteOnServer d pid =
     andThen (outside (api_changes (c_api d) 0)) (\<lambda>manifest.
     let paths = filter (\<lambda>p. startsWith p (pluginPrefix pid)) (map fm_path (cr_upserts manifest)) in
     andThen (forEach paths (\<lambda>p. andThen (perform (ApiDelete p None) (api_deleteFile (c_api d) p None)) (\<lambda>_.
       modS (\<lambda>s. s\<lparr>base := base_delete p (base s)\<rparr>)))) (\<lambda>_.
     ret (length paths)))"

definition removePluginFromServer :: "('w, 'x) deps_scheme \<Rightarrow> string \<Rightarrow> ('w, nat) pact" where
  "removePluginFromServer d pid =
     thenH (getP hasApi) (\<lambda>api.
     if \<not> api then thenH (toast ConnectFirst) (\<lambda>_. retH 0)
     else if \<not> validPluginId pid then thenH (toast (InvalidPluginId pid)) (\<lambda>_. retH 0)
     else
       thenH (onSyncP (deleteOnServer d pid)) (\<lambda>n.
       thenH (modP (\<lambda>s.
         let cs = ps_configSync s in
         s\<lparr>ps_configSync := cs\<lparr>cs_pluginAllow := filter (\<lambda>x. x \<noteq> pid) (cs_pluginAllow cs), cs_pluginDir := AList.delete pid (cs_pluginDir cs)\<rparr>,
           ps_serverPluginIds := removeAll pid (ps_serverPluginIds s)\<rparr>)) (\<lambda>_.
       thenH persistBase (\<lambda>_.
       thenH saveP (\<lambda>_. retH n)))))"

subsection \<open>The preview of a push or pull\<close>

text \<open>
  The walk of one plugin's folder, as the sequential walk that the parallel one is proved to agree with; \<open>depth\<close>
  bounds the height of the folder's tree. With the files come the folders that could not be listed.
\<close>

definition pluginWalk :: "('w, 'x) plugin_env_scheme \<Rightarrow> nat \<Rightarrow> string \<Rightarrow> 'w \<Rightarrow> (path \<times> walk_entry) list \<times> path list" where
  "pluginWalk env depth pid w =
     (let a = pe_adapter env w;
          res = seqWalk a (\<lambda>p. \<not> isJunkFile p) depth (''.obsidian/plugins/'' @ pid)
      in (map (\<lambda>f. (f, entryOf (case wa_stat a f of None \<Rightarrow> None | Some st \<Rightarrow> st))) (jsDistinct (wr_found res)), wr_errors res))"

definition HASH_CAP :: nat where
  "HASH_CAP = 1048576"

definition DIFF_CAP :: nat where
  "DIFF_CAP = 524288"

definition localSide :: "('w, 'x) deps_scheme \<Rightarrow> push_direction \<Rightarrow> file_meta option \<Rightarrow> walk_entry option \<Rightarrow> path \<Rightarrow> ('w, side_state) prog" where
  "localSide d direction meta entry p =
     (case entry of
        None \<Rightarrow> ret \<lparr>sd_present = False, sd_hash = None\<rparr>
      | Some e \<Rightarrow>
          if (case meta of None \<Rightarrow> False | Some m \<Rightarrow> fm_size m = we_size e \<and> we_size e \<le> HASH_CAP) then
            tryCatch (andThen (outside (io_read (c_io d) p)) (\<lambda>b. ret \<lparr>sd_present = True, sd_hash = Some (h_sha (c_host d) b)\<rparr>))
              (\<lambda>_. ret \<lparr>sd_present = (direction \<noteq> DirectionPush), sd_hash = None\<rparr>)
          else ret \<lparr>sd_present = True, sd_hash = None\<rparr>)"

definition serverSide :: "file_meta option \<Rightarrow> side_state" where
  "serverSide meta =
     (case meta of None \<Rightarrow> \<lparr>sd_present = False, sd_hash = None\<rparr> | Some m \<Rightarrow> \<lparr>sd_present = True, sd_hash = Some (fm_hash m)\<rparr>)"

definition metaMap :: "changes_response \<Rightarrow> path \<Rightarrow> file_meta option" where
  "metaMap resp = map_of (rev (map (\<lambda>f. (fm_path f, f)) (cr_upserts resp)))"

record change_view = file_change +
  cv_author :: "string option"
  cv_deviceName :: "string option"
  cv_mtime :: "nat option"

definition viewOf :: "(path \<Rightarrow> file_meta option) \<Rightarrow> file_change \<Rightarrow> change_view" where
  "viewOf metas c =
     (let m = metas (ch_path c) in
      \<lparr>ch_path = ch_path c, ch_op = ch_op c, cv_author = Option.bind m fm_author, cv_deviceName = Option.bind m fm_deviceName,
       cv_mtime = map_option fm_mtime m\<rparr>)"

definition previewChanges :: "('w, 'y) plugin_env_scheme \<Rightarrow> nat \<Rightarrow> ('w, 'x) deps_scheme \<Rightarrow> string \<Rightarrow> push_direction \<Rightarrow> ('w, change_view list) prog" where
  "previewChanges env depth d pid direction =
     andThen (getS (\<lambda>s. fst (pluginWalk env depth pid (world s)))) (\<lambda>local.
     andThen (outside (api_changes (c_api d) 0)) (\<lambda>resp.
     let metas = metaMap resp;
         paths = pluginFilePaths (map fst local) (jsDistinct (map fm_path (cr_upserts resp))) pid in
     andThen (mapEach paths (\<lambda>p.
       andThen (localSide d direction (metas p) (map_of local p) p) (\<lambda>l. ret (p, l, serverSide (metas p))))) (\<lambda>files.
     ret (map (viewOf metas) (classifyPushPull files direction)))))"

definition pluginPushPullPreview ::
  "('w, 'y) plugin_env_scheme \<Rightarrow> nat \<Rightarrow> ('w, 'x) deps_scheme \<Rightarrow> string \<Rightarrow> push_direction \<Rightarrow> ('w, change_view list option) pact" where
  "pluginPushPullPreview env depth d pid direction =
     thenH (getP hasApi) (\<lambda>api.
     if \<not> api then thenH (toast ConnectFirst) (\<lambda>_. retH None)
     else if isSelfPluginId pid (selfId env) then retH None
     else thenH (onSyncP (previewChanges env depth d pid direction)) (\<lambda>changes. retH (Some changes)))"

datatype diff_answer = DiffLines "diff_line list" | DiffBinary | DiffTooLarge

definition loadDiff ::
  "('w, 'x) deps_scheme \<Rightarrow> (path \<Rightarrow> walk_entry option) \<Rightarrow> (path \<Rightarrow> file_meta option) \<Rightarrow> push_direction \<Rightarrow> path \<Rightarrow> ('w, diff_answer) prog" where
  "loadDiff d local metas direction p =
     (if max (case local p of None \<Rightarrow> 0 | Some e \<Rightarrow> we_size e) (case metas p of None \<Rightarrow> 0 | Some m \<Rightarrow> fm_size m) > DIFF_CAP then ret DiffTooLarge
      else
        andThen (if local p = None then ret (Some []) else andThen (outside (io_read (c_io d) p)) (\<lambda>b. ret (h_decode (c_host d) b))) (\<lambda>localText.
        andThen (case metas p of None \<Rightarrow> ret (Some [])
                 | Some m \<Rightarrow> andThen (fetchFileBytes d (fm_chunks m)) (\<lambda>b. ret (h_decode (c_host d) b))) (\<lambda>serverText.
        case (localText, serverText) of
          (Some l, Some r) \<Rightarrow>
            ret (case (if direction = DirectionPush then lineDiff r l else lineDiff l r) of None \<Rightarrow> DiffTooLarge | Some ds \<Rightarrow> DiffLines ds)
        | _ \<Rightarrow> ret DiffBinary)))"

definition pluginSyncClean :: "('w, 'y) plugin_env_scheme \<Rightarrow> nat \<Rightarrow> string \<Rightarrow> ('w, bool) pact" where
  "pluginSyncClean env depth pid =
     getP (\<lambda>s.
       if isSelfPluginId pid (selfId env) then True
       else if list_ex (\<lambda>p. startsWith p (pluginPrefix pid)) (ps_configConflicts s) then False
       else
         let b = base (cl_sync (ps_client s));
             stamps = map (\<lambda>p. (p, Option.bind (base_get b p) be_size, Option.bind (base_get b p) be_mtime))
               (filter (\<lambda>p. startsWith p (pluginPrefix pid)) (base_paths b));
             (files, errors) = pluginWalk env depth pid (world (cl_sync (ps_client s)))
         in errors = [] \<and> stampsConverged stamps (map (\<lambda>(p, e). (p, we_size e, we_mtime e)) files))"

subsection \<open>Diverging settings files\<close>

definition configConflictSides :: "('w, 'x) deps_scheme \<Rightarrow> path \<Rightarrow> ('w, bool \<times> bool) prog" where
  "configConflictSides d p =
     andThen (tryCatch (andThen (outside (io_read (c_io d) p)) (\<lambda>_. ret True)) (\<lambda>_. ret False)) (\<lambda>local.
     andThen (tryCatch (andThen (outside (api_fileMeta (c_api d) p)) (\<lambda>m. ret (m \<noteq> None))) (\<lambda>_. ret False)) (\<lambda>remote.
     ret (local, remote)))"

definition conflictDirection :: "'w plugin_state \<Rightarrow> path \<Rightarrow> config_direction option" where
  "conflictDirection s p =
     (let dir = Option.bind (configSurfaceOf p) (map_of (ps_pendingConfigDir s));
          dir1 = (case Option.bind (pluginIdOf p) (map_of (cs_pluginDir (ps_configSync s))) of Some pd \<Rightarrow> Some pd | None \<Rightarrow> dir)
      in if dir1 \<noteq> None \<and> readOnlyVault s then Some Download else dir1)"

text \<open>\<open>firstContact\<close> is the test that the reason is \<open>"conflict-copy"\<close>, as in the adjudication.\<close>

definition recordConfigConflict :: "path \<Rightarrow> bool \<Rightarrow> ('w, unit) pact" where
  "recordConfigConflict p firstContact = (\<lambda>s.
     case adjudicateConfigConflict firstContact (configSurfaceOf p) (conflictDirection s p) of
       Auto choice \<Rightarrow> (Inr (), s\<lparr>ps_started := (p, choice) # ps_started s, ps_notices := AutoResolved p choice # ps_notices s\<rparr>)
     | Manual \<Rightarrow>
         if p \<in> set (ps_configConflicts s) then (Inr (), s)
         else thenH saveP (\<lambda>_. toast (ConfigDiffers p)) (s\<lparr>ps_configConflicts := ps_configConflicts s @ [p]\<rparr>))"

definition clearConfigConflict :: "path \<Rightarrow> ('w, unit) pact" where
  "clearConfigConflict p = (\<lambda>s.
     if p \<notin> set (ps_configConflicts s) then (Inr (), s)
     else saveP (s\<lparr>ps_configConflicts := filter (\<lambda>q. q \<noteq> p) (ps_configConflicts s)\<rparr>))"

definition resolveConfigGroup :: "('w, 'x) deps_scheme \<Rightarrow> path list \<Rightarrow> side_choice \<Rightarrow> ('w, unit) pact" where
  "resolveConfigGroup d paths choice =
     thenH (onSyncP (forEach paths (\<lambda>p. resolveConfigConflict d p choice))) (\<lambda>_.
     thenH (modP (\<lambda>s. s\<lparr>ps_configConflicts := filter (\<lambda>p. p \<notin> set paths) (ps_configConflicts s)\<rparr>)) (\<lambda>_. saveP))"

subsection \<open>Files that are left on the server\<close>

text \<open>The signatures are the sorted lists in place of the texts joined from them.\<close>

definition noteDeclined :: "path list \<Rightarrow> ('w, unit) pact" where
  "noteDeclined paths0 = modP (\<lambda>s0.
     let foreign = filter isForeignArtefact paths0;
         paths = filter (\<lambda>p. \<not> isForeignArtefact p) paths0;
         s = (if sort foreign = ps_foreignOnServerSig s0 then s0
              else s0\<lparr>ps_foreignOnServerSig := sort foreign,
                      ps_notices := (if foreign = [] then [] else [ForeignOnServer (length foreign)]) @ ps_notices s0\<rparr>)
     in if paths = [] then s
        else
          let plugins = jsDistinct (List.map_filter pluginIdOf paths);
              files = length (filter (\<lambda>p. pluginIdOf p = None) paths);
              sig = (sort plugins, files \<noteq> 0)
          in if sig = ps_declinedSig s then s
             else s\<lparr>ps_declinedSig := sig, ps_notices := NotSyncedHere (length plugins) files # ps_notices s\<rparr>)"

subsection \<open>What the autopilot adopts\<close>

definition sameSession :: "'w plugin_state \<Rightarrow> 'w plugin_state \<Rightarrow> bool" where
  "sameSession s s' \<longleftrightarrow> ps_client s' = ps_client s \<and> ps_serverPluginAuthors s' = ps_serverPluginAuthors s
     \<and> cs_pluginAllow (ps_configSync s') = cs_pluginAllow (ps_configSync s) \<and> ps_autopilotBusy s' = ps_autopilotBusy s"

lemma isMine_cong: "sameSession s s' \<Longrightarrow> isMine s' p = isMine s p"
  by (simp add: isMine_def authorOf_def sameSession_def)

definition classified :: "string list \<Rightarrow> autopilot_locals \<times> (string \<times> string) list \<times> 'w plugin_state
    \<Rightarrow> autopilot_locals \<times> (string \<times> string) list \<times> 'w plugin_state \<Rightarrow> bool" where
  "classified ids = (\<lambda>(al, asks, s) (al', asks', s').
     sameSession s s' \<and> al_before al' = al_before al \<and> al_installed al' = al_installed al
     \<and> (\<exists>xs. al_allow al' = al_allow al @ xs \<and> al_seen al' = al_seen al @ xs
          \<and> (\<forall>p \<in> set xs. p \<in> set ids \<and> p \<notin> set (al_allow al) \<and> p \<notin> set (al_seen al) \<and> isMine s p))
     \<and> (\<forall>p \<in> set ids. p \<in> set (al_allow al') \<or> p \<in> fst ` set asks' \<or> p \<in> set (al_seen al) \<and> isMine s p)
     \<and> fst ` set asks \<subseteq> fst ` set asks')"

lemma classified_frame:
  "classified ids (al, asks, s) (al', asks', s') \<Longrightarrow> sameSession s s' \<and> al_before al' = al_before al
     \<and> al_installed al' = al_installed al \<and> fst ` set asks \<subseteq> fst ` set asks'"
  by (simp add: classified_def)

lemma classified_step: "classified [p] x (classifyServer x p)"
proof -
  obtain al asks s where x: "x = (al, asks, s)"
    by (cases x)
  consider "p \<in> set (al_allow al)" | "p \<notin> set (al_allow al)" "isMine s p" "p \<in> set (al_seen al)"
    | "p \<notin> set (al_allow al)" "isMine s p" "p \<notin> set (al_seen al)" | "p \<notin> set (al_allow al)" "\<not> isMine s p"
    by blast
  then show ?thesis
    by cases (auto simp: x classified_def classifyServer_def sameSession_def setAdd_def Let_def dom_update)
qed

lemma classified_fold: "classified ids x (foldl classifyServer x ids)"
proof (induction ids arbitrary: x)
  case Nil
  show ?case
    by (auto simp: classified_def sameSession_def split: prod.splits)
next
  case (Cons p ids)
  obtain al asks s where x: "x = (al, asks, s)"
    by (cases x)
  obtain al1 asks1 s1 where y: "classifyServer x p = (al1, asks1, s1)"
    by (cases "classifyServer x p")
  obtain al2 asks2 s2 where z: "foldl classifyServer (al1, asks1, s1) ids = (al2, asks2, s2)"
    by (cases "foldl classifyServer (al1, asks1, s1) ids")
  have one: "classified [p] (al, asks, s) (al1, asks1, s1)" and rest: "classified ids (al1, asks1, s1) (al2, asks2, s2)"
    using classified_step [of p x] Cons.IH [of "(al1, asks1, s1)"] by (simp_all only: y z) (simp add: x)
  have mine: "isMine s1 q = isMine s q" for q
    using one by (simp add: classified_def isMine_cong)
  from one obtain xs where xs: "al_allow al1 = al_allow al @ xs" "al_seen al1 = al_seen al @ xs"
      "\<forall>q \<in> set xs. q = p \<and> q \<notin> set (al_allow al) \<and> q \<notin> set (al_seen al) \<and> isMine s q"
    by (auto simp: classified_def)
  from rest obtain ys where ys: "al_allow al2 = al_allow al1 @ ys" "al_seen al2 = al_seen al1 @ ys"
      "\<forall>q \<in> set ys. q \<in> set ids \<and> q \<notin> set (al_allow al1) \<and> q \<notin> set (al_seen al1) \<and> isMine s q"
    by (auto simp: classified_def mine)
  have "\<exists>zs. al_allow al2 = al_allow al @ zs \<and> al_seen al2 = al_seen al @ zs
      \<and> (\<forall>q \<in> set zs. q \<in> set (p # ids) \<and> q \<notin> set (al_allow al) \<and> q \<notin> set (al_seen al) \<and> isMine s q)"
    using xs ys by (intro exI [of _ "xs @ ys"]) auto
  moreover have "q \<in> set (al_allow al2) \<or> q \<in> fst ` set asks2 \<or> q \<in> set (al_seen al) \<and> isMine s q" if "q \<in> set (p # ids)" for q
  proof (cases "q = p")
    case True
    have "p \<in> set (al_allow al1) \<or> p \<in> fst ` set asks1 \<or> p \<in> set (al_seen al) \<and> isMine s p" "fst ` set asks1 \<subseteq> fst ` set asks2"
      using one rest by (simp_all add: classified_def)
    then show ?thesis
      unfolding True ys(1) by (simp only: set_append) blast
  next
    case False
    then have "q \<in> set (al_allow al2) \<or> q \<in> fst ` set asks2 \<or> q \<in> set (al_seen al1) \<and> isMine s q"
      using that rest by (auto simp: classified_def mine)
    then show ?thesis
      using xs ys by auto
  qed
  moreover have "sameSession s s2" "al_before al2 = al_before al" "al_installed al2 = al_installed al" "fst ` set asks \<subseteq> fst ` set asks2"
    using classified_frame [OF one] classified_frame [OF rest] by (simp_all add: sameSession_def) blast
  ultimately have "classified (p # ids) (al, asks, s) (al2, asks2, s2)"
    unfolding classified_def by simp
  then show ?case
    unfolding x foldl_Cons y [unfolded x] z .
qed

definition locallyAdded :: "string list \<Rightarrow> string list \<Rightarrow> string list \<Rightarrow> string list \<Rightarrow> bool" where
  "locallyAdded seen ids allow allow' \<longleftrightarrow>
     (\<exists>xs. allow' = allow @ xs \<and> (\<forall>p \<in> set xs. p \<in> set ids \<and> p \<notin> set seen \<and> p \<notin> set allow))
     \<and> (\<forall>p \<in> set ids. p \<in> set allow' \<or> p \<in> set seen)"

lemma addLocal_fold: "locallyAdded seen ids (fst x) (fst (foldl (addLocal ro seen) x ids))"
proof (induction ids arbitrary: x)
  case (Cons p ids)
  have step: "fst (addLocal ro seen x p) = (if p \<notin> set (fst x) \<and> p \<notin> set seen then fst x @ [p] else fst x)"
    by (simp add: addLocal_def split: prod.splits)
  show ?case
    using Cons [of "addLocal ro seen x p"] unfolding locallyAdded_def step foldl_Cons
    by (fastforce split: if_splits)
qed (simp add: locallyAdded_def)

lemma vaultFields_refresh: "keepsC (\<lambda>c. vaultFields s (cl_settings c)) (refreshVaultPrivacy sh)"
  unfolding refreshVaultPrivacy_def myVaultShares_def ownShareLinks_def Let_def
  by (auto intro!: keepsC_rules vaultFields_onServer)

lemma refresh_returns: "\<exists>c'. refreshVaultPrivacy sh c = (Inr (), c')"
  unfolding refreshVaultPrivacy_def by (auto simp: thenH_def getSet_def getC_def modC_def catchC_def split: prod.splits sum.splits)

text \<open>The step between the two parts: asking who may write, if it matters.\<close>

lemma ask_privacy:
  assumes "(if ask then onClient (refreshVaultPrivacy sh) else retH ()) s = (r, s')"
  shows "\<exists>c'. r = Inr () \<and> s' = s\<lparr>ps_client := c'\<rparr> \<and> vaultFields (cl_settings (ps_client s)) (cl_settings c')
     \<and> (ask \<and> cl_vaultIsPrivate c' \<longrightarrow> provenPrivate sh (cl_settings c'))"
proof (cases ask)
  case True
  then obtain c' where run: "refreshVaultPrivacy sh (ps_client s) = (Inr (), c')" and "r = Inr ()" "s' = s\<lparr>ps_client := c'\<rparr>"
    using assms refresh_returns [of sh "ps_client s"] by (auto simp: onClient_def)
  moreover have "vaultFields (cl_settings (ps_client s)) (cl_settings c')"
    by (rule keepsC_D [OF vaultFields_refresh _ run]) (simp add: vaultFields_def)
  ultimately show ?thesis
    using privacy_proven [OF run] by auto
next
  case False
  then show ?thesis
    using assms by (auto simp: retH_def vaultFields_def intro!: exI [of _ "ps_client s"])
qed

definition written :: "'w plugin_state \<Rightarrow> saved" where
  "written s = SavedSettings (ps_configSync s) (ps_autopilotSeen s) (ps_configConflicts s)"

lemma saveP_run:
  "saveP s = (Inr (), s\<lparr>ps_client := (ps_client s)\<lparr>cl_saved := cl_settings (ps_client s) # cl_saved (ps_client s)\<rparr>,
     ps_saves := written s # ps_saves s\<rparr>)"
  by (simp add: saveP_def thenH_def onClient_def saveSettings_def modC_def modP_def written_def)

definition rescan :: "'w client \<Rightarrow> 'w client" where
  "rescan c = (if cl_api c = None then c else c\<lparr>cl_lastConfigScanAt := 0, cl_enqueued := EvRemote # cl_enqueued c\<rparr>)"

lemma rescan_keeps [simp]: "cl_settings (rescan c) = cl_settings c" "cl_sync (rescan c) = cl_sync c"
  by (simp_all add: rescan_def)

lemma applyChange_run:
  "applyConfigSyncChange s = (Inr (), s\<lparr>ps_client := rescan ((ps_client s)\<lparr>cl_saved := cl_settings (ps_client s) # cl_saved (ps_client s)\<rparr>),
     ps_saves := written s # ps_saves s\<rparr>)"
  by (cases s) (simp add: applyConfigSyncChange_def thenH_def getP_def retH_def onClient_def modC_def saveP_run rescan_def)

abbreviation allowed :: "'w plugin_state \<Rightarrow> string list" where
  "allowed s \<equiv> cs_pluginAllow (ps_configSync s)"

definition observed :: "'w plugin_state \<Rightarrow> string list" where
  "observed s = (case ps_autopilotSeen s of None \<Rightarrow> [] | Some xs \<Rightarrow> xs)"

definition autopilotRuns :: "'w plugin_state \<Rightarrow> bool" where
  "autopilotRuns s \<longleftrightarrow> ps_autoSyncNewPlugins s \<and> hasApi s \<and> \<not> ps_autopilotBusy s \<and> cs_community (ps_configSync s)"

lemma begin_run:
  assumes "autopilotBegin env s = (r, s1)"
  shows "if autopilotRuns s then
      (\<exists>al dirs. r = Inr (Some al) \<and> s1 = s\<lparr>ps_autopilotBusy := True, ps_configSync := (ps_configSync s)\<lparr>cs_pluginDir := dirs\<rparr>\<rparr>
        \<and> al_before al = card (set (allowed s)) \<and> set (al_seen al) = set (observed s)
        \<and> al_installed al = filter (\<lambda>i. \<not> isSelfPluginId i (selfId env)) (pe_manifests env (world (cl_sync (ps_client s))))
        \<and> al_server al = filter (\<lambda>i. \<not> isSelfPluginId i (selfId env)) (ps_serverPluginIds s)
        \<and> locallyAdded (al_seen al) (al_installed al) (jsDistinct (allowed s)) (al_allow al))
    else r = Inr None \<and> s1 = s"
proof (cases "autopilotRuns s")
  case True
  then show ?thesis
    using assms addLocal_fold [of "jsDistinct (observed s)" _ "(jsDistinct (allowed s), cs_pluginDir (ps_configSync s))" "readOnlyVault s"]
    by (auto simp: autopilotBegin_def autopilotRuns_def observed_def Let_def distinct_card [symmetric] split: prod.splits) (metis fst_conv)+
qed (use assms in \<open>auto simp: autopilotBegin_def autopilotRuns_def\<close>)

lemma finish_run:
  assumes "autopilotFinish al s = (r, s')"
  shows "\<exists>xs. r = Inr () \<and> cl_settings (ps_client s') = cl_settings (ps_client s) \<and> ps_autopilotBusy s' = ps_autopilotBusy s
    \<and> (\<forall>p \<in> set xs. p \<in> set (al_server al) \<and> p \<notin> set (al_allow al) \<and> p \<notin> set (al_seen al) \<and> isMine s p)
    \<and> allowed s' = (if length (al_allow al @ xs) = al_before al then allowed s else al_allow al @ xs)
    \<and> (\<forall>p \<in> set (al_server al). p \<in> set (al_allow al @ xs) \<or> p \<in> fst ` set (ps_pendingPeerPlugins s') \<or> p \<in> set (al_seen al) \<and> isMine s p)
    \<and> (\<exists>older. ps_saves s' = written s' # older)"
proof -
  obtain al' asks s2 where f: "foldl classifyServer (al, [], s) (al_server al) = (al', asks, s2)"
    by (cases "foldl classifyServer (al, [], s) (al_server al)")
  have c: "classified (al_server al) (al, [], s) (al', asks, s2)"
    using classified_fold [of "al_server al" "(al, [], s)"] f by simp
  then obtain xs where xs: "al_allow al' = al_allow al @ xs"
      "\<forall>p \<in> set xs. p \<in> set (al_server al) \<and> p \<notin> set (al_allow al) \<and> p \<notin> set (al_seen al) \<and> isMine s p"
    by (auto simp: classified_def)
  have cov: "\<forall>p \<in> set (al_server al). p \<in> set (al_allow al') \<or> p \<in> fst ` set asks \<or> p \<in> set (al_seen al) \<and> isMine s p"
    using c by (simp add: classified_def)
  note same = classified_frame [OF c]
  have "r = Inr () \<and> cl_settings (ps_client s') = cl_settings (ps_client s2) \<and> ps_autopilotBusy s' = ps_autopilotBusy s2
    \<and> allowed s' = (if length (al_allow al') = al_before al' then allowed s2 else al_allow al')
    \<and> ps_pendingPeerPlugins s' = asks \<and> (\<exists>older. ps_saves s' = written s' # older)"
    using assms by (cases "length (al_allow al') = al_before al'")
      (auto simp: autopilotFinish_def f saveP_run applyChange_run written_def Let_def)
  then show ?thesis
    using xs(2) cov same unfolding xs(1) sameSession_def by (intro exI [of _ xs]) simp
qed

lemma runs_then:
  assumes "runPluginAutopilot env sh s = (r, s')" "autopilotRuns s"
  shows "\<exists>al s1 s2 s3. autopilotBegin env s = (Inr (Some al), s1)
    \<and> (if needsPrivacy al s1 then onClient (refreshVaultPrivacy sh) else retH ()) s1 = (Inr (), s2)
    \<and> autopilotFinish al s2 = (Inr (), s3) \<and> r = Inr () \<and> s' = s3\<lparr>ps_autopilotBusy := False\<rparr>"
proof -
  obtain q s1 where b: "autopilotBegin env s = (q, s1)"
    by (cases "autopilotBegin env s")
  then obtain al where al: "autopilotBegin env s = (Inr (Some al), s1)"
    using begin_run [OF b] assms(2) by auto
  obtain q2 s2 where p: "(if needsPrivacy al s1 then onClient (refreshVaultPrivacy sh) else retH ()) s1 = (q2, s2)"
    by (cases "(if needsPrivacy al s1 then onClient (refreshVaultPrivacy sh) else retH ()) s1")
  obtain q3 s3 where f: "autopilotFinish al s2 = (q3, s3)"
    by (cases "autopilotFinish al s2")
  have "q2 = Inr ()" "q3 = Inr ()"
    using ask_privacy [OF p] finish_run [OF f] by auto
  then show ?thesis
    using al p f assms(1)
    by (auto simp: runPluginAutopilot_def thenH_def catchP_def getP_def endAutopilot_def modP_def)
qed

lemma idle_autopilot: "\<not> autopilotRuns s \<Longrightarrow> runPluginAutopilot env sh s = (Inr (), s)"
  using begin_run [of env s] by (cases "autopilotBegin env s") (auto simp: runPluginAutopilot_def thenH_def retH_def)

text \<open>Whose code a plugin on the server is, for a state before the run and the settings after it.\<close>

definition ownCode :: "'w shell \<Rightarrow> 'w plugin_state \<Rightarrow> settings \<Rightarrow> string \<Rightarrow> bool" where
  "ownCode sh s settings' pid \<longleftrightarrow>
     (case authorOf s pid of
        Some a \<Rightarrow> isOwnAccount (cl_settings (ps_client s)) a \<or> (a = '''' \<and> provenPrivate sh settings')
      | None \<Rightarrow> provenPrivate sh settings')"

lemma mine_own:
  assumes "isMine (s1\<lparr>ps_client := c\<rparr>) p" "ps_serverPluginAuthors s1 = ps_serverPluginAuthors s"
    and "vaultFields (cl_settings (ps_client s)) (cl_settings c)" "noAuthor (authorOf s p) \<and> cl_vaultIsPrivate c \<longrightarrow> provenPrivate sh (cl_settings c)"
  shows "ownCode sh s (cl_settings c) p"
proof -
  have own: "isOwnAccount (cl_settings c) a = isOwnAccount (cl_settings (ps_client s)) a" for a
    using assms(3) by (simp add: isOwnAccount_def vaultFields_def)
  have empty: "\<not> isOwnAccount t ''''" for t
    by (simp add: isOwnAccount_def Let_def trim_def trimEndBy_def toLowerCase_def)
  have "authorOf (s1\<lparr>ps_client := c\<rparr>) p = authorOf s p"
    using assms(2) by (simp add: authorOf_def)
  then show ?thesis
    using assms(1,4) by (auto simp: isMine_def ownCode_def own empty noAuthor_def split: option.splits)
qed

text \<open>A run adds plugins installed here and plugins of the server.\<close>

lemma autopilot_result:
  assumes "runPluginAutopilot env sh s = (r, s')" "autopilotRuns s"
  shows "\<exists>ys xs. r = Inr () \<and> \<not> ps_autopilotBusy s' \<and> set (allowed s') = set (allowed s) \<union> set ys \<union> set xs
    \<and> (\<forall>p \<in> set ys. p \<in> set (pe_manifests env (world (cl_sync (ps_client s)))) \<and> \<not> isSelfPluginId p (selfId env) \<and> p \<notin> set (observed s))
    \<and> (\<forall>p \<in> set xs. p \<in> set (ps_serverPluginIds s) \<and> \<not> isSelfPluginId p (selfId env) \<and> p \<notin> set (observed s)
        \<and> ownCode sh s (cl_settings (ps_client s')) p)
    \<and> (\<forall>p \<in> set (ps_serverPluginIds s). isSelfPluginId p (selfId env)
        \<or> p \<in> set (allowed s') \<or> p \<in> fst ` set (ps_pendingPeerPlugins s') \<or> p \<in> set (observed s))"
proof -
  from runs_then [OF assms] obtain al s1 s2 s3 where b: "autopilotBegin env s = (Inr (Some al), s1)"
    and q: "(if needsPrivacy al s1 then onClient (refreshVaultPrivacy sh) else retH ()) s1 = (Inr (), s2)"
    and f: "autopilotFinish al s2 = (Inr (), s3)" and r: "r = Inr ()" and s': "s' = s3\<lparr>ps_autopilotBusy := False\<rparr>"
    by blast
  from begin_run [OF b] assms(2) obtain dirs where
      s1: "s1 = s\<lparr>ps_autopilotBusy := True, ps_configSync := (ps_configSync s)\<lparr>cs_pluginDir := dirs\<rparr>\<rparr>"
    and n: "al_before al = card (set (allowed s))" and seen: "set (al_seen al) = set (observed s)"
    and inst: "set (al_installed al) = {i \<in> set (pe_manifests env (world (cl_sync (ps_client s)))). \<not> isSelfPluginId i (selfId env)}"
    and srv: "set (al_server al) = {i \<in> set (ps_serverPluginIds s). \<not> isSelfPluginId i (selfId env)}"
    and loc: "locallyAdded (al_seen al) (al_installed al) (jsDistinct (allowed s)) (al_allow al)"
    by auto
  from loc obtain ys where ys: "al_allow al = jsDistinct (allowed s) @ ys"
      "\<forall>p \<in> set ys. p \<in> set (al_installed al) \<and> p \<notin> set (al_seen al)"
    by (auto simp: locallyAdded_def)
  from ask_privacy [OF q] obtain c where s2: "s2 = s1\<lparr>ps_client := c\<rparr>" and vf: "vaultFields (cl_settings (ps_client s)) (cl_settings c)"
    and priv: "needsPrivacy al s1 \<and> cl_vaultIsPrivate c \<longrightarrow> provenPrivate sh (cl_settings c)"
    by (auto simp: s1)
  have s2f: "allowed s2 = allowed s" "cl_settings (ps_client s2) = cl_settings c"
    by (simp_all add: s2 s1)
  from finish_run [OF f, unfolded s2f] obtain xs where settings: "cl_settings (ps_client s3) = cl_settings c"
    and xs: "\<forall>p \<in> set xs. p \<in> set (al_server al) \<and> p \<notin> set (al_allow al) \<and> p \<notin> set (al_seen al) \<and> isMine s2 p"
    and allow: "allowed s3 = (if length (al_allow al @ xs) = al_before al then allowed s else al_allow al @ xs)"
    and cov: "\<forall>p \<in> set (al_server al). p \<in> set (al_allow al @ xs) \<or> p \<in> fst ` set (ps_pendingPeerPlugins s3) \<or> p \<in> set (al_seen al)"
    by blast
  have own: "ownCode sh s (cl_settings c) p" if "p \<in> set xs" for p
  proof (rule mine_own)
    show "isMine (s1\<lparr>ps_client := c\<rparr>) p"
      using that xs by (simp add: s2)
    show "noAuthor (authorOf s p) \<and> cl_vaultIsPrivate c \<longrightarrow> provenPrivate sh (cl_settings c)"
      using that xs priv by (auto simp: needsPrivacy_def list_ex_iff authorOf_def s1)
  qed (simp_all add: s1 vf)
  have all: "set (allowed s3) = set (allowed s) \<union> set ys \<union> set xs"
  proof (cases "length (al_allow al @ xs) = al_before al")
    case True
    then have "ys = []" "xs = []"
      by (simp_all add: ys n distinct_card [symmetric])
    then show ?thesis
      using True allow by simp
  qed (simp add: allow ys Un_assoc)
  have "al_allow al @ xs = jsDistinct (allowed s) @ ys @ xs"
    by (simp add: ys)
  then have "set (al_allow al @ xs) = set (allowed s3)"
    by (simp only: set_append set_jsDistinct all Un_assoc)
  then have "\<forall>p \<in> set (al_server al). p \<in> set (allowed s3) \<or> p \<in> fst ` set (ps_pendingPeerPlugins s3) \<or> p \<in> set (observed s)"
    using cov seen by blast
  then show ?thesis
    using all xs ys(2) own inst srv seen by - (rule exI [of _ ys], rule exI [of _ xs], simp add: r s' settings, blast)
qed


text \<open>
  The allowlist is read before the server is asked and written back afterwards. When a plugin installed here was
  added, what the user ticked or unticked in the meantime is overwritten, whatever the state was by then.
\<close>
theorem toggle_during_autopilot_lost:
  assumes "autopilotFinish al s = (r, s')" "al_before al < length (al_allow al)"
  shows "(p \<notin> set (al_allow al) \<and> p \<notin> set (al_server al) \<longrightarrow> p \<notin> set (allowed s')) \<and> (p \<in> set (al_allow al) \<longrightarrow> p \<in> set (allowed s'))"
  using finish_run [OF assms(1)] assms(2) by auto

definition samplePlugins :: "unit plugin_state" where
  "samplePlugins = \<lparr>ps_client = (startClient startSettings idleState)\<lparr>cl_api := Some \<lparr>t_baseUrl = ''u'', t_token = ''t'', t_vault = ''v'',
       t_owner = '''', t_deviceId = ''d'', t_deviceName = ''n''\<rparr>\<rparr>,
     ps_configSync = DEFAULT_CONFIG_SYNC\<lparr>cs_community := True\<rparr>, ps_autoSyncNewPlugins = True, ps_autopilotSeen = None,
     ps_configConflicts = [], ps_pendingConfigDir = [], ps_serverPluginIds = [''mine'', ''theirs'', ''anon'', ''SelfSync''],
     ps_serverPluginAuthors = [(''mine'', Some ''Alice''), (''theirs'', Some ''bob''), (''anon'', None)],
     ps_pendingPeerPlugins = [], ps_peerPluginToasted = [], ps_autopilotBusy = False, ps_declinedSig = ([], False),
     ps_foreignOnServerSig = [], ps_notices = [], ps_saves = [], ps_started = []\<rparr>"

definition sampleEnv :: "unit plugin_env" where
  "sampleEnv = \<lparr>pe_dir = Some ''.obsidian/plugins/selfsync'', pe_id = ''selfsync'', pe_manifests = (\<lambda>_. [''selfsync'', ''local'']),
     pe_adapter = (\<lambda>_. \<lparr>wa_list = (\<lambda>_. None), wa_stat = (\<lambda>_. None)\<rparr>)\<rparr>"

lemma own_refresh:
  "refreshVaultPrivacy (readyShell\<lparr>sh_net := ownNet\<rparr>) (ps_client samplePlugins) = (Inr (), (ps_client samplePlugins)\<lparr>cl_vaultIsPrivate := True\<rparr>)"
proof -
  have s: "se_authToken startSettings = ''t''" "se_vaultOwner startSettings = []"
    by (simp_all add: startSettings_def)
  show ?thesis
    by (simp add: refreshVaultPrivacy_def myVaultShares_def samplePlugins_def
        ownShareLinks_def onServer_def withAuth_def acquireToken_def thenH_def getSet_def getC_def retH_def modC_def catchC_def
        onWorld_def own_lists startClient_def s Let_def)
qed

definition sampleLocals :: autopilot_locals where
  "sampleLocals = \<lparr>al_allow = [''local''], al_before = 0, al_seen = [], al_installed = [''local''], al_server = [''mine'', ''theirs'', ''anon'']\<rparr>"

definition begunPlugins :: "unit plugin_state" where
  "begunPlugins = samplePlugins\<lparr>ps_autopilotBusy := True,
     ps_configSync := (ps_configSync samplePlugins)\<lparr>cs_pluginDir := [(''local'', Upload)]\<rparr>\<rparr>"

lemma sample_begin: "autopilotBegin sampleEnv samplePlugins = (Inr (Some sampleLocals), begunPlugins)"
proof -
  have "char_of (115 :: nat) = CHR ''s''"
    by (simp add: char_of_def bit_0)
  then have "selfId sampleEnv = ''selfsync''"
      "filter (\<lambda>i. \<not> isSelfPluginId i ''selfsync'') [''selfsync'', ''local''] = [''local'']"
      "filter (\<lambda>i. \<not> isSelfPluginId i ''selfsync'') [''mine'', ''theirs'', ''anon'', ''SelfSync''] = [''mine'', ''theirs'', ''anon'']"
    by (simp_all add: selfId_def selfFolderId_def lastSegment_def isSep_def sampleEnv_def isSelfPluginId_def LEGACY_SELF_IDS_def toLowerCase_def lowerChar_def)
  then show ?thesis
    by (simp add: autopilotBegin_def begunPlugins_def samplePlugins_def sampleEnv_def sampleLocals_def addLocal_def jsDistinct_def
        startClient_def startSettings_def DEFAULT_CONFIG_SYNC_def Let_def del: filter.simps)
qed


subsection \<open>A forced push or pull stays in its folder\<close>

lemma emits_onPlugin:
  assumes "emits Q m" "onSyncP m s = (r, s')"
  shows "\<exists>evs. log (cl_sync (ps_client s')) = evs @ log (cl_sync (ps_client s)) \<and> list_all Q evs"
  using assms emits_log [OF assms(1), of "cl_sync (ps_client s)"]
  by (auto simp: onSyncP_def onClient_def onSync_def split: prod.splits sum.splits)

fun forced :: "string \<Rightarrow> side_choice \<Rightarrow> event \<Rightarrow> bool" where
  "forced pid choice (ApiCommit q) = (choice = KeepLocal \<and> startsWith (cq_path q) (pluginPrefix pid))"
| "forced pid choice (ApiDelete p v) = (choice = KeepLocal \<and> startsWith p (pluginPrefix pid))"
| "forced pid choice (ApiPutChunk h x) = (choice = KeepLocal)"
| "forced pid choice (IoWrite p b) = (choice = TakeRemote \<and> startsWith p (pluginPrefix pid))"
| "forced pid choice (IoRemove p) = (choice = TakeRemote \<and> startsWith p (pluginPrefix pid))"
| "forced pid choice (IoOpen p) = (choice = TakeRemote \<and> startsWith p (pluginPrefix pid))"
| "forced pid choice (IoAppend p b) = (choice = TakeRemote \<and> startsWith p (pluginPrefix pid))"
| "forced pid choice (IoClose p) = (choice = TakeRemote \<and> startsWith p (pluginPrefix pid))"
| "forced pid choice (IoAbort p) = (choice = TakeRemote \<and> startsWith p (pluginPrefix pid))"
| "forced pid choice _ = True"

lemma emits_forcedPull:
  assumes "\<And>c. Q (Callback c)" "\<And>r. Q (GotRead p r)" "Q (IoOpen p)" "\<And>b. Q (IoAppend p b)" "Q (IoClose p)" "Q (IoAbort p)" "\<And>b. Q (IoWrite p b)"
  shows "emits Q (applyPull d p m h False)"
proof -
  have "bufferedPull d p m h False = andThen (fetchVerified d m) (\<lambda>b. andThen (writePulled d p b NoRace) (\<lambda>_. setBase d p b (fm_hash m)))"
    by (simp add: bufferedPull_def andThen_def ret_def)
  then have b: "emits Q (bufferedPull d p m h False)"
    unfolding writePulled_def by (simp add: emits_andThen [OF emits_fetchVerified] emits_rules assms)
  have st: "emits Q (streamPull d p m h False)"
    unfolding streamPull_def by (intro emits_rules assms) simp
  show ?thesis
    unfolding applyPull_def by (intro emits_andThen emits_whenM emits_record emits_if emits_ret b st assms)
qed

lemma emits_resolveConfig: "startsWith p (pluginPrefix pid) \<Longrightarrow> emits (forced pid choice) (resolveConfigConflict d p choice)"
  unfolding resolveConfigConflict_def readOrNull_def
  by (cases choice) (auto intro!: emits_rules emits_forcedPull)

lemma emits_forceLoop:
  "list_all (\<lambda>p. startsWith p (pluginPrefix pid)) ps \<Longrightarrow> emits (forced pid choice) (forceLoop d choice ps n)"
  by (induction ps arbitrary: n) (auto intro!: emits_rules emits_resolveConfig split: option.splits)

lemma forceLoop_counts:
  "\<exists>k f s'. forceLoop d choice ps n s = (Inr (k, f), s') \<and> n \<le> k \<and> k \<le> n + length ps \<and> (f = None \<longleftrightarrow> k = n + length ps)"
proof (induction ps arbitrary: n s)
  case (Cons p ps)
  obtain r s1 where run: "resolveConfigConflict d p choice s = (r, s1)"
    by (cases "resolveConfigConflict d p choice s")
  show ?case
  proof (cases r)
    case (Inl e)
    then show ?thesis
      using run by (simp add: andThen_def tryCatch_def ret_def)
  next
    case (Inr u)
    then have "forceLoop d choice (p # ps) n s = forceLoop d choice ps (n + 1) s1"
      using run by (simp add: andThen_def tryCatch_def ret_def)
    then show ?thesis
      using Cons.IH [of "n + 1" s1] by auto
  qed
qed (simp add: ret_def)

lemma paths_in_folder: "list_all (\<lambda>p. startsWith p (pluginPrefix pid)) (pluginFilePaths xs ys pid)"
  by (auto simp: list_all_iff pluginFilePaths_def pluginPrefix_def CONFIG_PREFIX_def Let_def)

lemma valid_id_plain: "validPluginId pid \<Longrightarrow> CHR ''/'' \<notin> set pid \<and> CHR 0x5C \<notin> set pid \<and> pid \<noteq> '''' \<and> hd pid \<noteq> CHR ''.''"
proof -
  have "\<not> isAlnum (CHR ''/'')" "\<not> isAlnum (CHR 0x5C)" "\<not> isAlnum (CHR ''.'')"
    by (simp_all add: isAlnum_def)
  then show "validPluginId pid \<Longrightarrow> CHR ''/'' \<notin> set pid \<and> CHR 0x5C \<notin> set pid \<and> pid \<noteq> '''' \<and> hd pid \<noteq> CHR ''.''"
    by (cases pid) (auto simp: validPluginId_def list_all_iff)
qed

definition mayForce :: "('w, 'y) plugin_env_scheme \<Rightarrow> string \<Rightarrow> side_choice \<Rightarrow> 'w plugin_state \<Rightarrow> bool" where
  "mayForce env pid choice s \<longleftrightarrow>
     hasApi s \<and> \<not> (choice = KeepLocal \<and> readOnlyVault s) \<and> validPluginId pid \<and> \<not> isSelfPluginId pid (selfId env)"

lemma getP_then: "thenH (getP g) f s = f (g s) s"
  by (simp add: thenH_def getP_def)

lemma modP_then: "thenH (modP g) f s = f () (g s)"
  by (simp add: thenH_def modP_def)

lemma refusal: "thenH (toast n) (\<lambda>_. retH x) s = (Inr x, s\<lparr>ps_notices := n # ps_notices s\<rparr>)"
  by (simp add: thenH_def toast_def modP_def retH_def)

lemma force_refused:
  assumes "\<not> mayForce env pid choice s"
  shows "\<exists>n. forcePlugin env d pid choice s = (Inr 0, s\<lparr>ps_notices := n # ps_notices s\<rparr>)"
proof -
  consider "\<not> hasApi s" | "hasApi s" "choice = KeepLocal \<and> readOnlyVault s"
    | "hasApi s" "\<not> (choice = KeepLocal \<and> readOnlyVault s)" "\<not> validPluginId pid"
    | "hasApi s" "\<not> (choice = KeepLocal \<and> readOnlyVault s)" "validPluginId pid" "isSelfPluginId pid (selfId env)"
    using assms unfolding mayForce_def by blast
  then show ?thesis
    by cases (auto simp only: forcePlugin_def getP_then refusal if_True if_False not_True_eq_False not_False_eq_True simp_thms)
qed

lemma pluginPaths_run:
  assumes "onSyncP (pluginPaths d pid) s = (r, s1)"
  shows "log (cl_sync (ps_client s1)) = log (cl_sync (ps_client s)) \<and> ps_notices s1 = ps_notices s
    \<and> (\<forall>paths. r = Inr paths \<longrightarrow> list_all (\<lambda>p. startsWith p (pluginPrefix pid)) paths)"
  using assms paths_in_folder [of pid]
  by (auto simp: onSyncP_def onClient_def onSync_def pluginPaths_def andThen_def outside_def ret_def split: prod.splits sum.splits)

lemma force_run:
  assumes "forcePlugin env d pid choice s = (r, s')" "mayForce env pid choice s"
  shows "\<exists>evs. log (cl_sync (ps_client s')) = evs @ log (cl_sync (ps_client s)) \<and> list_all (forced pid choice) evs
    \<and> (\<forall>n. r = Inr n \<longrightarrow> (\<exists>m. n \<le> m \<and> ps_notices s' = (if n < m then [ForceStopped choice pid n m]
          else if choice = TakeRemote then [ReopenToLoad, Forced choice pid m] else [Forced choice pid m]) @ ps_notices s)
        \<and> (\<exists>older. ps_saves s' = SavedBase (base (cl_sync (ps_client s'))) # older))"
proof -
  obtain r1 s1 where p: "onSyncP (pluginPaths d pid) s = (r1, s1)"
    by (cases "onSyncP (pluginPaths d pid) s")
  note paths = pluginPaths_run [OF p]
  show ?thesis
  proof (cases r1)
    case (Inl e)
    then show ?thesis
      using assms p paths by (auto simp: forcePlugin_def mayForce_def thenH_def getP_def)
  next
    case (Inr ps)
    from forceLoop_counts [of d choice ps 0 "cl_sync (ps_client s1)"] obtain k f c2 where
      l: "forceLoop d choice ps 0 (cl_sync (ps_client s1)) = (Inr (k, f), c2)" and k: "k \<le> length ps" "f = None \<longleftrightarrow> k = length ps"
      by auto
    let ?s2 = "s1\<lparr>ps_client := (ps_client s1)\<lparr>cl_sync := c2\<rparr>\<rparr>"
    have o: "onSyncP (forceLoop d choice ps 0) s1 = (Inr (k, f), ?s2)"
      using l by (simp add: onSyncP_def onClient_def onSync_def)
    have "emits (forced pid choice) (forceLoop d choice ps 0)"
      using paths Inr by (intro emits_forceLoop) simp
    from emits_onPlugin [OF this o] paths obtain evs where evs: "log c2 = evs @ log (cl_sync (ps_client s))" "list_all (forced pid choice) evs"
      by auto
    have run: "r = Inr k" "cl_sync (ps_client s') = c2" "ps_saves s' = SavedBase c2b # ps_saves s1"
        "ps_notices s' = (if f \<noteq> None then [ForceStopped choice pid k (length ps)]
          else if choice = TakeRemote then [ReopenToLoad, Forced choice pid (length ps)] else [Forced choice pid (length ps)]) @ ps_notices s1"
      if "c2b = base c2" for c2b
      using assms p o Inr that
      by (auto simp: forcePlugin_def mayForce_def thenH_def getP_def persistBase_def modP_def toast_def retH_def split: if_splits)
    have "f \<noteq> None \<longleftrightarrow> k < length ps"
      using k by linarith
    then have "\<exists>m. k \<le> m \<and> ps_notices s' = (if k < m then [ForceStopped choice pid k m]
          else if choice = TakeRemote then [ReopenToLoad, Forced choice pid m] else [Forced choice pid m]) @ ps_notices s"
      using k run(4) [OF refl] paths by (intro exI [of _ "length ps"]) simp
    then show ?thesis
      using evs run(1-3) [OF refl] by (intro exI [of _ evs]) simp
  qed
qed


definition forceEnv :: "mem plugin_env" where
  "forceEnv = \<lparr>pe_dir = None, pe_id = ''selfsync'', pe_manifests = (\<lambda>_. []), pe_adapter = (\<lambda>_. \<lparr>wa_list = (\<lambda>_. None), wa_stat = (\<lambda>_. None)\<rparr>)\<rparr>"

definition forceStart :: "mem plugin_state" where
  "forceStart = \<lparr>ps_client = (startClient startSettings (startIn (emptyMem\<lparr>m_files := [(''.obsidian/plugins/x/data.json'', [1])]\<rparr>) (baseStore [])))
       \<lparr>cl_api := Some \<lparr>t_baseUrl = ''u'', t_token = ''t'', t_vault = ''v'', t_owner = '''', t_deviceId = ''d'', t_deviceName = ''n''\<rparr>\<rparr>,
     ps_configSync = DEFAULT_CONFIG_SYNC, ps_autoSyncNewPlugins = False, ps_autopilotSeen = None, ps_configConflicts = [],
     ps_pendingConfigDir = [], ps_serverPluginIds = [], ps_serverPluginAuthors = [], ps_pendingPeerPlugins = [],
     ps_peerPluginToasted = [], ps_autopilotBusy = False, ps_declinedSig = ([], False), ps_foreignOnServerSig = [],
     ps_notices = [], ps_saves = [], ps_started = []\<rparr>"


fun removal :: "string \<Rightarrow> event \<Rightarrow> bool" where
  "removal pid (ApiDelete p v) = startsWith p (pluginPrefix pid)"
| "removal pid _ = False"

lemma emits_deleteOnServer: "emits (removal pid) (deleteOnServer d pid)"
  unfolding deleteOnServer_def by (intro emits_rules emits_forEach_mem) simp

text \<open>
  The removal of a plugin from the server sends nothing but deletions of files in that plugin's folder, and touches
  nothing on disk. When it returns, this device no longer syncs the plugin.
\<close>
theorem remove_plugin_confined:
  assumes "removePluginFromServer d pid s = (r, s')"
  shows "(\<exists>evs. log (cl_sync (ps_client s')) = evs @ log (cl_sync (ps_client s)) \<and> list_all (removal pid) evs)
    \<and> (\<forall>n. r = Inr n \<and> hasApi s \<and> validPluginId pid \<longrightarrow> pid \<notin> set (allowed s') \<and> pid \<notin> set (ps_serverPluginIds s')
         \<and> (\<exists>older. ps_saves s' = written s' # older))"
proof (cases "hasApi s \<and> validPluginId pid")
  case False
  then have "\<exists>n. s' = s\<lparr>ps_notices := n # ps_notices s\<rparr>"
    using assms by (cases "hasApi s") (auto simp: removePluginFromServer_def getP_then refusal)
  then show ?thesis
    using False by auto
next
  case True
  obtain q s1 where d: "onSyncP (deleteOnServer d pid) s = (q, s1)"
    by (cases "onSyncP (deleteOnServer d pid) s")
  note evs = emits_onPlugin [OF emits_deleteOnServer d]
  show ?thesis
  proof (cases q)
    case (Inl e)
    then show ?thesis
      using True assms d evs by (auto simp: removePluginFromServer_def getP_then thenH_def [of "onSyncP _"])
  next
    case (Inr n)
    have "cl_sync (ps_client s') = cl_sync (ps_client s1) \<and> pid \<notin> set (allowed s') \<and> pid \<notin> set (ps_serverPluginIds s')
        \<and> (\<exists>older. ps_saves s' = written s' # older)"
      using True assms d Inr
      by (auto simp: removePluginFromServer_def getP_then modP_then thenH_def [of "onSyncP _"] thenH_def [of saveP]
          persistBase_def saveP_run retH_def Let_def written_def)
    then show ?thesis
      using evs by simp
  qed
qed

subsection \<open>Adjudication, preview and notices\<close>

text \<open>
  A diverging settings file is either resolved in the direction chosen for its surface or plugin, or queued for the
  user, never both and never twice; on a vault that may only be read no resolution pushes.
\<close>
theorem config_conflict_adjudicated:
  assumes "recordConfigConflict p firstContact s = (r, s')"
  shows "r = Inr ()
    \<and> (\<exists>choice. ps_started s' = (p, choice) # ps_started s \<and> ps_configConflicts s' = ps_configConflicts s \<and> firstContact
          \<and> (readOnlyVault s \<longrightarrow> choice = TakeRemote)
       \<or> ps_started s' = ps_started s \<and> set (ps_configConflicts s') = insert p (set (ps_configConflicts s)))
    \<and> (distinct (ps_configConflicts s) \<longrightarrow> distinct (ps_configConflicts s'))"
proof (cases "adjudicateConfigConflict firstContact (configSurfaceOf p) (conflictDirection s p)")
  case (Auto choice)
  then have "firstContact \<and> (readOnlyVault s \<longrightarrow> choice = TakeRemote)"
    by (auto simp: adjudicateConfigConflict_def configAutoResolveChoice_def conflictDirection_def Let_def
        split: option.splits config_direction.splits if_splits)
  then show ?thesis
    using assms Auto by (auto simp: recordConfigConflict_def)
next
  case Manual
  then show ?thesis
    using assms by (cases "p \<in> set (ps_configConflicts s)")
      (auto simp: recordConfigConflict_def thenH_def saveP_run toast_def modP_def insert_absorb)
qed

lemma emits_previewChanges: "emits (\<lambda>_. False) (previewChanges env depth d pid direction)"
  unfolding previewChanges_def localSide_def by (auto intro!: emits_rules)

definition readsAs :: "('w, 'x) deps_scheme \<Rightarrow> path \<Rightarrow> hash \<Rightarrow> bool" where
  "readsAs d p h \<longleftrightarrow> (\<exists>w b w'. io_read (c_io d) p w = (Inr b, w') \<and> h_sha (c_host d) b = h)"

lemma readsAsI: "io_read (c_io d) p w = (Inr b, w') \<Longrightarrow> readsAs d p (h_sha (c_host d) b)"
  by (auto simp: readsAs_def)

lemma localSide_sound:
  assumes "localSide d direction meta entry p s = (Inr l, s')"
  shows "(sd_hash l = Some h \<longrightarrow> readsAs d p h) \<and> (meta = None \<and> entry \<noteq> None \<longrightarrow> sd_present l)"
  using assms
  by (auto simp: localSide_def tryCatch_def andThen_def outside_def ret_def readsAsI split: option.splits if_splits prod.splits sum.splits)

lemma mapEach_all:
  assumes "\<And>x s y s'. x \<in> set xs \<Longrightarrow> f x s = (Inr y, s') \<Longrightarrow> P x y" "mapEach xs f s = (Inr ys, s')"
  shows "list_all2 P xs ys"
  using assms
proof (induction xs arbitrary: s ys)
  case (Cons x xs)
  from Cons.prems(2) obtain y s1 zs where "f x s = (Inr y, s1)" "mapEach xs f s1 = (Inr zs, s')" "ys = y # zs"
    by (auto simp: andThen_Inr ret_def)
  then show ?case
    using Cons.IH [of s1 zs] Cons.prems(1) by auto
qed (simp add: ret_def)

lemma metaMap_path: "p \<in> fm_path ` set (cr_upserts resp) \<longleftrightarrow> metaMap resp p \<noteq> None"
  by (force simp: metaMap_def map_of_eq_None_iff)

lemma metaMap_Some: "metaMap resp p = Some m \<Longrightarrow> m \<in> set (cr_upserts resp) \<and> fm_path m = p"
  by (auto simp: metaMap_def dest!: map_of_SomeD)

text \<open>What the loop of the preview knows of a file of the folder.\<close>

definition inspected :: "('w, 'x) deps_scheme \<Rightarrow> string \<Rightarrow> changes_response \<Rightarrow> path \<times> side_state \<times> side_state \<Rightarrow> bool" where
  "inspected d pid resp = (\<lambda>(p, l, r). r = serverSide (metaMap resp p) \<and> startsWith p (pluginPrefix pid)
     \<and> (\<forall>h. sd_hash l = Some h \<longrightarrow> readsAs d p h) \<and> (metaMap resp p = None \<longrightarrow> sd_present l))"

lemma inspected_unchanged:
  assumes "inspected d pid resp f"
  shows "startsWith (ch_path (classifyFile direction f)) (pluginPrefix pid)
    \<and> (ch_op (classifyFile direction f) = OpUnchanged \<longrightarrow>
        (\<exists>m \<in> set (cr_upserts resp). fm_path m = ch_path (classifyFile direction f) \<and> readsAs d (fm_path m) (fm_hash m)))"
proof -
  obtain p l where f: "f = (p, l, serverSide (metaMap resp p))" "startsWith p (pluginPrefix pid)"
      "\<forall>h. sd_hash l = Some h \<longrightarrow> readsAs d p h" "metaMap resp p = None \<longrightarrow> sd_present l"
    using assms by (cases f) (auto simp: inspected_def)
  then show ?thesis
    by (cases "metaMap resp p"; cases direction)
      (auto simp: classifyFile_def serverSide_def Let_def dest!: metaMap_Some split: if_splits)
qed

text \<open>
  The preview records no call that changes anything, and calls a file of the folder unchanged only after the bytes
  read from it had the hash of the server's copy.
\<close>
theorem preview_truthful:
  assumes "previewChanges env depth d pid direction s = (Inr views, s')"
  shows "log s' = log s
    \<and> (\<exists>resp :: changes_response. \<forall>v \<in> set views. startsWith (ch_path v) (pluginPrefix pid)
        \<and> (ch_op v = OpUnchanged \<longrightarrow> (\<exists>m \<in> set (cr_upserts resp). fm_path m = ch_path v \<and> readsAs d (fm_path m) (fm_hash m))))"
proof -
  let ?local = "fst (pluginWalk env depth pid (world s))"
  from assms obtain resp s1 files where
    m: "mapEach (pluginFilePaths (map fst ?local) (jsDistinct (map fm_path (cr_upserts resp))) pid)
        (\<lambda>p. andThen (localSide d direction (metaMap resp p) (map_of ?local p) p) (\<lambda>l. ret (p, l, serverSide (metaMap resp p)))) s1 = (Inr files, s')"
    and v: "views = map (viewOf (metaMap resp)) (classifyPushPull files direction)"
    by (auto simp: previewChanges_def Let_def andThen_Inr getS_def ret_def)
  let ?paths = "pluginFilePaths (map fst ?local) (jsDistinct (map fm_path (cr_upserts resp))) pid"
  have some: "map_of ?local p \<noteq> None \<or> metaMap resp p \<noteq> None" if "p \<in> set ?paths" for p
    using that metaMap_path [of p resp] by (auto simp: pluginFilePaths_def Let_def map_of_eq_None_iff)
  have "list_all2 (\<lambda>p f. inspected d pid resp f) ?paths files"
  proof (rule mapEach_all [OF _ m])
    fix p t f t'
    assume p: "p \<in> set ?paths"
      and "andThen (localSide d direction (metaMap resp p) (map_of ?local p) p) (\<lambda>l. ret (p, l, serverSide (metaMap resp p))) t = (Inr f, t')"
    then obtain l where l: "localSide d direction (metaMap resp p) (map_of ?local p) p t = (Inr l, t')" "f = (p, l, serverSide (metaMap resp p))"
      by (auto simp: andThen_Inr ret_def)
    have "startsWith p (pluginPrefix pid)"
      using paths_in_folder [of pid "map fst ?local" "jsDistinct (map fm_path (cr_upserts resp))"] p by (simp only: list_all_iff)
    then show "inspected d pid resp f"
      using localSide_sound [OF l(1)] some [OF p] by (auto simp: l(2) inspected_def)
  qed
  then have f: "inspected d pid resp f" if "f \<in> set files" for f
    using that by (auto simp: list_all2_conv_all_nth in_set_conv_nth)
  have "log s' = log s"
    using emitsD [OF emits_previewChanges assms] by (auto simp: list_all_iff)
  moreover have "\<forall>v \<in> set views. startsWith (ch_path v) (pluginPrefix pid)
      \<and> (ch_op v = OpUnchanged \<longrightarrow> (\<exists>m \<in> set (cr_upserts resp). fm_path m = ch_path v \<and> readsAs d (fm_path m) (fm_hash m)))"
    using inspected_unchanged [OF f] by (simp add: v viewOf_def classifyPushPull_def Let_def)
  ultimately show ?thesis
    by (intro conjI exI [of _ resp])
qed

text \<open>The same declined files are announced once.\<close>

lemma declined_once: "thenH (noteDeclined ps) (\<lambda>_. noteDeclined ps) s = noteDeclined ps s"
proof -
  define foreign where "foreign = filter isForeignArtefact ps"
  define paths where "paths = filter (\<lambda>p. \<not> isForeignArtefact p) ps"
  define plugins where "plugins = jsDistinct (List.map_filter pluginIdOf paths)"
  define files where "files = length (filter (\<lambda>p. pluginIdOf p = None) paths)"
  show ?thesis
    unfolding noteDeclined_def modP_then unfolding modP_def Let_def
    unfolding foreign_def [symmetric] paths_def [symmetric] plugins_def [symmetric] files_def [symmetric]
    by (cases "paths = []"; cases "sort foreign = ps_foreignOnServerSig s"; cases "(sort plugins, files \<noteq> 0) = ps_declinedSig s") simp_all
qed

end
