(* ===== verification/VaultDisk.thy ===== *)
theory VaultDisk
  imports MountIo PathSafe ConfigWalk ForeignTools
begin

text \<open>
  The vault on disk, class \<open>ObsidianVaultIo\<close> of \<open>client/src/main.ts\<close>: the interface that the passes call,
  over the host's vault adapter and, on the desktop, over Node's file system. What the host does is a parameter:
  the adapter, the file system, \<open>normalizePath\<close>, \<open>path.join\<close> and \<open>path.dirname\<close>. The open streams (closures
  in the source) and what a write notes in the plugin are kept beside the outside world. The settings an adapter
  reads are those at the time of the call. Messages to the log are not modelled.
\<close>

record 'w node_fs =
  fs_base :: path
  np_join :: "path \<Rightarrow> path \<Rightarrow> path"
  np_dirname :: "path \<Rightarrow> path"
  fs_mkdir :: "path \<Rightarrow> ('w, unit) outside"
  fs_open :: "path \<Rightarrow> string \<Rightarrow> ('w, nat) outside"
  fs_write :: "nat \<Rightarrow> bytes \<Rightarrow> ('w, int) outside"
  fs_sync :: "nat \<Rightarrow> ('w, unit) outside"
  fs_close :: "nat \<Rightarrow> ('w, unit) outside"
  fs_rename :: "path \<Rightarrow> path \<Rightarrow> ('w, unit) outside"
  fs_rm :: "path \<Rightarrow> ('w, unit) outside"

record 'w disk =
  dk_normalizePath :: "path \<Rightarrow> path"
  dk_now :: "'w \<Rightarrow> int"
  dk_getFiles :: "'w \<Rightarrow> (path \<times> file_stat) list"
  dk_tree :: "'w \<Rightarrow> walk_adapter"
  dk_exists :: "path \<Rightarrow> ('w, bool) outside"
  dk_readBinary :: "path \<Rightarrow> ('w, bytes) outside"
  dk_writeBinary :: "path \<Rightarrow> bytes \<Rightarrow> ('w, unit) outside"
  dk_mkdir :: "path \<Rightarrow> ('w, unit) outside"
  dk_remove :: "path \<Rightarrow> ('w, unit) outside"
  dk_trashLocal :: "(path \<Rightarrow> ('w, unit) outside) option"
  dk_fs :: "'w node_fs option"  \<comment> \<open>on the desktop\<close>

record disk_scope =
  ds_forMount :: bool
  ds_skipForeignArtefacts :: bool
  ds_activeMounts :: "mount list"
  ds_configSync :: config_sync
  ds_selfFolderId :: string
  ds_nfc :: "string \<Rightarrow> string"
  ds_treeHeight :: nat  \<comment> \<open>of the settings folder, the fuel of the walk\<close>

record stream =
  sm_fh :: nat
  sm_tmp :: path
  sm_abs :: path
  sm_path :: path

record 'w plugin_world =
  pw_host :: 'w
  pw_streams :: "stream list"
  pw_foreignDescription :: string
  pw_pendingReload :: "path list"
  pw_recentSelfWrites :: "(path \<times> int) list"

subsection \<open>Calls\<close>

definition giveO :: "'a \<Rightarrow> ('w, 'a) outside" where
  "giveO x = (\<lambda>w. (Inr x, w))"

definition thenO :: "('w, 'a) outside \<Rightarrow> ('a \<Rightarrow> ('w, 'b) outside) \<Rightarrow> ('w, 'b) outside" where
  "thenO m f = (\<lambda>w. case m w of (Inl e, w1) \<Rightarrow> (Inl e, w1) | (Inr x, w1) \<Rightarrow> f x w1)"

definition catchO :: "('w, 'a) outside \<Rightarrow> (err \<Rightarrow> ('w, 'a) outside) \<Rightarrow> ('w, 'a) outside" where
  "catchO m h = (\<lambda>w. case m w of (Inl e, w1) \<Rightarrow> h e w1 | (Inr x, w1) \<Rightarrow> (Inr x, w1))"

definition onHost :: "('w, 'a) outside \<Rightarrow> ('w plugin_world, 'a) outside" where
  "onHost f = (\<lambda>w. case f (pw_host w) of (r, h) \<Rightarrow> (r, w\<lparr>pw_host := h\<rparr>))"

definition noteW :: "('w plugin_world \<Rightarrow> 'w plugin_world) \<Rightarrow> ('w plugin_world, unit) outside" where
  "noteW f = (\<lambda>w. (Inr (), f w))"

lemmas outside_simps = giveO_def thenO_def catchO_def onHost_def noteW_def refuse_def

subsection \<open>What the plugin notes\<close>

definition SELF_WRITE_WINDOW_MS :: int where
  "SELF_WRITE_WINDOW_MS = 4000"

definition markConfigSelfWrite :: "'w disk \<Rightarrow> path \<Rightarrow> ('w plugin_world, unit) outside" where
  "markConfigSelfWrite dk p =
     noteW (\<lambda>w.
       let now = dk_now dk (pw_host w); m = AList.update p now (pw_recentSelfWrites w) in
       w\<lparr>pw_recentSelfWrites :=
         (if length m > 64 then filter (\<lambda>(_, t). \<not> now - t > SELF_WRITE_WINDOW_MS) m else m)\<rparr>)"

definition onConfigWritten :: "'w disk \<Rightarrow> path \<Rightarrow> ('w plugin_world, unit) outside" where
  "onConfigWritten dk p =
     thenO (noteW (\<lambda>w. w\<lparr>pw_pendingReload := List.insert p (pw_pendingReload w)\<rparr>)) (\<lambda>_. markConfigSelfWrite dk p)"

definition noteForeignArtefacts :: "path list \<Rightarrow> ('w plugin_world, unit) outside" where
  "noteForeignArtefacts ps = noteW (\<lambda>w. w\<lparr>pw_foreignDescription := describeForeign (summarizeForeign ps)\<rparr>)"

subsection \<open>The gate\<close>

definition isConfigPath :: "path \<Rightarrow> bool" where
  "isConfigPath p \<longleftrightarrow> p = ''.obsidian'' \<or> startsWith p ''.obsidian/''"

definition io_passes :: "disk_scope \<Rightarrow> path \<Rightarrow> bool" where
  "io_passes sc p =
     (if ds_skipForeignArtefacts sc \<and> isForeignArtefact p then False
      else if ds_forMount sc then \<not> isConfigPath p
      else \<not> primaryExcludes (ds_nfc sc) (ds_activeMounts sc) p \<and> shouldSync p (ds_configSync sc) (ds_selfFolderId sc))"

definition quoted :: "string \<Rightarrow> path \<Rightarrow> string" where
  "quoted msg p = msg @ [CHR 0x27] @ p @ [CHR 0x27]"

subsection \<open>Reading and listing\<close>

definition disk_read :: "disk_scope \<Rightarrow> 'w disk \<Rightarrow> path \<Rightarrow> ('w plugin_world, bytes) outside" where
  "disk_read sc dk p =
     (if ds_forMount sc \<and> \<not> io_passes sc p then refuse (quoted ''mount io: refusing to read a non-data (config) path: '' p)
      else case asSafeVaultPath p of
        None \<Rightarrow> refuse (quoted ''refusing to read an unsafe/traversing path: '' p)
      | Some safe \<Rightarrow> onHost (dk_readBinary dk (dk_normalizePath dk safe)))"

definition disk_exists :: "disk_scope \<Rightarrow> 'w disk \<Rightarrow> path \<Rightarrow> ('w plugin_world, bool) outside" where
  "disk_exists sc dk p =
     (if ds_forMount sc \<and> \<not> io_passes sc p then giveO False
      else case asSafeVaultPath p of
        None \<Rightarrow> giveO False
      | Some safe \<Rightarrow> onHost (dk_exists dk (dk_normalizePath dk safe)))"

fun probeMarkers :: "'w disk \<Rightarrow> path list \<Rightarrow> path list \<Rightarrow> ('w plugin_world, path list) outside" where
  "probeMarkers dk [] foreign = giveO foreign"
| "probeMarkers dk (m # ms) foreign =
     thenO (catchO (onHost (dk_exists dk m)) (\<lambda>_. giveO False)) (\<lambda>there.
     probeMarkers dk ms (if there then foreign @ [m] else foreign))"

definition putAll :: "(path \<times> file_stat) list \<Rightarrow> (path \<times> file_stat) list \<Rightarrow> (path \<times> file_stat) list" where
  "putAll m es = foldl (\<lambda>m (p, st). AList.update p st m) m es"

definition configEntries :: "disk_scope \<Rightarrow> 'w disk \<Rightarrow> 'w \<Rightarrow> (path \<times> file_stat) list" where
  "configEntries sc dk w =
     map (\<lambda>f. let e = entryOf (case wa_stat (dk_tree dk w) f of Some st \<Rightarrow> st | None \<Rightarrow> None) in (f, we_size e, we_mtime e))
       (wr_found (seqWalk (dk_tree dk w) (io_passes sc) (ds_treeHeight sc) ''.obsidian''))"

definition disk_list :: "disk_scope \<Rightarrow> 'w disk \<Rightarrow> ('w plugin_world, (path \<times> file_stat) list) outside" where
  "disk_list sc dk =
     thenO (\<lambda>w. (Inr (dk_getFiles dk (pw_host w)), w)) (\<lambda>files.
     let m = putAll [] (filter (\<lambda>(p, _). io_passes sc p) files);
         foreign = (if ds_forMount sc then [] else filter isForeignArtefact (map fst (filter (\<lambda>(p, _). \<not> io_passes sc p) files))) in
     thenO (if ds_forMount sc then giveO ()
            else thenO (probeMarkers dk FOREIGN_ROOT_MARKERS foreign) noteForeignArtefacts) (\<lambda>_.
     if \<not> ds_forMount sc \<and> cs_enabled (ds_configSync sc)
     then (\<lambda>w. (Inr (putAll m (configEntries sc dk (pw_host w))), w))
     else giveO m))"

subsection \<open>Writing and removing\<close>

text \<open>A best-effort flush of a freshly opened handle, which is closed in any case; no failure leaves it.\<close>

definition fsyncHandle :: "'w node_fs \<Rightarrow> ('w, nat) outside \<Rightarrow> ('w, unit) outside" where
  "fsyncHandle fs opener =
     (\<lambda>w. case opener w of
        (Inl e, w1) \<Rightarrow> (Inr (), w1)
      | (Inr fh, w1) \<Rightarrow> (case fs_sync fs fh w1 of (_, w2) \<Rightarrow> (case fs_close fs fh w2 of (_, w3) \<Rightarrow> (Inr (), w3))))"

definition rawFsAbs :: "'w disk \<Rightarrow> 'w node_fs \<Rightarrow> path \<Rightarrow> path" where
  "rawFsAbs dk fs safe = np_join fs (fs_base fs) (dk_normalizePath dk safe)"

definition fsyncDurable :: "'w disk \<Rightarrow> path \<Rightarrow> ('w, unit) outside" where
  "fsyncDurable dk safe =
     (case dk_fs dk of
        None \<Rightarrow> giveO ()
      | Some fs \<Rightarrow>
          let abs = rawFsAbs dk fs safe in
          thenO (fsyncHandle fs (fs_open fs abs ''r+'')) (\<lambda>_. fsyncHandle fs (fs_open fs (np_dirname fs abs) ''r'')))"

definition parentDir :: "path \<Rightarrow> path" where
  "parentDir p = joinWith ''/'' (butlast (splitOn (CHR ''/'') p))"

definition disk_write :: "disk_scope \<Rightarrow> 'w disk \<Rightarrow> path \<Rightarrow> bytes \<Rightarrow> ('w plugin_world, unit) outside" where
  "disk_write sc dk p b =
     (case asSafeVaultPath p of
        None \<Rightarrow> refuse (quoted ''refusing to write an unsafe/traversing path: '' p)
      | Some safe \<Rightarrow>
          if \<not> io_passes sc p then giveO ()
          else
            let q = dk_normalizePath dk safe; dir = parentDir q in
            thenO (if dir = [] then giveO ()
                   else thenO (onHost (dk_exists dk dir)) (\<lambda>there. if there then giveO () else onHost (dk_mkdir dk dir))) (\<lambda>_.
            thenO (onHost (dk_writeBinary dk q b)) (\<lambda>_.
            thenO (onHost (fsyncDurable dk safe)) (\<lambda>_.
            onConfigWritten dk p))))"

definition disk_remove :: "disk_scope \<Rightarrow> 'w disk \<Rightarrow> path \<Rightarrow> ('w plugin_world, unit) outside" where
  "disk_remove sc dk p =
     (case asSafeVaultPath p of
        None \<Rightarrow> refuse (quoted ''refusing to remove an unsafe/traversing path: '' p)
      | Some safe \<Rightarrow>
          if \<not> io_passes sc p then giveO ()
          else
            thenO (markConfigSelfWrite dk p) (\<lambda>_.
            let q = dk_normalizePath dk safe in
            thenO (onHost (dk_exists dk q)) (\<lambda>there.
            if \<not> there then giveO ()
            else case dk_trashLocal dk of
              Some trash \<Rightarrow> catchO (onHost (trash q)) (\<lambda>_. onHost (dk_remove dk q))
            | None \<Rightarrow> onHost (dk_remove dk q))))"

subsection \<open>The streamed writer\<close>

definition openAppend :: "disk_scope \<Rightarrow> 'w disk \<Rightarrow> 'w node_fs \<Rightarrow> path \<Rightarrow> ('w plugin_world, nat) outside" where
  "openAppend sc dk fs p =
     (if \<not> io_passes sc p then refuse (quoted ''refusing to stream-write an excluded path: '' p)
      else case asSafeVaultPath p of
        None \<Rightarrow> refuse (quoted ''refusing to write an unsafe/traversing path: '' p)
      | Some safe \<Rightarrow>
          let abs = rawFsAbs dk fs safe; tmp = abs @ ''.selfsync-part'' in
          thenO (onHost (fs_mkdir fs (np_dirname fs abs))) (\<lambda>_.
          thenO (onHost (fs_open fs tmp ''w'')) (\<lambda>fh.
          \<lambda>w. (Inr (length (pw_streams w)),
               w\<lparr>pw_streams := pw_streams w @ [\<lparr>sm_fh = fh, sm_tmp = tmp, sm_abs = abs, sm_path = p\<rparr>]\<rparr>))))"

text \<open>The loop over partial writes: \<open>rest\<close> is what is left of \<open>len\<close> bytes.\<close>

function writeAll :: "'w node_fs \<Rightarrow> nat \<Rightarrow> path \<Rightarrow> nat \<Rightarrow> bytes \<Rightarrow> ('w, unit) outside" where
  "writeAll fs fh tmp len rest =
     (if rest = [] then giveO ()
      else thenO (fs_write fs fh rest) (\<lambda>bytesWritten.
        if bytesWritten \<le> 0 then
          refuse (quoted ''short write to '' tmp @ '' ('' @ natStr (len - length rest) @ ''/'' @ natStr len @ '' bytes)'')
        else writeAll fs fh tmp len (drop (nat bytesWritten) rest)))"
  by pat_completeness auto
termination
  by (relation "measure (\<lambda>(_, _, _, _, rest). length rest)") auto

declare writeAll.simps [simp del]

text \<open>The handle of a stream is its place in the list; no other number is ever handed out.\<close>

definition withStream :: "nat \<Rightarrow> (stream \<Rightarrow> ('w plugin_world, unit) outside) \<Rightarrow> ('w plugin_world, unit) outside" where
  "withStream h f = (\<lambda>w. if h < length (pw_streams w) then f (pw_streams w ! h) w else refuse ''no such stream'' w)"

definition streamAppend :: "'w node_fs \<Rightarrow> nat \<Rightarrow> bytes \<Rightarrow> ('w plugin_world, unit) outside" where
  "streamAppend fs h b = withStream h (\<lambda>st. onHost (writeAll fs (sm_fh st) (sm_tmp st) (length b) b))"

definition streamClose :: "'w disk \<Rightarrow> 'w node_fs \<Rightarrow> nat \<Rightarrow> ('w plugin_world, unit) outside" where
  "streamClose dk fs h = withStream h (\<lambda>st.
     thenO (onHost (fs_sync fs (sm_fh st))) (\<lambda>_.
     thenO (onHost (fs_close fs (sm_fh st))) (\<lambda>_.
     thenO (onHost (fs_rename fs (sm_tmp st) (sm_abs st))) (\<lambda>_.
     thenO (onHost (fsyncHandle fs (fs_open fs (np_dirname fs (sm_abs st)) ''r''))) (\<lambda>_.
     onConfigWritten dk (sm_path st))))))"

definition streamAbort :: "'w node_fs \<Rightarrow> nat \<Rightarrow> ('w plugin_world, unit) outside" where
  "streamAbort fs h = withStream h (\<lambda>st.
     thenO (catchO (onHost (fs_close fs (sm_fh st))) (\<lambda>_. giveO ())) (\<lambda>_.
     catchO (onHost (fs_rm fs (sm_tmp st))) (\<lambda>_. giveO ())))"

definition diskIo :: "disk_scope \<Rightarrow> 'w disk \<Rightarrow> 'w plugin_world vault_io" where
  "diskIo sc dk =
     \<lparr>io_list = disk_list sc dk,
      io_read = disk_read sc dk,
      io_write = disk_write sc dk,
      io_remove = disk_remove sc dk,
      io_exists = Some (disk_exists sc dk),
      io_appendWrite = map_option (\<lambda>fs.
        \<lparr>ap_open = openAppend sc dk fs, ap_append = streamAppend fs, ap_close = streamClose dk fs, ap_abort = streamAbort fs\<rparr>)
        (dk_fs dk)\<rparr>"

subsection \<open>No call leaves the scope\<close>

text \<open>What may be looked at and what may be changed, as the host is asked for it.\<close>

definition mayRead :: "disk_scope \<Rightarrow> 'w disk \<Rightarrow> path \<Rightarrow> bool" where
  "mayRead sc dk q \<longleftrightarrow> (\<exists>p. isSafeVaultPath p \<and> (ds_forMount sc \<longrightarrow> io_passes sc p) \<and> q = dk_normalizePath dk p)"

definition mayWrite :: "disk_scope \<Rightarrow> 'w disk \<Rightarrow> path \<Rightarrow> bool" where
  "mayWrite sc dk q \<longleftrightarrow> (\<exists>p. isSafeVaultPath p \<and> io_passes sc p \<and> q = dk_normalizePath dk p)"

text \<open>Two hosts that agree on these paths, the folders they are in and their temporary files.\<close>

definition alikeFs :: "disk_scope \<Rightarrow> 'w disk \<Rightarrow> 'w node_fs \<Rightarrow> 'w node_fs \<Rightarrow> bool" where
  "alikeFs sc dk f g \<longleftrightarrow>
     fs_base f = fs_base g \<and> np_join f = np_join g \<and> np_dirname f = np_dirname g
     \<and> fs_write f = fs_write g \<and> fs_sync f = fs_sync g \<and> fs_close f = fs_close g
     \<and> (\<forall>q. mayWrite sc dk q \<longrightarrow>
          (let abs = np_join f (fs_base f) q; tmp = abs @ ''.selfsync-part''; dir = np_dirname f abs in
           fs_mkdir f dir = fs_mkdir g dir \<and> fs_open f dir ''r'' = fs_open g dir ''r'' \<and> fs_open f abs ''r+'' = fs_open g abs ''r+''
           \<and> fs_open f tmp ''w'' = fs_open g tmp ''w'' \<and> fs_rename f tmp abs = fs_rename g tmp abs \<and> fs_rm f tmp = fs_rm g tmp))"

definition alike :: "disk_scope \<Rightarrow> 'w disk \<Rightarrow> 'w disk \<Rightarrow> bool" where
  "alike sc A B \<longleftrightarrow>
     dk_normalizePath A = dk_normalizePath B \<and> dk_now A = dk_now B \<and> dk_getFiles A = dk_getFiles B \<and> dk_tree A = dk_tree B
     \<and> list_all (\<lambda>m. dk_exists A m = dk_exists B m) FOREIGN_ROOT_MARKERS
     \<and> (\<forall>q. mayRead sc A q \<longrightarrow> dk_readBinary A q = dk_readBinary B q \<and> dk_exists A q = dk_exists B q)
     \<and> (\<forall>q. mayWrite sc A q \<longrightarrow>
          dk_writeBinary A q = dk_writeBinary B q \<and> dk_remove A q = dk_remove B q
          \<and> map_option (\<lambda>t. t q) (dk_trashLocal A) = map_option (\<lambda>t. t q) (dk_trashLocal B)
          \<and> dk_exists A (parentDir q) = dk_exists B (parentDir q) \<and> dk_mkdir A (parentDir q) = dk_mkdir B (parentDir q))
     \<and> rel_option (alikeFs sc A) (dk_fs A) (dk_fs B)"

text \<open>Any sequence of calls of the interface, with anything happening on the host before each.\<close>

datatype disk_call =
    CallList | CallRead path | CallWrite path bytes | CallRemove path | CallExists path
  | CallOpen path | CallAppend nat bytes | CallClose nat | CallAbort nat

datatype disk_answer =
    AnsFiles "(path \<times> file_stat) list" | AnsBytes bytes | AnsUnit | AnsBool bool | AnsHandle nat | AnsNone

fun diskCall :: "'w plugin_world vault_io \<Rightarrow> disk_call \<Rightarrow> ('w plugin_world, disk_answer) outside" where
  "diskCall io CallList = mapResult AnsFiles (io_list io)"
| "diskCall io (CallRead p) = mapResult AnsBytes (io_read io p)"
| "diskCall io (CallWrite p b) = mapResult (\<lambda>_. AnsUnit) (io_write io p b)"
| "diskCall io (CallRemove p) = mapResult (\<lambda>_. AnsUnit) (io_remove io p)"
| "diskCall io (CallExists p) = (case io_exists io of None \<Rightarrow> giveO AnsNone | Some f \<Rightarrow> mapResult AnsBool (f p))"
| "diskCall io (CallOpen p) = (case io_appendWrite io of None \<Rightarrow> giveO AnsNone | Some ap \<Rightarrow> mapResult AnsHandle (ap_open ap p))"
| "diskCall io (CallAppend h b) =
     (case io_appendWrite io of None \<Rightarrow> giveO AnsNone | Some ap \<Rightarrow> mapResult (\<lambda>_. AnsUnit) (ap_append ap h b))"
| "diskCall io (CallClose h) = (case io_appendWrite io of None \<Rightarrow> giveO AnsNone | Some ap \<Rightarrow> mapResult (\<lambda>_. AnsUnit) (ap_close ap h))"
| "diskCall io (CallAbort h) = (case io_appendWrite io of None \<Rightarrow> giveO AnsNone | Some ap \<Rightarrow> mapResult (\<lambda>_. AnsUnit) (ap_abort ap h))"

fun diskSession ::
  "'w plugin_world vault_io \<Rightarrow> (('w \<Rightarrow> 'w) \<times> disk_call) list \<Rightarrow> 'w plugin_world \<Rightarrow> (err + disk_answer) list \<times> 'w plugin_world" where
  "diskSession io [] w = ([], w)"
| "diskSession io ((f, c) # cs) w =
     (case diskCall io c (w\<lparr>pw_host := f (pw_host w)\<rparr>) of
        (r, w1) \<Rightarrow> (case diskSession io cs w1 of (rs, w2) \<Rightarrow> (r # rs, w2)))"

text \<open>The streams that were opened are those of paths that may be written.\<close>

definition streamOk :: "disk_scope \<Rightarrow> 'w disk \<Rightarrow> stream \<Rightarrow> bool" where
  "streamOk sc dk st \<longleftrightarrow>
     (\<exists>fs q. dk_fs dk = Some fs \<and> mayWrite sc dk q \<and> sm_abs st = np_join fs (fs_base fs) q \<and> sm_tmp st = sm_abs st @ ''.selfsync-part'')"

definition streamsOk :: "disk_scope \<Rightarrow> 'w disk \<Rightarrow> 'w plugin_world \<Rightarrow> bool" where
  "streamsOk sc dk w \<longleftrightarrow> list_all (streamOk sc dk) (pw_streams w)"

text \<open>\<open>spares f\<close>: the call leaves the list of streams as it is.\<close>

definition spares :: "('w plugin_world, 'a) outside \<Rightarrow> bool" where
  "spares f \<longleftrightarrow> (\<forall>w r w'. f w = (r, w') \<longrightarrow> pw_streams w' = pw_streams w)"

named_theorems spares_rules \<open>calls that open no stream\<close>

lemma spares_basic [spares_rules]:
  "spares (giveO x)" "spares (refuse m)" "spares (onHost f)" "spares h \<Longrightarrow> spares (mapResult g h)"
  by (auto simp: spares_def outside_simps mapResult_def split: prod.splits)

lemma spares_note [spares_rules]: "(\<And>w. pw_streams (f w) = pw_streams w) \<Longrightarrow> spares (noteW f)"
  by (simp add: spares_def outside_simps)

lemma spares_read [spares_rules]: "spares (\<lambda>w. (Inr (f w), w))"
  by (simp add: spares_def)

lemma spares_then [spares_rules]: "spares m \<Longrightarrow> (\<And>x. spares (f x)) \<Longrightarrow> spares (thenO m f)"
  unfolding spares_def thenO_def by (fastforce split: prod.splits sum.splits)

lemma spares_catch [spares_rules]: "spares m \<Longrightarrow> (\<And>e. spares (h e)) \<Longrightarrow> spares (catchO m h)"
  unfolding spares_def catchO_def by (fastforce split: prod.splits sum.splits)

lemma spares_stream [spares_rules]: "(\<And>st. spares (f st)) \<Longrightarrow> spares (withStream h f)"
  by (simp add: spares_def withStream_def refuse_def)

lemma spares_noted [spares_rules]: "spares (markConfigSelfWrite dk p)" "spares (onConfigWritten dk p)" "spares (noteForeignArtefacts ps)"
  unfolding markConfigSelfWrite_def onConfigWritten_def noteForeignArtefacts_def
  by (auto intro!: spares_rules simp: Let_def)

lemma spares_probe [spares_rules]: "spares (probeMarkers dk ms ps)"
  by (induction ms arbitrary: ps) (auto intro!: spares_rules)

lemma spares_calls [spares_rules]:
  "spares (disk_list sc dk)" "spares (disk_read sc dk p)" "spares (disk_write sc dk p b)" "spares (disk_remove sc dk p)"
  "spares (disk_exists sc dk p)" "spares (streamAppend fs h b)" "spares (streamClose dk fs h)" "spares (streamAbort fs h)"
  unfolding disk_list_def disk_read_def disk_write_def disk_remove_def disk_exists_def streamAppend_def streamClose_def
    streamAbort_def Let_def
  by (auto intro!: spares_rules split: option.splits)

lemma sparesD: "spares f \<Longrightarrow> f w = (r, w') \<Longrightarrow> streamsOk sc dk w \<Longrightarrow> streamsOk sc dk w'"
  by (simp add: spares_def streamsOk_def)

lemma openAppend_ok:
  assumes "dk_fs dk = Some fs" "openAppend sc dk fs p w = (r, w')" "streamsOk sc dk w"
  shows "streamsOk sc dk w'"
proof (cases "io_passes sc p \<and> isSafeVaultPath p")
  case True
  then have may: "mayWrite sc dk (dk_normalizePath dk p)"
    by (auto simp: mayWrite_def)
  have "pw_streams w' = pw_streams w
      \<or> (\<exists>st. pw_streams w' = pw_streams w @ [st] \<and> sm_abs st = rawFsAbs dk fs p \<and> sm_tmp st = sm_abs st @ ''.selfsync-part'')"
    using assms(2) True by (auto simp: openAppend_def asSafeVaultPath_def Let_def outside_simps split: prod.splits sum.splits)
  then show ?thesis
    using assms(1,3) may by (auto simp: streamsOk_def streamOk_def rawFsAbs_def)
next
  case False
  then show ?thesis
    using assms by (auto simp: openAppend_def asSafeVaultPath_def refuse_def split: if_splits)
qed

lemma diskCall_ok:
  assumes "diskCall (diskIo sc dk) c w = (r, w')" "streamsOk sc dk w"
  shows "streamsOk sc dk w'"
proof (cases c)
  case (CallOpen p)
  with assms show ?thesis
    by (cases "dk_fs dk") (auto simp: diskIo_def giveO_def mapResult_def split: prod.splits intro: openAppend_ok)
qed (use assms in \<open>auto simp: diskIo_def intro!: spares_rules elim!: sparesD [rotated] split: option.splits\<close>)

text \<open>Each call, on two hosts that agree.\<close>

lemma alike_read:
  assumes "alike sc A B"
  shows "disk_read sc A p = disk_read sc B p" "disk_exists sc A p = disk_exists sc B p"
proof -
  have "mayRead sc A (dk_normalizePath A p)" if "isSafeVaultPath p" "\<not> (ds_forMount sc \<and> \<not> io_passes sc p)"
    using that by (auto simp: mayRead_def)
  then show "disk_read sc A p = disk_read sc B p" "disk_exists sc A p = disk_exists sc B p"
    using assms by (auto simp: disk_read_def disk_exists_def alike_def asSafeVaultPath_def)
qed

lemma alike_probe: "list_all (\<lambda>m. dk_exists A m = dk_exists B m) ms \<Longrightarrow> probeMarkers A ms ps = probeMarkers B ms ps"
  by (induction ms arbitrary: ps) auto

lemma alike_list:
  assumes "alike sc A B"
  shows "disk_list sc A = disk_list sc B"
proof -
  have "probeMarkers A FOREIGN_ROOT_MARKERS = probeMarkers B FOREIGN_ROOT_MARKERS" "configEntries sc A = configEntries sc B"
    "dk_getFiles A = dk_getFiles B"
    using assms alike_probe [of A B FOREIGN_ROOT_MARKERS] by (auto simp: alike_def configEntries_def)
  then show ?thesis
    by (simp add: disk_list_def Let_def cong: if_cong)
qed

lemma alike_noted: "alike sc A B \<Longrightarrow> markConfigSelfWrite A p = markConfigSelfWrite B p"
  "alike sc A B \<Longrightarrow> onConfigWritten A p = onConfigWritten B p"
  by (simp_all add: alike_def onConfigWritten_def markConfigSelfWrite_def)

lemma alike_durable:
  assumes "alike sc A B" "mayWrite sc A (dk_normalizePath A p)"
  shows "fsyncDurable A p = fsyncDurable B p"
proof (cases "dk_fs A")
  case None
  then show ?thesis
    using assms(1) by (auto simp: fsyncDurable_def alike_def)
next
  case (Some f)
  then obtain g where g: "dk_fs B = Some g" "alikeFs sc A f g" "dk_normalizePath A = dk_normalizePath B"
    using assms(1) by (auto simp: alike_def option_rel_Some1)
  let ?abs = "np_join f (fs_base f) (dk_normalizePath A p)"
  have "fs_open f ?abs ''r+'' = fs_open g ?abs ''r+''" "fs_open f (np_dirname f ?abs) ''r'' = fs_open g (np_dirname f ?abs) ''r''"
    "np_join f = np_join g" "fs_base f = fs_base g" "np_dirname f = np_dirname g" "fs_sync f = fs_sync g" "fs_close f = fs_close g"
    using g(2) assms(2) unfolding alikeFs_def Let_def by blast+
  then show ?thesis
    using Some g by (simp add: fsyncDurable_def rawFsAbs_def fsyncHandle_def Let_def cong: sum.case_cong)
qed

lemma alike_change:
  assumes "alike sc A B"
  shows "disk_write sc A p b = disk_write sc B p b" "disk_remove sc A p = disk_remove sc B p"
proof -
  have may: "mayWrite sc A (dk_normalizePath A p)" "mayRead sc A (dk_normalizePath A p)" if "isSafeVaultPath p" "io_passes sc p"
    using that by (auto simp: mayWrite_def mayRead_def)
  have trash: "(case dk_trashLocal A of Some t \<Rightarrow> catchO (onHost (t q)) (\<lambda>_. onHost (dk_remove A q)) | None \<Rightarrow> onHost (dk_remove A q))
      = (case dk_trashLocal B of Some t \<Rightarrow> catchO (onHost (t q)) (\<lambda>_. onHost (dk_remove B q)) | None \<Rightarrow> onHost (dk_remove B q))"
    if "mayWrite sc A q" for q
    using assms that by (cases "dk_trashLocal A"; cases "dk_trashLocal B") (fastforce simp: alike_def)+
  have norm: "dk_normalizePath A = dk_normalizePath B"
    using assms by (simp add: alike_def)
  have w: "dk_exists A (parentDir q) = dk_exists B (parentDir q)" "dk_mkdir A (parentDir q) = dk_mkdir B (parentDir q)"
    "dk_writeBinary A q = dk_writeBinary B q" "dk_remove A q = dk_remove B q" if "mayWrite sc A q" for q
    using assms that by (simp_all add: alike_def)
  have r: "dk_exists A q = dk_exists B q" if "mayRead sc A q" for q
    using assms that by (simp add: alike_def)
  show "disk_write sc A p b = disk_write sc B p b"
    using w [OF may(1)] alike_durable [OF assms may(1)] alike_noted [OF assms]
    by (simp add: disk_write_def asSafeVaultPath_def norm Let_def cong: if_cong)
  show "disk_remove sc A p = disk_remove sc B p"
    using r [OF may(2)] trash [OF may(1), unfolded norm] alike_noted [OF assms]
    by (simp add: disk_remove_def asSafeVaultPath_def norm Let_def cong: if_cong)
qed

lemma alike_open:
  assumes "alike sc A B" "dk_fs A = Some f" "dk_fs B = Some g"
  shows "openAppend sc A f p = openAppend sc B g p"
proof -
  have ag: "alikeFs sc A f g" and norm: "dk_normalizePath A = dk_normalizePath B"
    using assms by (auto simp: alike_def)
  have "fs_mkdir f (np_dirname f abs) = fs_mkdir g (np_dirname f abs)" "fs_open f (abs @ ''.selfsync-part'') ''w'' = fs_open g (abs @ ''.selfsync-part'') ''w''"
    if "mayWrite sc A q" "abs = np_join f (fs_base f) q" for q abs
    using ag that unfolding alikeFs_def Let_def by blast+
  moreover have "mayWrite sc A (dk_normalizePath A p)" if "isSafeVaultPath p" "io_passes sc p"
    using that by (auto simp: mayWrite_def)
  moreover have "np_join f = np_join g" "fs_base f = fs_base g" "np_dirname f = np_dirname g"
    using ag by (simp_all add: alikeFs_def)
  ultimately show ?thesis
    by (simp add: openAppend_def asSafeVaultPath_def rawFsAbs_def norm Let_def cong: if_cong)
qed

lemma alike_write: "fs_write f = fs_write g \<Longrightarrow> writeAll f h tmp len rest = writeAll g h tmp len rest"
proof (induction "length rest" arbitrary: rest rule: less_induct)
  case less
  have "(\<lambda>n. if n \<le> 0 then refuse msg else writeAll f h tmp len (drop (nat n) rest)) =
      (\<lambda>n. if n \<le> 0 then refuse msg else writeAll g h tmp len (drop (nat n) rest))" if "rest \<noteq> []" for msg
    using less.hyps [OF _ less.prems] that by (intro ext) simp
  then show ?case
    by (simp only: writeAll.simps [of f h tmp len rest] writeAll.simps [of g h tmp len rest] less.prems split: if_split) simp
qed

lemma alike_stream:
  assumes "alike sc A B" "dk_fs A = Some f" "dk_fs B = Some g" "streamsOk sc A w"
  shows "streamAppend f h b w = streamAppend g h b w" "streamClose A f h w = streamClose B g h w" "streamAbort f h w = streamAbort g h w"
proof -
  have ag: "alikeFs sc A f g"
    using assms by (auto simp: alike_def)
  then have eq: "np_dirname f = np_dirname g" "fs_sync f = fs_sync g" "fs_close f = fs_close g" "fs_write f = fs_write g"
    by (simp_all add: alikeFs_def)
  have st: "fs_rename f (sm_tmp st) (sm_abs st) = fs_rename g (sm_tmp st) (sm_abs st)" "fs_rm f (sm_tmp st) = fs_rm g (sm_tmp st)"
    "fs_open f (np_dirname g (sm_abs st)) ''r'' = fs_open g (np_dirname g (sm_abs st)) ''r''" if ok: "streamOk sc A st" for st
  proof -
    obtain q where q: "mayWrite sc A q" "sm_abs st = np_join f (fs_base f) q" "sm_tmp st = sm_abs st @ ''.selfsync-part''"
      using ok assms(2) by (auto simp: streamOk_def)
    show "fs_rename f (sm_tmp st) (sm_abs st) = fs_rename g (sm_tmp st) (sm_abs st)" "fs_rm f (sm_tmp st) = fs_rm g (sm_tmp st)"
      "fs_open f (np_dirname g (sm_abs st)) ''r'' = fs_open g (np_dirname g (sm_abs st)) ''r''"
      using ag q(1) unfolding q(3) unfolding q(2) eq(1) [symmetric] alikeFs_def Let_def by blast+
  qed
  have ok: "streamOk sc A (pw_streams w ! h)" if "h < length (pw_streams w)"
    using assms(4) that by (simp add: streamsOk_def list_all_length)
  note s = st [OF ok]
  have fsy: "fsyncHandle f opener = fsyncHandle g opener" for opener
    by (simp add: fsyncHandle_def eq cong: sum.case_cong)
  show "streamAppend f h b w = streamAppend g h b w"
    using alike_write [of f g] eq(4) by (simp add: streamAppend_def withStream_def)
  show "streamClose A f h w = streamClose B g h w"
    using s alike_noted [OF assms(1)] by (simp add: streamClose_def withStream_def eq fsy)
  show "streamAbort f h w = streamAbort g h w"
    using s by (simp add: streamAbort_def withStream_def eq)
qed

lemma alike_call:
  assumes "alike sc A B" "streamsOk sc A w"
  shows "diskCall (diskIo sc A) c w = diskCall (diskIo sc B) c w"
proof -
  have opt: "(\<exists>f g. dk_fs A = Some f \<and> dk_fs B = Some g) \<or> (dk_fs A = None \<and> dk_fs B = None)"
    using assms(1) by (cases "dk_fs A"; cases "dk_fs B") (auto simp: alike_def)
  show ?thesis
    using opt alike_stream [OF assms(1) _ _ assms(2)] alike_open [OF assms(1)] alike_read [OF assms(1)]
      alike_change [OF assms(1)] alike_list [OF assms(1)]
    by (cases c) (auto simp: diskIo_def mapResult_def)
qed

lemma alike_session:
  assumes "alike sc A B" "streamsOk sc A w"
  shows "diskSession (diskIo sc A) cs w = diskSession (diskIo sc B) cs w"
  using assms(2)
proof (induction cs arbitrary: w)
  case (Cons x cs)
  obtain f c where x: "x = (f, c)"
    by (cases x)
  let ?w = "w\<lparr>pw_host := f (pw_host w)\<rparr>"
  have ok: "streamsOk sc A ?w"
    using Cons.prems by (simp add: streamsOk_def)
  obtain r w1 where r: "diskCall (diskIo sc A) c ?w = (r, w1)"
    by (cases "diskCall (diskIo sc A) c ?w")
  with Cons.IH [OF diskCall_ok [OF r ok]] show ?case
    by (simp add: x alike_call [OF assms(1) ok, symmetric])
qed simp

text \<open>
  (C23) The vault on disk is confined. Take any two hosts that agree on the paths in scope: for reads, the safe paths
  (for a mount, those that are no settings); for changes, the safe paths that the selection, the mounts and the exclusion
  of other tools let through; and their parent folders and temporary files. No sequence of calls of the interface,
  with anything happening in between, can tell the two hosts apart, so no call is ever made with another path. And each of
  these paths resolves to a place inside the vault.
\<close>
theorem disk_confined:
  assumes "alike sc A B" "pw_streams w = []"
  shows "diskSession (diskIo sc A) cs w = diskSession (diskIo sc B) cs w
    \<and> (\<forall>q. mayRead sc A q \<or> mayWrite sc A q \<longrightarrow>
         (\<exists>p. q = dk_normalizePath A p \<and> (\<forall>vault. resolveSegs vault (splitOn (CHR ''/'') p) = vault @ splitOn (CHR ''/'') p)))"
proof -
  have "streamsOk sc A w"
    using assms(2) by (simp add: streamsOk_def)
  moreover have "resolveSegs vault (splitOn (CHR ''/'') p) = vault @ splitOn (CHR ''/'') p" if "isSafeVaultPath p" for p vault
    using that resolveSegs_safe by (auto simp: isSafeVaultPath_def split: if_splits)
  ultimately show ?thesis
    using alike_session [OF assms(1)] by (auto simp: mayRead_def mayWrite_def)
qed

text \<open>
  A disk in memory, whose file system writes at most two bytes at a time; and the same disk with a second one that has
  other answers for a path outside the vault.
\<close>

record mem_disk =
  md_files :: "(path \<times> bytes) list"
  md_open :: "(nat \<times> path) list"

definition mdPath :: "nat \<Rightarrow> mem_disk \<Rightarrow> path" where
  "mdPath h w = (case map_of (md_open w) h of Some p \<Rightarrow> p | None \<Rightarrow> [])"

definition mdBytes :: "path \<Rightarrow> mem_disk \<Rightarrow> bytes" where
  "mdBytes p w = (case map_of (md_files w) p of Some b \<Rightarrow> b | None \<Rightarrow> [])"

definition mdPut :: "path \<Rightarrow> bytes \<Rightarrow> mem_disk \<Rightarrow> mem_disk" where
  "mdPut p b w = w\<lparr>md_files := AList.update p b (md_files w)\<rparr>"

definition memFs :: "mem_disk node_fs" where
  "memFs =
     \<lparr>fs_base = ''/vault'', np_join = (\<lambda>a b. a @ ''/'' @ b), np_dirname = parentDir, fs_mkdir = (\<lambda>p. giveO ()),
      fs_open = (\<lambda>p mode w. (Inr (length (md_open w)), w\<lparr>md_open := (length (md_open w), p) # md_open w\<rparr>)),
      fs_write = (\<lambda>h b w. let n = min 2 (length b); p = mdPath h w in (Inr (int n), mdPut p (mdBytes p w @ take n b) w)),
      fs_sync = (\<lambda>h. giveO ()), fs_close = (\<lambda>h. giveO ()),
      fs_rename = (\<lambda>a b w. (Inr (), mdPut b (mdBytes a w) (w\<lparr>md_files := AList.delete a (md_files w)\<rparr>))),
      fs_rm = (\<lambda>p w. (Inr (), w\<lparr>md_files := AList.delete p (md_files w)\<rparr>))\<rparr>"

definition memDisk :: "mem_disk disk" where
  "memDisk =
     \<lparr>dk_normalizePath = (\<lambda>p. p), dk_now = (\<lambda>_. 0), dk_getFiles = (\<lambda>w. map (\<lambda>(p, b). (p, length b, 0)) (md_files w)),
      dk_tree = (\<lambda>_. \<lparr>wa_list = (\<lambda>_. None), wa_stat = (\<lambda>_. None)\<rparr>),
      dk_exists = (\<lambda>p w. (Inr (map_of (md_files w) p \<noteq> None), w)),
      dk_readBinary = (\<lambda>p w. (Inr (mdBytes p w), w)),
      dk_writeBinary = (\<lambda>p b w. (Inr (), mdPut p b w)), dk_mkdir = (\<lambda>p. giveO ()),
      dk_remove = (\<lambda>p w. (Inr (), w\<lparr>md_files := AList.delete p (md_files w)\<rparr>)),
      dk_trashLocal = None, dk_fs = Some memFs\<rparr>"

definition sampleScope :: disk_scope where
  "sampleScope =
     \<lparr>ds_forMount = False, ds_skipForeignArtefacts = True, ds_activeMounts = [], ds_configSync = DEFAULT_CONFIG_SYNC,
      ds_selfFolderId = ''selfsync'', ds_nfc = (\<lambda>s. s), ds_treeHeight = 1\<rparr>"

definition emptyHands :: "'w \<Rightarrow> 'w plugin_world" where
  "emptyHands w = \<lparr>pw_host = w, pw_streams = [], pw_foreignDescription = [], pw_pendingReload = [], pw_recentSelfWrites = []\<rparr>"

definition leakyDisk :: "mem_disk disk" where
  "leakyDisk = memDisk\<lparr>dk_readBinary := (\<lambda>p w. if p = ''../secret'' then (Inr [42], w) else dk_readBinary memDisk p w)\<rparr>"

lemma leaky_alike: "alike sampleScope memDisk leakyDisk"
proof -
  have "\<not> isSafeVaultPath ''../secret''"
    by code_simp
  then show ?thesis
    by (auto simp: alike_def leakyDisk_def memDisk_def mayRead_def alikeFs_def Let_def list_all_iff)
qed

theorem disk_confined_witness:
  "diskSession (diskIo sampleScope leakyDisk) [(id, CallRead ''../secret'')] (emptyHands \<lparr>md_files = [], md_open = []\<rparr>)
   = diskSession (diskIo sampleScope memDisk) [(id, CallRead ''../secret'')] (emptyHands \<lparr>md_files = [], md_open = []\<rparr>)"
  by (rule conjunct1 [OF disk_confined [OF leaky_alike], symmetric]) (simp add: emptyHands_def)

subsection \<open>A stream is complete or fails\<close>

lemma writeAll_complete:
  assumes law: "\<And>b w n w'. fs_write fs h b w = (Inr n, w') \<Longrightarrow> 0 < n \<Longrightarrow> got w' = got w @ take (nat n) b"
    and "writeAll fs h tmp len rest w = (Inr (), w')"
  shows "got w' = got w @ rest"
  using assms(2)
proof (induction "length rest" arbitrary: rest w rule: less_induct)
  case less
  show ?case
  proof (cases "rest = []")
    case True
    with less.prems show ?thesis
      by (simp add: writeAll.simps [of fs h tmp len "[]"] giveO_def)
  next
    case False
    then obtain n w1 where n: "fs_write fs h rest w = (Inr n, w1)" "0 < n" "writeAll fs h tmp len (drop (nat n) rest) w1 = (Inr (), w')"
      using less.prems by (auto simp: writeAll.simps [of fs h tmp len rest] thenO_def refuse_def split: prod.splits sum.splits if_splits)
    then have "got w' = got w1 @ drop (nat n) rest"
      using less.hyps [OF _ n(3)] False by simp
    then show ?thesis
      using law [OF n(1,2)] by simp
  qed
qed

text \<open>
  (C27) A streamed file is whole or not there. On a file system whose writes may be partial but report truthfully how many
  bytes they took, an append that returns has put down exactly the bytes it was given, in order. Closing renames
  the temporary file into place after flushing it, and when it throws, then because the flush, the close or the
  rename itself failed, at that very moment: once the file is in place, nothing throws any more. And a stream is
  only ever opened for a path in scope, beside its destination, from which its temporary name differs.
\<close>
theorem stream_complete:
  assumes law: "\<And>h b w n w'. fs_write fs h b w = (Inr n, w') \<Longrightarrow> 0 < n \<Longrightarrow> got h w' = got h w @ take (nat n) b"
    and st: "h < length (pw_streams w)" "st = pw_streams w ! h"
  shows "(streamAppend fs h b w = (Inr (), w') \<longrightarrow> got (sm_fh st) (pw_host w') = got (sm_fh st) (pw_host w) @ b)
    \<and> (case streamClose dk fs h w of
         (Inr _, w1) \<Rightarrow> (\<exists>h1 h2 h3. fs_sync fs (sm_fh st) (pw_host w) = (Inr (), h1) \<and> fs_close fs (sm_fh st) h1 = (Inr (), h2)
            \<and> fs_rename fs (sm_tmp st) (sm_abs st) h2 = (Inr (), h3))
       | (Inl e, w1) \<Rightarrow> fs_sync fs (sm_fh st) (pw_host w) = (Inl e, pw_host w1)
           \<or> (\<exists>h1. fs_sync fs (sm_fh st) (pw_host w) = (Inr (), h1)
                \<and> (fs_close fs (sm_fh st) h1 = (Inl e, pw_host w1)
                   \<or> (\<exists>h2. fs_close fs (sm_fh st) h1 = (Inr (), h2) \<and> fs_rename fs (sm_tmp st) (sm_abs st) h2 = (Inl e, pw_host w1)))))
    \<and> (openAppend sc dk fs p w = (Inr k, w') \<longrightarrow>
         io_passes sc p \<and> isSafeVaultPath p \<and> k = length (pw_streams w)
         \<and> (let s = pw_streams w' ! k in sm_path s = p \<and> sm_abs s = rawFsAbs dk fs p \<and> sm_tmp s = sm_abs s @ ''.selfsync-part''))"
proof (intro conjI)
  have wr: "writeAll fs k tmp len x v = (Inr (), v') \<Longrightarrow> got k v' = got k v @ x" for k tmp len x v v'
    by (rule writeAll_complete [OF law])
  show "streamAppend fs h b w = (Inr (), w') \<longrightarrow> got (sm_fh st) (pw_host w') = got (sm_fh st) (pw_host w) @ b"
    using st wr by (auto simp: streamAppend_def withStream_def onHost_def split: prod.splits)
  show "openAppend sc dk fs p w = (Inr k, w') \<longrightarrow>
         io_passes sc p \<and> isSafeVaultPath p \<and> k = length (pw_streams w)
         \<and> (let s = pw_streams w' ! k in sm_path s = p \<and> sm_abs s = rawFsAbs dk fs p \<and> sm_tmp s = sm_abs s @ ''.selfsync-part'')"
    by (auto simp: openAppend_def asSafeVaultPath_def outside_simps Let_def split: prod.splits sum.splits if_splits)
  define rest where "rest = thenO (onHost (fsyncHandle fs (fs_open fs (np_dirname fs (sm_abs st)) ''r''))) (\<lambda>_ :: unit. onConfigWritten dk (sm_path st))"
  obtain r1 h1 r2 h2 r3 h3 where r: "fs_sync fs (sm_fh st) (pw_host w) = (r1, h1)" "fs_close fs (sm_fh st) h1 = (r2, h2)"
      "fs_rename fs (sm_tmp st) (sm_abs st) h2 = (r3, h3)"
    by (metis surj_pair)
  have "\<exists>w2. rest w1 = (Inr (), w2)" for w1
    by (auto simp: rest_def outside_simps fsyncHandle_def onConfigWritten_def markConfigSelfWrite_def split: prod.splits sum.splits)
  then obtain w2 where w2: "rest (w\<lparr>pw_host := h3\<rparr>) = (Inr (), w2)"
    by blast
  have "streamClose dk fs h w =
      (case r1 of Inl e \<Rightarrow> (Inl e, w\<lparr>pw_host := h1\<rparr>) | Inr _ \<Rightarrow>
       (case r2 of Inl e \<Rightarrow> (Inl e, w\<lparr>pw_host := h2\<rparr>) | Inr _ \<Rightarrow>
       (case r3 of Inl e \<Rightarrow> (Inl e, w\<lparr>pw_host := h3\<rparr>) | Inr _ \<Rightarrow> (Inr (), w2))))"
    unfolding streamClose_def withStream_def st(2) [symmetric] if_P [OF st(1)] rest_def [symmetric]
    using r w2 by (simp add: thenO_def onHost_def split: sum.split)
  then show "case streamClose dk fs h w of
         (Inr _, w1) \<Rightarrow> (\<exists>h1 h2 h3. fs_sync fs (sm_fh st) (pw_host w) = (Inr (), h1) \<and> fs_close fs (sm_fh st) h1 = (Inr (), h2)
            \<and> fs_rename fs (sm_tmp st) (sm_abs st) h2 = (Inr (), h3))
       | (Inl e, w1) \<Rightarrow> fs_sync fs (sm_fh st) (pw_host w) = (Inl e, pw_host w1)
           \<or> (\<exists>h1. fs_sync fs (sm_fh st) (pw_host w) = (Inr (), h1)
                \<and> (fs_close fs (sm_fh st) h1 = (Inl e, pw_host w1)
                   \<or> (\<exists>h2. fs_close fs (sm_fh st) h1 = (Inr (), h2) \<and> fs_rename fs (sm_tmp st) (sm_abs st) h2 = (Inl e, pw_host w1))))"
    using r by (auto split: sum.split)
qed

definition oneStream :: "mem_disk plugin_world" where
  "oneStream = (emptyHands \<lparr>md_files = [(''/vault/a.selfsync-part'', [])], md_open = [(0, ''/vault/a.selfsync-part'')]\<rparr>)
     \<lparr>pw_streams := [\<lparr>sm_fh = 0, sm_tmp = ''/vault/a.selfsync-part'', sm_abs = ''/vault/a'', sm_path = ''a''\<rparr>]\<rparr>"

lemma mem_write_law:
  "fs_write memFs h b w = (Inr n, w') \<Longrightarrow> 0 < n \<Longrightarrow> mdBytes (mdPath h w') w' = mdBytes (mdPath h w) w @ take (nat n) b"
  by (auto simp: memFs_def Let_def mdPut_def mdBytes_def mdPath_def update_conv')

theorem stream_complete_witness:
  "\<exists>w'. streamAppend memFs 0 [1, 2, 3] oneStream = (Inr (), w') \<and> mdBytes ''/vault/a.selfsync-part'' (pw_host w') = [1, 2, 3]"
proof -
  have run: "\<exists>w'. streamAppend memFs 0 [1, 2, 3] oneStream = (Inr (), w') \<and> mdPath 0 (pw_host w') = ''/vault/a.selfsync-part''"
    by (simp add: oneStream_def emptyHands_def streamAppend_def withStream_def onHost_def writeAll.simps memFs_def thenO_def giveO_def
        mdPath_def mdBytes_def mdPut_def Let_def)
  then obtain w' where w': "streamAppend memFs 0 [1, 2, 3] oneStream = (Inr (), w')" "mdPath 0 (pw_host w') = ''/vault/a.selfsync-part''"
    by blast
  have "mdBytes (mdPath 0 (pw_host w')) (pw_host w') = mdBytes (mdPath 0 (pw_host oneStream)) (pw_host oneStream) @ [1, 2, 3]"
    using stream_complete [where fs = memFs and got = "\<lambda>h w. mdBytes (mdPath h w) w" and w = oneStream and h = 0 and w' = w' and b = "[1, 2, 3]",
        OF mem_write_law _ refl] w'(1)
    by (auto simp: oneStream_def emptyHands_def)
  then show ?thesis
    using w' by (auto simp: oneStream_def emptyHands_def mdBytes_def mdPath_def)
qed

subsection \<open>The scope of the primary vault\<close>

text \<open>
  What is out of scope is dropped without an error by a write and by a removal; the passes never get there, because they
  ask \<open>inPrimaryScope\<close> first, which decides the same. Its memo remembers one path and compares a signature of the
  settings.
\<close>

lemma out_of_scope_dropped:
  assumes "isSafeVaultPath p" "\<not> io_passes sc p"
  shows "disk_write sc dk p b w = (Inr (), w)" "disk_remove sc dk p w = (Inr (), w)"
  using assms by (simp_all add: disk_write_def disk_remove_def asSafeVaultPath_def giveO_def)

lemma putAll_keys: "set (map fst (putAll m es)) = set (map fst m) \<union> set (map fst es)"
  by (induction es arbitrary: m) (simp_all add: putAll_def dom_update split_beta)

lemma seqWalk_passes: "set (wr_found (seqWalk a passes n d)) \<subseteq> {f. passes f}"
proof (induction n arbitrary: d)
  case (Suc n)
  have all: "set (wr_found (joinAll rs)) \<subseteq> X" if "\<And>r. r \<in> set rs \<Longrightarrow> set (wr_found r) \<subseteq> X" for rs X
    using that by (induction rs) (auto simp: joinAll_def join_def noResult_def)
  have "set (wr_found (joinAll (map (statResult a) (filter passes files)))) \<subseteq> {f. passes f}" for files
    by (rule all) (auto simp: statResult_def noResult_def split: if_splits)
  moreover have "set (wr_found (joinAll (map (seqWalk a passes n) folders))) \<subseteq> {f. passes f}" for folders
    by (rule all) (use Suc in auto)
  ultimately show ?case
    by (simp add: seqWalk.simps join_def noResult_def split: option.splits)
qed (simp add: seqWalk.simps noResult_def)

lemma disk_list_in_scope:
  assumes "disk_list sc dk w = (Inr files, w')" "(p, st) \<in> set files"
  shows "io_passes sc p"
proof -
  have cfg: "fst ` set (configEntries sc dk x) \<subseteq> {f. io_passes sc f}" for x
    using seqWalk_passes [of "dk_tree dk x" "io_passes sc" "ds_treeHeight sc" "''.obsidian''"]
    by (auto simp: configEntries_def Let_def)
  have listed: "set (map fst (putAll [] (filter (\<lambda>(p, _). io_passes sc p) fs))) \<subseteq> {f. io_passes sc f}" for fs
    unfolding putAll_keys by auto
  have "\<exists>fs x. files = putAll [] (filter (\<lambda>(p, _). io_passes sc p) fs)
      \<or> files = putAll (putAll [] (filter (\<lambda>(p, _). io_passes sc p) fs)) (configEntries sc dk x)"
    using assms(1) unfolding disk_list_def Let_def thenO_def giveO_def
    by (auto split: prod.splits sum.splits if_splits)
  then have "set (map fst files) \<subseteq> {f. io_passes sc f}"
    using listed cfg by (elim exE disjE) (simp_all add: putAll_keys [unfolded set_map])
  then show ?thesis
    using assms(2) by force
qed

definition inPrimaryScopeUncached :: "disk_scope \<Rightarrow> path \<Rightarrow> bool" where
  "inPrimaryScopeUncached sc p \<longleftrightarrow>
     \<not> primaryExcludes (ds_nfc sc) (ds_activeMounts sc) p \<and> shouldSync p (ds_configSync sc) (ds_selfFolderId sc)
     \<and> \<not> (ds_skipForeignArtefacts sc \<and> isForeignArtefact p)"

record scope_memo =
  sm_for :: path
  sm_sig :: string
  sm_in :: bool

definition boolStr :: "bool \<Rightarrow> string" where
  "boolStr b = (if b then ''true'' else ''false'')"

definition scopeSig :: "disk_scope \<Rightarrow> string list \<Rightarrow> nat \<Rightarrow> string" where
  "scopeSig sc excludedFolders mountCount =
     boolStr (cs_enabled (ds_configSync sc)) @ ''|'' @ boolStr (ds_skipForeignArtefacts sc) @ ''|''
     @ joinWith '','' excludedFolders @ ''|'' @ natStr mountCount"

definition inPrimaryScope :: "disk_scope \<Rightarrow> string list \<Rightarrow> nat \<Rightarrow> path \<Rightarrow> scope_memo option \<Rightarrow> bool \<times> scope_memo option" where
  "inPrimaryScope sc excludedFolders mountCount p memo =
     (let sig = scopeSig sc excludedFolders mountCount;
          verdict = inPrimaryScopeUncached sc p;
          fresh = (verdict, Some \<lparr>sm_for = p, sm_sig = sig, sm_in = verdict\<rparr>) in
      case memo of
        Some m \<Rightarrow> if sm_for m = p \<and> sm_sig m = sig then (sm_in m, memo) else fresh
      | None \<Rightarrow> fresh)"

lemma scope_agrees: "\<not> ds_forMount sc \<Longrightarrow> inPrimaryScopeUncached sc p \<longleftrightarrow> io_passes sc p"
  by (auto simp: inPrimaryScopeUncached_def io_passes_def)

text \<open>
  The signature has the master switch of the settings but not its categories, and the number of mounts but not the mounts:
  after the core settings were deselected, the memo still answers that \<open>app.json\<close> is in scope.
\<close>

lemma scope_memo_stale:
  "let on = sampleScope\<lparr>ds_configSync := DEFAULT_CONFIG_SYNC\<lparr>cs_enabled := True, cs_core := True\<rparr>\<rparr>;
       off = sampleScope\<lparr>ds_configSync := DEFAULT_CONFIG_SYNC\<lparr>cs_enabled := True, cs_core := False\<rparr>\<rparr> in
   fst (inPrimaryScope off [] 0 ''.obsidian/app.json'' (snd (inPrimaryScope on [] 0 ''.obsidian/app.json'' None)))
   \<and> \<not> io_passes off ''.obsidian/app.json''"
  by code_simp

end
