(* ===== verification/ConflictResolve.thy ===== *)
theory ConflictResolve
  imports VaultDisk Preserve
begin

text \<open>
  The resolution of note conflicts, \<open>client/src/main.ts\<close>: the conflicts are derived from the conflict copies in the vault,
  the user keeps one version or both, and copies that say the same as their note are swept. The modal is open
  while passes run, so anything may happen between two calls. The workers of the sweep are run one after the other.
  Refreshing the user interface is not modelled; queueing a path for the engine and opening a note are callbacks.
\<close>

definition listNoteConflicts :: "path list \<Rightarrow> (path \<times> path) list" where
  "listNoteConflicts paths = filter (\<lambda>(_, original). original \<in> set paths) (deriveNoteConflicts paths)"

subsection \<open>Is the note still the one that was shown?\<close>

datatype preview_verdict = PreviewMatch | PreviewChanged | PreviewUnreadable

definition sameContent :: "('w, 'x) deps_scheme \<Rightarrow> path \<Rightarrow> utext \<Rightarrow> utext \<Rightarrow> bool" where
  "sameContent d p a b \<longleftrightarrow>
     normalizedContent (h_nfcText (c_host d)) a (ignorePatternsFor d p) = normalizedContent (h_nfcText (c_host d)) b (ignorePatternsFor d p)"

definition previewStillCurrent :: "('w, 'x) deps_scheme \<Rightarrow> path \<Rightarrow> utext \<Rightarrow> ('w, preview_verdict) prog" where
  "previewStillCurrent d original previewedOther =
     andThen (readOrNull d original) (\<lambda>bytes.
     ret (case bytes of
            None \<Rightarrow> PreviewUnreadable
          | Some b \<Rightarrow> if sameContent d original (h_decodeLossy (c_host d) b) previewedOther then PreviewMatch else PreviewChanged))"

definition checkPreview :: "('w, 'x) deps_scheme \<Rightarrow> path \<Rightarrow> utext option \<Rightarrow> ('w, preview_verdict) prog" where
  "checkPreview d original previewedOther =
     (case previewedOther of None \<Rightarrow> ret PreviewMatch | Some t \<Rightarrow> previewStillCurrent d original t)"

subsection \<open>The resolution\<close>

datatype keep_choice = KeepMine | KeepTheirs | ByHand | KeepBothVersions

definition existsOr :: "('w, 'x) deps_scheme \<Rightarrow> path \<Rightarrow> bool \<Rightarrow> ('w, bool) prog" where
  "existsOr d p dflt = (case io_exists (c_io d) of None \<Rightarrow> ret dflt | Some f \<Rightarrow> outside (f p))"

definition readNow :: "('w, 'x) deps_scheme \<Rightarrow> path \<Rightarrow> ('w, bytes) prog" where
  "readNow d p = andThen (outside (io_read (c_io d) p)) (\<lambda>b. andThen (record_event (GotRead p (Some b))) (\<lambda>_. ret b))"

definition writeNow :: "('w, 'x) deps_scheme \<Rightarrow> path \<Rightarrow> bytes \<Rightarrow> ('w, unit) prog" where
  "writeNow d p b =
     andThen (perform (IoWrite p b) (io_write (c_io d) p b)) (\<lambda>_. callback (OnEnqueue p (length b)))"

text \<open>The loop over the names, with the number of tries that are left of 99; the last name is taken untested.\<close>

fun freeName :: "('w, 'x) deps_scheme \<Rightarrow> path \<Rightarrow> path \<Rightarrow> nat \<Rightarrow> ('w, path) prog" where
  "freeName d original kept 0 = andThen (existsOr d kept False) (\<lambda>_. ret kept)"
| "freeName d original kept (Suc left) =
     andThen (existsOr d kept False) (\<lambda>taken.
     if taken then
       andThen (getS (\<lambda>s. keptBothName original (c_nowUtc d (world s)) (99 - left))) (\<lambda>another. freeName d original another left)
     else ret kept)"

definition removeCopy :: "('w, 'x) deps_scheme \<Rightarrow> path \<Rightarrow> ('w, bool) prog" where
  "removeCopy d copy =
     andThen (callback (OnResolveStep RemovingCopy)) (\<lambda>_.
     andThen (perform (IoRemove copy) (io_remove (c_io d) copy)) (\<lambda>_.
     andThen (callback (OnEnqueue copy 0)) (\<lambda>_. ret True)))"

definition keepBoth :: "('w, 'x) deps_scheme \<Rightarrow> path \<Rightarrow> path \<Rightarrow> ('w, bool) prog" where
  "keepBoth d copy original =
     andThen (callback (OnResolveStep KeepingBoth)) (\<lambda>_.
     andThen (existsOr d copy True) (\<lambda>there.
     if \<not> there then ret True
     else
       andThen (getS (\<lambda>s. keptBothName original (c_nowUtc d (world s)) 0)) (\<lambda>first.
       andThen (freeName d original first 99) (\<lambda>kept.
       andThen (readNow d copy) (\<lambda>bytes.
       andThen (writeNow d kept bytes) (\<lambda>_. removeCopy d copy))))))"

definition keepMine :: "('w, 'x) deps_scheme \<Rightarrow> path \<Rightarrow> path \<Rightarrow> utext option \<Rightarrow> ('w, bool) prog" where
  "keepMine d copy original previewedOther =
     andThen (callback (OnResolveStep Checking)) (\<lambda>_.
     andThen (checkPreview d original previewedOther) (\<lambda>pre1.
     if pre1 \<noteq> PreviewMatch then andThen (callback (OnPreviewStale original (pre1 = PreviewUnreadable))) (\<lambda>_. ret False)
     else
       andThen (existsOr d copy True) (\<lambda>there.
       if \<not> there then ret True
       else
         andThen (callback (OnResolveStep Reading)) (\<lambda>_.
         andThen (readNow d copy) (\<lambda>bytes.
         andThen (checkPreview d original previewedOther) (\<lambda>pre2.
         if pre2 \<noteq> PreviewMatch then andThen (callback (OnPreviewStale original (pre2 = PreviewUnreadable))) (\<lambda>_. ret False)
         else
           andThen (callback (OnResolveStep Writing)) (\<lambda>_.
           andThen (writeNow d original bytes) (\<lambda>_. removeCopy d copy))))))))"

definition resolveNoteConflict ::
  "('w, 'x) deps_scheme \<Rightarrow> path \<Rightarrow> path \<Rightarrow> keep_choice \<Rightarrow> utext option \<Rightarrow> ('w, bool) prog" where
  "resolveNoteConflict d copy original choice previewedOther =
     (case choice of
        ByHand \<Rightarrow> andThen (callback (OnOpened original)) (\<lambda>_. andThen (callback (OnOpened copy)) (\<lambda>_. ret True))
      | KeepBothVersions \<Rightarrow> keepBoth d copy original
      | KeepMine \<Rightarrow> keepMine d copy original previewedOther
      | KeepTheirs \<Rightarrow> removeCopy d copy)"

subsection \<open>The sweep\<close>

definition dismissOne :: "('w, 'x) deps_scheme \<Rightarrow> path \<Rightarrow> path \<Rightarrow> ('w, bool) prog" where
  "dismissOne d copy original =
     andThen (readOrNull d copy) (\<lambda>mineB.
     andThen (readOrNull d original) (\<lambda>theirsB.
     case (mineB, theirsB) of
       (Some mb, Some tb) \<Rightarrow>
         (case (h_decode (c_host d) mb, h_decode (c_host d) tb) of
            (Some mineT, Some theirsT) \<Rightarrow>
              if \<not> sameContent d original mineT theirsT then ret False
              else if ignoredTimestampKeysPresent mineT (ignorePatternsFor d original)
                \<noteq> ignoredTimestampKeysPresent theirsT (ignorePatternsFor d original) then ret False
              else resolveNoteConflict d copy original KeepTheirs (Some theirsT)
          | _ \<Rightarrow> ret False)
     | _ \<Rightarrow> ret False))"

fun sweep :: "('w, 'x) deps_scheme \<Rightarrow> ('w \<Rightarrow> bool) \<Rightarrow> (path \<times> path) list \<Rightarrow> nat \<Rightarrow> ('w, nat) prog" where
  "sweep d shouldContinue [] dismissed = ret dismissed"
| "sweep d shouldContinue ((copy, original) # rest) dismissed =
     andThen (getS (\<lambda>s. shouldContinue (world s))) (\<lambda>go.
     if \<not> go then ret dismissed
     else
       andThen (tryCatch (dismissOne d copy original) (\<lambda>_. ret False)) (\<lambda>done.
       sweep d shouldContinue rest (if done then dismissed + 1 else dismissed)))"

definition dismissCosmeticConflicts :: "('w, 'x) deps_scheme \<Rightarrow> ('w \<Rightarrow> path list) \<Rightarrow> ('w \<Rightarrow> bool) \<Rightarrow> ('w, nat) prog" where
  "dismissCosmeticConflicts d files shouldContinue =
     andThen (getS (\<lambda>s. filter (\<lambda>(copy, original). isTextExt copy \<and> isTextExt original) (listNoteConflicts (files (world s)))))
       (\<lambda>candidates. sweep d shouldContinue candidates 0)"

subsection \<open>Nothing is overwritten or removed unseen\<close>

definition keptName :: "path \<Rightarrow> path \<Rightarrow> bool" where
  "keptName original q \<longleftrightarrow> (\<exists>w n. n < 100 \<and> q = keptBothName original w n)"

definition previewHolds :: "('w, 'x) deps_scheme \<Rightarrow> path \<Rightarrow> utext option \<Rightarrow> event list \<Rightarrow> bool" where
  "previewHolds d original pv es =
     (case pv of
        None \<Rightarrow> True
      | Some t \<Rightarrow> \<exists>x. latestRead original es = Some (Some x) \<and> sameContent d original (h_decodeLossy (c_host d) x) t)"

text \<open>The copy's bytes, as the last read found them, were written to \<open>q\<close> just before.\<close>

definition movedTo :: "path \<Rightarrow> path \<Rightarrow> event list \<Rightarrow> bool" where
  "movedTo copy q es \<longleftrightarrow>
     (\<exists>b rest. es = Callback (OnResolveStep RemovingCopy) # Callback (OnEnqueue q (length b)) # IoWrite q b # rest
        \<and> latestRead copy rest = Some (Some b))"

fun okResolve :: "('w, 'x) deps_scheme \<Rightarrow> path \<Rightarrow> path \<Rightarrow> keep_choice \<Rightarrow> utext option \<Rightarrow> event \<Rightarrow> event list \<Rightarrow> bool" where
  "okResolve d copy original choice pv (IoWrite q b) es =
     (latestRead copy es = Some (Some b)
      \<and> (case choice of
           KeepMine \<Rightarrow> q = original \<and> previewHolds d original pv es
         | KeepBothVersions \<Rightarrow> keptName original q
         | _ \<Rightarrow> False))"
| "okResolve d copy original choice pv (IoRemove q) es =
     (q = copy
      \<and> (case choice of
           KeepTheirs \<Rightarrow> True
         | ByHand \<Rightarrow> False
         | KeepMine \<Rightarrow> movedTo copy original es
         | KeepBothVersions \<Rightarrow> \<exists>k. keptName original k \<and> movedTo copy k es))"
| "okResolve d copy original choice pv (Callback c) es = True"
| "okResolve d copy original choice pv (GotRead p r) es = True"
| "okResolve d copy original choice pv _ es = False"

fun looking :: "event \<Rightarrow> bool" where
  "looking (Callback c) = True"
| "looking (GotRead p r) = True"
| "looking _ = False"

lemma looking_ok: "looking e \<Longrightarrow> okResolve d copy original choice pv e es"
  by (cases e) auto

lemma keeps_looking: "emits looking m \<Longrightarrow> keeps (\<lambda>s. lawfulSince l (okResolve d copy original choice pv) (log s)) m"
  by (rule keeps_stable) (auto elim!: emits_mono intro!: stable_lawfulSince looking_ok)

lemma emits_looking [emits_rules]:
  "emits looking (existsOr d p b)" "emits looking (readOrNull d p)" "emits looking (readNow d p)"
  "emits looking (checkPreview d p pv)" "emits looking (freeName d p k n)"
proof -
  show ex: "emits looking (existsOr d p b)" for p b
    unfolding existsOr_def by (intro emits_rules)
  show rd: "emits looking (readOrNull d p)"
    unfolding readOrNull_def by (intro emits_rules) simp
  show "emits looking (readNow d p)"
    unfolding readNow_def by (intro emits_rules) simp
  show "emits looking (checkPreview d p pv)"
    unfolding checkPreview_def previewStillCurrent_def by (intro emits_rules rd)
  show "emits looking (freeName d p k n)"
    by (induction n arbitrary: k) (auto intro!: emits_rules ex)
qed

lemma previewHolds_cb: "previewHolds d original pv (Callback c # es) = previewHolds d original pv es"
  by (simp add: previewHolds_def split: option.split)

text \<open>What the steps before a change have established.\<close>

lemma readNow_run: "readNow d p s = (Inr b, s') \<Longrightarrow> log s' = GotRead p (Some b) # log s"
  by (auto simp: readNow_def prog_simps split: prod.splits sum.splits)

lemma checkPreview_run:
  assumes "checkPreview d original pv s = (Inr PreviewMatch, s')"
  shows "previewHolds d original pv (log s') \<and> (copy \<noteq> original \<longrightarrow> latestRead copy (log s') = latestRead copy (log s))"
  using assms
  by (auto simp: checkPreview_def previewStillCurrent_def previewHolds_def readOrNull_def prog_simps
      split: option.splits prod.splits sum.splits if_splits)

lemma freeName_run: "n < 100 \<Longrightarrow> keptName original k \<Longrightarrow> freeName d original k n s = (Inr q, s') \<Longrightarrow> keptName original q"
proof (induction n arbitrary: k s)
  case (Suc n)
  have "99 - n < 100"
    by simp
  then have "keptName original (keptBothName original (c_nowUtc d w) (99 - n))" for w
    unfolding keptName_def by blast
  with Suc show ?case
    by (auto simp: andThen_Inr getS_def ret_def split: if_splits)
qed (auto simp: andThen_Inr ret_def)

lemma writeNow_run: "writeNow d p b s = (Inr u, s') \<Longrightarrow> log s' = Callback (OnEnqueue p (length b)) # IoWrite p b # log s"
  by (auto simp: writeNow_def andThen_Inr record_event_def dest!: perform_Inr)

text \<open>
  The end of a resolution: from a state in which writing the copy's bytes to \<open>q\<close> is allowed, the write and the
  removal are.
\<close>

lemma keepsFrom_move:
  assumes "choice = KeepMine \<and> q = original \<or> choice = KeepBothVersions \<and> keptName original q"
  shows "keepsFrom (\<lambda>s. latestRead copy (log s) = Some (Some b) \<and> (choice = KeepMine \<longrightarrow> previewHolds d original pv (log s)))
    (\<lambda>s. lawfulSince l (okResolve d copy original choice pv) (log s)) (andThen (writeNow d q b) (\<lambda>_. removeCopy d copy))"
    (is "keepsFrom ?A ?J _")
proof (rule keepsFrom_andThen [where A = "\<lambda>_ s. movedTo copy q (Callback (OnResolveStep RemovingCopy) # log s)"])
  have cb: "keeps ?J (callback c)" for c
    by (rule keeps_looking) (intro emits_rules, simp)
  show "keepsFrom ?A ?J (writeNow d q b)"
    unfolding writeNow_def using assms
    by (intro keepsFrom_then cb keepsFrom_perform) (auto intro!: lawfulSince_Cons)
  show "movedTo copy q (Callback (OnResolveStep RemovingCopy) # log s')" if "?A s" "writeNow d q b s = (Inr x, s')" for s x s'
    using that(1) writeNow_run [OF that(2)] by (auto simp: movedTo_def)
  have rm: "keepsFrom (\<lambda>s. movedTo copy q (log s)) ?J (andThen (perform (IoRemove copy) f) (\<lambda>_. andThen (callback c) (\<lambda>_. ret True)))" for f c
    using assms by (intro keepsFrom_then keeps_rules cb keepsFrom_perform) (auto intro!: lawfulSince_Cons)
  show "keepsFrom (\<lambda>s. movedTo copy q (Callback (OnResolveStep RemovingCopy) # log s)) ?J (removeCopy d copy)"
    unfolding removeCopy_def
    by (rule keepsFrom_andThen [where A = "\<lambda>_ s. movedTo copy q (log s)", OF keepsFrom_keeps [OF cb] _ rm])
      (auto simp: record_event_def)
qed

lemma keepsFrom_keepMine:
  assumes "copy \<noteq> original"
  shows "keepsFrom (\<lambda>_. True) (\<lambda>s. lawfulSince l (okResolve d copy original KeepMine pv) (log s)) (keepMine d copy original pv)"
    (is "keepsFrom _ ?J _")
proof -
  have look: "emits looking m \<Longrightarrow> keepsFrom B ?J m" for m :: "('a, 'c) prog" and B
    by (intro keepsFrom_keeps keeps_looking)
  have cb: "emits looking (callback c)" for c
    by (intro emits_rules) simp
  let ?read = "\<lambda>b s. latestRead copy (log s) = Some (Some b)"
  let ?fin = "\<lambda>b. andThen (callback (OnResolveStep Writing)) (\<lambda>_. andThen (writeNow d original b) (\<lambda>_. removeCopy d copy))"
  have fin: "keepsFrom (\<lambda>s. ?read b s \<and> previewHolds d original pv (log s)) ?J (?fin b)" for b
  proof (rule keepsFrom_andThen [where A = "\<lambda>_ s. ?read b s \<and> previewHolds d original pv (log s)", OF look [OF cb]])
    show "keepsFrom (\<lambda>s. ?read b s \<and> previewHolds d original pv (log s)) ?J (andThen (writeNow d original b) (\<lambda>_. removeCopy d copy))"
      by (rule keepsFrom_mono [OF keepsFrom_move]) auto
  qed (auto simp: record_event_def previewHolds_cb)
  have stale: "keepsFrom B ?J (andThen (callback c) (\<lambda>_. ret False))" for B c
    by (intro look emits_rules) simp
  have check2: "keepsFrom (?read b) ?J (andThen (checkPreview d original pv) (\<lambda>pre2.
      if pre2 \<noteq> PreviewMatch then andThen (callback (OnPreviewStale original (pre2 = PreviewUnreadable))) (\<lambda>_. ret False) else ?fin b))" for b
    by (rule keepsFrom_andThen [where A = "\<lambda>v s. v = PreviewMatch \<longrightarrow> ?read b s \<and> previewHolds d original pv (log s)"])
      (use assms in \<open>auto intro!: look emits_looking keepsFrom_if stale keepsFrom_mono [OF fin] dest: checkPreview_run\<close>)
  have read: "keepsFrom B ?J (andThen (readNow d copy) (\<lambda>b. andThen (checkPreview d original pv) (\<lambda>pre2.
      if pre2 \<noteq> PreviewMatch then andThen (callback (OnPreviewStale original (pre2 = PreviewUnreadable))) (\<lambda>_. ret False) else ?fin b)))" for B
    by (rule keepsFrom_andThen [where A = ?read, OF _ _ check2]) (auto intro!: look emits_looking dest: readNow_run)
  show ?thesis
    unfolding keepMine_def
    by (rule keepsFrom_andThen [where A = "\<lambda>_ _. True"], rule look [OF cb], simp,
        rule keepsFrom_andThen [where A = "\<lambda>_ _. True"], rule look, rule emits_looking, simp,
        intro keepsFrom_if stale,
        rule keepsFrom_andThen [where A = "\<lambda>_ _. True"], rule look, rule emits_looking, simp,
        intro keepsFrom_if, rule look, rule emits_ret,
        rule keepsFrom_andThen [where A = "\<lambda>_ _. True"], rule look [OF cb], simp, rule read)
qed

lemma keepsFrom_keepBoth:
  "keepsFrom (\<lambda>_. True) (\<lambda>s. lawfulSince l (okResolve d copy original KeepBothVersions pv) (log s)) (keepBoth d copy original)"
    (is "keepsFrom _ ?J _")
proof -
  have look: "emits looking m \<Longrightarrow> keepsFrom B ?J m" for m :: "('a, 'c) prog" and B
    by (intro keepsFrom_keeps keeps_looking)
  have cb: "emits looking (callback c)" for c
    by (intro emits_rules) simp
  have mv: "keepsFrom (\<lambda>s. latestRead copy (log s) = Some (Some b)) ?J (andThen (writeNow d q b) (\<lambda>_. removeCopy d copy))"
    if "keptName original q" for q b
    using that by (intro keepsFrom_mono [OF keepsFrom_move]) auto
  have rd: "keepsFrom (\<lambda>_. keptName original q) ?J (andThen (readNow d copy) (\<lambda>b. andThen (writeNow d q b) (\<lambda>_. removeCopy d copy)))" for q
  proof (cases "keptName original q")
    case True
    show ?thesis
      by (rule keepsFrom_andThen [where A = "\<lambda>b s. latestRead copy (log s) = Some (Some b)", OF look [OF emits_looking(3)] _ mv [OF True]])
        (auto dest: readNow_run)
  qed (simp add: keepsFrom_def)
  have fn: "keepsFrom (\<lambda>_. keptName original k) ?J (andThen (freeName d original k 99) (\<lambda>q.
      andThen (readNow d copy) (\<lambda>b. andThen (writeNow d q b) (\<lambda>_. removeCopy d copy))))" for k
    by (rule keepsFrom_andThen [where A = "\<lambda>q _. keptName original q", OF look [OF emits_looking(5)] _ rd])
      (auto elim: freeName_run [rotated])
  have "keptName original (keptBothName original w 0)" for w
    unfolding keptName_def by (intro exI [of _ w] exI [of _ 0]) simp
  then have first: "keepsFrom (\<lambda>_. True) ?J (andThen (getS (\<lambda>s. keptBothName original (c_nowUtc d (world s)) 0)) (\<lambda>k.
      andThen (freeName d original k 99) (\<lambda>q. andThen (readNow d copy) (\<lambda>b. andThen (writeNow d q b) (\<lambda>_. removeCopy d copy)))))"
    by (intro keepsFrom_andThen [where A = "\<lambda>k _. keptName original k", OF look [OF emits_getS] _ fn]) (auto simp: getS_def)
  show ?thesis
    unfolding keepBoth_def
    by (rule keepsFrom_andThen [where A = "\<lambda>_ _. True"], rule look [OF cb], simp,
        rule keepsFrom_andThen [where A = "\<lambda>_ _. True"], rule look, rule emits_looking, simp,
        intro keepsFrom_if, rule look, rule emits_ret, rule first)
qed

lemma keepsFrom_resolve:
  assumes "copy \<noteq> original"
  shows "keepsFrom (\<lambda>_. True) (\<lambda>s. lawfulSince l (okResolve d copy original choice pv) (log s)) (resolveNoteConflict d copy original choice pv)"
proof (cases choice)
  case ByHand
  then show ?thesis
    by (auto simp: resolveNoteConflict_def intro!: keepsFrom_keeps keeps_looking emits_rules)
next
  case KeepTheirs
  then show ?thesis
    by (auto simp: resolveNoteConflict_def removeCopy_def intro!: keepsFrom_keeps keeps_rules stable_lawfulSince)
qed (use assms in \<open>auto simp: resolveNoteConflict_def intro: keepsFrom_keepMine keepsFrom_keepBoth\<close>)

text \<open>A refusal has touched nothing.\<close>

definition hushed :: "('w, bool) prog \<Rightarrow> bool" where
  "hushed m \<longleftrightarrow> (\<forall>s s'. m s = (Inr False, s') \<longrightarrow> (\<exists>evs. log s' = evs @ log s \<and> list_all looking evs))"

lemma hushed_looking: "emits looking m \<Longrightarrow> hushed m"
  unfolding hushed_def using emitsD by blast

lemma hushed_then:
  assumes "emits looking m" "\<And>x. hushed (f x)"
  shows "hushed (andThen m f)"
  unfolding hushed_def andThen_Inr
proof (intro allI impI, elim exE conjE)
  fix s s' x s1
  assume "m s = (Inr x, s1)" "f x s1 = (Inr False, s')"
  then obtain e1 e2 where "log s1 = e1 @ log s" "list_all looking e1" "log s' = e2 @ log s1" "list_all looking e2"
    using emitsD [OF assms(1)] assms(2) unfolding hushed_def by meson
  then show "\<exists>evs. log s' = evs @ log s \<and> list_all looking evs"
    by (intro exI [of _ "e2 @ e1"]) simp
qed

lemma hushed_if: "hushed m \<Longrightarrow> hushed n \<Longrightarrow> hushed (if b then m else n)"
  by simp

lemma hushed_remove: "hushed (removeCopy d copy)" "hushed (andThen m (\<lambda>_. removeCopy d copy))"
  by (simp_all add: hushed_def removeCopy_def andThen_Inr ret_def)

lemma hushed_resolve: "hushed (resolveNoteConflict d copy original choice pv)"
proof -
  have cb: "emits looking (callback c)" for c
    by (intro emits_rules) simp
  have stale: "hushed (andThen (callback c) (\<lambda>_. ret b))" "hushed (ret b)" for c b
    by (intro hushed_looking emits_rules; simp)+
  show ?thesis
    unfolding resolveNoteConflict_def keepMine_def keepBoth_def
    by (cases choice; simp only: keep_choice.case; intro hushed_if hushed_then hushed_remove emits_looking cb stale emits_getS)
qed


lemma copy_longer: "originalOfConflictCopy p = Some q \<Longrightarrow> length q < length p"
proof -
  assume "originalOfConflictCopy p = Some q"
  then obtain i where i: "conflictSplit (stemOf (nameOf p)) = Some i" "q = dirOf p @ take i (stemOf (nameOf p)) @ extOf (nameOf p)"
    by (auto simp: originalOfConflictCopy_def Let_def)
  then have "conflictTail (drop i (stemOf (nameOf p)))"
    unfolding conflictSplit_def find_Some_iff by blast
  then have "drop i (stemOf (nameOf p)) \<noteq> []"
    by (auto simp: conflictTail_def)
  moreover have "length p = length (dirOf p) + length (stemOf (nameOf p)) + length (extOf (nameOf p))"
    using dir_name [of p] stem_ext [of "nameOf p"] by (metis add.assoc length_append)
  ultimately show ?thesis
    by (simp add: i(2))
qed

lemma listNoteConflicts_neq: "(copy, original) \<in> set (listNoteConflicts ps) \<Longrightarrow> copy \<noteq> original"
proof -
  assume "(copy, original) \<in> set (listNoteConflicts ps)"
  then have "(copy, original) \<in> set (deriveNoteConflicts ps)"
    by (simp add: listNoteConflicts_def)
  then have "originalOfConflictCopy copy = Some original"
    unfolding deriveNoteConflicts_def
    by (induction ps) (auto simp: List.map_filter_simps split: option.splits if_splits)
  then show ?thesis
    using copy_longer by fastforce
qed

subsection \<open>The sweep removes only what is said elsewhere\<close>

definition saysTheSame :: "('w, 'x) deps_scheme \<Rightarrow> path \<Rightarrow> bytes \<Rightarrow> bytes \<Rightarrow> bool" where
  "saysTheSame d original mb tb \<longleftrightarrow>
     (case (h_decode (c_host d) mb, h_decode (c_host d) tb) of
        (Some mt, Some tt) \<Rightarrow>
          sameContent d original mt tt
          \<and> ignoredTimestampKeysPresent mt (ignorePatternsFor d original) = ignoredTimestampKeysPresent tt (ignorePatternsFor d original)
      | _ \<Rightarrow> False)"

definition swept :: "('w, 'x) deps_scheme \<Rightarrow> (path \<times> path) list \<Rightarrow> path \<Rightarrow> event list \<Rightarrow> bool" where
  "swept d conflicts copy es \<longleftrightarrow>
     (\<exists>original mb tb. (copy, original) \<in> set conflicts \<and> latestRead copy es = Some (Some mb)
        \<and> latestRead original es = Some (Some tb) \<and> saysTheSame d original mb tb)"

fun okSweep :: "('w, 'x) deps_scheme \<Rightarrow> (path \<times> path) list \<Rightarrow> event \<Rightarrow> event list \<Rightarrow> bool" where
  "okSweep d conflicts (IoRemove q) es = swept d conflicts q es"
| "okSweep d conflicts (Callback c) es = True"
| "okSweep d conflicts (GotRead p r) es = True"
| "okSweep d conflicts _ es = False"

lemma okSweep_looking: "looking e \<Longrightarrow> okSweep d conflicts e es"
  by (cases e) auto

lemma keeps_sweeping: "emits looking m \<Longrightarrow> keeps (\<lambda>s. lawfulSince l (okSweep d conflicts) (log s)) m"
  by (rule keeps_stable) (auto elim!: emits_mono intro!: stable_lawfulSince okSweep_looking)

lemma sweptI:
  "(copy, original) \<in> set conflicts \<Longrightarrow> latestRead copy es = Some (Some mb) \<Longrightarrow> latestRead original es = Some (Some tb) \<Longrightarrow>
   h_decode (c_host d) mb = Some mt \<Longrightarrow> h_decode (c_host d) tb = Some tt \<Longrightarrow> sameContent d original mt tt \<Longrightarrow>
   ignoredTimestampKeysPresent mt (ignorePatternsFor d original) = ignoredTimestampKeysPresent tt (ignorePatternsFor d original) \<Longrightarrow>
   swept d conflicts copy es"
  unfolding swept_def saysTheSame_def by (intro exI [of _ original] exI [of _ mb] exI [of _ tb]) simp

lemma swept_cb: "swept d conflicts copy es \<Longrightarrow> swept d conflicts copy (Callback c # es)"
  by (auto simp: swept_def)

lemma readOrNull_run: "readOrNull d p s = (Inr r, s') \<Longrightarrow> log s' = GotRead p r # log s"
  by (auto simp: readOrNull_def prog_simps split: prod.splits sum.splits)

lemma keeps_dismissOne:
  assumes "(copy, original) \<in> set conflicts" "copy \<noteq> original"
  shows "keeps (\<lambda>s. lawfulSince l (okSweep d conflicts) (log s)) (dismissOne d copy original)" (is "keeps ?J _")
proof -
  have cb: "keeps ?J (callback c)" for c
    by (rule keeps_sweeping) (intro emits_rules, simp)
  have rm: "keepsFrom (\<lambda>s. swept d conflicts copy (log s)) ?J (removeCopy d copy)"
    unfolding removeCopy_def
  proof (rule keepsFrom_andThen [where A = "\<lambda>_ s. swept d conflicts copy (log s)", OF keepsFrom_keeps [OF cb]])
    show "keepsFrom (\<lambda>s. swept d conflicts copy (log s)) ?J (andThen (perform (IoRemove copy) (io_remove (c_io d) copy))
        (\<lambda>_. andThen (callback (OnEnqueue copy 0)) (\<lambda>_. ret True)))"
      by (intro keepsFrom_then keeps_rules cb keepsFrom_perform) (auto intro: lawfulSince_Cons)
  qed (auto simp: record_event_def intro: swept_cb)
  have fin: "keepsFrom (\<lambda>s. latestRead copy (log s) = Some mineB \<and> latestRead original (log s) = Some theirsB) ?J
      (case (mineB, theirsB) of
         (Some mb, Some tb) \<Rightarrow>
           (case (h_decode (c_host d) mb, h_decode (c_host d) tb) of
              (Some mineT, Some theirsT) \<Rightarrow>
                if \<not> sameContent d original mineT theirsT then ret False
                else if ignoredTimestampKeysPresent mineT (ignorePatternsFor d original)
                  \<noteq> ignoredTimestampKeysPresent theirsT (ignorePatternsFor d original) then ret False
                else resolveNoteConflict d copy original KeepTheirs (Some theirsT)
            | _ \<Rightarrow> ret False)
       | _ \<Rightarrow> ret False)" for mineB theirsB
    using assms(1)
    by (auto split: option.splits simp: resolveNoteConflict_def intro!: keepsFrom_keeps [OF keeps_ret] keepsFrom_mono [OF rm] intro: sweptI)
  have "keepsFrom (\<lambda>_. True) ?J (dismissOne d copy original)"
    unfolding dismissOne_def
    by (rule keepsFrom_andThen [where A = "\<lambda>mb s. latestRead copy (log s) = Some mb"], rule keepsFrom_keeps [OF keeps_sweeping],
        rule emits_looking, simp add: readOrNull_run,
        rule keepsFrom_andThen [OF _ _ fin], rule keepsFrom_keeps [OF keeps_sweeping], rule emits_looking)
      (use assms(2) in \<open>simp add: readOrNull_run\<close>)
  then show ?thesis
    by (simp add: keepsFrom_def keeps_def)
qed

lemma keeps_sweep:
  assumes "set cs \<subseteq> set conflicts" "\<And>c p. (c, p) \<in> set conflicts \<Longrightarrow> c \<noteq> p"
  shows "keeps (\<lambda>s. lawfulSince l (okSweep d conflicts) (log s)) (sweep d go cs n)"
  using assms(1)
proof (induction cs arbitrary: n)
  case (Cons x cs)
  obtain c p where x: "x = (c, p)"
    by (cases x)
  have "keeps (\<lambda>s. lawfulSince l (okSweep d conflicts) (log s)) (dismissOne d c p)"
    using Cons.prems assms(2) by (intro keeps_dismissOne) (auto simp: x)
  then show ?case
    using Cons by (auto simp: x intro!: keeps_rules)
qed (auto intro: keeps_rules)

text \<open>
  (C25) The automatic sweep of conflict copies loses nothing. Whatever happens to the files meanwhile, it writes nothing, and
  it removes a file only if that is a conflict copy whose note exists, both were read as valid text just before, both
  say the same up to line ends and ignored timestamps, and both have the same ignored timestamp lines.
\<close>
theorem cosmetic_sweep_safe:
  "\<exists>evs. log (snd (dismissCosmeticConflicts d files go s)) = evs @ log s
     \<and> lawful (okSweep d (listNoteConflicts (files (world s)))) evs (log s)"
proof -
  let ?conflicts = "listNoteConflicts (files (world s))"
  let ?cands = "filter (\<lambda>(copy, original). isTextExt copy \<and> isTextExt original) ?conflicts"
  have "keeps (\<lambda>s'. lawfulSince (log s) (okSweep d ?conflicts) (log s')) (sweep d go ?cands 0)"
    by (rule keeps_sweep) (auto dest: listNoteConflicts_neq)
  then have "lawfulSince (log s) (okSweep d ?conflicts) (log (snd (sweep d go ?cands 0 s)))"
    by (simp add: keeps_def lawfulSince_refl)
  then show ?thesis
    by (simp add: dismissCosmeticConflicts_def andThen_def getS_def lawfulSince_def)
qed

subsection \<open>Examples and limits\<close>

definition conflictWorld :: mem where
  "conflictWorld = emptyMem\<lparr>m_files := [(''n.md'', [1]), (''c.md'', [2])]\<rparr>"


text \<open>
  A conflict inside a mounted folder cannot be resolved: the plugin uses the adapter of the primary vault, which drops
  changes below a mount without an error. The resolution reports success and changes nothing on the host.
\<close>

lemma mounted_conflict_stays:
  assumes "c_io d = diskIo sc dk" "isSafeVaultPath copy" "\<not> ds_forMount sc" "primaryExcludes (ds_nfc sc) (ds_activeMounts sc) copy"
  shows "fst (resolveNoteConflict d copy original KeepTheirs pv s) = Inr True"
    "world (snd (resolveNoteConflict d copy original KeepTheirs pv s)) = world s"
proof -
  have "\<not> io_passes sc copy"
    using assms(3,4) by (simp add: io_passes_def)
  from out_of_scope_dropped(2) [OF assms(2) this]
  have "io_remove (c_io d) copy (world s) = (Inr (), world s)"
    by (simp add: assms(1) diskIo_def)
  then show "fst (resolveNoteConflict d copy original KeepTheirs pv s) = Inr True"
    "world (snd (resolveNoteConflict d copy original KeepTheirs pv s)) = world s"
    by (simp_all add: resolveNoteConflict_def removeCopy_def prog_simps)
qed

text \<open>When a hundred names of the day are taken, the hundredth is overwritten.\<close>

lemma kept_names_run_out:
  assumes "io_exists (c_io d) = Some (\<lambda>_ w. (Inr True, w))"
  shows "freeName d original k n s = (Inr (if n = 0 then k else keptBothName original (c_nowUtc d (world s)) 99), s)"
proof (induction n arbitrary: k)
  case (Suc n)
  then show ?case
    using assms by (cases n) (simp_all add: prog_simps existsOr_def)
qed (use assms in \<open>simp add: prog_simps existsOr_def\<close>)

end
