(* ===== verification/Persist.thy ===== *)
theory Persist
  imports Prelude
begin

text \<open>
  The persistence of \<open>data.json\<close>, \<open>client/src/main.ts\<close>: one writer at a time, coalesced calls, two debounce timers, the
  flush on unload. What is saved (settings, base, state of the mounts) is one value of an arbitrary type; the number of
  its edition is kept beside it to speak about the order of writes, as is whether the last write failed. A write is
  split at its \<open>await\<close>: it starts with the snapshot and ends later, with success or not.
\<close>

record 'd persist_state =
  ps_data :: 'd
  ps_edition :: nat
  ps_dirty :: bool
  ps_persisting :: bool
  ps_pending :: bool
  ps_timer :: bool
  ps_lazyTimer :: bool
  ps_unloading :: bool
  ps_flight :: "(nat \<times> 'd) option"
  ps_disk :: "nat \<times> 'd"
  ps_failed :: bool

definition startWrite :: "'d persist_state \<Rightarrow> 'd persist_state" where
  "startWrite s = s\<lparr>ps_pending := False, ps_dirty := False, ps_flight := Some (ps_edition s, ps_data s)\<rparr>"

definition persist :: "'d persist_state \<Rightarrow> 'd persist_state" where
  "persist s =
     (if \<not> ps_dirty s then s
      else if ps_persisting s then s\<lparr>ps_pending := True\<rparr>
      else startWrite (s\<lparr>ps_persisting := True\<rparr>))"

text \<open>The write returns or throws, which is caught; then the loop goes round or the writer ends.\<close>

definition writeEnds :: "bool \<Rightarrow> 'd persist_state \<Rightarrow> 'd persist_state" where
  "writeEnds ok s =
     (case ps_flight s of
        None \<Rightarrow> s
      | Some snapshot \<Rightarrow>
          let s1 = s\<lparr>ps_flight := None, ps_failed := \<not> ok, ps_disk := (if ok then snapshot else ps_disk s)\<rparr> in
          if ps_pending s then startWrite s1 else s1\<lparr>ps_persisting := False\<rparr>)"

definition saveSettingsNow :: "'d persist_state \<Rightarrow> 'd persist_state" where
  "saveSettingsNow s = persist (s\<lparr>ps_dirty := True\<rparr>)"

definition schedulePersist :: "'d persist_state \<Rightarrow> 'd persist_state" where
  "schedulePersist s =
     (let s1 = s\<lparr>ps_dirty := True\<rparr> in
      if ps_unloading s then s1 else if ps_timer s then s1 else s1\<lparr>ps_timer := True\<rparr>)"

definition schedulePersistLazy :: "'d persist_state \<Rightarrow> 'd persist_state" where
  "schedulePersistLazy s =
     (let s1 = s\<lparr>ps_dirty := True\<rparr> in
      if ps_unloading s \<or> ps_lazyTimer s then s1 else s1\<lparr>ps_lazyTimer := True\<rparr>)"

definition timerFires :: "'d persist_state \<Rightarrow> 'd persist_state" where
  "timerFires s = (if ps_timer s then persist (s\<lparr>ps_timer := False\<rparr>) else s)"

definition lazyTimerFires :: "'d persist_state \<Rightarrow> 'd persist_state" where
  "lazyTimerFires s = (if ps_lazyTimer s then persist (s\<lparr>ps_lazyTimer := False\<rparr>) else s)"

definition flushSettings :: "'d persist_state \<Rightarrow> 'd persist_state" where
  "flushSettings s = persist (s\<lparr>ps_timer := False, ps_lazyTimer := False\<rparr>)"

definition unloadPersist :: "'d persist_state \<Rightarrow> 'd persist_state" where
  "unloadPersist s =
     (let s1 = s\<lparr>ps_unloading := True, ps_lazyTimer := False\<rparr> in
      if ps_timer s1 then persist (s1\<lparr>ps_timer := False\<rparr>) else s1)"

definition change :: "('d \<Rightarrow> 'd) \<Rightarrow> 'd persist_state \<Rightarrow> 'd persist_state" where
  "change f s = s\<lparr>ps_data := f (ps_data s), ps_edition := ps_edition s + 1\<rparr>"

definition persistStart :: "'d \<Rightarrow> 'd persist_state" where
  "persistStart d = \<lparr>ps_data = d, ps_edition = 0, ps_dirty = False, ps_persisting = False, ps_pending = False, ps_timer = False,
     ps_lazyTimer = False, ps_unloading = False, ps_flight = None, ps_disk = (0, d), ps_failed = False\<rparr>"

text \<open>The life of an instance: changes that ask to be saved, timers, the settings tab, writes and the unload, in any order.\<close>

inductive persist_step :: "'d persist_state \<Rightarrow> 'd persist_state \<Rightarrow> bool" where
  step_save: "persist_step s (saveSettingsNow (change f s))"
| step_soon: "persist_step s (schedulePersist (change f s))"
| step_lazy: "persist_step s (schedulePersistLazy (change f s))"
| step_flush: "persist_step s (flushSettings s)"
| step_timer: "persist_step s (timerFires s)"
| step_lazyTimer: "persist_step s (lazyTimerFires s)"
| step_written: "persist_step s (writeEnds ok s)"
| step_unload: "persist_step s (unloadPersist s)"

inductive_cases persist_stepE: "persist_step s s'"

lemmas persist_ops = saveSettingsNow_def schedulePersist_def schedulePersistLazy_def flushSettings_def timerFires_def lazyTimerFires_def
  unloadPersist_def change_def persist_def startWrite_def Let_def

subsection \<open>The newest edition wins\<close>

definition holdsEdition :: "nat \<times> 'd \<Rightarrow> 'd persist_state \<Rightarrow> bool" where
  "holdsEdition x s \<longleftrightarrow> fst x \<le> ps_edition s \<and> (fst x = ps_edition s \<longrightarrow> snd x = ps_data s)"

text \<open>
  The writer's flags agree; no snapshot is newer than the data and the file is never newer than the snapshot; what is
  not dirty is being written, or was, unless that failed; and something will save what is dirty, unless the instance is
  unloading.
\<close>

definition writerInv :: "'d persist_state \<Rightarrow> bool" where
  "writerInv s \<longleftrightarrow>
     (ps_persisting s \<longleftrightarrow> ps_flight s \<noteq> None) \<and> (ps_pending s \<longrightarrow> ps_persisting s)
     \<and> holdsEdition (ps_disk s) s
     \<and> (case ps_flight s of
          Some x \<Rightarrow> holdsEdition x s \<and> fst (ps_disk s) \<le> fst x \<and> (ps_dirty s \<or> fst x = ps_edition s)
        | None \<Rightarrow> ps_dirty s \<or> ps_failed s \<or> fst (ps_disk s) = ps_edition s)"

definition persistInv :: "'d persist_state \<Rightarrow> bool" where
  "persistInv s \<longleftrightarrow> writerInv s \<and> (ps_dirty s \<and> \<not> ps_unloading s \<longrightarrow> ps_timer s \<or> ps_lazyTimer s \<or> ps_pending s)"

lemma writerInv_timers [simp]:
  "writerInv (s\<lparr>ps_timer := b\<rparr>) = writerInv s" "writerInv (s\<lparr>ps_lazyTimer := b\<rparr>) = writerInv s"
  "writerInv (s\<lparr>ps_unloading := b\<rparr>) = writerInv s"
  by (simp_all add: writerInv_def holdsEdition_def split: option.split)

lemma writerInv_change: "writerInv s \<Longrightarrow> writerInv (change f s\<lparr>ps_dirty := True\<rparr>)"
  by (auto simp: writerInv_def holdsEdition_def change_def split: option.splits)

lemma writerInv_persist: "writerInv s \<Longrightarrow> writerInv (persist s) \<and> (ps_dirty (persist s) \<longrightarrow> ps_pending (persist s))"
  by (auto simp: writerInv_def holdsEdition_def persist_def startWrite_def split: option.splits)

lemma writerInv_ends:
  "writerInv s \<Longrightarrow> writerInv (writeEnds ok s) \<and> ps_timer (writeEnds ok s) = ps_timer s \<and> ps_lazyTimer (writeEnds ok s) = ps_lazyTimer s
     \<and> ps_unloading (writeEnds ok s) = ps_unloading s \<and> (ps_dirty (writeEnds ok s) \<longrightarrow> ps_dirty s \<and> \<not> ps_pending s \<or> ps_flight s = None)"
  by (cases "ps_flight s") (auto simp: writerInv_def holdsEdition_def writeEnds_def startWrite_def Let_def)

lemma persistInv_start: "persistInv (persistStart d)"
  by (simp add: persistInv_def writerInv_def persistStart_def holdsEdition_def)

lemma persistInv_persist: "writerInv s \<Longrightarrow> persistInv (persist s)"
  using writerInv_persist [of s] by (simp add: persistInv_def)

lemma persistInv_step:
  assumes "persist_step s s'" "persistInv s"
  shows "persistInv s'"
proof -
  have w: "writerInv s"
    using assms(2) by (simp add: persistInv_def)
  have ch: "writerInv (change f s\<lparr>ps_dirty := True\<rparr>)" for f
    using writerInv_change [OF w] .
  have save: "persistInv (saveSettingsNow (change f s))" for f
    using persistInv_persist [OF ch] by (simp add: saveSettingsNow_def)
  have soon: "persistInv (schedulePersist (change f s))" "persistInv (schedulePersistLazy (change f s))" for f
    using ch [of f] by (simp_all add: persistInv_def schedulePersist_def schedulePersistLazy_def Let_def)
  have fire: "persistInv (flushSettings s)" "persistInv (timerFires s)" "persistInv (lazyTimerFires s)"
    using w assms(2) by (simp_all add: flushSettings_def timerFires_def lazyTimerFires_def persistInv_persist)
  have ends: "persistInv (writeEnds ok s)" for ok
    using writerInv_ends [OF w, of ok] assms(2) by (auto simp: persistInv_def writeEnds_def)
  have "persistInv (unloadPersist s)"
    using w by (simp add: unloadPersist_def Let_def persistInv_persist) (simp add: persistInv_def)
  with assms(1) save soon fire ends show ?thesis
    by (auto elim: persist_stepE)
qed

lemma persistInv_reach: "persist_step\<^sup>*\<^sup>* s s' \<Longrightarrow> persistInv s \<Longrightarrow> persistInv s'"
  by (induction rule: rtranclp_induct) (auto intro: persistInv_step)

text \<open>The file only ever moves forward.\<close>

lemma disk_forward: "persist_step s s' \<Longrightarrow> persistInv s \<Longrightarrow> fst (ps_disk s) \<le> fst (ps_disk s')"
proof (erule persist_stepE)
  fix ok
  assume "s' = writeEnds ok s" "persistInv s"
  then show "fst (ps_disk s) \<le> fst (ps_disk s')"
    by (auto simp: persistInv_def writerInv_def writeEnds_def startWrite_def Let_def split: option.splits)
qed (auto simp: persist_ops split: if_splits)

lemma disk_forward_reach: "persist_step\<^sup>*\<^sup>* s s' \<Longrightarrow> persistInv s \<Longrightarrow> fst (ps_disk s) \<le> fst (ps_disk s')"
proof (induction rule: rtranclp_induct)
  case (step s1 s2)
  then show ?case
    using disk_forward [OF step(2) persistInv_reach [OF step(1)]] by simp
qed simp

subsection \<open>What is asked for is saved\<close>

text \<open>The timers fire and the writes that are then under way succeed; two are enough.\<close>

definition settle :: "'d persist_state \<Rightarrow> 'd persist_state" where
  "settle s = writeEnds True (writeEnds True (lazyTimerFires (timerFires s)))"

lemma settle_idle:
  assumes "writerInv s" "ps_dirty s \<longrightarrow> ps_pending s"
  shows "\<not> ps_dirty (writeEnds True (writeEnds True s)) \<and> \<not> ps_persisting (writeEnds True (writeEnds True s))
    \<and> (if ps_flight s = None \<and> ps_failed s then True else ps_disk (writeEnds True (writeEnds True s)) = (ps_edition s, ps_data s))"
proof (cases "ps_flight s")
  case None
  then show ?thesis
    using assms by (cases "ps_disk s") (auto simp: writerInv_def writeEnds_def holdsEdition_def)
next
  case (Some x)
  then show ?thesis
    using assms by (cases x) (auto simp: writerInv_def writeEnds_def startWrite_def holdsEdition_def Let_def)
qed

lemma fired_pending:
  assumes "persistInv s" "\<not> ps_unloading s"
  shows "writerInv (lazyTimerFires (timerFires s))"
    "ps_dirty (lazyTimerFires (timerFires s)) \<longrightarrow> ps_pending (lazyTimerFires (timerFires s))"
    "ps_edition (lazyTimerFires (timerFires s)) = ps_edition s \<and> ps_data (lazyTimerFires (timerFires s)) = ps_data s"
    "ps_flight (lazyTimerFires (timerFires s)) = None \<longrightarrow> ps_flight s = None \<and> \<not> ps_dirty s"
    "ps_failed (lazyTimerFires (timerFires s)) = ps_failed s"
proof -
  have inv: "persistInv (timerFires s)"
    using persistInv_step [OF step_timer assms(1)] .
  have inv2: "persistInv (lazyTimerFires (timerFires s))"
    using persistInv_step [OF step_lazyTimer inv] .
  then show "writerInv (lazyTimerFires (timerFires s))"
    by (simp add: persistInv_def)
  have fired: "\<not> ps_timer (lazyTimerFires (timerFires s))" "\<not> ps_lazyTimer (lazyTimerFires (timerFires s))"
    "\<not> ps_unloading (lazyTimerFires (timerFires s))"
    using assms(2) by (auto simp: persist_ops split: if_splits)
  then show dp: "ps_dirty (lazyTimerFires (timerFires s)) \<longrightarrow> ps_pending (lazyTimerFires (timerFires s))"
    using inv2 by (simp add: persistInv_def)
  show "ps_edition (lazyTimerFires (timerFires s)) = ps_edition s \<and> ps_data (lazyTimerFires (timerFires s)) = ps_data s"
    "ps_failed (lazyTimerFires (timerFires s)) = ps_failed s"
    by (auto simp: persist_ops split: if_splits)
  show "ps_flight (lazyTimerFires (timerFires s)) = None \<longrightarrow> ps_flight s = None \<and> \<not> ps_dirty s"
    using assms(1) inv2 dp by (auto simp: persistInv_def writerInv_def persist_ops split: if_splits)
qed



subsection \<open>What is not saved\<close>

text \<open>
  The unload flushes a pending write of the short timer only: what was handed to the long timer, after which nothing
  else was changed, is dropped, although it is marked as dirty.
\<close>

lemma unload_drops_lazy:
  "let s = unloadPersist (schedulePersistLazy (change f (persistStart d))) in
   ps_dirty s \<and> ps_flight s = None \<and> \<not> ps_timer s \<and> \<not> ps_lazyTimer s \<and> ps_disk s = (0, d) \<and> ps_edition s = 1"
  by (simp add: persist_ops persistStart_def)

text \<open>A call of \<open>persist\<close> after a change that was not marked, like that of a mount's state after a poll, writes nothing.\<close>

lemma unmarked_change_not_written: "\<not> ps_dirty s \<Longrightarrow> persist (change f s) = change f s"
  by (simp add: persist_def change_def)

text \<open>After a failed write, no timer and no flush writes the data again until the next change.\<close>

lemma failed_write_not_retried:
  "let s = writeEnds False (saveSettingsNow (change f (persistStart d))) in
   ps_failed s \<and> ps_disk s = (0, d) \<and> timerFires s = s \<and> lazyTimerFires s = s \<and> ps_disk (flushSettings s) = (0, d) \<and> ps_flight (flushSettings s) = None"
  by (simp add: persist_ops persistStart_def writeEnds_def)

end
