(* ===== verification/ConflictDialog.thy ===== *)
theory ConflictDialog
  imports PushPreview ConflictResolve
begin

text \<open>
  The conflict dialog, \<open>client/src/noteconflict.ts\<close> with \<open>client/src/busygate.ts\<close>: the line diff of the two versions, how
  its rows are shown, which view a conflict gets, the gate that disables buttons while a pass runs, and the press of a
  button, which drives the machine of \<open>ResolveFsm\<close> through the resolution of \<open>ConflictResolve\<close> and the wait for the upload.
  Lines of the other version (sign \<open>-\<close>) are deletions of the diff, lines of this device (sign \<open>+\<close>) additions. The two files
  are read one after the other. Headings and notices are not modelled.
\<close>

subsection \<open>The diff\<close>

definition MAX_DIFF_BYTES :: nat where
  "MAX_DIFF_BYTES = 4 * 1024 * 1024"

definition MAX_DIFF_CELLS :: nat where
  "MAX_DIFF_CELLS = 2000000"

fun commonStart :: "'a list \<Rightarrow> 'a list \<Rightarrow> nat" where
  "commonStart (a # A) (b # B) = (if a = b then Suc (commonStart A B) else 0)"
| "commonStart _ _ = 0"

definition commonEnd :: "nat \<Rightarrow> 'a list \<Rightarrow> 'a list \<Rightarrow> nat" where
  "commonEnd pre A B = commonStart (rev (drop pre A)) (rev (drop pre B))"

definition diffLines :: "utext \<Rightarrow> utext list" where
  "diffLines t = splitOn NL (normBlob t)"

definition diffMiddle :: "utext list \<Rightarrow> utext list \<Rightarrow> diff_line list" where
  "diffMiddle midA midB =
     (if length midA * length midB > MAX_DIFF_CELLS then map (Pair DiffDel) midA @ map (Pair DiffAdd) midB
      else diffLoop midA midB 0 0 (lcsPairs midA midB))"

definition unifiedLineDiff :: "utext \<Rightarrow> utext \<Rightarrow> diff_line list" where
  "unifiedLineDiff theirs mine =
     (let A = diffLines theirs; B = diffLines mine; pre = commonStart A B; suf = commonEnd pre A B in
      map (Pair DiffCtx) (take pre A)
      @ diffMiddle (drop pre (take (length A - suf) A)) (drop pre (take (length B - suf) B))
      @ map (Pair DiffCtx) (drop (length A - suf) A))"

subsection \<open>Invisible characters\<close>

definition isZeroWidth :: "nat \<Rightarrow> bool" where
  "isZeroWidth c \<longleftrightarrow> (0x200B \<le> c \<and> c \<le> 0x200D) \<or> c = 0xFEFF"

definition revealUnit :: "nat \<Rightarrow> nat" where
  "revealUnit c = (if c = 9 then 0x2192 else if c = 160 then 0x237D else if isZeroWidth c then 0x2205 else c)"

definition revealInvisible :: "utext \<Rightarrow> utext" where
  "revealInvisible t =
     (let u = map revealUnit t; body = trimEndBy (\<lambda>c. c = 32) u in
      body @ replicate (length u - length body) 0xB7)"

definition foldInvisible :: "(utext \<Rightarrow> utext) \<Rightarrow> utext \<Rightarrow> utext" where
  "foldInvisible nfc t =
     nfc (trimEndBy isTextSpace (filter (\<lambda>c. \<not> isZeroWidth c) (map (\<lambda>c. if c = 9 \<or> c = 160 then 32 else c) t)))"

definition linesOf :: "diff_kind \<Rightarrow> diff_line list \<Rightarrow> utext list" where
  "linesOf k ds = map snd (filter (\<lambda>l. fst l = k) ds)"

definition invisibleOnlyDifference :: "(utext \<Rightarrow> utext) \<Rightarrow> diff_line list \<Rightarrow> bool" where
  "invisibleOnlyDifference nfc ds =
     (let minus = sort (map (foldInvisible nfc) (linesOf DiffDel ds)); plus = sort (map (foldInvisible nfc) (linesOf DiffAdd ds)) in
      if minus = [] \<and> plus = [] then False else minus = plus)"

subsection \<open>What is shown\<close>

datatype diff_view =
    SameButLineEnds bool
  | DiffRows bool "diff_line list" nat

definition shownRow :: "diff_line \<Rightarrow> diff_line" where
  "shownRow l = (fst l, if fst l = DiffCtx then snd l else revealInvisible (snd l))"

definition renderDiff :: "(utext \<Rightarrow> utext) \<Rightarrow> utext \<Rightarrow> utext \<Rightarrow> utext list \<Rightarrow> diff_view" where
  "renderDiff nfc theirs mine ignorePatterns =
     (let ds = unifiedLineDiff (maskedForDisplay nfc theirs ignorePatterns) (maskedForDisplay nfc mine ignorePatterns) in
      if length (filter (\<lambda>l. fst l \<noteq> DiffCtx) ds) = 0 then SameButLineEnds (ignorePatterns \<noteq> [])
      else let shown = take 400 ds in
        DiffRows (invisibleOnlyDifference nfc ds) (map shownRow shown) (length ds - length shown))"

datatype conflict_view =
    AllResolved
  | WithoutDiff nat path path
  | WithDiff nat path path utext utext diff_view

definition readTextOrEmpty :: "('w, 'x) deps_scheme \<Rightarrow> path \<Rightarrow> ('w, utext) prog" where
  "readTextOrEmpty d p =
     andThen (readOrNull d p) (\<lambda>b. ret (case b of None \<Rightarrow> [] | Some b \<Rightarrow> h_decodeLossy (c_host d) b))"

definition render :: "('w, 'x) deps_scheme \<Rightarrow> ('w \<Rightarrow> path list) \<Rightarrow> ('w \<Rightarrow> path \<Rightarrow> nat option) \<Rightarrow> ('w, conflict_view) prog" where
  "render d files fileStat =
     andThen (getS (\<lambda>s. (listNoteConflicts (files (world s)), fileStat (world s)))) (\<lambda>(conflicts, size).
     case conflicts of
       [] \<Rightarrow> ret AllResolved
     | (copy, original) # _ \<Rightarrow>
         let so = (case size original of None \<Rightarrow> 0 | Some n \<Rightarrow> n); sc = (case size copy of None \<Rightarrow> 0 | Some n \<Rightarrow> n) in
         if \<not> isTextExt original \<or> \<not> isTextExt copy \<or> max so sc > MAX_DIFF_BYTES then
           ret (WithoutDiff (length conflicts) copy original)
         else
           andThen (readTextOrEmpty d original) (\<lambda>theirs.
           andThen (readTextOrEmpty d copy) (\<lambda>mine.
           ret (WithDiff (length conflicts) copy original theirs mine
                  (renderDiff (h_nfcText (c_host d)) theirs mine (ignorePatternsFor d original))))))"

text \<open>The preview that a button of a view hands to the resolution.\<close>

fun previewOf :: "conflict_view \<Rightarrow> keep_choice \<Rightarrow> utext option" where
  "previewOf (WithDiff _ _ _ theirs _ _) KeepMine = Some theirs"
| "previewOf (WithDiff _ _ _ theirs _ _) KeepTheirs = Some theirs"
| "previewOf _ _ = None"

subsection \<open>The busy gate\<close>

record button =
  bt_label :: string
  bt_disabled :: bool
  bt_title :: "string option"

record busy_state =
  bz_busy :: bool
  bz_label :: string
  bz_reason :: string

text \<open>The labels a gate remembers are those of the buttons, by position; a button added later has none yet.\<close>

fun gateRefresh :: "busy_state \<Rightarrow> string list \<Rightarrow> button list \<Rightarrow> string list \<times> button list" where
  "gateRefresh s own [] = (own, [])"
| "gateRefresh s [] (b # bs) =
     (let (own, bs') = gateRefresh s [] bs in
      (bt_label b # own,
       (if bz_busy s then b\<lparr>bt_disabled := True, bt_label := bz_label s, bt_title := Some (bz_reason s)\<rparr>
        else b\<lparr>bt_disabled := False, bt_title := None\<rparr>) # bs'))"
| "gateRefresh s (l # own) (b # bs) =
     (let (own', bs') = gateRefresh s own bs in
      (l # own',
       (if bz_busy s then b\<lparr>bt_disabled := True, bt_label := bz_label s, bt_title := Some (bz_reason s)\<rparr>
        else b\<lparr>bt_disabled := False, bt_label := l, bt_title := None\<rparr>) # bs'))"

definition gateButtons :: "busy_state \<Rightarrow> button list \<Rightarrow> string list \<times> button list" where
  "gateButtons s bs = gateRefresh s [] bs"

subsection \<open>Pressing a button\<close>

record dialog =
  dg_rs :: resolve_state
  dg_gated :: bool
  dg_open :: bool

definition dispatch :: "resolve_event \<Rightarrow> dialog \<Rightarrow> dialog" where
  "dispatch e g = g\<lparr>dg_rs := resolveNext (dg_rs g) e\<rparr>"

text \<open>The steps the resolution reported, read off the part of the log that it added.\<close>

definition stepsReported :: "event list \<Rightarrow> event list \<Rightarrow> resolve_step list" where
  "stepsReported old new =
     List.map_filter (\<lambda>e. case e of Callback (OnResolveStep st) \<Rightarrow> Some st | _ \<Rightarrow> None) (rev (take (length new - length old) new))"

definition pressKeep ::
  "('w, 'x) deps_scheme \<Rightarrow> bool \<Rightarrow> path \<Rightarrow> path \<Rightarrow> keep_choice \<Rightarrow> utext option \<Rightarrow> dialog \<times> 'w sync_state \<Rightarrow> dialog \<times> 'w sync_state" where
  "pressKeep d busy copy original choice previewedOther gs =
     (case gs of (g, s) \<Rightarrow>
        if resolveInFlight (dg_rs g) then (g, s)
        else if busy then (g, s)
        else
          let g1 = dispatch RStart (g\<lparr>dg_gated := False\<rparr>);
              (r, s1) = resolveNoteConflict d copy original choice previewedOther s;
              g2 = fold (\<lambda>st. dispatch (RStep st)) (stepsReported (log s) (log s1)) g1
          in case r of
               Inl e \<Rightarrow> (dispatch (RError (e_msg e)) g2, s1)
             | Inr ok \<Rightarrow> (dispatch (if ok then RLocalDone else RStaleEv) g2, s1))"

subsection \<open>The wait for the upload\<close>

fun uploadTick :: "nat \<Rightarrow> nat \<times> bool \<Rightarrow> resolve_state \<Rightarrow> resolve_state" where
  "uploadTick capMs (elapsed, busy) (RUploading sawBusy) =
     (let rs = (if busy then resolveNext (RUploading sawBusy) REngineBusy
                else if sawBusy then resolveNext (RUploading sawBusy) REngineIdle
                else if elapsed > 600 then resolveNext (RUploading sawBusy) RGraceElapsed
                else RUploading sawBusy)
      in case rs of RUploading _ \<Rightarrow> if elapsed > capMs then resolveNext rs RCapElapsed else rs | _ \<Rightarrow> rs)"
| "uploadTick capMs _ rs = rs"

text \<open>The promise is settled by the first tick after which the machine is not uploading; \<^const>\<open>None\<close> while it waits.\<close>

fun awaitUploadSettled :: "nat \<Rightarrow> (nat \<times> bool) list \<Rightarrow> resolve_state \<Rightarrow> resolve_state option" where
  "awaitUploadSettled capMs [] rs = None"
| "awaitUploadSettled capMs (t # ts) rs =
     (let rs' = uploadTick capMs t rs in
      case rs' of RUploading _ \<Rightarrow> awaitUploadSettled capMs ts rs' | _ \<Rightarrow> Some rs')"

definition resolveEnds :: "(nat \<times> bool) list \<Rightarrow> dialog \<Rightarrow> dialog option" where
  "resolveEnds ticks g =
     (case dg_rs g of
        RUploading _ \<Rightarrow> map_option (\<lambda>rs. dispatch RReset (g\<lparr>dg_rs := rs\<rparr>)) (awaitUploadSettled 8000 ticks (dg_rs g))
      | _ \<Rightarrow> Some (dispatch RReset g))"

subsection \<open>The diff is true and shortest\<close>

lemma commonStart_take: "take (commonStart A B) A = take (commonStart A B) B"
  by (induction A B rule: commonStart.induct) auto

lemma commonStart_le: "commonStart A B \<le> length A" "commonStart A B \<le> length B"
  by (induction A B rule: commonStart.induct) auto

lemma commonStart_same [simp]: "commonStart A A = length A"
  by (induction A) auto

text \<open>A pair of lists, cut at what they have in common on both ends.\<close>

lemma cut_ends:
  assumes "pre = commonStart A B" "suf = commonEnd pre A B"
  shows "A = take pre A @ drop pre (take (length A - suf) A) @ drop (length A - suf) A"
    and "B = take pre A @ drop pre (take (length B - suf) B) @ drop (length A - suf) A"
proof -
  have "commonStart (rev (drop pre A)) (rev (drop pre B)) \<le> length (rev (drop pre A))"
    "commonStart (rev (drop pre A)) (rev (drop pre B)) \<le> length (rev (drop pre B))"
    by (rule commonStart_le)+
  then have le: "pre \<le> length A" "pre \<le> length B" "suf \<le> length A - pre" "suf \<le> length B - pre"
    using assms commonStart_le by (simp_all add: commonEnd_def)
  have "rev (drop (length xs - suf) xs) = take suf (rev (drop pre xs))" if "pre \<le> length xs" "suf \<le> length xs - pre" for xs :: "'a list"
    using that by (simp add: take_rev)
  then have "drop (length A - suf) A = drop (length B - suf) B"
    using commonStart_take [of "rev (drop pre A)" "rev (drop pre B)"] assms(2) le
    unfolding commonEnd_def by (metis rev_rev_ident)
  moreover have "xs = take pre xs @ drop pre (take (length xs - suf) xs) @ drop (length xs - suf) xs"
    if "pre \<le> length xs" "suf \<le> length xs - pre" for xs :: "'a list"
  proof -
    have "take pre xs = take pre (take (length xs - suf) xs)"
      using that by (simp add: min_def)
    then show ?thesis
      by (metis append_assoc append_take_drop_id)
  qed
  ultimately show "A = take pre A @ drop pre (take (length A - suf) A) @ drop (length A - suf) A"
    and "B = take pre A @ drop pre (take (length B - suf) B) @ drop (length A - suf) A"
    using le commonStart_take [of A B] assms(1) by metis+
qed

lemma subseq_butlast: "subseq (zs @ [z]) (xs @ [x]) \<Longrightarrow> subseq zs xs"
proof -
  assume "subseq (zs @ [z]) (xs @ [x])"
  then obtain us vs where "zs @ [z] = us @ vs" "subseq us xs" "subseq vs [x]"
    by (rule subseq_appendE)
  moreover from this have "vs = [] \<or> vs = [x]"
    by (cases vs) (auto split: if_splits)
  ultimately show ?thesis
    by (auto intro: subseq_order.trans [of zs "zs @ [z]"])
qed

lemma lcsLen_common: "\<exists>zs. subseq zs xs \<and> subseq zs ys \<and> length zs = lcsLen xs ys"
  using lcsWalk_length [of 0 xs 0 ys] lcsPairs_longest [of "[]" xs ys]
  by (intro exI [of _ "map (\<lambda>(a, b). xs ! a) (lcsPairs xs ys)"]) (simp add: lcsPairs_def)

lemma lcsLen_snoc: "lcsLen (xs @ [x]) (ys @ [x]) = lcsLen xs ys + 1"
proof (rule antisym)
  obtain zs where zs: "subseq zs (xs @ [x])" "subseq zs (ys @ [x])" "length zs = lcsLen (xs @ [x]) (ys @ [x])"
    using lcsLen_common by blast
  then show "lcsLen (xs @ [x]) (ys @ [x]) \<le> lcsLen xs ys + 1"
  proof (cases zs rule: rev_cases)
    case (snoc us u)
    with zs show ?thesis
      using lcsLen_upper [of us xs ys] subseq_butlast [of us u] by simp
  qed simp
  obtain us where "subseq us xs" "subseq us ys" "length us = lcsLen xs ys"
    using lcsLen_common by blast
  then show "lcsLen xs ys + 1 \<le> lcsLen (xs @ [x]) (ys @ [x])"
    using lcsLen_upper [of "us @ [x]" "xs @ [x]" "ys @ [x]"] by (simp add: list_emb_append_mono)
qed

lemma lcsLen_end: "lcsLen (xs @ ws) (ys @ ws) = lcsLen xs ys + length ws"
proof (induction ws rule: rev_induct)
  case (snoc w ws)
  then show ?case using lcsLen_snoc [of "xs @ ws" w "ys @ ws"] by simp
qed simp

lemma lcsLen_start: "lcsLen (ws @ xs) (ws @ ys) = length ws + lcsLen xs ys"
  by (induction ws) auto

lemma sides_ctx [simp]:
  "oldSide (map (Pair DiffCtx) xs) = xs" "newSide (map (Pair DiffCtx) xs) = xs"
  "filter (\<lambda>l. fst l = DiffCtx) (map (Pair DiffCtx) xs) = map (Pair DiffCtx) xs"
  by (simp_all add: oldSide_def newSide_def filter_map comp_def)

lemma diffMiddle_sides: "oldSide (diffMiddle A B) = A" "newSide (diffMiddle A B) = B"
  using diffLoop_sides [OF lcsPairs_facts(1) lineDiff_pairs, of A B 0 0] by (simp_all add: diffMiddle_def)

lemma diffMiddle_ctx:
  "length (filter (\<lambda>l. fst l = DiffCtx) (diffMiddle A B)) = (if length A * length B > MAX_DIFF_CELLS then 0 else lcsLen A B)"
  using lcsWalk_length [of 0 A 0 B] by (simp add: diffMiddle_def diffLoop_ctx filter_map comp_def lcsPairs_def)

lemma changed_none: "(\<forall>l \<in> set ds. fst l = DiffCtx) \<longleftrightarrow> oldSide ds = newSide ds \<and> length (filter (\<lambda>l. fst l = DiffCtx) ds) = length (oldSide ds)"
proof (induction ds)
  case (Cons l ds)
  have "length (filter (\<lambda>l. fst l = DiffCtx) ds) \<le> length (oldSide ds)" "length (filter (\<lambda>l. fst l = DiffCtx) ds) \<le> length (newSide ds)"
    by (induction ds) (auto simp: oldSide_def newSide_def)
  with Cons show ?case
    by (cases l; cases "fst l") auto
qed simp

lemma diffLines_inj [simp]: "diffLines s = diffLines t \<longleftrightarrow> normBlob s = normBlob t"
  unfolding diffLines_def by (metis join_split)

lemma diff_sides: "oldSide (unifiedLineDiff theirs mine) = diffLines theirs" "newSide (unifiedLineDiff theirs mine) = diffLines mine"
proof -
  let ?A = "diffLines theirs" and ?B = "diffLines mine"
  note parts = cut_ends [of "commonStart ?A ?B" ?A ?B, OF refl refl, symmetric]
  show "oldSide (unifiedLineDiff theirs mine) = ?A" "newSide (unifiedLineDiff theirs mine) = ?B"
    by (simp_all add: unifiedLineDiff_def Let_def diffMiddle_sides parts)
qed

definition bigRegion :: "utext list \<Rightarrow> utext list \<Rightarrow> bool" where
  "bigRegion A B \<longleftrightarrow>
     (let pre = commonStart A B; suf = commonEnd pre A B in (length A - pre - suf) * (length B - pre - suf) > MAX_DIFF_CELLS)"

text \<open>
  (C26) The diff of the conflict dialog is a true and, except for huge changed regions, a shortest account of the two versions. Its
  context lines and deletions are exactly the lines of the other version and its context lines and additions those of
  this device's, in order. As many lines are shown as common as a longest common subsequence of the whole texts has,
  although the common beginning and end are cut off before it is computed; where the remaining regions are beyond
  the limit, nothing but the common beginning and end is shown as common. And it shows no change exactly if the texts
  are equal up to line ends and empty lines at the end.
\<close>
theorem conflict_diff_exact:
  "let ds = unifiedLineDiff theirs mine; A = diffLines theirs; B = diffLines mine;
       ctx = length (filter (\<lambda>l. fst l = DiffCtx) ds)
   in oldSide ds = A \<and> newSide ds = B
      \<and> ctx = (if bigRegion A B then commonStart A B + commonEnd (commonStart A B) A B else lcsLen A B)
      \<and> (filter (\<lambda>l. fst l \<noteq> DiffCtx) ds = [] \<longleftrightarrow> normBlob theirs = normBlob mine)"
proof -
  let ?A = "diffLines theirs" and ?B = "diffLines mine"
  define pre suf where "pre = commonStart ?A ?B" and "suf = commonEnd pre ?A ?B"
  define P Q S T where "P = take pre ?A" and "Q = drop (length ?A - suf) ?A"
    and "S = drop pre (take (length ?A - suf) ?A)" and "T = drop pre (take (length ?B - suf) ?B)"
  note parts = cut_ends [OF pre_def suf_def]
  have A: "?A = P @ S @ Q" and B: "?B = P @ T @ Q"
    unfolding P_def Q_def S_def T_def by (fact parts)+
  have ds: "unifiedLineDiff theirs mine = map (Pair DiffCtx) P @ diffMiddle S T @ map (Pair DiffCtx) Q"
    by (simp add: unifiedLineDiff_def Let_def P_def Q_def S_def T_def pre_def suf_def)
  have "pre \<le> length ?A" "suf \<le> length ?A - pre"
    using commonStart_le(1) [of ?A ?B] commonStart_le(1) [of "rev (drop pre ?A)" "rev (drop pre ?B)"]
    by (simp_all add: pre_def suf_def commonEnd_def)
  then have lens: "length P = pre" "length Q = suf"
    by (simp_all add: P_def Q_def)
  have sizes: "length S = length ?A - pre - suf" "length T = length ?B - pre - suf"
    unfolding A B by (simp_all add: lens)
  have lcs: "lcsLen ?A ?B = length P + lcsLen S T + length Q"
    unfolding A B by (simp add: lcsLen_start lcsLen_end)
  have ctx: "length (filter (\<lambda>l. fst l = DiffCtx) (unifiedLineDiff theirs mine))
      = (if bigRegion ?A ?B then pre + suf else lcsLen ?A ?B)"
    unfolding lcs ds by (simp add: diffMiddle_ctx bigRegion_def Let_def sizes lens flip: pre_def suf_def)
  have "S = [] \<and> T = []" if "?A = ?B"
    using sizes commonStart_same [of ?A] unfolding pre_def that by simp
  then have "?A = ?B \<Longrightarrow> \<forall>l \<in> set (unifiedLineDiff theirs mine). fst l = DiffCtx"
    unfolding ds by (auto simp: diffMiddle_def lcsPairs_def lcsWalk.simps)
  then have "filter (\<lambda>l. fst l \<noteq> DiffCtx) (unifiedLineDiff theirs mine) = [] \<longleftrightarrow> ?A = ?B"
    using changed_none [of "unifiedLineDiff theirs mine"] by (auto simp: filter_empty_conv diff_sides)
  then show ?thesis
    using ctx diff_sides [of theirs mine] by (simp add: Let_def pre_def suf_def)
qed

subsection \<open>What the rows show\<close>

text \<open>The marks that stand for invisible characters.\<close>

definition isMark :: "nat \<Rightarrow> bool" where
  "isMark c \<longleftrightarrow> c = 0x2192 \<or> c = 0x237D \<or> c = 0x2205 \<or> c = 0xB7"

definition isInvisible :: "nat \<Rightarrow> bool" where
  "isInvisible c \<longleftrightarrow> c = 9 \<or> c = 160 \<or> isZeroWidth c"

lemma revealUnit_visible: "\<not> isInvisible (revealUnit c)"
  by (simp add: revealUnit_def isInvisible_def isZeroWidth_def)

lemma revealUnit_inj:
  "\<not> isMark a \<Longrightarrow> \<not> isMark b \<Longrightarrow> revealUnit a = revealUnit b \<longleftrightarrow> a = b \<or> (isZeroWidth a \<and> isZeroWidth b)"
  by (auto simp: revealUnit_def isMark_def isZeroWidth_def split: if_splits)

lemma revealInvisible_parts:
  obtains n where "map revealUnit t = trimEndBy (\<lambda>c. c = 32) (map revealUnit t) @ replicate n 32"
    "revealInvisible t = trimEndBy (\<lambda>c. c = 32) (map revealUnit t) @ replicate n 0xB7"
proof
  let ?u = "map revealUnit t"
  have "takeWhile (\<lambda>c. c = 32) (rev ?u) = replicate (length (takeWhile (\<lambda>c. c = 32) (rev ?u))) 32"
    by (metis (mono_tags, lifting) replicate_length_same set_takeWhileD)
  then have "?u = rev (dropWhile (\<lambda>c. c = 32) (rev ?u)) @ replicate (length (takeWhile (\<lambda>c. c = 32) (rev ?u))) 32"
    by (metis rev_append rev_replicate rev_rev_ident takeWhile_dropWhile_id)
  then show u: "?u = trimEndBy (\<lambda>c. c = 32) ?u @ replicate (length (takeWhile (\<lambda>c. c = 32) (rev ?u))) 32"
    by (simp only: trimEndBy_def)
  then have "length ?u - length (trimEndBy (\<lambda>c. c = 32) ?u) = length (takeWhile (\<lambda>c. c = 32) (rev ?u))"
    by (metis add_diff_cancel_left' length_append length_replicate)
  then show "revealInvisible t = trimEndBy (\<lambda>c. c = 32) ?u @ replicate (length (takeWhile (\<lambda>c. c = 32) (rev ?u))) 0xB7"
    by (simp only: revealInvisible_def Let_def)
qed

text \<open>
  On a changed line every tab, non-breaking space, zero-width character and trailing blank is replaced by a mark, and two
  different lines without marks of their own look different, unless they differ only in which zero-width characters
  they have.
\<close>

lemma reveal_visible:
  "(\<forall>c \<in> set (revealInvisible t). \<not> isInvisible c) \<and> (t \<noteq> [] \<longrightarrow> last (revealInvisible t) \<noteq> 32)"
proof -
  obtain n where n: "map revealUnit t = trimEndBy (\<lambda>c. c = 32) (map revealUnit t) @ replicate n 32"
    "revealInvisible t = trimEndBy (\<lambda>c. c = 32) (map revealUnit t) @ replicate n 0xB7"
    by (rule revealInvisible_parts)
  let ?b = "trimEndBy (\<lambda>c. c = 32) (map revealUnit t)"
  have "set ?b \<subseteq> revealUnit ` set t"
    by (auto simp: trimEndBy_def dest: set_dropWhileD)
  moreover have "?b \<noteq> [] \<Longrightarrow> last ?b \<noteq> 32"
    using trimEndBy_last [of "\<lambda>c. c = 32" "map revealUnit t"] by auto
  moreover have "t \<noteq> [] \<Longrightarrow> ?b \<noteq> [] \<or> n \<noteq> 0"
    using n(1) by (cases n) (auto simp del: map_eq_conv)
  ultimately show ?thesis
    unfolding n(2) using revealUnit_visible by (cases n) (auto simp: isInvisible_def isZeroWidth_def)
qed

lemma reveal_distinguishes:
  assumes "revealInvisible s = revealInvisible t" "\<forall>c \<in> set s \<union> set t. \<not> isMark c"
  shows "list_all2 (\<lambda>a b. a = b \<or> (isZeroWidth a \<and> isZeroWidth b)) s t"
proof -
  obtain m where m: "map revealUnit s = trimEndBy (\<lambda>c. c = 32) (map revealUnit s) @ replicate m 32"
    "revealInvisible s = trimEndBy (\<lambda>c. c = 32) (map revealUnit s) @ replicate m 0xB7"
    by (rule revealInvisible_parts)
  obtain n where n: "map revealUnit t = trimEndBy (\<lambda>c. c = 32) (map revealUnit t) @ replicate n 32"
    "revealInvisible t = trimEndBy (\<lambda>c. c = 32) (map revealUnit t) @ replicate n 0xB7"
    by (rule revealInvisible_parts)
  have free: "0xB7 \<notin> set (trimEndBy (\<lambda>c. c = 32) (map revealUnit u))" if "\<forall>c \<in> set u. \<not> isMark c" for u
  proof -
    have "revealUnit c \<noteq> 0xB7" if "\<not> isMark c" for c
      using that by (simp add: revealUnit_def isMark_def)
    moreover have "set (trimEndBy (\<lambda>c. c = 32) (map revealUnit u)) \<subseteq> revealUnit ` set u"
      by (auto simp: trimEndBy_def dest: set_dropWhileD)
    ultimately show ?thesis
      using that by force
  qed
  have body: "takeWhile (\<lambda>c. c \<noteq> 0xB7) (b @ replicate k (0xB7 :: nat)) = b" if "0xB7 \<notin> set b" for b k
    using that by (induction b) (cases k, simp_all)
  have "0xB7 \<notin> set (trimEndBy (\<lambda>c. c = 32) (map revealUnit s))" "0xB7 \<notin> set (trimEndBy (\<lambda>c. c = 32) (map revealUnit t))"
    using free assms(2) by blast+
  then have "trimEndBy (\<lambda>c. c = 32) (map revealUnit s) = trimEndBy (\<lambda>c. c = 32) (map revealUnit t)"
    using body [of _ m] body [of _ n] assms(1) unfolding m(2) n(2) by metis
  moreover from this have "m = n"
    using arg_cong [OF assms(1), of length] unfolding m(2) n(2) by simp
  ultimately have "map revealUnit s = map revealUnit t"
    using m(1) n(1) by metis
  then have "list_all2 (\<lambda>a b. revealUnit a = revealUnit b) s t"
    by (simp add: list_all2_conv_all_nth) (metis length_map nth_map)
  then show ?thesis
    by (rule list.rel_mono_strong) (use assms(2) revealUnit_inj in blast)
qed

text \<open>The hint that only invisible characters differ is given exactly if the changed lines of the two sides agree up to them.\<close>

lemma invisible_hint_iff:
  "invisibleOnlyDifference nfc ds \<longleftrightarrow>
     filter (\<lambda>l. fst l \<noteq> DiffCtx) ds \<noteq> []
     \<and> image_mset (foldInvisible nfc) (mset (linesOf DiffDel ds)) = image_mset (foldInvisible nfc) (mset (linesOf DiffAdd ds))"
proof -
  have "linesOf DiffDel ds = [] \<and> linesOf DiffAdd ds = [] \<longleftrightarrow> filter (\<lambda>l. fst l \<noteq> DiffCtx) ds = []"
    by (auto simp: linesOf_def filter_empty_conv) (metis diff_kind.exhaust fst_conv)
  moreover have "sort xs = sort ys \<longleftrightarrow> mset xs = mset ys" for xs ys :: "utext list"
    by (metis mset_sort properties_for_sort sorted_sort)
  moreover have "sort xs = [] \<longleftrightarrow> xs = []" for xs :: "utext list"
    by (metis length_0_conv length_sort)
  ultimately show ?thesis
    by (simp add: invisibleOnlyDifference_def Let_def)
qed

subsection \<open>A press of a button\<close>

lemma dispatch_fields [simp]: "dg_rs (dispatch e g) = resolveNext (dg_rs g) e" "dg_open (dispatch e g) = dg_open g"
  "dg_gated (dispatch e g) = dg_gated g"
  by (simp_all add: dispatch_def)

lemma steps_local: "dg_rs g = RLocal st \<Longrightarrow> \<exists>st'. dg_rs (fold (\<lambda>st. dispatch (RStep st)) sts g) = RLocal st'"
  by (induction sts arbitrary: g st) (simp_all add: resolveNext_rules resolveRules_def)

lemma uploadTick_cases:
  "uploadTick capMs (elapsed, busy) (RUploading sawBusy) =
     (if elapsed > capMs \<or> (\<not> busy \<and> (sawBusy \<or> elapsed > 600)) then RDone else RUploading (sawBusy \<or> busy))"
  by (cases busy; cases sawBusy) (auto simp: resolveNext_rules resolveRules_def Let_def)

lemma await_over:
  "\<exists>t \<in> set ticks. fst t > capMs \<Longrightarrow> awaitUploadSettled capMs ticks (RUploading sawBusy) = Some RDone"
proof (induction ticks arbitrary: sawBusy)
  case (Cons t ts)
  then show ?case
    by (cases t) (auto simp: uploadTick_cases simp del: uploadTick.simps)
qed simp

text \<open>The earliest end: the engine has been seen busy and is idle again, or one of the two times is over.\<close>

lemma await_early:
  "awaitUploadSettled capMs ticks (RUploading sawBusy) = Some rs \<Longrightarrow>
     rs = RDone \<and> (\<exists>n < length ticks. case ticks ! n of (elapsed, busy) \<Rightarrow>
       elapsed > capMs \<or> (\<not> busy \<and> (elapsed > 600 \<or> sawBusy \<or> (\<exists>m < n. snd (ticks ! m)))))"
proof (induction ticks arbitrary: sawBusy)
  case (Cons t ts)
  obtain elapsed busy where t: "t = (elapsed, busy)" by (cases t)
  show ?case
  proof (cases "elapsed > capMs \<or> (\<not> busy \<and> (sawBusy \<or> elapsed > 600))")
    case True
    with Cons.prems show ?thesis
      by (auto simp: t uploadTick_cases simp del: uploadTick.simps intro!: exI [of _ 0])
  next
    case False
    with Cons.prems have "awaitUploadSettled capMs ts (RUploading (sawBusy \<or> busy)) = Some rs"
      by (simp add: t uploadTick_cases del: uploadTick.simps)
    from Cons.IH [OF this] obtain n e b where n: "rs = RDone" "n < length ts" "ts ! n = (e, b)"
      "e > capMs \<or> (\<not> b \<and> (e > 600 \<or> (sawBusy \<or> busy) \<or> (\<exists>m < n. snd (ts ! m))))"
      by force
    have "\<exists>m < Suc n. snd ((t # ts) ! m)" if "busy \<or> (\<exists>m < n. snd (ts ! m))"
      using that t by (metis Suc_less_eq nth_Cons_0 nth_Cons_Suc snd_conv zero_less_Suc)
    with n(4) have "e > capMs \<or> (\<not> b \<and> (e > 600 \<or> sawBusy \<or> (\<exists>m < Suc n. snd ((t # ts) ! m))))"
      by blast
    with n(1-3) show ?thesis
      by (intro conjI exI [of _ "Suc n"]) simp_all
  qed
qed simp

text \<open>
  A press of a keep button always comes to an end that tells what happened. While a resolution is in flight, or a pass
  runs, a second press does nothing, neither to the dialog nor to the files. Otherwise the resolution runs once, and the
  machine then says stale exactly if it refused, failed with its message exactly if it threw, and uploading if it went
  through. A resolution that went through is over at the latest with the first look after eight seconds, whatever the
  engine does, and not before the engine was seen busy and idle again or 600 milliseconds went by; the other two are over at
  once. In the end the dialog is ready for the next press.
\<close>
theorem keep_button_concludes:
  assumes "dg_rs g = RIdle"
  shows "\<forall>busy copy original choice pv. case pressKeep d busy copy original choice pv (g, s) of (g1, s1) \<Rightarrow>
     (busy \<longrightarrow> (g1, s1) = (g, s))
     \<and> (\<not> busy \<longrightarrow>
          s1 = snd (resolveNoteConflict d copy original choice pv s)
          \<and> dg_rs g1 = (case fst (resolveNoteConflict d copy original choice pv s) of
                          Inl e \<Rightarrow> RFailed (e_msg e) | Inr ok \<Rightarrow> if ok then RUploading False else RStale)
          \<and> (resolveInFlight (dg_rs g1) \<longrightarrow>
               (\<forall>b c q ch v. pressKeep d b c q ch v (g1, s1) = (g1, s1))
               \<and> (\<forall>ticks. (\<exists>t \<in> set ticks. fst t > 8000) \<longrightarrow> resolveEnds ticks g1 = Some (g1\<lparr>dg_rs := RIdle\<rparr>))
               \<and> (\<forall>ticks. list_all (\<lambda>(elapsed, busy). elapsed \<le> 600 \<and> \<not> busy) ticks \<longrightarrow> resolveEnds ticks g1 = None))
          \<and> (\<not> resolveInFlight (dg_rs g1) \<longrightarrow> (\<forall>ticks. resolveEnds ticks g1 = Some (g1\<lparr>dg_rs := RIdle\<rparr>))))"
proof (intro allI)
  fix busy copy original choice pv
  let ?run = "resolveNoteConflict d copy original choice pv s"
  obtain r s1 where run: "?run = (r, s1)"
    by (cases ?run)
  define g2 where "g2 = fold (\<lambda>st. dispatch (RStep st)) (stepsReported (log s) (log s1)) (dispatch RStart (g\<lparr>dg_gated := False\<rparr>))"
  have "dg_rs (dispatch RStart (g\<lparr>dg_gated := False\<rparr>)) = RLocal Checking"
    using assms by (simp add: resolveNext_rules resolveRules_def)
  then obtain st where st: "dg_rs g2 = RLocal st"
    using steps_local unfolding g2_def by blast
  have quiet: "awaitUploadSettled 8000 ticks (RUploading False) = None"
    if "list_all (\<lambda>(elapsed, busy). elapsed \<le> 600 \<and> \<not> busy) ticks" for ticks
    using that by (induction ticks) (auto simp: uploadTick_cases simp del: uploadTick.simps)
  have ends: "resolveEnds ticks g1 = Some (g1\<lparr>dg_rs := RIdle\<rparr>)" if "\<not> (\<exists>b. dg_rs g1 = RUploading b)" for ticks g1
    using that by (cases "dg_rs g1") (simp_all add: resolveEnds_def dispatch_def resolveNext_rules resolveRules_def)
  have waits: "resolveEnds ticks g1 = (case awaitUploadSettled 8000 ticks (RUploading False) of None \<Rightarrow> None
      | Some rs \<Rightarrow> Some (g1\<lparr>dg_rs := RIdle\<rparr>))" if "dg_rs g1 = RUploading False" for ticks g1
    using that by (auto simp: resolveEnds_def dispatch_def resolveNext_rules resolveRules_def split: option.split)
  have press: "pressKeep d busy copy original choice pv (g, s) =
      (if busy then (g, s) else (dispatch (case r of Inl e \<Rightarrow> RError (e_msg e) | Inr ok \<Rightarrow> if ok then RLocalDone else RStaleEv) g2, s1))"
    using assms by (simp add: pressKeep_def run g2_def Let_def resolveInFlight_def split: sum.split)
  show "case pressKeep d busy copy original choice pv (g, s) of (g1, s1) \<Rightarrow>
     (busy \<longrightarrow> (g1, s1) = (g, s))
     \<and> (\<not> busy \<longrightarrow>
          s1 = snd ?run
          \<and> dg_rs g1 = (case fst ?run of Inl e \<Rightarrow> RFailed (e_msg e) | Inr ok \<Rightarrow> if ok then RUploading False else RStale)
          \<and> (resolveInFlight (dg_rs g1) \<longrightarrow>
               (\<forall>b c q ch v. pressKeep d b c q ch v (g1, s1) = (g1, s1))
               \<and> (\<forall>ticks. (\<exists>t \<in> set ticks. fst t > 8000) \<longrightarrow> resolveEnds ticks g1 = Some (g1\<lparr>dg_rs := RIdle\<rparr>))
               \<and> (\<forall>ticks. list_all (\<lambda>(elapsed, busy). elapsed \<le> 600 \<and> \<not> busy) ticks \<longrightarrow> resolveEnds ticks g1 = None))
          \<and> (\<not> resolveInFlight (dg_rs g1) \<longrightarrow> (\<forall>ticks. resolveEnds ticks g1 = Some (g1\<lparr>dg_rs := RIdle\<rparr>))))"
    unfolding press using st
    by (cases r; cases "r = Inr True")
      (auto simp: run resolveNext_rules resolveRules_def resolveInFlight_def ends waits quiet pressKeep_def await_over)
qed

definition idleDialog :: dialog where
  "idleDialog = \<lparr>dg_rs = RIdle, dg_gated = True, dg_open = True\<rparr>"

theorem keep_button_concludes_witness:
  "case pressKeep (sampleDeps False) False ''c.md'' ''n.md'' KeepMine (Some [1]) (idleDialog, startIn conflictWorld (baseStore [])) of
     (g1, _) \<Rightarrow> dg_rs g1 = RUploading False \<and> resolveEnds [(0, True), (9000, True)] g1 = Some (g1\<lparr>dg_rs := RIdle\<rparr>)"
proof -
  let ?s = "startIn conflictWorld (baseStore [])"
  have "fst (resolveNoteConflict (sampleDeps False) ''c.md'' ''n.md'' KeepMine (Some [1]) ?s) = Inr True"
    by (simp add: resolveNoteConflict_def keepMine_def checkPreview_def previewStillCurrent_def readOrNull_def existsOr_def readNow_def
        writeNow_def removeCopy_def prog_simps sampleDeps_def memIo_def memRead_def startIn_def conflictWorld_def emptyMem_def
        sampleHost_def sameContent_def)
  moreover have "dg_rs idleDialog = RIdle"
    by (simp add: idleDialog_def)
  moreover obtain g1 s1 where "pressKeep (sampleDeps False) False ''c.md'' ''n.md'' KeepMine (Some [1]) (idleDialog, ?s) = (g1, s1)"
    by (cases "pressKeep (sampleDeps False) False ''c.md'' ''n.md'' KeepMine (Some [1]) (idleDialog, ?s)")
  ultimately show ?thesis
    using keep_button_concludes [where g = idleDialog and d = "sampleDeps False" and s = ?s, THEN spec, THEN spec, THEN spec, THEN spec, THEN spec,
        of False "''c.md''" "''n.md''" KeepMine "Some [1]"]
    by (auto simp: resolveInFlight_def)
qed

subsection \<open>The gate\<close>

definition worn :: "busy_state \<Rightarrow> button \<Rightarrow> button" where
  "worn s b = \<lparr>bt_label = (if bz_busy s then bz_label s else bt_label b), bt_disabled = bz_busy s,
     bt_title = (if bz_busy s then Some (bz_reason s) else None)\<rparr>"

lemma gateRefresh_first: "gateRefresh s [] bs = (map bt_label bs, map (worn s) bs)"
  by (induction bs) (simp_all add: worn_def)

lemma gateRefresh_again: "gateRefresh s (map bt_label bs) (map (worn s') bs) = (map bt_label bs, map (worn s) bs)"
  by (induction bs) (simp_all add: worn_def)

text \<open>Whatever the states in between, a gated button shows the last one, and its own label comes back when that is not busy.\<close>

lemma gate_restores_labels:
  "foldl (\<lambda>(own, bs) s. gateRefresh s own bs) (gateButtons s0 bs) ss = (map bt_label bs, map (worn (last (s0 # ss))) bs)"
  by (induction ss rule: rev_induct) (simp_all add: gateButtons_def gateRefresh_first gateRefresh_again)

subsection \<open>Limits of the view\<close>

text \<open>
  The rows are cut after four hundred lines, context included, so a change below a long common beginning is not shown
  at all while the user is asked to choose.
\<close>

lemma late_change_not_shown:
  assumes "400 \<le> commonStart (diffLines (maskedForDisplay nfc theirs ps)) (diffLines (maskedForDisplay nfc mine ps))"
    and "renderDiff nfc theirs mine ps = DiffRows hint rows hidden"
  shows "\<forall>r \<in> set rows. fst r = DiffCtx"
proof -
  let ?A = "diffLines (maskedForDisplay nfc theirs ps)" and ?B = "diffLines (maskedForDisplay nfc mine ps)"
  have "length (take (commonStart ?A ?B) ?A) = commonStart ?A ?B"
    using commonStart_le(1) [of ?A ?B] by simp
  then have "take 400 (unifiedLineDiff (maskedForDisplay nfc theirs ps) (maskedForDisplay nfc mine ps))
      = take 400 (map (Pair DiffCtx) (take (commonStart ?A ?B) ?A))"
    using assms(1) by (simp add: unifiedLineDiff_def Let_def)
  then show ?thesis
    using assms(2) by (auto simp: renderDiff_def Let_def shownRow_def split: if_splits dest!: in_set_takeD)
qed

fun longNote :: "nat \<Rightarrow> nat \<Rightarrow> utext" where
  "longNote 0 c = [c]"
| "longNote (Suc n) c = 97 # NL # longNote n c"

lemma longNote_plain:
  assumes "c = 98 \<or> c = 99"
  shows "foldEol (longNote n c) = longNote n c" "splitOn NL (longNote n c) = replicate n [97] @ [[c]]"
  using assms by (induction n; auto simp: foldEol_Cons NL_def CR_def)+

lemma longNote_lines: "c = 98 \<or> c = 99 \<Longrightarrow> diffLines (longNote n c) = replicate n [97] @ [[c]]"
proof -
  assume c: "c = 98 \<or> c = 99"
  have "longNote n c \<noteq> [] \<and> last (longNote n c) = c"
    by (induction n) auto
  then have "normBlob (longNote n c) = longNote n c"
    using c longNote_plain(1) [OF c, of n] by (cases "longNote n c" rule: rev_cases) (auto simp: normBlob_def trimEndBy_def NL_def)
  then show ?thesis
    using longNote_plain(2) [OF c] by (simp add: diffLines_def)
qed

lemma longNote_masked: "c = 98 \<or> c = 99 \<Longrightarrow> maskedForDisplay id (longNote n c) [] = longNote n c"
proof -
  assume c: "c = 98 \<or> c = 99"
  have bom: "stripBom (longNote n c) = longNote n c" "startsWith (longNote n c) [BOM] = False"
    using c by (cases n; auto simp: stripBom_def startsWith_def BOM_def)+
  have "hd (splitCrLf (longNote n c)) \<in> {stripCr [97], [c]}"
    unfolding splitCrLf_def longNote_plain(2) [OF c] by (cases n) (simp_all add: Let_def butlast_append)
  then have "\<not> isFence (hd (splitCrLf (longNote n c)))"
    using c by (auto simp: isFence_def stripCr_def CR_def)
  then show ?thesis
    by (simp add: maskedForDisplay_def Let_def longNote_plain(1) [OF c] bom parse_def)
qed

lemma late_change_example:
  "\<exists>hint rows hidden. renderDiff id (longNote 400 98) (longNote 400 99) [] = DiffRows hint rows hidden
     \<and> (\<forall>r \<in> set rows. fst r = DiffCtx)"
proof -
  have start: "commonStart (replicate n [97] @ [[98]]) (replicate n [97] @ [[99 :: nat]]) = n" for n
    by (induction n) auto
  then have "400 \<le> commonStart (diffLines (maskedForDisplay id (longNote 400 98) [])) (diffLines (maskedForDisplay id (longNote 400 99) []))"
    by (simp add: longNote_masked longNote_lines)
  moreover have "diffLines (longNote 400 98) \<noteq> diffLines (longNote 400 99)"
    by (simp add: longNote_lines del: diffLines_inj)
  then have "\<exists>hint rows hidden. renderDiff id (longNote 400 98) (longNote 400 99) [] = DiffRows hint rows hidden"
    using changed_none [of "unifiedLineDiff (longNote 400 98) (longNote 400 99)"] diff_sides
    by (auto simp: renderDiff_def Let_def longNote_masked filter_empty_conv)
  ultimately show ?thesis
    using late_change_not_shown by blast
qed

text \<open>Cutting off the common end first can give another diff than the alignment of the whole texts.\<close>

lemma cut_end_changes_diff:
  "let A = [[1], [2]]; B = [[3], [2], [4], [2]] in
   unifiedLineDiff (joinWith [NL] A) (joinWith [NL] B) \<noteq> diffLoop A B 0 0 (lcsPairs A B)"
  by (simp add: unifiedLineDiff_def diffLines_def normBlob_def trimEndBy_def diffMiddle_def MAX_DIFF_CELLS_def commonEnd_def
      lcsPairs_def lcsWalk.simps NL_def CR_def)

end
