(* ===== verification/MountScopes.thy ===== *)
theory MountScopes
  imports MountSync "HOL-Library.AList"
begin

text \<open>
  The plugin's bookkeeping of the mounts, \<open>client/src/main.ts\<close>: the configured mounts, the live scopes with their runtimes, the
  persisted state per mount, held batches, read-only edits and sockets; the pass over the scopes and what the user and
  the connection do to them meanwhile. A pass is split where it awaits: at the lock, before each scope and at the end of each
  poll. Polls are those of \<open>MountSync\<close>. Scopes are objects that a pass and the plugin share, so each has an identity; it also
  remembers the session token that its transport captured. Notices, the settings tab and the light are not modelled,
  the creation of the mount's folder is left to the host, and the memo of \<open>activeMounts\<close>, whose signature has all its inputs, is
  left out.
\<close>

subsection \<open>State\<close>

definition MOUNT_FAILED_RETRY_MS :: nat where
  "MOUNT_FAILED_RETRY_MS = 5 * 60 * 1000"

definition MOUNT_MOBILE_MAX_BYTES :: nat where
  "MOUNT_MOBILE_MAX_BYTES = 50 * 1024 * 1024"

definition MOUNT_SOCKET_RECYCLE_MS :: nat where
  "MOUNT_SOCKET_RECYCLE_MS = 15 * 60 * 1000"

record 'w live_scope =
  ls_id :: nat
  ls_token :: string
  ls_scope :: "'w mount_scope"
  ls_failedAt :: "nat option"

abbreviation ls_mount :: "'w live_scope \<Rightarrow> mount" where
  "ls_mount ls \<equiv> rt_mount (sc_runtime (ls_scope ls))"

abbreviation ls_key :: "'w live_scope \<Rightarrow> string" where
  "ls_key ls \<equiv> mountKey (ls_mount ls)"

text \<open>
  Where a pass is: not running, waiting for the lock, before the scopes that are left, or awaiting the poll of one, with
  the scope as it was when the poll began and what happened to it since.
\<close>

datatype 'w mount_pass =
    NoPass | PassWaiting | PassAt "nat list" | PassPolling nat "'w mount_scope" meanwhile "nat list"

record 'w mount_hub =
  mh_mounts :: "mount list"
  mh_vaultOwner :: string
  mh_vaultId :: string
  mh_sessionToken :: string
  mh_scopesToken :: string
  mh_scopes :: "'w live_scope list"
  mh_fresh :: nat
  mh_stateStore :: "(string \<times> mount_persist) list"
  mh_sockets :: "(string \<times> nat) list"
  mh_freshSocket :: nat
  mh_pokeTimer :: bool
  mh_recycledAt :: nat
  mh_heldDeletes :: "(string \<times> path list) list"
  mh_heldPushes :: "(string \<times> path list) list"
  mh_roEdits :: "(string \<times> path list) list"
  mh_roNoticed :: "(string \<times> path) list"
  mh_base :: base_store
  mh_unloading :: bool
  mh_linkUp :: bool
  mh_reconciling :: bool
  mh_pending :: bool
  mh_pass :: "'w mount_pass"

text \<open>
  What a scope is built from: the disk, the transport for a token and a source, the host and the settings. The constructor
  of the transport throws for a server that would be reached in the clear.
\<close>

record 'w hub_env =
  he_io :: "'w vault_io"
  he_api :: "string \<Rightarrow> mount \<Rightarrow> 'w sync_api"
  he_insecure :: bool
  he_host :: host
  he_nowMs :: "'w \<Rightarrow> nat"
  he_nowUtc :: "'w \<Rightarrow> utc"
  he_device :: string
  he_mobile :: bool
  he_maxSyncBytes :: nat
  he_ignorePatterns :: "utext list"
  he_bulkDeleteStrategy :: bulk_strategy
  he_bulkDeleteThreshold :: rat
  he_skipForeignArtefacts :: "'w \<Rightarrow> bool"
  he_sourceReadOnly :: "mount \<Rightarrow> 'w \<Rightarrow> bool"
  he_pushFlipHold :: "path \<Rightarrow> hash \<Rightarrow> bytes option \<Rightarrow> 'w \<Rightarrow> bool \<times> 'w"
  he_sourceReady :: "string \<Rightarrow> mount \<Rightarrow> ('w, bool) outside"

subsection \<open>The mounts in effect\<close>

definition activeMounts :: "(string \<Rightarrow> string) \<Rightarrow> 'w mount_hub \<Rightarrow> mount list" where
  "activeMounts nfc h =
     filter (\<lambda>m. \<not> (ms_owner (mt_source m) = mh_vaultOwner h \<and> ms_vaultId (mt_source m) = mh_vaultId h))
       (validMounts nfc (mh_mounts h))"

definition selfReferential :: "string \<Rightarrow> string \<Rightarrow> mount \<Rightarrow> bool" where
  "selfReferential owner vaultId m \<longleftrightarrow> ms_owner (mt_source m) = owner \<and> ms_vaultId (mt_source m) = vaultId"

definition invalidateSelfReferentialMountBases :: "string \<Rightarrow> string \<Rightarrow> 'w mount_hub \<Rightarrow> 'w mount_hub" where
  "invalidateSelfReferentialMountBases owner vaultId h =
     h\<lparr>mh_stateStore := foldl (\<lambda>store m. if selfReferential owner vaultId m then AList.delete (mountKey m) store else store)
       (mh_stateStore h) (mh_mounts h)\<rparr>"

definition scopeCtx :: "'w hub_env \<Rightarrow> 'w mount_hub \<Rightarrow> mount \<Rightarrow> 'w mount_ctx" where
  "scopeCtx env h m =
     \<lparr>mc_io = he_io env, mc_sourceApi = he_api env (mh_sessionToken h) m, mc_host = he_host env, mc_nowMs = he_nowMs env,
      mc_nowUtc = he_nowUtc env, mc_device = he_device env, mc_restore = map_of (mh_stateStore h) (mountKey m),
      mc_ignorePatterns = he_ignorePatterns env,
      mc_maxSyncBytes = Some (if he_mobile env then min (he_maxSyncBytes env) MOUNT_MOBILE_MAX_BYTES else he_maxSyncBytes env),
      mc_skipForeignArtefacts = Some (he_skipForeignArtefacts env), mc_bulkDeleteStrategy = Some (he_bulkDeleteStrategy env),
      mc_bulkDeleteThreshold = Some (he_bulkDeleteThreshold env), mc_sourceReadOnly = Some (he_sourceReadOnly env m),
      mc_pushFlipHold = Some (\<lambda>p. he_pushFlipHold env (mt_mountPoint m @ ''/'' @ p)),
      mc_sourceReady = Some (he_sourceReady env (mh_sessionToken h) m)\<rparr>"

definition newScope :: "'w hub_env \<Rightarrow> 'w mount_hub \<Rightarrow> nat \<Rightarrow> mount \<Rightarrow> 'w live_scope" where
  "newScope env h n m =
     \<lparr>ls_id = n, ls_token = mh_sessionToken h,
      ls_scope = \<lparr>sc_runtime = newRuntime m (scopeCtx env h m), sc_state = Detached, sc_fails = 0, sc_forceFull = False\<rparr>,
      ls_failedAt = None\<rparr>"

text \<open>The loop over the wanted mounts; \<^const>\<open>None\<close> when a transport cannot be built because the constructor throws.\<close>

fun buildScopes ::
  "'w hub_env \<Rightarrow> 'w mount_hub \<Rightarrow> string list \<Rightarrow> nat \<Rightarrow> mount list \<Rightarrow> ('w live_scope list \<times> nat) option" where
  "buildScopes env h seen n [] = Some ([], n)"
| "buildScopes env h seen n (m # ms) =
     (let key = mountKey m in
      if key \<in> set seen then buildScopes env h seen n ms
      else case map_of (rev (map (\<lambda>s. (ls_key s, s)) (mh_scopes h))) key of
        Some existing \<Rightarrow> map_option (\<lambda>(rest, n'). (existing # rest, n')) (buildScopes env h (key # seen) n ms)
      | None \<Rightarrow>
          if mh_sessionToken h = '''' then buildScopes env h (key # seen) n ms
          else if he_insecure env then None
          else map_option (\<lambda>(rest, n'). (newScope env h n m # rest, n')) (buildScopes env h (key # seen) (n + 1) ms))"

definition closeMountSockets :: "'w mount_hub \<Rightarrow> 'w mount_hub" where
  "closeMountSockets h = h\<lparr>mh_sockets := [], mh_pokeTimer := False\<rparr>"

text \<open>The result says whether the scopes could be built.\<close>

definition rebuildMountScopes :: "'w hub_env \<Rightarrow> 'w mount_hub \<Rightarrow> 'w mount_hub \<times> bool" where
  "rebuildMountScopes env h =
     (let h1 = invalidateSelfReferentialMountBases (mh_vaultOwner h) (mh_vaultId h) h;
          want = activeMounts (h_nfc (he_host env)) h1;
          h2 = (if mh_scopesToken h1 \<noteq> mh_sessionToken h1
                then (closeMountSockets (h1\<lparr>mh_scopes := []\<rparr>))\<lparr>mh_scopesToken := mh_sessionToken h1\<rparr> else h1)
      in case buildScopes env h2 [] (mh_fresh h2) want of
           None \<Rightarrow> (h2, False)
         | Some (scopes, n) \<Rightarrow> (h2\<lparr>mh_scopes := scopes, mh_fresh := n\<rparr>, True))"

subsection \<open>Hooks\<close>

definition heldFor :: "string \<Rightarrow> (string \<times> path list) list \<Rightarrow> path list" where
  "heldFor key m = (case map_of m key of None \<Rightarrow> [] | Some ps \<Rightarrow> ps)"

definition putHeldFor :: "string \<Rightarrow> path list \<Rightarrow> (string \<times> path list) list \<Rightarrow> (string \<times> path list) list" where
  "putHeldFor key ps m = (if ps = [] then AList.delete key m else AList.update key ps m)"

definition nextHeld :: "path list \<Rightarrow> path list \<Rightarrow> bool \<Rightarrow> path list" where
  "nextHeld cur new authoritative = (if authoritative then new else jsDistinct (cur @ new))"

definition setPendingBulk :: "string \<Rightarrow> path list \<Rightarrow> bool \<Rightarrow> 'w mount_hub \<Rightarrow> 'w mount_hub" where
  "setPendingBulk key new authoritative h =
     h\<lparr>mh_heldDeletes := putHeldFor key (nextHeld (heldFor key (mh_heldDeletes h)) new authoritative) (mh_heldDeletes h)\<rparr>"

definition setPendingBulkPush :: "string \<Rightarrow> path list \<Rightarrow> bool \<Rightarrow> 'w mount_hub \<Rightarrow> 'w mount_hub" where
  "setPendingBulkPush key new authoritative h =
     h\<lparr>mh_heldPushes := putHeldFor key (nextHeld (heldFor key (mh_heldPushes h)) new authoritative) (mh_heldPushes h)\<rparr>"

definition setRoMountEdits :: "string \<Rightarrow> path list \<Rightarrow> bool \<Rightarrow> 'w mount_hub \<Rightarrow> 'w mount_hub" where
  "setRoMountEdits key paths authoritative h =
     (let before = heldFor key (mh_roEdits h);
          next = (if authoritative then jsDistinct paths else jsDistinct (before @ paths));
          kept = filter (\<lambda>(k, p). \<not> (k = key \<and> p \<in> set before \<and> p \<notin> set next)) (mh_roNoticed h);
          appeared = filter (\<lambda>p. p \<notin> set before \<and> (key, p) \<notin> set kept) next
      in h\<lparr>mh_roEdits := putHeldFor key next (mh_roEdits h), mh_roNoticed := kept @ map (Pair key) appeared\<rparr>)"

definition clearRoMountEdits :: "string \<Rightarrow> 'w mount_hub \<Rightarrow> 'w mount_hub" where
  "clearRoMountEdits key h =
     h\<lparr>mh_roNoticed := filter (\<lambda>(k, p). \<not> (k = key \<and> p \<in> set (heldFor key (mh_roEdits h)))) (mh_roNoticed h),
       mh_roEdits := AList.delete key (mh_roEdits h)\<rparr>"

definition hasScope :: "nat \<Rightarrow> 'w mount_hub \<Rightarrow> bool" where
  "hasScope i h \<longleftrightarrow> i \<in> set (map ls_id (mh_scopes h))"

definition onScope :: "nat \<Rightarrow> ('w live_scope \<Rightarrow> 'w live_scope) \<Rightarrow> 'w mount_hub \<Rightarrow> 'w mount_hub" where
  "onScope i f h = h\<lparr>mh_scopes := map (\<lambda>s. if ls_id s = i then f s else s) (mh_scopes h)\<rparr>"

text \<open>A hook of the driver, called for the scope \<open>i\<close>, whose state is by now \<open>sc\<close>.\<close>

fun applyHook :: "nat \<Rightarrow> nat \<Rightarrow> 'w mount_scope \<Rightarrow> hook_call \<Rightarrow> 'w mount_hub \<Rightarrow> 'w mount_hub" where
  "applyHook now i sc (HookEvent st) h =
     (if \<not> hasScope i h then h
      else (onScope i (\<lambda>s. s\<lparr>ls_failedAt := (if st = MFailed then (case ls_failedAt s of None \<Rightarrow> Some now | t \<Rightarrow> t) else None)\<rparr>) h)
        \<lparr>mh_stateStore := AList.update (mountKey (rt_mount (sc_runtime sc))) (toPersist (sc_runtime sc)) (mh_stateStore h)\<rparr>)"
| "applyHook now i sc (HookError e) h = h"
| "applyHook now i sc (HookHeld ps authoritative) h =
     (if hasScope i h then setPendingBulk (mountKey (rt_mount (sc_runtime sc))) ps authoritative h else h)"
| "applyHook now i sc (HookHeldPush ps authoritative) h =
     (if hasScope i h then setPendingBulkPush (mountKey (rt_mount (sc_runtime sc))) ps authoritative h else h)"
| "applyHook now i sc (HookRoEdits ps authoritative) h =
     (if hasScope i h then setRoMountEdits (mountKey (rt_mount (sc_runtime sc))) ps authoritative h else h)"

subsection \<open>The live subscriptions\<close>

text \<open>\<open>opens\<close> says for which mounts the host makes a socket.\<close>

fun openSockets :: "'w hub_env \<Rightarrow> (mount \<Rightarrow> bool) \<Rightarrow> string list \<Rightarrow> mount list \<Rightarrow> 'w mount_hub \<Rightarrow> 'w mount_hub" where
  "openSockets env opens want [] h = h"
| "openSockets env opens want (m # ms) h =
     (let key = mountKey m in
      openSockets env opens want ms
        (if key \<notin> set want \<or> map_of (mh_sockets h) key \<noteq> None \<or> he_insecure env \<or> \<not> opens m then h
         else h\<lparr>mh_sockets := AList.update key (mh_freshSocket h) (mh_sockets h), mh_freshSocket := mh_freshSocket h + 1\<rparr>))"

definition healthyKeys :: "'w mount_hub \<Rightarrow> string list" where
  "healthyKeys h = map ls_key (filter (\<lambda>s. sc_state (ls_scope s) = Live \<or> sc_state (ls_scope s) = Diverged) (mh_scopes h))"

definition syncMountSubscriptions :: "'w hub_env \<Rightarrow> (mount \<Rightarrow> bool) \<Rightarrow> nat \<Rightarrow> mount list \<Rightarrow> 'w mount_hub \<Rightarrow> 'w mount_hub" where
  "syncMountSubscriptions env opens now active h =
     (let want = filter (\<lambda>k. k \<in> set (healthyKeys h)) (map mountKey active);
          h1 = h\<lparr>mh_sockets := filter (\<lambda>(k, _). k \<in> set want) (mh_sockets h)\<rparr>
      in if mh_unloading h1 \<or> mh_sessionToken h1 = '''' \<or> \<not> mh_linkUp h1 then h1
         else
           let h2 = (if mh_recycledAt h1 = 0 then h1\<lparr>mh_recycledAt := now\<rparr>
                     else if now - mh_recycledAt h1 \<ge> MOUNT_SOCKET_RECYCLE_MS then h1\<lparr>mh_recycledAt := now, mh_sockets := []\<rparr>
                     else h1)
           in openSockets env opens want active h2)"

definition socketDropped :: "string \<Rightarrow> nat \<Rightarrow> 'w mount_hub \<Rightarrow> 'w mount_hub" where
  "socketDropped key ws h =
     (if map_of (mh_sockets h) key = Some ws then h\<lparr>mh_sockets := AList.delete key (mh_sockets h)\<rparr> else h)"

subsection \<open>The pass\<close>

definition reconcileMounts :: "'w mount_hub \<Rightarrow> 'w mount_hub" where
  "reconcileMounts h =
     (if mh_reconciling h then h\<lparr>mh_pending := True\<rparr> else h\<lparr>mh_reconciling := True, mh_pass := PassWaiting\<rparr>)"

definition passEnds :: "'w mount_hub \<Rightarrow> 'w mount_hub" where
  "passEnds h =
     (let h1 = h\<lparr>mh_reconciling := False, mh_pass := NoPass\<rparr> in
      if mh_pending h1 \<and> \<not> mh_unloading h1 then reconcileMounts (h1\<lparr>mh_pending := False\<rparr>) else h1)"

definition retryFailed :: "nat \<Rightarrow> 'w live_scope \<Rightarrow> 'w live_scope" where
  "retryFailed now s =
     (case ls_failedAt s of
        Some t \<Rightarrow>
          if sc_state (ls_scope s) = MFailed \<and> t \<noteq> 0 \<and> now - t \<ge> MOUNT_FAILED_RETRY_MS then
            s\<lparr>ls_scope := (ls_scope s)\<lparr>sc_state := mountTransition (sc_state (ls_scope s)) MReset, sc_fails := 0\<rparr>, ls_failedAt := None\<rparr>
          else s
      | None \<Rightarrow> s)"

text \<open>The pass has the lock.\<close>

definition passBegins :: "'w hub_env \<Rightarrow> nat \<Rightarrow> 'w mount_hub \<Rightarrow> 'w mount_hub" where
  "passBegins env now h =
     (if mh_mounts h = [] then
        passEnds (if mh_scopes h \<noteq> [] \<or> mh_sockets h \<noteq> [] then closeMountSockets (h\<lparr>mh_scopes := []\<rparr>) else h)
      else case rebuildMountScopes env h of
        (h1, built) \<Rightarrow>
          if \<not> built \<or> mh_scopes h1 = [] then passEnds h1
          else let h2 = h1\<lparr>mh_scopes := map (retryFailed now) (mh_scopes h1)\<rparr>
               in h2\<lparr>mh_pass := PassAt (map ls_id (mh_scopes h2))\<rparr>)"

definition scopeOf :: "nat \<Rightarrow> 'w mount_hub \<Rightarrow> 'w live_scope option" where
  "scopeOf i h = find (\<lambda>s. ls_id s = i) (mh_scopes h)"

text \<open>
  The next scope: it is skipped when it is gone or the plugin unloads, and left alone when its state says so; otherwise the
  part of the driver before the first \<open>await\<close> runs.
\<close>

definition driveNext :: "nat \<Rightarrow> nat \<Rightarrow> nat list \<Rightarrow> 'w mount_hub \<Rightarrow> 'w mount_hub" where
  "driveNext now i todo h =
     (case scopeOf i h of
        None \<Rightarrow> h\<lparr>mh_pass := PassAt todo\<rparr>
      | Some s \<Rightarrow>
          if mh_unloading h then h\<lparr>mh_pass := PassAt todo\<rparr>
          else
            let sc = startScope (ls_scope s) in
            if sc_state sc \<in> {Detached, Unmounting, MFailed, LocalGone} then
              (onScope i (\<lambda>s. s\<lparr>ls_scope := sc\<rparr>) h)\<lparr>mh_pass := PassAt todo\<rparr>
            else
              let live = (sc_state sc = Live);
                  sc1 = sc\<lparr>sc_forceFull := False, sc_state := (if live then mountTransition Live MSyncStart else sc_state sc)\<rparr>;
                  h1 = onScope i (\<lambda>s. s\<lparr>ls_scope := sc1\<rparr>) h;
                  h2 = (if live then applyHook now i sc1 (HookEvent (sc_state sc1)) h1 else h1)
              in h2\<lparr>mh_pass := PassPolling i sc ([], False) todo\<rparr>)"

definition passNext :: "'w hub_env \<Rightarrow> (mount \<Rightarrow> bool) \<Rightarrow> nat \<Rightarrow> 'w mount_hub \<Rightarrow> 'w mount_hub" where
  "passNext env opens now h =
     (case mh_pass h of
        PassAt [] \<Rightarrow> passEnds (syncMountSubscriptions env opens now (activeMounts (h_nfc (he_host env)) h) h)
      | PassAt (i # todo) \<Rightarrow> driveNext now i todo h
      | _ \<Rightarrow> h)"

text \<open>The poll returns, in a world and with a cache that others have changed meanwhile.\<close>

definition pollEnds :: "nat \<Rightarrow> 'w shared \<Rightarrow> 'w mount_hub \<Rightarrow> 'w mount_hub" where
  "pollEnds now sh h =
     (case mh_pass h of
        PassPolling i sc mw todo \<Rightarrow>
          (case reconcileMountScope mw sc sh of
             ((sc', hooks), _) \<Rightarrow>
               (fold (applyHook now i sc') (if sc_state sc = Live then tl hooks else hooks)
                  (onScope i (\<lambda>s. s\<lparr>ls_scope := sc'\<rparr>) h))\<lparr>mh_pass := PassAt todo\<rparr>)
      | _ \<Rightarrow> h)"

subsection \<open>What the user does\<close>

definition forgetPrimaryBaseUnder :: "(string \<Rightarrow> string) \<Rightarrow> mount \<Rightarrow> 'w mount_hub \<Rightarrow> 'w mount_hub" where
  "forgetPrimaryBaseUnder nfc m h =
     h\<lparr>mh_base := foldl (\<lambda>b p. base_delete p b) (mh_base h) (filter (claimsLocal nfc m) (base_paths (mh_base h)))\<rparr>"

definition addMount :: "(string \<Rightarrow> string) \<Rightarrow> mount \<Rightarrow> 'w mount_hub \<Rightarrow> 'w mount_hub" where
  "addMount nfc m h = reconcileMounts (forgetPrimaryBaseUnder nfc m (h\<lparr>mh_mounts := mh_mounts h @ [m]\<rparr>))"

text \<open>What the plugin does to a scope is seen by a poll of it that is under way.\<close>

definition meanwhileFor :: "nat \<Rightarrow> (meanwhile \<Rightarrow> meanwhile) \<Rightarrow> 'w mount_hub \<Rightarrow> 'w mount_hub" where
  "meanwhileFor i f h =
     (case mh_pass h of
        PassPolling j sc mw todo \<Rightarrow> if i = j then h\<lparr>mh_pass := PassPolling j sc (f mw) todo\<rparr> else h
      | _ \<Rightarrow> h)"

definition dropScopes :: "string \<Rightarrow> 'w mount_hub \<Rightarrow> 'w mount_hub" where
  "dropScopes key h = h\<lparr>mh_scopes := filter (\<lambda>s. ls_key s \<noteq> key) (mh_scopes h)\<rparr>"

definition removeMount :: "(string \<Rightarrow> string) \<Rightarrow> mount \<Rightarrow> 'w mount_hub \<Rightarrow> 'w mount_hub" where
  "removeMount nfc m h =
     (let key = mountKey m;
          h1 = (case find (\<lambda>s. ls_key s = key) (mh_scopes h) of
                  None \<Rightarrow> h
                | Some live \<Rightarrow> meanwhileFor (ls_id live) (\<lambda>(es, full). (es @ [MUnmount], full)) h);
          h2 = (dropScopes key h1)\<lparr>mh_mounts := filter (\<lambda>x. mountKey x \<noteq> key) (mh_mounts h1)\<rparr>;
          h3 = h2\<lparr>mh_sockets := AList.delete key (mh_sockets h2), mh_stateStore := AList.delete key (mh_stateStore h2)\<rparr>;
          h4 = forgetPrimaryBaseUnder nfc m h3
      in clearRoMountEdits key (h4\<lparr>mh_heldDeletes := AList.delete key (mh_heldDeletes h4),
           mh_heldPushes := AList.delete key (mh_heldPushes h4)\<rparr>))"

definition updateMountDirection :: "mount \<Rightarrow> mount_direction \<Rightarrow> 'w mount_hub \<Rightarrow> 'w mount_hub" where
  "updateMountDirection m dir h =
     (let key = mountKey m in
      reconcileMounts (clearRoMountEdits key (dropScopes key
        (h\<lparr>mh_mounts := map (\<lambda>x. if mountKey x = key then x\<lparr>mt_direction := dir\<rparr> else x) (mh_mounts h)\<rparr>))))"

definition reinstateMount :: "mount \<Rightarrow> 'w mount_hub \<Rightarrow> 'w mount_hub" where
  "reinstateMount m h =
     (let key = mountKey m;
          h1 = dropScopes key (h\<lparr>mh_stateStore := AList.delete key (mh_stateStore h)\<rparr>)
      in reconcileMounts (clearRoMountEdits key (h1\<lparr>mh_heldDeletes := AList.delete key (mh_heldDeletes h1),
           mh_heldPushes := AList.delete key (mh_heldPushes h1)\<rparr>)))"

definition forceFull :: "string \<Rightarrow> 'w mount_hub \<Rightarrow> 'w mount_hub" where
  "forceFull key h =
     (case find (\<lambda>s. ls_key s = key) (mh_scopes h) of
        None \<Rightarrow> h
      | Some s \<Rightarrow> meanwhileFor (ls_id s) (\<lambda>(es, _). (es, True))
          (onScope (ls_id s) (\<lambda>s. s\<lparr>ls_scope := (ls_scope s)\<lparr>sc_forceFull := True\<rparr>\<rparr>) h))"

definition nudgeMountForLocalPath :: "(string \<Rightarrow> string) \<Rightarrow> (path \<Rightarrow> bool) \<Rightarrow> path \<Rightarrow> 'w mount_hub \<Rightarrow> 'w mount_hub" where
  "nudgeMountForLocalPath nfc ownWrite p h =
     (case nudgeTarget nfc (activeMounts nfc h) p ownWrite of
        None \<Rightarrow> h
      | Some m \<Rightarrow> reconcileMounts (forceFull (mountKey m) h))"

text \<open>The mount point follows a renamed folder.\<close>

definition movedPoint :: "path \<Rightarrow> path \<Rightarrow> mount \<Rightarrow> path option" where
  "movedPoint oldN newN m =
     (let mp = normMountFolder (mt_mountPoint m) in
      if mp = oldN \<or> startsWith mp (oldN @ ''/'') then Some (newN @ drop (length oldN) mp) else None)"

definition followMountPointRename :: "(string \<Rightarrow> string) \<Rightarrow> string \<Rightarrow> string \<Rightarrow> 'w mount_hub \<Rightarrow> 'w mount_hub" where
  "followMountPointRename nfc oldFolder newFolder h =
     (let oldN = normMountFolder oldFolder; newN = normMountFolder newFolder in
      if oldN = '''' \<or> newN = '''' \<or> oldN = newN then h
      else
        let affected = filter (\<lambda>m. movedPoint oldN newN m \<noteq> None) (mh_mounts h);
            moved = map (\<lambda>m. (mountKey m, the (movedPoint oldN newN m))) affected;
            next = map (\<lambda>m. case map_of (rev moved) (mountKey m) of Some mp \<Rightarrow> m\<lparr>mt_mountPoint := mp\<rparr> | None \<Rightarrow> m) (mh_mounts h)
        in if affected = [] \<or> validateMounts nfc next \<noteq> [] then h
           else reconcileMounts (closeMountSockets (h\<lparr>mh_mounts := next, mh_scopes := []\<rparr>)))"

subsection \<open>What the connection does\<close>

definition pokeMounts :: "'w mount_hub \<Rightarrow> 'w mount_hub" where
  "pokeMounts h = (if mh_unloading h \<or> mh_pokeTimer h then h else h\<lparr>mh_pokeTimer := True\<rparr>)"

definition pokeTimerFires :: "'w mount_hub \<Rightarrow> 'w mount_hub" where
  "pokeTimerFires h =
     (if mh_pokeTimer h
      then (let h1 = h\<lparr>mh_pokeTimer := False\<rparr> in if mh_unloading h1 then h1 else reconcileMounts h1)
      else h)"

definition mountTeardown :: "'w mount_hub \<Rightarrow> 'w mount_hub" where
  "mountTeardown h = closeMountSockets (h\<lparr>mh_scopes := []\<rparr>)"

text \<open>What \<open>loadSettings\<close> makes of the stored data.\<close>

definition loadMountState :: "(string \<times> mount_persist) list \<Rightarrow> 'w mount_hub \<Rightarrow> 'w mount_hub" where
  "loadMountState stored h =
     invalidateSelfReferentialMountBases (mh_vaultOwner h) (mh_vaultId h)
       (h\<lparr>mh_stateStore := filter (\<lambda>(k, _). k \<in> set (map mountKey (mh_mounts h))) stored\<rparr>)"

subsection \<open>All that can happen\<close>

inductive hub_step :: "'w hub_env \<Rightarrow> 'w mount_hub \<Rightarrow> 'w mount_hub \<Rightarrow> bool" for env where
  Request: "hub_step env h (reconcileMounts h)"
| Begins: "mh_pass h = PassWaiting \<Longrightarrow> hub_step env h (passBegins env now h)"
| NextScope: "mh_pass h = PassAt todo \<Longrightarrow> hub_step env h (passNext env opens now h)"
| PollReturns: "mh_pass h = PassPolling i sc mw todo \<Longrightarrow> hub_step env h (pollEnds now sh h)"
| Add: "hub_step env h (addMount (h_nfc (he_host env)) m h)"
| Remove: "hub_step env h (removeMount (h_nfc (he_host env)) m h)"
| Redirect: "hub_step env h (updateMountDirection m dir h)"
| Reinstate: "hub_step env h (reinstateMount m h)"
| Nudge: "hub_step env h (nudgeMountForLocalPath (h_nfc (he_host env)) ownWrite p h)"
| Poke: "hub_step env h (pokeMounts h)"
| PokeFires: "hub_step env h (pokeTimerFires h)"
| SocketGone: "hub_step env h (socketDropped key ws h)"
| Teardown: "hub_step env h (mountTeardown h)"
| LinkChanges: "hub_step env h (h\<lparr>mh_linkUp := up, mh_sessionToken := token\<rparr>)"
| SwitchVault: "hub_step env h (h\<lparr>mh_vaultOwner := owner, mh_vaultId := vaultId\<rparr>)"
| Unload: "hub_step env h (h\<lparr>mh_unloading := True\<rparr>)"

inductive hub_reach :: "'w hub_env \<Rightarrow> 'w mount_hub \<Rightarrow> 'w mount_hub \<Rightarrow> bool" for env h0 where
  Start: "hub_reach env h0 h0"
| Step: "hub_reach env h0 h \<Longrightarrow> hub_step env h h' \<Longrightarrow> hub_reach env h0 h'"

subsection \<open>The invariant\<close>

definition scopesOk :: "mount list \<Rightarrow> 'w live_scope list \<Rightarrow> nat \<Rightarrow> string \<Rightarrow> bool" where
  "scopesOk ms ss n token \<longleftrightarrow> distinct (map ls_id ss) \<and> distinct (map ls_key ss)
     \<and> (\<forall>s \<in> set ss. ls_id s < n \<and> ls_key s \<in> mountKey ` set ms \<and> ls_token s = token)"

definition keysOk :: "mount list \<Rightarrow> (string \<times> 'v) list \<Rightarrow> bool" where
  "keysOk ms al \<longleftrightarrow> fst ` set al \<subseteq> mountKey ` set ms"

definition requestOk :: "'w mount_pass \<Rightarrow> bool \<Rightarrow> bool \<Rightarrow> bool \<Rightarrow> bool" where
  "requestOk p reconciling waiting unloading \<longleftrightarrow>
     (reconciling \<longleftrightarrow> p \<noteq> NoPass) \<and> (waiting \<longrightarrow> reconciling \<or> unloading)"

definition pollOk :: "'w mount_pass \<Rightarrow> nat \<Rightarrow> 'w live_scope list \<Rightarrow> bool" where
  "pollOk p n ss =
     (case p of PassPolling i sc mw todo \<Rightarrow> i < n \<and> (\<forall>s \<in> set ss. ls_id s = i \<longrightarrow> ls_mount s = rt_mount (sc_runtime sc)) | _ \<Rightarrow> True)"

definition hubOk :: "'w mount_hub \<Rightarrow> bool" where
  "hubOk h \<longleftrightarrow> scopesOk (mh_mounts h) (mh_scopes h) (mh_fresh h) (mh_scopesToken h)
     \<and> keysOk (mh_mounts h) (mh_stateStore h) \<and> keysOk (mh_mounts h) (mh_sockets h) \<and> keysOk (mh_mounts h) (mh_heldDeletes h)
     \<and> keysOk (mh_mounts h) (mh_heldPushes h) \<and> keysOk (mh_mounts h) (mh_roEdits h)
     \<and> requestOk (mh_pass h) (mh_reconciling h) (mh_pending h) (mh_unloading h)
     \<and> pollOk (mh_pass h) (mh_fresh h) (mh_scopes h)"

lemma keysOk_simps [simp]:
  "keysOk ms []" "keysOk ms (AList.update k v al) \<longleftrightarrow> k \<in> mountKey ` set ms \<and> keysOk ms al"
  by (auto simp: keysOk_def dom_update)

lemma keysOk_fewer: "keysOk ms al \<Longrightarrow> set al' \<subseteq> set al \<Longrightarrow> keysOk ms al'"
  unfolding keysOk_def by blast

lemma keysOk_delete: "keysOk ms al \<Longrightarrow> keysOk ms (AList.delete k al)"
  by (rule keysOk_fewer) (auto simp: AList.delete_eq)

lemma keysOk_deleted: "keysOk ms al \<Longrightarrow> keysOk (filter (\<lambda>m. mountKey m \<noteq> k) ms) (AList.delete k al)"
  by (auto simp: keysOk_def AList.delete_eq)

lemma keysOk_putHeld: "keysOk ms al \<Longrightarrow> k \<in> mountKey ` set ms \<Longrightarrow> keysOk ms (putHeldFor k ps al)"
  by (simp add: putHeldFor_def keysOk_delete)

lemma ls_mount_newScope [simp]: "ls_mount (newScope env h n m) = m" "ls_id (newScope env h n m) = n"
  "ls_token (newScope env h n m) = mh_sessionToken h"
  by (simp_all add: newScope_def newRuntime_def)

lemma invalidate_store:
  "set (mh_stateStore (invalidateSelfReferentialMountBases owner v h))
   = {e \<in> set (mh_stateStore h). \<not> (\<exists>m \<in> set (mh_mounts h). selfReferential owner v m \<and> mountKey m = fst e)}"
proof -
  have "set (foldl (\<lambda>store m. if selfReferential owner v m then AList.delete (mountKey m) store else store) st ms)
      = {e \<in> set st. \<not> (\<exists>m \<in> set ms. selfReferential owner v m \<and> mountKey m = fst e)}" for st :: "(string \<times> mount_persist) list" and ms
    by (induction ms arbitrary: st) (auto simp: AList.delete_eq)
  then show ?thesis
    by (simp add: invalidateSelfReferentialMountBases_def)
qed

lemma buildScopes_ok:
  assumes "buildScopes env h seen n ms = Some (ss, n')"
    and "distinct (map ls_id (mh_scopes h))" "\<forall>s \<in> set (mh_scopes h). ls_id s < n"
  shows "n \<le> n' \<and> distinct (map ls_id ss) \<and> distinct (map ls_key ss)
    \<and> (\<forall>s \<in> set ss. ls_key s \<notin> set seen \<and> ls_key s \<in> mountKey ` set ms \<and> ls_id s < n'
        \<and> (s \<in> set (mh_scopes h) \<or> (n \<le> ls_id s \<and> ls_token s = mh_sessionToken h \<and> (\<exists>m \<in> set ms. s = newScope env h (ls_id s) m))))"
  using assms
proof (induction env h seen n ms arbitrary: ss rule: buildScopes.induct)
  case (2 env h seen n m ms)
  let ?key = "mountKey m"
  let ?found = "map_of (rev (map (\<lambda>s. (ls_key s, s)) (mh_scopes h))) ?key"
  have inj: "s = t" if "s \<in> set (mh_scopes h)" "t \<in> set (mh_scopes h)" "ls_id s = ls_id t" for s t
    using that "2.prems"(2) by (auto simp: distinct_map dest: inj_onD)
  consider "?key \<in> set seen" | s where "?key \<notin> set seen" "?found = Some s" | "?key \<notin> set seen" "?found = None" "mh_sessionToken h = ''''"
    | "?key \<notin> set seen" "?found = None" "mh_sessionToken h \<noteq> ''''"
    by (cases ?found) auto
  then show ?case
  proof cases
    case 1
    with "2.prems" "2.IH"(1) [OF refl 1] show ?thesis by (fastforce simp: Let_def)
  next
    case 3
    with "2.prems" "2.IH"(2) [OF refl 3] show ?thesis by (fastforce simp: Let_def)
  next
    case (2 s)
    then have s: "s \<in> set (mh_scopes h)" "ls_key s = ?key"
      by (auto dest!: map_of_SomeD)
    from 2 "2.prems"(1) obtain rest where rest: "buildScopes env h (?key # seen) n ms = Some (rest, n')" "ss = s # rest"
      by (auto simp: Let_def)
    note IH = "2.IH"(4) [OF refl 2 rest(1) "2.prems"(2,3)]
    have "ls_id t \<noteq> ls_id s" if "t \<in> set rest" for t
    proof -
      from IH that have "t \<in> set (mh_scopes h) \<or> n \<le> ls_id t" "ls_key t \<noteq> ?key" by auto
      with s inj [of t s] "2.prems"(3) show ?thesis by (metis not_less)
    qed
    then have "ls_id s \<notin> ls_id ` set rest" by force
    moreover have "ls_id s < n'"
      using s(1) "2.prems"(3) IH by force
    ultimately show ?thesis
      using IH s rest(2) 2(1) by (auto simp: image_iff)
  next
    case 4
    with "2.prems"(1) obtain rest where rest: "buildScopes env h (?key # seen) (n + 1) ms = Some (rest, n')" "ss = newScope env h n m # rest"
      by (auto simp: Let_def split: if_splits)
    have "\<not> he_insecure env"
      using 4 "2.prems"(1) by (auto simp: Let_def split: if_splits)
    note IH = "2.IH"(3) [OF refl 4 this rest(1) "2.prems"(2)]
    have le: "\<forall>s \<in> set (mh_scopes h). ls_id s < n + 1"
      using "2.prems"(3) by auto
    have "ls_id t \<noteq> n" if "t \<in> set rest" for t
      using IH [OF le] that "2.prems"(3) by (metis Suc_eq_plus1 less_irrefl not_less_eq_eq order_refl)
    then have "n \<notin> ls_id ` set rest" by force
    then show ?thesis
      using IH [OF le] rest(2) 4(1) by (auto simp: image_iff)
  qed
qed simp

text \<open>A poll keeps the mount of its scope.\<close>

lemma scopePoll_mount: "scopePoll rt contact full sh = (r, rt', sh') \<Longrightarrow> rt_mount rt' = rt_mount rt"
  by (auto simp: scopePoll_def leaveMount_def resetHeld_def split: prod.splits sum.splits)

lemma outcome_mount:
  "rt_mount (sc_runtime (fst (pollFailed sc e))) = rt_mount (sc_runtime sc)" "rt_mount (sc_runtime (fst (pollGone sc))) = rt_mount (sc_runtime sc)"
  "rt_mount (sc_runtime (fst (pollSettled sc full))) = rt_mount (sc_runtime sc)" "sc_runtime (afterMeanwhile mw sc) = sc_runtime sc"
  by (simp_all add: pollFailed_def pollGone_def pollSettled_def afterMeanwhile_def Let_def)

lemma reconcileMountScope_mount:
  "rt_mount (sc_runtime (fst (fst (reconcileMountScope mw sc sh)))) = rt_mount (sc_runtime sc)"
proof (cases "sc_state sc \<in> {Detached, Unmounting, MFailed, LocalGone}")
  case False
  let ?contact = "sc_state sc = Mounting \<or> sc_state sc = Offline"
  obtain r rt sh1 where poll: "scopePoll (sc_runtime sc) ?contact (?contact \<or> sc_forceFull sc) sh = (r, rt, sh1)"
    by (cases "scopePoll (sc_runtime sc) ?contact (?contact \<or> sc_forceFull sc) sh") auto
  show ?thesis
    unfolding reconcileMountScope_def Let_def poll if_not_P [OF False] using scopePoll_mount [OF poll]
    by (simp add: outcome_mount split: sum.split prod.split)
qed (simp add: reconcileMountScope_def)

lemma startScope_mount [simp]: "sc_runtime (startScope sc) = sc_runtime sc"
  by (simp add: startScope_def)

subsubsection \<open>Updates that keep it\<close>

lemma onScope_fields [simp]:
  "mh_stateStore (onScope i f h) = mh_stateStore h" "mh_mounts (onScope i f h) = mh_mounts h" "mh_fresh (onScope i f h) = mh_fresh h"
  "mh_pass (onScope i f h) = mh_pass h" "mh_unloading (onScope i f h) = mh_unloading h" "mh_pending (onScope i f h) = mh_pending h"
  by (simp_all add: onScope_def)

text \<open>What the invariant sees of a scope.\<close>

definition faceOf :: "'w live_scope \<Rightarrow> nat \<times> mount \<times> string" where
  "faceOf s = (ls_id s, ls_mount s, ls_token s)"

lemma faces_scopesOk: "scopesOk ms ss n token \<longleftrightarrow>
   distinct (map fst (map faceOf ss)) \<and> distinct (map (\<lambda>(_, m, _). mountKey m) (map faceOf ss))
   \<and> list_all (\<lambda>(i, m, t). i < n \<and> mountKey m \<in> mountKey ` set ms \<and> t = token) (map faceOf ss)"
  by (simp add: scopesOk_def faceOf_def comp_def list_all_iff)

lemma pollOk_simps [simp]:
  "pollOk NoPass n ss" "pollOk PassWaiting n ss" "pollOk (PassAt todo) n ss"
  "pollOk (PassPolling i sc mw todo) n ss \<longleftrightarrow> i < n \<and> (\<forall>s \<in> set ss. ls_id s = i \<longrightarrow> ls_mount s = rt_mount (sc_runtime sc))"
  by (simp_all add: pollOk_def)

lemma faces_pollOk: "map faceOf ss = map faceOf ss' \<Longrightarrow> pollOk p n ss = pollOk p n ss'"
proof -
  assume same: "map faceOf ss = map faceOf ss'"
  have "(\<forall>s \<in> set ts. ls_id s = i \<longrightarrow> ls_mount s = m) \<longleftrightarrow> list_all (\<lambda>(j, m', _). j = i \<longrightarrow> m' = m) (map faceOf ts)"
    for ts :: "'a live_scope list" and i m
    by (simp add: faceOf_def list_all_iff)
  then show ?thesis
    using same by (cases p) simp_all
qed

lemma faces_hasScope: "hasScope j h \<longleftrightarrow> j \<in> set (map fst (map faceOf (mh_scopes h)))"
  by (simp add: hasScope_def faceOf_def image_comp comp_def)

lemma hubOk_faces: "hubOk h \<Longrightarrow> map faceOf ss = map faceOf (mh_scopes h) \<Longrightarrow> hubOk (h\<lparr>mh_scopes := ss\<rparr>)"
  using faces_pollOk [of ss "mh_scopes h"] unfolding hubOk_def faces_scopesOk by simp

lemma hubOk_onScope:
  assumes "hubOk h" "\<And>s. s \<in> set (mh_scopes h) \<Longrightarrow> ls_id s = i \<Longrightarrow> faceOf (f s) = faceOf s"
  shows "hubOk (onScope i f h)" "hasScope j (onScope i f h) = hasScope j h"
proof -
  have same: "map faceOf (map (\<lambda>s. if ls_id s = i then f s else s) (mh_scopes h)) = map faceOf (mh_scopes h)"
    using assms(2) by auto
  then show "hubOk (onScope i f h)"
    unfolding onScope_def by (rule hubOk_faces [OF assms(1)])
  show "hasScope j (onScope i f h) = hasScope j h"
    using same unfolding faces_hasScope by (simp add: onScope_def del: map_map)
qed

lemma hubOk_hook:
  assumes "hubOk h" "hasScope i h \<Longrightarrow> mountKey (rt_mount (sc_runtime sc)) \<in> mountKey ` set (mh_mounts h)"
  shows "hubOk (applyHook now i sc k h) \<and> mh_mounts (applyHook now i sc k h) = mh_mounts h
    \<and> (\<forall>j. hasScope j (applyHook now i sc k h) = hasScope j h)"
proof (cases "hasScope i h")
  case True
  note key = assms(2) [OF True]
  show ?thesis
  proof (cases k)
    case (HookEvent st)
    define h1 where "h1 = onScope i (\<lambda>s. s\<lparr>ls_failedAt := (if st = MFailed then (case ls_failedAt s of None \<Rightarrow> Some now | t \<Rightarrow> t) else None)\<rparr>) h"
    have "hubOk h1" and has: "\<And>j. hasScope j h1 = hasScope j h"
      unfolding h1_def by (rule hubOk_onScope [OF assms(1)]; simp add: faceOf_def)+
    then show ?thesis
      using key True assms(1) unfolding HookEvent applyHook.simps h1_def [symmetric]
      by (simp add: hubOk_def hasScope_def h1_def)
  next
    case (HookRoEdits ps authoritative)
    show ?thesis
      unfolding HookRoEdits applyHook.simps if_P [OF True] setRoMountEdits_def Let_def
      using key assms(1) by (simp add: hubOk_def hasScope_def keysOk_putHeld cong: if_cong)
  qed (use True key assms(1) in \<open>simp_all add: hubOk_def hasScope_def setPendingBulk_def setPendingBulkPush_def keysOk_putHeld\<close>)
qed (use assms(1) in \<open>cases k; simp\<close>)

lemma hubOk_hooks:
  assumes "hubOk h" "hasScope i h \<Longrightarrow> mountKey (rt_mount (sc_runtime sc)) \<in> mountKey ` set (mh_mounts h)"
  shows "hubOk (fold (applyHook now i sc) ks h)"
  using assms
proof (induction ks arbitrary: h)
  case (Cons k ks)
  show ?case
    using hubOk_hook [OF Cons.prems, where now = now and k = k] Cons.prems(2) by (auto intro: Cons.IH)
qed simp

subsubsection \<open>The steps keep it\<close>

lemma hubOk_request: "hubOk h \<Longrightarrow> hubOk (reconcileMounts h)"
  by (auto simp: reconcileMounts_def hubOk_def requestOk_def)

lemma hubOk_passEnds: "hubOk h \<Longrightarrow> hubOk (passEnds h)"
  by (auto simp: passEnds_def Let_def hubOk_def requestOk_def reconcileMounts_def)

lemma hubOk_fewer_scopes: "hubOk h \<Longrightarrow> hubOk (h\<lparr>mh_scopes := filter P (mh_scopes h)\<rparr>)"
  by (cases "mh_pass h") (auto simp: hubOk_def scopesOk_def distinct_map_filter)

lemma hubOk_no_scopes: "hubOk h \<Longrightarrow> hubOk (h\<lparr>mh_scopes := []\<rparr>)"
  using hubOk_fewer_scopes [of h "\<lambda>_. False"] by simp

lemma hubOk_close: "hubOk h \<Longrightarrow> hubOk (closeMountSockets h)"
  by (simp add: closeMountSockets_def hubOk_def)

lemma hubOk_invalidate: "hubOk h \<Longrightarrow> hubOk (invalidateSelfReferentialMountBases owner v h)"
  using keysOk_fewer [of "mh_mounts h" "mh_stateStore h" "mh_stateStore (invalidateSelfReferentialMountBases owner v h)"]
    invalidate_store [of owner v h]
  by (auto simp: hubOk_def invalidateSelfReferentialMountBases_def)

lemma validMounts_subset: "set (validMounts nfc ms) \<subseteq> set ms"
proof -
  have "set (foldl (admit nfc) ok ms) \<subseteq> set ok \<union> set ms" for ok
  proof (induction ms arbitrary: ok)
    case (Cons m ms)
    have "set (admit nfc ok m) \<subseteq> insert m (set ok)"
      by (auto simp: admit_def)
    then show ?case
      using Cons.IH [of "admit nfc ok m"] by auto
  qed simp
  then show ?thesis
    unfolding validMounts_def by fastforce
qed

lemma activeMounts_subset: "set (activeMounts nfc h) \<subseteq> set (mh_mounts h)"
  using validMounts_subset by (auto simp: activeMounts_def)

lemma hubOk_rebuild:
  assumes "hubOk h" "rebuildMountScopes env h = (h', built)" "mh_pass h = PassWaiting"
  shows "hubOk h' \<and> mh_pass h' = mh_pass h"
proof -
  let ?h1 = "invalidateSelfReferentialMountBases (mh_vaultOwner h) (mh_vaultId h) h"
  define h2 where "h2 = (if mh_scopesToken ?h1 \<noteq> mh_sessionToken ?h1
    then (closeMountSockets (?h1\<lparr>mh_scopes := []\<rparr>))\<lparr>mh_scopesToken := mh_sessionToken ?h1\<rparr> else ?h1)"
  have "hubOk ?h1" "hubOk (closeMountSockets (?h1\<lparr>mh_scopes := []\<rparr>))"
    by (intro hubOk_close hubOk_no_scopes hubOk_invalidate assms(1))+
  then have ok2: "hubOk h2"
    by (simp add: h2_def hubOk_def scopesOk_def closeMountSockets_def)
  have frame: "mh_pass h2 = PassWaiting" "mh_mounts h2 = mh_mounts h" "mh_mounts ?h1 = mh_mounts h" "mh_scopesToken h2 = mh_sessionToken h2"
    by (simp_all add: h2_def closeMountSockets_def invalidateSelfReferentialMountBases_def assms(3))
  show ?thesis
  proof (cases "buildScopes env h2 [] (mh_fresh h2) (activeMounts (h_nfc (he_host env)) ?h1)")
    case None
    with assms(2,3) ok2 frame show ?thesis
      by (simp add: rebuildMountScopes_def Let_def flip: h2_def)
  next
    case (Some r)
    then obtain ss n where r: "r = (ss, n)" "h' = h2\<lparr>mh_scopes := ss, mh_fresh := n\<rparr>"
      using assms(2) by (cases r) (simp add: rebuildMountScopes_def Let_def flip: h2_def)
    have "\<forall>s \<in> set ss. ls_id s < n \<and> ls_key s \<in> mountKey ` set (mh_mounts h2) \<and> ls_token s = mh_scopesToken h2"
      "distinct (map ls_id ss)" "distinct (map ls_key ss)"
      using buildScopes_ok [OF Some [unfolded r(1)]] ok2 image_mono [OF activeMounts_subset [of "h_nfc (he_host env)" ?h1], of mountKey] frame
      by (auto simp: hubOk_def scopesOk_def dest: subsetD)
    then show ?thesis
      using ok2 frame assms(3) unfolding r(2) hubOk_def scopesOk_def by simp
  qed
qed

lemma retryFailed_face [simp]: "faceOf (retryFailed now s) = faceOf s"
  by (simp add: retryFailed_def faceOf_def split: option.split)

lemma hubOk_atPass: "hubOk h \<Longrightarrow> mh_pass h \<noteq> NoPass \<Longrightarrow> hubOk (h\<lparr>mh_pass := PassAt todo\<rparr>)"
  by (auto simp: hubOk_def requestOk_def)

lemma hubOk_passBegins: "hubOk h \<Longrightarrow> mh_pass h = PassWaiting \<Longrightarrow> hubOk (passBegins env now h)"
proof -
  assume h: "hubOk h" "mh_pass h = PassWaiting"
  obtain h1 built where r: "rebuildMountScopes env h = (h1, built)"
    by (cases "rebuildMountScopes env h")
  note ok = hubOk_rebuild [OF h(1) r h(2)]
  have "hubOk (h1\<lparr>mh_scopes := map (retryFailed now) (mh_scopes h1)\<rparr>)"
    by (rule hubOk_faces) (simp_all add: ok comp_def)
  then have "hubOk ((h1\<lparr>mh_scopes := map (retryFailed now) (mh_scopes h1)\<rparr>)\<lparr>mh_pass := PassAt todo\<rparr>)" for todo
    by (rule hubOk_atPass) (simp add: ok h(2))
  then show ?thesis
    using ok h(1) hubOk_passEnds hubOk_close hubOk_no_scopes by (auto simp: passBegins_def r Let_def)
qed

lemma scopeOf_Some: "scopeOf i h = Some s \<Longrightarrow> s \<in> set (mh_scopes h) \<and> ls_id s = i"
  by (auto simp: scopeOf_def find_Some_iff)

lemma scope_unique: "hubOk h \<Longrightarrow> s \<in> set (mh_scopes h) \<Longrightarrow> t \<in> set (mh_scopes h) \<Longrightarrow> ls_id s = ls_id t \<Longrightarrow> s = t"
  by (auto simp: hubOk_def scopesOk_def distinct_map dest: inj_onD)

lemma hubOk_polling:
  assumes "hubOk h" "mh_pass h \<noteq> NoPass" "i < mh_fresh h" "\<And>s. s \<in> set (mh_scopes h) \<Longrightarrow> ls_id s = i \<Longrightarrow> ls_mount s = rt_mount (sc_runtime sc)"
  shows "hubOk (h\<lparr>mh_pass := PassPolling i sc mw todo\<rparr>)"
  using assms by (auto simp: hubOk_def requestOk_def)

lemma applyHook_pass [simp]: "mh_pass (applyHook now i sc k h) = mh_pass h"
  by (cases k) (simp_all add: onScope_def setPendingBulk_def setPendingBulkPush_def setRoMountEdits_def Let_def)

lemma fold_hooks_pass [simp]: "mh_pass (fold (applyHook now i sc) ks h) = mh_pass h"
  by (induction ks arbitrary: h) simp_all

lemma applyHook_scopes: "map faceOf (mh_scopes (applyHook now i sc k h)) = map faceOf (mh_scopes h) \<and> mh_fresh (applyHook now i sc k h) = mh_fresh h"
  by (cases k) (auto simp: onScope_def setPendingBulk_def setPendingBulkPush_def setRoMountEdits_def Let_def faceOf_def)

lemma hubOk_driveNext:
  assumes "hubOk h" "mh_pass h = PassAt (i # todo)"
  shows "hubOk (driveNext now i todo h)"
proof (cases "scopeOf i h")
  case None
  then show ?thesis
    using hubOk_atPass [OF assms(1)] assms(2) by (simp add: driveNext_def)
next
  case (Some s)
  note s = scopeOf_Some [OF Some]
  let ?sc = "startScope (ls_scope s)"
  have face: "faceOf (t\<lparr>ls_scope := sc'\<rparr>) = faceOf t"
    if "t \<in> set (mh_scopes h)" "ls_id t = i" "sc_runtime sc' = sc_runtime ?sc" for t sc'
    using that s scope_unique [OF assms(1), of t s] by (simp add: faceOf_def)
  have moved: "hubOk (onScope i (\<lambda>t. t\<lparr>ls_scope := sc'\<rparr>) h)" if "sc_runtime sc' = sc_runtime ?sc" for sc'
    by (rule hubOk_onScope(1) [OF assms(1)]) (use face that in blast)
  have mount: "ls_mount t = ls_mount s"
    if "t \<in> set (mh_scopes (onScope i (\<lambda>t. t\<lparr>ls_scope := sc'\<rparr>) h))" "ls_id t = i" "sc_runtime sc' = sc_runtime ?sc" for t sc'
  proof -
    from that(1) have "t \<in> (\<lambda>u. if ls_id u = i then u\<lparr>ls_scope := sc'\<rparr> else u) ` set (mh_scopes h)"
      by (simp add: onScope_def)
    then obtain u where "t = (if ls_id u = i then u\<lparr>ls_scope := sc'\<rparr> else u)"
      by (rule imageE)
    with that(2,3) show ?thesis by (simp split: if_splits)
  qed
  have key: "ls_key s \<in> mountKey ` set (mh_mounts h)" and small: "i < mh_fresh h"
    using assms(1) s by (auto simp: hubOk_def scopesOk_def)
  define sc1 where "sc1 = ?sc\<lparr>sc_forceFull := False, sc_state := (if sc_state ?sc = Live then mountTransition Live MSyncStart else sc_state ?sc)\<rparr>"
  define h1 where "h1 = onScope i (\<lambda>t. t\<lparr>ls_scope := sc1\<rparr>) h"
  define h2 where "h2 = (if sc_state ?sc = Live then applyHook now i sc1 (HookEvent (sc_state sc1)) h1 else h1)"
  have run: "sc_runtime sc1 = sc_runtime ?sc" by (simp add: sc1_def)
  have "hubOk h1"
    unfolding h1_def by (rule moved [OF run])
  then have "hubOk h2"
    using hubOk_hook [of h1 i sc1 now "HookEvent (sc_state sc1)"] key by (simp add: h2_def h1_def run)
  moreover have "mh_pass h2 = PassAt (i # todo)" "mh_fresh h2 = mh_fresh h" "map faceOf (mh_scopes h2) = map faceOf (mh_scopes h1)"
    using applyHook_scopes [of now i sc1 "HookEvent (sc_state sc1)" h1] by (simp_all add: h2_def h1_def assms(2))
  moreover have "ls_mount t = ls_mount s" if "t \<in> set (mh_scopes h2)" "ls_id t = i" for t
  proof -
    from that have "faceOf t \<in> set (map faceOf (mh_scopes h1))"
      using calculation(4) by (metis image_eqI set_map)
    then obtain u where "u \<in> set (mh_scopes h1)" "faceOf u = faceOf t" by auto
    then show ?thesis
      using mount [OF _ _ run, of u] that unfolding h1_def by (simp add: faceOf_def)
  qed
  ultimately have "hubOk (h2\<lparr>mh_pass := PassPolling i ?sc ([], False) todo\<rparr>)"
    using small by (intro hubOk_polling) simp_all
  moreover have "hubOk ((onScope i (\<lambda>t. t\<lparr>ls_scope := ?sc\<rparr>) h)\<lparr>mh_pass := PassAt todo\<rparr>)" "hubOk (h\<lparr>mh_pass := PassAt todo\<rparr>)"
    using moved [of ?sc] assms by (auto intro!: hubOk_atPass)
  ultimately show ?thesis
    unfolding driveNext_def Some option.case Let_def sc1_def [symmetric] h1_def [symmetric] h2_def [symmetric]
    by (auto simp only: split: if_split)
qed

lemma hubOk_openSockets:
  "hubOk h \<Longrightarrow> set (map mountKey ms) \<subseteq> mountKey ` set (mh_mounts h) \<Longrightarrow> hubOk (openSockets env opens want ms h)"
proof (induction ms arbitrary: h)
  case (Cons m ms)
  then have "hubOk (h\<lparr>mh_sockets := AList.update (mountKey m) (mh_freshSocket h) (mh_sockets h), mh_freshSocket := mh_freshSocket h + 1\<rparr>)"
    by (simp add: hubOk_def)
  with Cons show ?case
    by (simp add: Let_def)
qed simp

lemma hubOk_subscriptions: "hubOk h \<Longrightarrow> hubOk (syncMountSubscriptions env opens now (activeMounts nfc h) h)"
proof -
  assume h: "hubOk h"
  have opened: "hubOk (openSockets env opens want (activeMounts nfc h) g)" if "hubOk g" "mh_mounts g = mh_mounts h" for g want
    using activeMounts_subset [of nfc h] that by (intro hubOk_openSockets) auto
  have "hubOk (h\<lparr>mh_sockets := filter P (mh_sockets h)\<rparr>)" "hubOk (h\<lparr>mh_sockets := filter P (mh_sockets h), mh_recycledAt := now\<rparr>)"
    "hubOk (h\<lparr>mh_recycledAt := now, mh_sockets := []\<rparr>)" for P
    using h keysOk_fewer [of "mh_mounts h" "mh_sockets h" "filter P (mh_sockets h)"] by (simp_all add: hubOk_def)
  then show ?thesis
    by (simp add: syncMountSubscriptions_def Let_def opened)
qed

lemma hubOk_pollEnds: "hubOk h \<Longrightarrow> mh_pass h = PassPolling i sc mw todo \<Longrightarrow> hubOk (pollEnds now sh h)"
proof -
  assume h: "hubOk h" "mh_pass h = PassPolling i sc mw todo"
  obtain sc' hooks sh' where r: "reconcileMountScope mw sc sh = ((sc', hooks), sh')"
    by (metis prod.exhaust)
  have mount: "rt_mount (sc_runtime sc') = rt_mount (sc_runtime sc)"
    using reconcileMountScope_mount [of mw sc sh] r by simp
  define h1 where "h1 = onScope i (\<lambda>s. s\<lparr>ls_scope := sc'\<rparr>) h"
  have here: "ls_mount s = rt_mount (sc_runtime sc')" if "s \<in> set (mh_scopes h)" "ls_id s = i" for s
    using h that mount by (simp add: hubOk_def)
  have ok: "hubOk h1" and has: "hasScope i h1 = hasScope i h"
    unfolding h1_def by (rule hubOk_onScope [OF h(1)]; simp add: faceOf_def here)+
  have key: "mountKey (rt_mount (sc_runtime sc')) \<in> mountKey ` set (mh_mounts h1)" if "hasScope i h1"
  proof -
    from that has obtain s where s: "s \<in> set (mh_scopes h)" "ls_id s = i" by (auto simp: hasScope_def)
    with h(1) have "ls_key s \<in> mountKey ` set (mh_mounts h)" by (auto simp: hubOk_def scopesOk_def)
    then show ?thesis by (simp add: here [OF s] h1_def)
  qed
  have "hubOk (fold (applyHook now i sc') ks h1)" for ks
    by (rule hubOk_hooks [OF ok key])
  moreover have "mh_pass h1 \<noteq> NoPass"
    by (simp add: h1_def h(2))
  ultimately have "hubOk ((fold (applyHook now i sc') ks h1)\<lparr>mh_pass := PassAt todo\<rparr>)" for ks
    by (intro hubOk_atPass) simp_all
  then show ?thesis
    by (simp add: pollEnds_def h(2) r flip: h1_def)
qed

lemma hubOk_base: "hubOk (h\<lparr>mh_base := b\<rparr>) = hubOk h" "hubOk (h\<lparr>mh_pokeTimer := t\<rparr>) = hubOk h"
  "hubOk (h\<lparr>mh_linkUp := u, mh_sessionToken := token\<rparr>) = hubOk h" "hubOk (h\<lparr>mh_vaultOwner := w, mh_vaultId := v\<rparr>) = hubOk h"
  by (simp_all add: hubOk_def)

lemma hubOk_meanwhile: "hubOk h \<Longrightarrow> hubOk (meanwhileFor i f h)"
  by (cases "mh_pass h") (auto simp: meanwhileFor_def hubOk_def requestOk_def)

lemma meanwhileFor_fields [simp]:
  "mh_mounts (meanwhileFor i f h) = mh_mounts h" "mh_scopes (meanwhileFor i f h) = mh_scopes h"
  by (simp_all add: meanwhileFor_def split: mount_pass.split)

lemma hubOk_clearRo: "hubOk h \<Longrightarrow> hubOk (clearRoMountEdits k h)"
  by (simp add: clearRoMountEdits_def hubOk_def keysOk_delete)

lemma hubOk_dropScopes: "hubOk h \<Longrightarrow> hubOk (dropScopes k h)"
  unfolding dropScopes_def by (rule hubOk_fewer_scopes)

lemma hubOk_remove: "hubOk h \<Longrightarrow> hubOk (removeMount nfc m h)"
proof -
  assume h: "hubOk h"
  define h1 where "h1 = (case find (\<lambda>s. ls_key s = mountKey m) (mh_scopes h) of None \<Rightarrow> h
    | Some live \<Rightarrow> meanwhileFor (ls_id live) (\<lambda>(es, full). (es @ [MUnmount], full)) h)"
  have "hubOk h1"
    using h hubOk_meanwhile by (auto simp: h1_def split: option.split)
  then have "hubOk (dropScopes (mountKey m) h1)"
    by (rule hubOk_dropScopes)
  moreover from this have "scopesOk (filter (\<lambda>x. mountKey x \<noteq> mountKey m) (mh_mounts h1)) (mh_scopes (dropScopes (mountKey m) h1))
      (mh_fresh h1) (mh_scopesToken h1)"
    by (auto simp: hubOk_def scopesOk_def dropScopes_def)
  ultimately show ?thesis
    unfolding removeMount_def Let_def h1_def [symmetric]
    by (simp add: hubOk_def clearRoMountEdits_def forgetPrimaryBaseUnder_def dropScopes_def keysOk_deleted)
qed

lemma hubOk_redirect: "hubOk h \<Longrightarrow> hubOk (updateMountDirection m dir h)"
proof -
  assume h: "hubOk h"
  let ?f = "\<lambda>x. if mountKey x = mountKey m then x\<lparr>mt_direction := dir\<rparr> else x"
  have "mountKey (?f x) = mountKey x" for x
    by (simp add: mountKey_def)
  then have "map mountKey (map ?f (mh_mounts h)) = map mountKey (mh_mounts h)"
    by simp
  then have "mountKey ` set (map ?f (mh_mounts h)) = mountKey ` set (mh_mounts h)"
    by (metis set_map)
  with h have "hubOk (h\<lparr>mh_mounts := map ?f (mh_mounts h)\<rparr>)"
    by (simp add: hubOk_def scopesOk_def keysOk_def del: set_map)
  then show ?thesis
    unfolding updateMountDirection_def Let_def by (intro hubOk_request hubOk_clearRo hubOk_dropScopes)
qed

lemma hubOk_reinstate: "hubOk h \<Longrightarrow> hubOk (reinstateMount m h)"
proof -
  assume "hubOk h"
  then have "hubOk (dropScopes (mountKey m) (h\<lparr>mh_stateStore := AList.delete (mountKey m) (mh_stateStore h)\<rparr>))"
    by (intro hubOk_dropScopes) (simp add: hubOk_def keysOk_delete)
  then show ?thesis
    unfolding reinstateMount_def Let_def by (intro hubOk_request hubOk_clearRo) (simp add: hubOk_def keysOk_delete)
qed

lemma hubOk_forceFull: "hubOk h \<Longrightarrow> hubOk (forceFull k h)"
proof -
  assume h: "hubOk h"
  have "hubOk (onScope i (\<lambda>s. s\<lparr>ls_scope := (ls_scope s)\<lparr>sc_forceFull := True\<rparr>\<rparr>) h)" for i
    by (rule hubOk_onScope(1) [OF h]) (simp add: faceOf_def)
  with h show ?thesis
    by (simp add: forceFull_def hubOk_meanwhile split: option.split)
qed

lemma hubOk_add: "hubOk h \<Longrightarrow> hubOk (addMount nfc m h)"
proof -
  assume "hubOk h"
  then have "hubOk (h\<lparr>mh_mounts := mh_mounts h @ [m]\<rparr>)"
    by (auto simp: hubOk_def scopesOk_def keysOk_def)
  then show ?thesis
    by (simp add: addMount_def forgetPrimaryBaseUnder_def hubOk_request hubOk_base)
qed

lemma hubOk_step: "hub_step env h h' \<Longrightarrow> hubOk h \<Longrightarrow> hubOk h'"
proof (induction rule: hub_step.induct)
  case (NextScope h todo opens now)
  then show ?case
    by (cases todo) (simp_all add: passNext_def hubOk_driveNext hubOk_passEnds hubOk_subscriptions)
next
  case (Nudge h ownWrite p)
  then show ?case
    by (simp add: nudgeMountForLocalPath_def hubOk_request hubOk_forceFull split: option.split)
next
  case (SocketGone h key ws)
  then show ?case
    by (simp add: socketDropped_def hubOk_def keysOk_delete)
next
  case (PokeFires h)
  then show ?case
    by (simp add: pokeTimerFires_def Let_def hubOk_request hubOk_base)
qed (simp_all add: hubOk_request hubOk_passBegins hubOk_pollEnds hubOk_add hubOk_remove hubOk_redirect hubOk_reinstate hubOk_base
    pokeMounts_def mountTeardown_def hubOk_close hubOk_no_scopes, auto simp: hubOk_def requestOk_def)

lemma hubOk_reach: "hub_reach env h0 h \<Longrightarrow> hubOk h0 \<Longrightarrow> hubOk h"
  by (induction rule: hub_reach.induct) (auto intro: hubOk_step)

text \<open>A plugin that has just loaded: no session, no scopes, nothing under way.\<close>

definition freshHub :: "mount list \<Rightarrow> string \<Rightarrow> string \<Rightarrow> base_store \<Rightarrow> 'w mount_hub" where
  "freshHub ms owner vaultId b =
     \<lparr>mh_mounts = ms, mh_vaultOwner = owner, mh_vaultId = vaultId, mh_sessionToken = '''', mh_scopesToken = '''', mh_scopes = [],
      mh_fresh = 0, mh_stateStore = [], mh_sockets = [], mh_freshSocket = 0, mh_pokeTimer = False, mh_recycledAt = 0,
      mh_heldDeletes = [], mh_heldPushes = [], mh_roEdits = [], mh_roNoticed = [], mh_base = b, mh_unloading = False,
      mh_linkUp = False, mh_reconciling = False, mh_pending = False, mh_pass = NoPass\<rparr>"

lemma hubOk_load: "hubOk (loadMountState stored (freshHub ms owner vaultId b))"
  unfolding loadMountState_def
  by (rule hubOk_invalidate) (auto simp: hubOk_def freshHub_def scopesOk_def keysOk_def requestOk_def)

text \<open>A request that waits for the running pass is not lost by any step.\<close>

definition flags :: "'w mount_hub \<Rightarrow> bool \<times> bool" where
  "flags h = (mh_pending h, mh_unloading h)"

lemma flags_hooks: "flags (fold (applyHook now i sc) ks h) = flags h"
proof (induction ks arbitrary: h)
  case (Cons k ks)
  have "flags (applyHook now i sc k h) = flags h"
    by (cases k) (simp_all add: flags_def onScope_def setPendingBulk_def setPendingBulkPush_def setRoMountEdits_def Let_def)
  with Cons show ?case by simp
qed simp

lemma flags_open: "flags (openSockets env opens want ms h) = flags h"
  by (induction ms arbitrary: h) (simp_all add: Let_def flags_def)

lemma flags_subscriptions: "flags (syncMountSubscriptions env opens now ms h) = flags h"
  by (simp add: syncMountSubscriptions_def Let_def flags_open) (simp add: flags_def)

lemma flags_rebuild: "rebuildMountScopes env h = (h', built) \<Longrightarrow> flags h' = flags h"
  by (auto simp: rebuildMountScopes_def Let_def flags_def closeMountSockets_def invalidateSelfReferentialMountBases_def
      split: option.splits if_splits)

lemma flags_drive: "flags (driveNext now i todo h) = flags h"
  using flags_hooks [of now i _ "[_]"] by (simp add: driveNext_def Let_def flags_def split: option.split)

lemma flags_users:
  "flags (removeMount nfc m h) = flags h" "flags (forceFull k h) = flags h" "flags (socketDropped k ws h) = flags h"
  "flags (pokeMounts h) = flags h" "flags (mountTeardown h) = flags h" "flags (clearRoMountEdits k h) = flags h"
  "flags (dropScopes k h) = flags h" "flags (forgetPrimaryBaseUnder nfc m h) = flags h"
  by (simp_all add: removeMount_def Let_def forceFull_def socketDropped_def pokeMounts_def mountTeardown_def closeMountSockets_def
      flags_def clearRoMountEdits_def dropScopes_def forgetPrimaryBaseUnder_def meanwhileFor_def onScope_def
      split: option.split mount_pass.split)

lemma request_kept:
  assumes "hub_step env h h'" "mh_pending h" "\<not> mh_unloading h'"
  shows "mh_pending h' \<or> mh_pass h' = PassWaiting"
proof -
  have ends: "mh_pass (passEnds g) = PassWaiting" if "fst (flags g)" "\<not> snd (flags g)" for g :: "'a mount_hub"
    using that by (simp add: passEnds_def reconcileMounts_def flags_def)
  have unl: "mh_unloading (passEnds g) = mh_unloading g" for g :: "'a mount_hub"
    by (simp add: passEnds_def reconcileMounts_def Let_def)
  have req: "flags (reconcileMounts g) = (mh_pending g \<or> mh_reconciling g, mh_unloading g)" for g :: "'a mount_hub"
    by (simp add: reconcileMounts_def flags_def)
  have fl: "mh_pending g = fst (flags g)" "mh_unloading g = snd (flags g)" for g :: "'a mount_hub"
    by (simp_all add: flags_def)
  show ?thesis
    using assms
  proof (induction rule: hub_step.induct)
    case (Begins h now)
    obtain h1 built where r: "rebuildMountScopes env h = (h1, built)"
      by (cases "rebuildMountScopes env h")
    have "flags (closeMountSockets (h\<lparr>mh_scopes := []\<rparr>)) = flags h"
      by (simp add: closeMountSockets_def flags_def)
    then have early: "\<exists>g. passBegins env now h = passEnds g \<and> flags g = flags h" if "mh_mounts h = [] \<or> \<not> built \<or> mh_scopes h1 = []"
      using that flags_rebuild [OF r] by (cases "mh_mounts h = []") (auto simp: passBegins_def r)
    show ?case
    proof (cases "mh_mounts h = [] \<or> \<not> built \<or> mh_scopes h1 = []")
      case True
      then obtain g where "passBegins env now h = passEnds g" "flags g = flags h"
        using early by blast
      with Begins.prems show ?thesis
        using ends [of g] unl [of g] by (simp add: fl)
    next
      case False
      with flags_rebuild [OF r] Begins.prems show ?thesis
        by (simp add: passBegins_def r Let_def flags_def)
    qed
  next
    case (NextScope h todo opens now)
    let ?g = "syncMountSubscriptions env opens now (activeMounts (h_nfc (he_host env)) h) h"
    have "flags ?g = flags h" by (rule flags_subscriptions)
    with NextScope show ?case
      using ends [of ?g] unl [of ?g] flags_drive [of now "hd todo" "tl todo" h] by (cases todo) (auto simp: passNext_def fl)
  next
    case (PollReturns h i sc mw todo now sh)
    have "flags (g\<lparr>mh_pass := p\<rparr>) = flags g" "flags (onScope i f g) = flags g" for f p and g :: "'a mount_hub"
      by (simp_all add: flags_def)
    then have "flags (pollEnds now sh h) = flags h"
      by (simp add: pollEnds_def PollReturns.hyps flags_hooks split: prod.split)
    with PollReturns show ?case by (simp add: fl)
  next
    case (PokeFires h)
    then show ?case by (auto simp: pokeTimerFires_def Let_def reconcileMounts_def)
  next
    case (Nudge h ownWrite p)
    then show ?case
      by (auto simp: nudgeMountForLocalPath_def fl req flags_users split: option.split)
  qed (simp_all add: fl req flags_users addMount_def updateMountDirection_def reinstateMount_def Let_def, simp_all add: flags_def dropScopes_def)
qed


subsection \<open>The scopes are those of the mounts in effect\<close>

lemma mountKey_point: "mountKey m = mountKey m' \<longleftrightarrow> mt_source m = mt_source m' \<and> mt_mountPoint m = mt_mountPoint m'"
  by (auto simp: mountKey_def jsonStrArray_inj intro: mount_source.equality)

lemma claimsLocal_point: "mt_mountPoint m = mt_mountPoint m' \<Longrightarrow> claimsLocal nfc m p = claimsLocal nfc m' p"
  by (simp add: claimsLocal_def)

lemma overlapping_same: "mt_mountPoint m = mt_mountPoint m' \<Longrightarrow> overlapping nfc m m'"
  by (auto simp: overlapping_def underOrEqual_def Let_def list_all_iff set_zip)

lemma active_disjoint: "sorted_wrt (\<lambda>a b. \<not> overlapping nfc a b) (activeMounts nfc h)"
  using validMounts_composable [of nfc "mh_mounts h"] by (simp add: activeMounts_def composable_def sorted_wrt_filter)

lemma active_keys_distinct: "distinct (map mountKey (activeMounts nfc h))"
proof -
  have "sorted_wrt (\<lambda>a b. mountKey a \<noteq> mountKey b) (activeMounts nfc h)"
    by (rule sorted_wrt_mono_rel [OF _ active_disjoint]) (auto simp: mountKey_point intro: overlapping_same)
  then show ?thesis
    unfolding distinct_conv_nth sorted_wrt_iff_nth_less by (metis length_map nat_neq_iff nth_map)
qed

lemma buildScopes_keys:
  assumes "buildScopes env h seen n ms = Some (ss, n')" "mh_sessionToken h \<noteq> ''''" "distinct (map mountKey ms)"
    "set (map mountKey ms) \<inter> set seen = {}"
  shows "map ls_key ss = map mountKey ms"
  using assms
proof (induction env h seen n ms arbitrary: ss rule: buildScopes.induct)
  case (2 env h seen n m ms)
  let ?found = "map_of (rev (map (\<lambda>s. (ls_key s, s)) (mh_scopes h))) (mountKey m)"
  have new: "mountKey m \<notin> set seen" using "2.prems"(4) by simp
  show ?case
  proof (cases ?found)
    case None
    have "\<not> he_insecure env"
      using None "2.prems"(1,2) new by (auto simp: Let_def)
    with None "2.prems" new "2.IH"(3) [OF refl new None "2.prems"(2) this] show ?thesis
      by (auto simp: Let_def)
  next
    case (Some s)
    then have "ls_key s = mountKey m" by (auto dest!: map_of_SomeD)
    with Some "2.prems" new "2.IH"(4) [OF refl new Some] show ?thesis
      by (auto simp: Let_def)
  qed
qed simp

lemma claims_of_keys:
  "map ls_key ss = map mountKey ms \<Longrightarrow>
   length (filter (\<lambda>s. claimsLocal nfc (ls_mount s) p) ss) = length (filter (\<lambda>m. claimsLocal nfc m p) ms)"
proof (induction ss arbitrary: ms)
  case (Cons s ss)
  then obtain m ms' where ms: "ms = m # ms'" "ls_key s = mountKey m" "map ls_key ss = map mountKey ms'"
    by (cases ms) auto
  then have "claimsLocal nfc (ls_mount s) p = claimsLocal nfc m p"
    by (intro claimsLocal_point) (simp add: mountKey_point)
  with ms Cons.IH [of ms'] show ?case by simp
qed simp

lemma active_claims:
  "length (filter (\<lambda>m. claimsLocal nfc m p) (activeMounts nfc h)) = (if primaryExcludes nfc (activeMounts nfc h) p then 1 else 0)"
  using claims_unique [OF active_disjoint [of nfc h], of p]
  by (auto simp: primaryExcludes_def list_ex_iff le_Suc_eq filter_empty_conv)

lemma newScope_restored:
  "sc_state (ls_scope (newScope env h n m)) = Detached
   \<and> (case map_of (mh_stateStore h) (mountKey m) of
        None \<Rightarrow> base_paths (rt_base (sc_runtime (ls_scope (newScope env h n m)))) = [] \<and> rt_version (sc_runtime (ls_scope (newScope env h n m))) = 0
      | Some r \<Rightarrow> base_paths (rt_base (sc_runtime (ls_scope (newScope env h n m)))) = map fst (mp_base r)
          \<and> rt_version (sc_runtime (ls_scope (newScope env h n m))) = mp_version r
          \<and> rt_histFloor (sc_runtime (ls_scope (newScope env h n m))) = mp_historyFloor r)"
  by (auto simp: newScope_def newRuntime_def scopeCtx_def baseStore_def base_paths_def comp_def split_beta split: option.split)

text \<open>
  (C33) The scopes and the primary vault share no file and leave none out. Once the scopes are rebuilt with a session, there is
  exactly one per mount in effect, in order; a local path lies in the folder of exactly one scope if the primary vault
  leaves it out and of none if not. A scope that was there keeps its state, and a new one is detached, with the base, the cursor
  and the history floor that were stored for its mount. No scope mounts the vault that is the primary one, and nothing is
  stored for such a mount any more. All scopes use the current token.
\<close>
theorem scopes_complement_primary:
  assumes "hub_reach env (loadMountState stored (freshHub ms owner vaultId b)) h" "mh_pass h = PassWaiting"
    and "rebuildMountScopes env h = (h', True)" "mh_sessionToken h \<noteq> ''''"
  shows "map ls_key (mh_scopes h') = map mountKey (activeMounts (h_nfc (he_host env)) h')
    \<and> (\<forall>p. length (filter (\<lambda>s. claimsLocal (h_nfc (he_host env)) (ls_mount s) p) (mh_scopes h'))
          = (if primaryExcludes (h_nfc (he_host env)) (activeMounts (h_nfc (he_host env)) h') p then 1 else 0))
    \<and> (\<forall>s \<in> set (mh_scopes h'). s \<in> set (mh_scopes h)
          \<or> (sc_state (ls_scope s) = Detached
             \<and> (case map_of (mh_stateStore h') (ls_key s) of
                  None \<Rightarrow> base_paths (rt_base (sc_runtime (ls_scope s))) = [] \<and> rt_version (sc_runtime (ls_scope s)) = 0
                | Some r \<Rightarrow> base_paths (rt_base (sc_runtime (ls_scope s))) = map fst (mp_base r)
                    \<and> rt_version (sc_runtime (ls_scope s)) = mp_version r \<and> rt_histFloor (sc_runtime (ls_scope s)) = mp_historyFloor r)))
    \<and> (\<forall>m \<in> set (mh_mounts h'). selfReferential (mh_vaultOwner h') (mh_vaultId h') m \<longrightarrow>
          mountKey m \<notin> fst ` set (mh_stateStore h') \<and> mountKey m \<notin> ls_key ` set (mh_scopes h'))
    \<and> (\<forall>s \<in> set (mh_scopes h'). ls_token s = mh_sessionToken h')"
proof -
  let ?nfc = "h_nfc (he_host env)"
  let ?h1 = "invalidateSelfReferentialMountBases (mh_vaultOwner h) (mh_vaultId h) h"
  define h2 where "h2 = (if mh_scopesToken ?h1 \<noteq> mh_sessionToken ?h1
    then (closeMountSockets (?h1\<lparr>mh_scopes := []\<rparr>))\<lparr>mh_scopesToken := mh_sessionToken ?h1\<rparr> else ?h1)"
  have ok: "hubOk h"
    by (rule hubOk_reach [OF assms(1) hubOk_load])
  obtain ss n where built: "buildScopes env h2 [] (mh_fresh h2) (activeMounts ?nfc ?h1) = Some (ss, n)"
    and h': "h' = h2\<lparr>mh_scopes := ss, mh_fresh := n\<rparr>"
    using assms(3) by (auto simp: rebuildMountScopes_def Let_def split: option.splits simp flip: h2_def)
  have frame: "mh_mounts h2 = mh_mounts h" "mh_vaultOwner h2 = mh_vaultOwner h" "mh_vaultId h2 = mh_vaultId h"
    "mh_sessionToken h2 = mh_sessionToken h" "mh_stateStore h2 = mh_stateStore ?h1" "set (mh_scopes h2) \<subseteq> set (mh_scopes h)"
    "mh_scopesToken h2 = mh_sessionToken h2" "mh_fresh h2 = mh_fresh h" "distinct (map ls_id (mh_scopes h2))"
    using ok by (auto simp: h2_def closeMountSockets_def invalidateSelfReferentialMountBases_def hubOk_def scopesOk_def)
  have active: "activeMounts ?nfc h' = activeMounts ?nfc ?h1"
    by (simp add: h' activeMounts_def frame) (simp add: invalidateSelfReferentialMountBases_def)
  have keys: "map ls_key ss = map mountKey (activeMounts ?nfc ?h1)"
    by (rule buildScopes_keys [OF built]) (use assms(4) frame active_keys_distinct in auto)
  have claims: "length (filter (\<lambda>s. claimsLocal ?nfc (ls_mount s) p) ss) = (if primaryExcludes ?nfc (activeMounts ?nfc ?h1) p then 1 else 0)" for p
    by (simp only: claims_of_keys [OF keys] active_claims)
  have old_new: "s \<in> set (mh_scopes h2) \<or> (\<exists>k. \<exists>m \<in> set (activeMounts ?nfc ?h1). s = newScope env h2 k m)" if "s \<in> set ss" for s
    using buildScopes_ok [OF built] that ok frame by (auto simp: hubOk_def scopesOk_def) blast
  have fresh: "s \<in> set (mh_scopes h) \<or> (sc_state (ls_scope s) = Detached
       \<and> (case map_of (mh_stateStore h') (ls_key s) of
            None \<Rightarrow> base_paths (rt_base (sc_runtime (ls_scope s))) = [] \<and> rt_version (sc_runtime (ls_scope s)) = 0
          | Some r \<Rightarrow> base_paths (rt_base (sc_runtime (ls_scope s))) = map fst (mp_base r)
              \<and> rt_version (sc_runtime (ls_scope s)) = mp_version r \<and> rt_histFloor (sc_runtime (ls_scope s)) = mp_historyFloor r))"
    if "s \<in> set ss" for s
    using old_new [OF that]
  proof
    assume "\<exists>k. \<exists>m \<in> set (activeMounts ?nfc ?h1). s = newScope env h2 k m"
    then obtain k m where s: "s = newScope env h2 k m" by blast
    show ?thesis
      unfolding s using newScope_restored [of env h2 k m] by (simp add: h')
  qed (use frame(6) in blast)
  have self: "mountKey m \<notin> fst ` set (mh_stateStore h') \<and> mountKey m \<notin> ls_key ` set ss"
    if "m \<in> set (mh_mounts h')" "selfReferential (mh_vaultOwner h') (mh_vaultId h') m" for m
  proof
    show "mountKey m \<notin> fst ` set (mh_stateStore h')"
      using that invalidate_store [of "mh_vaultOwner h" "mh_vaultId h" h] by (force simp: h' frame)
    have "mountKey m \<notin> mountKey ` set (activeMounts ?nfc ?h1)"
      using that unfolding active [symmetric] by (auto simp: activeMounts_def selfReferential_def mountKey_point)
    then show "mountKey m \<notin> ls_key ` set ss"
      by (metis keys set_map)
  qed
  have token: "ls_token s = mh_sessionToken h'" if "s \<in> set ss" for s
    using old_new [OF that] ok by (auto simp: h' h2_def hubOk_def scopesOk_def closeMountSockets_def invalidateSelfReferentialMountBases_def
        split: if_splits)
  show ?thesis
    unfolding active using keys claims fresh self token by (auto simp: h')
qed

subsection \<open>Examples and limits\<close>

definition memEnv :: "mem hub_env" where
  "memEnv =
     \<lparr>he_io = memIo, he_api = (\<lambda>_ _. memApi), he_insecure = False, he_host = sampleHost, he_nowMs = (\<lambda>_. 0),
      he_nowUtc = c_nowUtc (sampleDeps False), he_device = ''Laptop'', he_mobile = False, he_maxSyncBytes = 1000, he_ignorePatterns = [],
      he_bulkDeleteStrategy = StratCount, he_bulkDeleteThreshold = 1, he_skipForeignArtefacts = (\<lambda>_. True),
      he_sourceReadOnly = (\<lambda>_ _. False), he_pushFlipHold = (\<lambda>_ _ _ w. (False, w)), he_sourceReady = (\<lambda>_ _ w. (Inr True, w))\<rparr>"

definition workState :: "(string \<times> mount_persist) list" where
  "workState = [(mountKey workMount, \<lparr>mp_base = [], mp_version = 7, mp_historyFloor = None\<rparr>)]"

definition workHub :: "mem mount_hub" where
  "workHub = loadMountState workState (freshHub [workMount] '''' ''main'' (baseStore []))"


lemma work_valid: "validMounts (\<lambda>s. s) [workMount] = [workMount]"
  by (simp add: validMounts_def admit_def workMount_def segsOf_def inConfig_def splitOn.simps) code_simp

theorem scopes_complement_primary_witness:
  "\<exists>h'. rebuildMountScopes memEnv (reconcileMounts (workHub\<lparr>mh_linkUp := True, mh_sessionToken := ''t''\<rparr>)) = (h', True)
     \<and> map ls_key (mh_scopes h') = [mountKey workMount]"
proof -
  let ?linked = "workHub\<lparr>mh_linkUp := True, mh_sessionToken := ''t''\<rparr>"
  let ?h = "reconcileMounts ?linked"
  have "hub_reach memEnv workHub ?linked"
    by (rule hub_reach.Step [OF hub_reach.Start hub_step.LinkChanges])
  moreover have "hub_step memEnv ?linked ?h"
    by (rule hub_step.Request)
  ultimately have reach: "hub_reach memEnv workHub ?h"
    by (rule hub_reach.Step)
  have fields: "mh_mounts workHub = [workMount]" "mh_vaultOwner workHub = ''''" "mh_vaultId workHub = ''main''" "mh_scopes workHub = []"
      "mh_reconciling workHub = False"
    by (simp_all add: workHub_def loadMountState_def freshHub_def invalidateSelfReferentialMountBases_def)
  have active: "activeMounts (\<lambda>s. s) g = [workMount]" if "mh_mounts g = [workMount]" "mh_vaultOwner g = ''''" for g :: "mem mount_hub"
    using that by (simp add: activeMounts_def work_valid) (simp add: workMount_def)
  have "\<exists>h'. rebuildMountScopes memEnv ?h = (h', True) \<and> mh_mounts h' = [workMount] \<and> mh_vaultOwner h' = ''''"
    by (simp add: rebuildMountScopes_def Let_def invalidateSelfReferentialMountBases_def reconcileMounts_def fields closeMountSockets_def
        memEnv_def sampleHost_def active)
  then obtain h' where h': "rebuildMountScopes memEnv ?h = (h', True)" "mh_mounts h' = [workMount]" "mh_vaultOwner h' = ''''"
    by blast
  have "map ls_key (mh_scopes h') = map mountKey (activeMounts (h_nfc (he_host memEnv)) h')"
    using scopes_complement_primary [where env = memEnv and stored = workState and ms = "[workMount]" and owner = "[]" and vaultId = "''main''"
        and b = "baseStore []" and h = ?h and h' = h', folded workHub_def, OF reach _ h'(1)]
    by (simp add: reconcileMounts_def fields)
  then show ?thesis
    using h' active [of h'] by (simp add: memEnv_def sampleHost_def)
qed

text \<open>
  The key of a mount contains its mount point. When the mount follows a renamed folder, what is stored and held for it stays
  under the old key, and nothing is found under the new one: the mount starts from scratch, and the held deletions can
  neither be accepted nor kept any more, because no scope has their key.
\<close>

lemma rename_strands_state:
  "let h = workHub\<lparr>mh_heldDeletes := [(mountKey workMount, [''a.md''])]\<rparr>;
       h' = followMountPointRename (\<lambda>s. s) ''Work/ASI'' ''Work/B'' h;
       moved = workMount\<lparr>mt_mountPoint := ''Work/B''\<rparr>
   in mh_mounts h' = [moved] \<and> map_of (mh_stateStore h') (mountKey moved) = None
      \<and> map_of (mh_stateStore h') (mountKey workMount) \<noteq> None \<and> map fst (mh_heldDeletes h') = [mountKey workMount]
      \<and> mountKey workMount \<noteq> mountKey moved"
proof -
  have norm: "normMountFolder ''Work/ASI'' = ''Work/ASI''" "normMountFolder ''Work/B'' = ''Work/B''"
    "movedPoint ''Work/ASI'' ''Work/B'' workMount = Some ''Work/B''"
    "validateMounts (\<lambda>s. s) [workMount\<lparr>mt_mountPoint := ''Work/B''\<rparr>] = []"
    by code_simp+
  have differ: "mountKey workMount \<noteq> mountKey (workMount\<lparr>mt_mountPoint := ''Work/B''\<rparr>)"
    unfolding mountKey_point by (simp add: workMount_def)
  have hub: "workHub = (freshHub [workMount] '''' ''main'' (baseStore []))\<lparr>mh_stateStore := workState\<rparr>"
    by (simp add: workHub_def loadMountState_def invalidateSelfReferentialMountBases_def freshHub_def workState_def selfReferential_def workMount_def)
  show ?thesis
    unfolding hub using norm differ by (simp add: Let_def followMountPointRename_def freshHub_def reconcileMounts_def closeMountSockets_def workState_def)
qed

end
