(* ===== verification/Spec2Isabelle.thy ===== *)
theory Spec2Isabelle
  imports MountSafety Evidence Preserve PathSafe SyncEngine TransportFsm ResolveFsm PushPreview FlipGuard Transport Recipe ConfigWalk
    Connect EditClaims PluginGate PluginSync VaultDisk ConflictResolve Persist ConflictDialog MountScopes
begin

text \<open>
  \<^bold>\<open>SelfSync: verification of the client.\<close> SelfSync is an Obsidian plugin (\<open>client/src\<close>, TypeScript) that
  keeps a vault of notes in step with a self-hosted server and, through it, with the user's other
  devices. The development models the client's own logic and proves what keeps a vault from being
  damaged: which calls a sync pass may make, that no local content is overwritten without a trace, that
  nothing is deleted without evidence, that failures stay isolated and that the engine always comes to
  rest.

  \<^bold>\<open>Parts and theories\<close>, bottom up:

  \<^item> \<open>Prelude\<close>: the JavaScript string and list operations the code uses, with their lemmas. Note text is a
    list of UTF-16 code units, file content a list of bytes, a path a string.
  \<^item> \<open>Fsm\<close> (\<open>fsm.ts\<close>): the generic machine; the locale \<open>fsm\<close> states when a machine's table is well formed and
    is interpreted on every machine of the client: \<open>ConnState\<close> (\<open>connstate.ts\<close>), \<open>SyncEngine\<close>
    (\<open>syncengine.ts\<close>), \<open>TransportFsm\<close> (\<open>transportstate.ts\<close>), \<open>MountFsm\<close> (\<open>mountfsm.ts\<close>) and \<open>ResolveFsm\<close>
    (\<open>resolvefsm.ts\<close>). \<open>StatusLight\<close> models \<open>syncstate.ts\<close> and \<open>statuslight.ts\<close>.
  \<^item> \<open>SyncEngine\<close>: the event queue and its single pump. A handler is split at its \<open>await\<close>; a step relation
    interleaves new events, work reports and completions arbitrarily. Reachable states satisfy the
    invariant, the pump drains, jobs are never lost to a failure, and unloading is final.
  \<^item> \<open>Merge\<close> (\<open>merge.ts\<close>), \<open>PathIdentity\<close>, \<open>Base\<close>, \<open>Frontmatter\<close>, \<open>PathSafe\<close>, \<open>ExcludedFolders\<close>, \<open>ConfigSync\<close>,
    \<open>StreamHash\<close>, \<open>Chunker\<close>: the pure components, one theory per source file, with round trips, equivalence
    with reference definitions (a longest common subsequence, SHA-256 of the whole message) and bounds.
  \<^item> \<open>Decide\<close> (the pure part of \<open>reconcile.ts\<close>): the decision table, the choice of effects, the merge plan,
    bulk-delete holds, the retry budget and the cursor.
  \<^item> \<open>Effects\<close>: programs over the client's shared state and an arbitrary outside world, with exceptions and
    a log of calls, answers and callbacks; the rules that reason about logs and state predicates.
  \<^item> \<open>Sync\<close> (\<open>sync.ts\<close>), \<open>Reconcile\<close> (\<open>reconcileOne\<close> and what it calls), \<open>Passes\<close> (\<open>reconcileAll\<close>,
    \<open>reconcileDelta\<close>, \<open>reconcilePath\<close>, \<open>reconcileLocalConfig\<close>, held batches, \<open>switchTo\<close>): the effectful core,
    statement by statement.
  \<^item> \<open>PassSafety\<close>, \<open>Evidence\<close>, \<open>Preserve\<close>: the theorems about the core. The locale \<open>path_logic\<close> is the contract
    between single paths and passes: a predicate on the log that reconciling one path keeps is kept by
    every pass. It is interpreted for evidenced deletions and used for the read-only scope.
  \<^item> \<open>Mounts\<close> (\<open>mounts.ts\<close>), \<open>ForeignTools\<close> (\<open>foreigntools.ts\<close>), \<open>MountIo\<close> (\<open>mountio.ts\<close>), \<open>MountSync\<close>
    (\<open>mountengine.ts\<close>, \<open>mountsync.ts\<close>) and \<open>MountSafety\<close>: folders of other vaults mounted into this one. Paths
    are translated to both sides and back (the locale \<open>prefix_scope\<close>, interpreted for the source side), the
    mounts in effect partition the vault, the adapters confine a mount to its folder on both sides, and the
    driver contains failures, respects a teardown during a poll and never sends the deletions of a vanished
    mount folder. A poll runs the passes above on the adapters, so their theorems carry over.
  \<^item> \<open>JsonValue\<close>, \<open>Wire\<close> (\<open>protocol.ts\<close>), \<open>WireSignature\<close> (\<open>wiresignature.ts\<close>): parsed JSON values and the
    validation of all that crosses a trust boundary; the comparison of wire signatures decides exactly the
    stated notion of compatibility.
  \<^item> \<open>Links\<close> (\<open>connstr.ts\<close>, \<open>sharelink.ts\<close>, \<open>invitelink.ts\<close>), \<open>Recipe\<close> (\<open>composition-recipe.ts\<close>), \<open>Transport\<close>
    (\<open>transport.ts\<close>): links and recipes are read back as they were made and give no rights; the transport is an
    implementation of the interface that the passes call, refuses plain \<open>http\<close> to another host in every call,
    addresses what it is asked to, and reports failures with their meaning to the machine in \<open>ConnState\<close>.
  \<^item> \<open>FlipGuard\<close> (\<open>flipguard.ts\<close>), \<open>PushPreview\<close> (\<open>pushpreview.ts\<close>), \<open>ConfigWalk\<close> (\<open>configwalk.ts\<close>): the breaker of
    rewrite loops, the preview of an overwrite, and the parallel walk of the settings folder as a step relation
    that is proved equivalent to the sequential walk under every interleaving.
  \<^item> \<open>Session\<close>, \<open>Connect\<close> (\<open>main.ts\<close> with \<open>connectdecisions.ts\<close>, \<open>stall.ts\<close>, \<open>wizardsteps.ts\<close> and the actions of
    \<open>setupwizard.ts\<close>): the plugin's own state (settings, what is written to \<open>data.json\<close>, session, shown issue) and its
    actions: tokens and silent sign-in, grants, the check of the wire contract, the establishment of a session, account
    actions, the wizard, the resolution of a vault switch, a connect, polls, held deletions, the deletion history.
    \<open>session_frame\<close> and \<open>settings_policy\<close> are the contracts of the actions: a predicate that the elementary updates
    keep is kept by all of them. They are interpreted for what is stored of the password, for the device identity, for the
    verified wire hash and for the base and the files. The relation \<open>client_step\<close> runs the actions in any order.
  \<^item> \<open>EditClaims\<close> (\<open>main.ts\<close>): the claims of edits that are not synced yet, their expiry, and the light that shows them.
  \<^item> \<open>PluginGate\<close> (\<open>main.ts\<close>): when plugin code that arrived by synchronisation is run without a restart.
  \<^item> \<open>PluginSync\<close> (\<open>main.ts\<close>): the surfaces of the settings folder and the allowlist of plugins, the autopilot, which adopts
    no code of others and is split where it awaits, the forced push and pull of a plugin with its preview, the removal of
    a plugin from the server, and the queue of diverging settings files.
  \<^item> \<open>VaultDisk\<close> (\<open>main.ts\<close>): the disk adapter \<open>ObsidianVaultIo\<close> over the host's adapter and Node's file system, both
    parameters; it calls them on paths inside the vault and in scope only, and streams are whole or fail.
  \<^item> \<open>ConflictResolve\<close> (\<open>main.ts\<close>): the list of note conflicts, their resolution against a preview, the automatic sweep.
  \<^item> \<open>Persist\<close> (\<open>main.ts\<close>): the single-flight writing of \<open>data.json\<close> as a step relation over requests, timers and ends of
    writes.
  \<^item> \<open>ConflictDialog\<close> (\<open>noteconflict.ts\<close>, \<open>busygate.ts\<close>): the diff of the two versions and how it is shown, the gate of the
    buttons, and a press of a button, which runs the resolution and waits for the upload through the machine of \<open>ResolveFsm\<close>.
  \<^item> \<open>MountScopes\<close> (\<open>main.ts\<close>): the plugin's bookkeeping of the mounts. The relation \<open>hub_step\<close> interleaves the pass over the
    scopes, split where it awaits, with the actions of the user and the connection; the polls are those of \<open>MountSync\<close>. The rename
    of a mounted folder is modelled apart, because it leaves state under a stale key.
  \<^item> \<open>SampleWorld\<close>: a vault and a server in memory, on which the witnesses run.

  \<^bold>\<open>What the outside may do.\<close> The vault, the server, the clock and the user are one value of an arbitrary
  type that every call may change in any way; a call returns any result or error. The theorems about the
  core therefore hold under concurrent edits, failing disks and a server that lies, and also when a
  program throws half way. What the host computes (SHA-256 of \<open>crypto.subtle\<close>, the UTF-8 codec, Unicode
  normal forms, JSON) is a parameter; a theorem that relies on a law of it has the law as a hypothesis.

  \<^bold>\<open>Simplifications.\<close> The bounded pool \<open>mapPool\<close> is run one item after the other, so the interleavings of
  the files of one pass are not modelled; the interleavings of the passes themselves are excluded by the
  engine's single pump. Optional callbacks are always wired. Error messages use a hyphen for the dashes
  of the source. Case folding is that of the code units up to U+00FF. The settings a mount reads live are read
  once per poll, and the callbacks of the mount driver do not throw. Most loops are structural recursion or
  have a termination proof. Fuel is used in the statement of the engine's draining, where four steps per
  queued event plus four are proved to be enough; in the masking of timestamps, where the length of the text
  is proved to be enough; and in the sequential reference walk, where it is the height of the folder tree.

  \<^bold>\<open>Not modelled.\<close> The remainder of the plugin shell \<open>main.ts\<close> (registration of commands and events, notices,
  timers other than those of persistence, the web socket's callbacks), the settings tab and
  the layout of the dialogs (the host's user interface), the breadcrumb log, the wording of messages, and the server, which
  is written in Rust.
\<close>

end
